(* ===== verification/Prelude.thy ===== *)
theory Prelude
  imports Main "HOL-Library.Word"
begin

text \<open>
  Shared vocabulary of the development: the machine types of the C code, outcomes of a C
  computation with the rules that step through them, and the little-endian layout of integers.
\<close>

section \<open>Machine types\<close>

text \<open>
  \<open>char\<close> is a byte, \<open>size_t\<close> a 64-bit unsigned word (its arithmetic wraps around, and the code
  depends on it), \<open>int\<close> a HOL integer: no \<open>int\<close> computation of the program leaves the 32-bit
  range, and the places where an \<open>int\<close> is laid out in memory go through its four bytes.
\<close>

type_synonym byte = "8 word"
type_synonym size_t = "64 word"
type_synonym memory = "nat \<Rightarrow> byte"

text \<open>
  A \<open>char const *\<close> that points to a string is the list of the bytes before its terminator.
\<close>

type_synonym cstring = "byte list"

section \<open>System calls\<close>

text \<open>The calls of the operating system client and server make, with the arguments that matter.\<close>

datatype sys_call =
    Sys_read int nat
  | Sys_write int "byte list"
  | Sys_open cstring int
  | Sys_close int
  | Sys_unlink cstring
  | Sys_mkfifo cstring int
  | Sys_malloc nat

section \<open>Outcomes\<close>

text \<open>
  A C computation returns a value or runs into a fault: undefined behaviour, a lock that can never
  be obtained, a wait for another thread that has not ended, a system call that has not been answered,
  or the end of the process by \<open>exit\<close>.
\<close>

datatype fault = Undefined | Deadlock | Blocked | Waiting sys_call | Exit int

datatype 'a outcome = Ok 'a | Fault fault

fun and_then :: "'a outcome \<Rightarrow> ('a \<Rightarrow> 'b outcome) \<Rightarrow> 'b outcome" where
  "and_then (Ok x) f = f x"
| "and_then (Fault e) f = Fault e"

named_theorems outcome_simps \<open>how a sequence of computations returns a value\<close>

lemma and_then_Ok_iff [outcome_simps]:
  "and_then m f = Ok y \<longleftrightarrow> (\<exists>x. m = Ok x \<and> f x = Ok y)"
  by (cases m) auto

lemma and_then_assoc: "and_then (and_then m f) g = and_then m (\<lambda>x. and_then (f x) g)"
  by (cases m) auto

lemma and_then_cong [fundef_cong]:
  "m = m' \<Longrightarrow> (\<And>x. m' = Ok x \<Longrightarrow> f x = g x) \<Longrightarrow> and_then m f = and_then m' g"
  by (cases m') auto

section \<open>Integers in memory\<close>

text \<open>The \<open>k\<close> low bytes of a number, least significant first, and the number they denote.\<close>

primrec le_encode :: "nat \<Rightarrow> nat \<Rightarrow> byte list" where
  "le_encode 0 n = []"
| "le_encode (Suc k) n = of_nat (n mod 256) # le_encode k (n div 256)"

primrec le_decode :: "byte list \<Rightarrow> nat" where
  "le_decode [] = 0"
| "le_decode (b # bs) = unat b + 256 * le_decode bs"

lemma length_le_encode [simp]: "length (le_encode k n) = k"
  by (induction k arbitrary: n) auto

lemma unat_of_nat_byte: "unat (of_nat (n mod 256) :: byte) = n mod 256"
  by (simp add: unat_of_nat)

lemma unat_byte_less: "unat (b :: byte) < 256"
proof -
  have "unat b < 2 ^ LENGTH(8)" by (rule unsigned_less)
  then show ?thesis by simp
qed

lemma unat_size_less: "unat (w :: size_t) < 18446744073709551616"
proof -
  have "unat w < 2 ^ LENGTH(64)" by (rule unsigned_less)
  then show ?thesis by simp
qed

lemma unat_of_nat_small: "n < 18446744073709551616 \<Longrightarrow> unat (of_nat n :: size_t) = n"
  by (simp add: unat_of_nat)

lemma le_decode_encode: "le_decode (le_encode k n) = n mod 256 ^ k"
proof (induction k arbitrary: n)
  case 0
  then show ?case by simp
next
  case (Suc k)
  have "le_decode (le_encode (Suc k) n) = n mod 256 + 256 * (n div 256 mod 256 ^ k)"
    by (simp add: Suc.IH unat_of_nat_byte)
  also have "\<dots> = n mod (256 * 256 ^ k)"
    by (simp add: mod_mult2_eq)
  finally show ?case by simp
qed

lemma le_decode_less: "le_decode bs < 256 ^ length bs"
proof (induction bs)
  case Nil
  then show ?case by simp
next
  case (Cons b bs)
  have "unat b < 256" by (rule unat_byte_less)
  with Cons show ?case by simp
qed

text \<open>\<open>int\<close> is four bytes, two's complement; \<open>size_t\<close> is eight.\<close>

definition int_ok :: "int \<Rightarrow> bool" where
  "int_ok v \<longleftrightarrow> - 2147483648 \<le> v \<and> v < 2147483648"

definition int_bytes :: "int \<Rightarrow> byte list" where
  "int_bytes v = le_encode 4 (nat (v mod 4294967296))"

definition bytes_int :: "byte list \<Rightarrow> int" where
  "bytes_int bs = (let n = int (le_decode bs)
                   in if n < 2147483648 then n else n - 4294967296)"

definition size_bytes :: "size_t \<Rightarrow> byte list" where
  "size_bytes w = le_encode 8 (unat w)"

definition bytes_size :: "byte list \<Rightarrow> size_t" where
  "bytes_size bs = of_nat (le_decode bs)"

lemma length_int_bytes [simp]: "length (int_bytes v) = 4"
  by (simp add: int_bytes_def)

lemma length_size_bytes [simp]: "length (size_bytes w) = 8"
  by (simp add: size_bytes_def)

lemma bytes_int_bytes: "int_ok v \<Longrightarrow> bytes_int (int_bytes v) = v"
proof -
  assume "int_ok v"
  moreover have "v mod 4294967296 = (if 0 \<le> v then v else v + 4294967296)" if "int_ok v"
    using that mod_add_self2 [of v 4294967296]
    by (auto simp: int_ok_def mod_pos_pos_trivial simp del: mod_add_self2)
  ultimately show ?thesis
    by (auto simp: bytes_int_def int_bytes_def le_decode_encode int_ok_def)
qed

lemma bytes_size_bytes: "bytes_size (size_bytes w) = w"
proof -
  have "unat w < 18446744073709551616" by (rule unat_size_less)
  then show ?thesis by (simp add: bytes_size_def size_bytes_def le_decode_encode)
qed

lemma sint_small: "unat (w :: size_t) < 9223372036854775808 \<Longrightarrow> sint w = int (unat w)"
proof -
  assume "unat w < 9223372036854775808"
  then have "uint w < 9223372036854775808" by (metis of_nat_less_iff of_nat_numeral uint_nat)
  moreover have "- 9223372036854775808 \<le> uint w"
    by (rule order_trans [OF _ unsigned_greater_eq]) simp
  ultimately have "signed_take_bit 63 (uint w) = uint w"
    by (intro signed_take_bit_int_eq_self) auto
  then show ?thesis by (simp add: sint_uint)
qed

section \<open>One-to-one correspondences\<close>

lemma bij_betw_upd:
  assumes "bij_betw f A B" and "a \<notin> A" and "b \<notin> B"
  shows "bij_betw (f(a := b)) (insert a A) (insert b B)"
proof -
  have "bij_betw (f(a := b)) A B"
    using assms(1,2) by (subst bij_betw_cong [where g = f]) auto
  then have "bij_betw (f(a := b)) (A \<union> {a}) (B \<union> {(f(a := b)) a})"
    using assms(2,3) by (intro notIn_Un_bij_betw) auto
  then show ?thesis by simp
qed

lemma bij_betw_drop_set: "bij_betw f A B \<Longrightarrow> C \<subseteq> A \<Longrightarrow> bij_betw f (A - C) (B - f ` C)"
  by (auto simp: bij_betw_def inj_on_def)

lemma bij_betw_drop: "bij_betw f A B \<Longrightarrow> a \<in> A \<Longrightarrow> bij_betw f (A - {a}) (B - {f a})"
  by (auto simp: bij_betw_def inj_on_def)

end
