(* ===== verification/Memory.thy ===== *)
theory Memory
  imports Prelude
begin

text \<open>
  A flat, byte-addressed memory (an array of \<open>char\<close>) with the block copies the code performs on
  it, the interface that every fixed-width field layout satisfies, and the string routines of the
  C library that the code calls.
\<close>

section \<open>Reading and writing runs of bytes\<close>

primrec mem_read :: "memory \<Rightarrow> nat \<Rightarrow> nat \<Rightarrow> byte list" where
  "mem_read m a 0 = []"
| "mem_read m a (Suc n) = m a # mem_read m (Suc a) n"

definition mem_write :: "memory \<Rightarrow> nat \<Rightarrow> byte list \<Rightarrow> memory" where
  "mem_write m a bs = (\<lambda>i. if a \<le> i \<and> i < a + length bs then bs ! (i - a) else m i)"

lemma length_mem_read [simp]: "length (mem_read m a n) = n"
  by (induction n arbitrary: a) auto

lemma nth_mem_read [simp]: "i < n \<Longrightarrow> mem_read m a n ! i = m (a + i)"
  by (induction n arbitrary: a i) (auto simp: nth_Cons split: nat.splits)

lemma mem_read_append: "mem_read m a (n + k) = mem_read m a n @ mem_read m (a + n) k"
  by (induction n arbitrary: a) auto

lemma mem_read_cong: "(\<And>i. i < n \<Longrightarrow> m (a + i) = m' (a + i)) \<Longrightarrow> mem_read m a n = mem_read m' a n"
  by (rule nth_equalityI) auto

lemma take_mem_read: "take k (mem_read m a n) = mem_read m a (min k n)"
  by (rule nth_equalityI) auto

lemma drop_mem_read: "k \<le> n \<Longrightarrow> drop k (mem_read m a n) = mem_read m (a + k) (n - k)"
  by (rule nth_equalityI) (auto simp: add.assoc)

lemma mem_read_write_same [simp]: "n = length bs \<Longrightarrow> mem_read (mem_write m a bs) a n = bs"
  by (rule nth_equalityI) (auto simp: mem_write_def)

lemma mem_read_write_disjoint:
  "b + n \<le> a \<or> a + length bs \<le> b \<Longrightarrow> mem_read (mem_write m a bs) b n = mem_read m b n"
  by (rule mem_read_cong) (auto simp: mem_write_def)

lemma mem_write_outside: "i < a \<or> a + length bs \<le> i \<Longrightarrow> mem_write m a bs i = m i"
  by (auto simp: mem_write_def)

lemma mem_write_nil [simp]: "mem_write m a [] = m"
  by (rule ext) (auto simp: mem_write_def)

text \<open>A write inside a run of bytes replaces a slice of it.\<close>

lemma mem_read_write_inside:
  assumes "off + length bs \<le> n"
  shows "mem_read (mem_write m (a + off) bs) a n =
    take off (mem_read m a n) @ bs @ drop (off + length bs) (mem_read m a n)"
proof (rule nth_equalityI)
  fix i assume "i < length (mem_read (mem_write m (a + off) bs) a n)"
  with assms show "mem_read (mem_write m (a + off) bs) a n ! i =
    (take off (mem_read m a n) @ bs @ drop (off + length bs) (mem_read m a n)) ! i"
    by (auto simp: mem_write_def nth_append)
qed (use assms in simp)

section \<open>Fixed-width fields\<close>

text \<open>
  The interface of a field layout: an encoding of constant width that decodes to what was encoded.
  Every client lemma about a field in a message or in memory follows from these two laws.
\<close>

locale codec =
  fixes enc :: "'a \<Rightarrow> byte list"
    and dec :: "byte list \<Rightarrow> 'a"
    and width :: nat
    and ok :: "'a \<Rightarrow> bool"
  assumes length_enc: "length (enc x) = width"
    and dec_enc: "ok x \<Longrightarrow> dec (enc x) = x"
begin

lemma dec_at:
  assumes "length pre = k" and "ok x"
  shows "dec (take width (drop k (pre @ enc x @ rest))) = x"
  using assms by (simp add: length_enc dec_enc)

lemma load_store: "ok x \<Longrightarrow> dec (mem_read (mem_write m a (enc x)) a width) = x"
  by (simp add: length_enc dec_enc)

lemma load_store_disjoint:
  "b + n \<le> a \<or> a + width \<le> b \<Longrightarrow> mem_read (mem_write m a (enc x)) b n = mem_read m b n"
  by (simp add: mem_read_write_disjoint length_enc)

lemma enc_inj: "ok x \<Longrightarrow> ok y \<Longrightarrow> enc x = enc y \<Longrightarrow> x = y"
  by (metis dec_enc)

end

interpretation int_field: codec int_bytes bytes_int 4 int_ok
  by unfold_locales (simp_all add: bytes_int_bytes)

interpretation size_field: codec size_bytes bytes_size 8 "\<lambda>_. True"
  by unfold_locales (simp_all add: bytes_size_bytes)

text \<open>An \<open>int\<close> object at an address.\<close>

definition load_int :: "memory \<Rightarrow> nat \<Rightarrow> int" where
  "load_int m a = bytes_int (mem_read m a 4)"

definition store_int :: "nat \<Rightarrow> int \<Rightarrow> memory \<Rightarrow> memory" where
  "store_int a v m = mem_write m a (int_bytes v)"

lemma load_store_int [simp]: "int_ok v \<Longrightarrow> load_int (store_int a v m) a = v"
  by (simp only: load_int_def store_int_def int_field.load_store)

lemma load_store_int_disjoint: "b + 4 \<le> a \<or> a + 4 \<le> b \<Longrightarrow> load_int (store_int a v m) b = load_int m b"
  by (simp add: load_int_def store_int_def int_field.load_store_disjoint)

lemma load_int_write_disjoint:
  "b + 4 \<le> a \<or> a + length bs \<le> b \<Longrightarrow> load_int (mem_write m a bs) b = load_int m b"
  by (simp add: load_int_def mem_read_write_disjoint)

lemma mem_read_store_int_disjoint:
  "b + n \<le> a \<or> a + 4 \<le> b \<Longrightarrow> mem_read (store_int a v m) b n = mem_read m b n"
  by (simp add: store_int_def mem_read_write_disjoint)

lemma load_int_cong: "(\<And>i. i < 4 \<Longrightarrow> m (a + i) = m' (a + i)) \<Longrightarrow> load_int m a = load_int m' a"
  unfolding load_int_def by (metis mem_read_cong)

lemma store_int_outside: "i < a \<or> a + 4 \<le> i \<Longrightarrow> store_int a v m i = m i"
  by (simp add: store_int_def mem_write_outside)

section \<open>The C library's string routines\<close>

text \<open>
  A string argument is the list of its bytes before the terminator, a character array the list of
  its bytes; reading a string past its end meets the terminator.
\<close>

definition c_str :: "byte list \<Rightarrow> cstring" where
  "c_str bs = takeWhile (\<lambda>b. b \<noteq> 0) bs"

definition c_char :: "byte list \<Rightarrow> byte" where
  "c_char bs = (case bs of [] \<Rightarrow> 0 | b # _ \<Rightarrow> b)"

primrec c_strncmp :: "nat \<Rightarrow> byte list \<Rightarrow> byte list \<Rightarrow> int" where
  "c_strncmp 0 xs ys = 0"
| "c_strncmp (Suc n) xs ys =
     (if c_char xs \<noteq> c_char ys then uint (c_char xs) - uint (c_char ys)
      else if c_char xs = 0 then 0
      else c_strncmp n (tl xs) (tl ys))"

definition c_strncpy :: "nat \<Rightarrow> cstring \<Rightarrow> byte list" where
  "c_strncpy n src = take n src @ replicate (n - length src) 0"

lemma length_c_strncpy [simp]: "length (c_strncpy n src) = n"
  by (simp add: c_strncpy_def)

lemma c_str_append_zero [simp]: "c_str (xs @ 0 # ys) = c_str xs"
  by (induction xs) (auto simp: c_str_def)

lemma c_str_id: "0 \<notin> set xs \<Longrightarrow> c_str xs = xs"
  by (auto simp: c_str_def takeWhile_eq_all_conv)

lemma zero_notin_c_str [simp]: "0 \<notin> set (c_str xs)"
  by (auto simp: c_str_def dest: set_takeWhileD)

lemma c_strncmp_eq_0_iff: "c_strncmp n xs ys = 0 \<longleftrightarrow> take n (c_str xs) = take n (c_str ys)"
proof (induction n arbitrary: xs ys)
  case 0
  then show ?case by simp
next
  case (Suc n)
  show ?case
    by (cases xs; cases ys) (auto simp: Suc.IH c_char_def c_str_def word_uint_eq_iff)
qed

lemma c_str_strncpy: "0 \<notin> set src \<Longrightarrow> c_str (c_strncpy n src @ [0]) = take n src"
proof -
  assume *: "0 \<notin> set src"
  have "0 \<notin> set (take n src)" using * by (auto dest: in_set_takeD)
  then have "c_str (take n src @ replicate k 0 @ [0]) = take n src" for k
    by (cases k) (simp_all add: c_str_id)
  then show ?thesis by (simp add: c_strncpy_def)
qed

end
