(* ===== verification/Config.thy ===== *)
theory Config
  imports Memory
begin

text \<open>
  The compile-time constants: \<open>parte-2/fs/config.h\<close>, \<open>parte-2/common/common.h\<close> and the layout of
  \<open>dir_entry_t\<close>. They stay folded in statements and are unfolded by the collection \<open>config\<close>.
\<close>

named_theorems config \<open>the values of the compile-time constants\<close>

definition ROOT_DIR_INUM :: int where [config]: "ROOT_DIR_INUM = 0"
definition BLOCK_SIZE :: nat where [config]: "BLOCK_SIZE = 1024"
definition DATA_BLOCKS :: nat where [config]: "DATA_BLOCKS = 1024"
definition INODE_TABLE_SIZE :: nat where [config]: "INODE_TABLE_SIZE = 50"
definition MAX_OPEN_FILES :: nat where [config]: "MAX_OPEN_FILES = 20"
definition MAX_FILE_NAME :: nat where [config]: "MAX_FILE_NAME = 40"

definition TFS_O_CREAT :: int where [config]: "TFS_O_CREAT = 1"
definition TFS_O_TRUNC :: int where [config]: "TFS_O_TRUNC = 2"
definition TFS_O_APPEND :: int where [config]: "TFS_O_APPEND = 4"

text \<open>\<open>sizeof(dir_entry_t)\<close>: the name followed by an \<open>int\<close>; as many entries as fit in a block.\<close>

definition sizeof_dir_entry :: nat where [config]: "sizeof_dir_entry = MAX_FILE_NAME + 4"
definition MAX_DIR_ENTRIES :: nat where [config]: "MAX_DIR_ENTRIES = BLOCK_SIZE div sizeof_dir_entry"

text \<open>The address ranges of two blocks do not overlap.\<close>

lemma block_ranges:
  assumes "b \<noteq> b'" and "k < BLOCK_SIZE"
  shows "b' * BLOCK_SIZE + k < b * BLOCK_SIZE \<or> b * BLOCK_SIZE + BLOCK_SIZE \<le> b' * BLOCK_SIZE + k"
proof (cases "b < b'")
  case True
  then have "Suc b * BLOCK_SIZE \<le> b' * BLOCK_SIZE" by (intro mult_le_mono1) simp
  then show ?thesis by simp
next
  case False
  with assms(1) have "Suc b' * BLOCK_SIZE \<le> b * BLOCK_SIZE" by (intro mult_le_mono1) simp
  with assms(2) show ?thesis by simp
qed

lemma MAX_DIR_ENTRIES_value: "MAX_DIR_ENTRIES = 23"
  by (simp add: config)

text \<open>The directory entries stay inside their block.\<close>

lemma dir_entry_in_block: "i < MAX_DIR_ENTRIES \<Longrightarrow> sizeof_dir_entry * i + sizeof_dir_entry \<le> BLOCK_SIZE"
  by (simp add: config)

end
