(* ===== verification/Slots.thy ===== *)
theory Slots
  imports Prelude
begin

text \<open>
  Allocation tables: arrays of FREE/TAKEN flags searched from the front. The i-node table, the
  block map and the open file table of the file system are three instances of the interface.
\<close>

datatype allocation_state = FREE | TAKEN

text \<open>The loop that looks for the first free slot at or after \<open>i\<close> and before \<open>n\<close>.\<close>

function first_free :: "(nat \<Rightarrow> allocation_state) \<Rightarrow> nat \<Rightarrow> nat \<Rightarrow> nat option" where
  "first_free t i n = (if i < n then if t i = FREE then Some i else first_free t (Suc i) n else None)"
  by pat_completeness auto
termination
  by (relation "measure (\<lambda>(t, i, n). n - i)") auto

declare first_free.simps [simp del]

lemma first_free_Some:
  "first_free t i n = Some k \<Longrightarrow>
    i \<le> k \<and> k < n \<and> t k = FREE \<and> (\<forall>j. i \<le> j \<and> j < k \<longrightarrow> t j = TAKEN)"
proof (induction t i n rule: first_free.induct)
  case (1 t i n)
  show ?case
  proof (cases "t i = FREE")
    case True
    with 1 show ?thesis by (auto simp: first_free.simps [of t i n] split: if_splits)
  next
    case False
    with 1 have "Suc i \<le> k \<and> k < n \<and> t k = FREE \<and> (\<forall>j. Suc i \<le> j \<and> j < k \<longrightarrow> t j = TAKEN)"
      by (auto simp: first_free.simps [of t i n] split: if_splits)
    moreover from False have "t i = TAKEN" by (cases "t i") auto
    ultimately show ?thesis by (metis Suc_leD Suc_leI le_neq_implies_less)
  qed
qed

lemma first_free_None: "first_free t i n = None \<Longrightarrow> i \<le> j \<Longrightarrow> j < n \<Longrightarrow> t j = TAKEN"
proof (induction t i n rule: first_free.induct)
  case (1 t i n)
  show ?case
  proof (cases "t i = FREE")
    case True
    with 1 show ?thesis by (auto simp: first_free.simps [of t i n] split: if_splits)
  next
    case False
    moreover from False have "t i = TAKEN" by (cases "t i") auto
    ultimately show ?thesis using 1
      by (cases "j = i") (auto simp: first_free.simps [of t i n])
  qed
qed

lemma first_free_zero:
  "first_free t 0 n = Some k \<Longrightarrow> k < n \<and> t k = FREE \<and> (\<forall>j<k. t j = TAKEN)"
  "first_free t 0 n = None \<Longrightarrow> \<forall>j<n. t j = TAKEN"
  using first_free_Some [of t 0 n k] first_free_None [of t 0 n] by auto

lemma first_free_cong:
  assumes "\<And>j. i \<le> j \<Longrightarrow> j < n \<Longrightarrow> t j = t' j"
  shows "first_free t i n = first_free t' i n"
  using assms
proof (induction "n - i" arbitrary: i)
  case 0
  then show ?case by (simp add: first_free.simps [of _ i n])
next
  case (Suc k)
  then have "first_free t (Suc i) n = first_free t' (Suc i) n" by simp
  with Suc show ?case by (simp add: first_free.simps [of _ i n])
qed

lemma first_free_cases:
  obtains (full) "first_free t 0 n = None" "\<forall>j<n. t j = TAKEN"
    | (found) k where "first_free t 0 n = Some k" "k < n" "t k = FREE" "\<forall>j<k. t j = TAKEN"
  using first_free_zero [of t n] by (cases "first_free t 0 n") auto

lemma first_free_least:
  assumes "f < n" and "t f = FREE" and "\<And>j. j < f \<Longrightarrow> t j = TAKEN"
  shows "first_free t 0 n = Some f"
proof (cases rule: first_free_cases [of t n])
  case full
  with assms(1,2) show ?thesis by auto
next
  case (found k)
  with assms(2,3) show ?thesis by (metis allocation_state.distinct(1) nat_neq_iff)
qed

lemma first_free_full: "(\<And>j. j < n \<Longrightarrow> t j = TAKEN) \<Longrightarrow> first_free t 0 n = None"
  by (cases rule: first_free_cases [of t n]) auto

section \<open>The interface of an allocation table\<close>

text \<open>
  \<open>alloc s (r, s')\<close>: an allocation in state \<open>s\<close> may return \<open>r\<close> in state \<open>s'\<close>; \<open>release r s (v, s')\<close>
  likewise. The laws fix what the flags are afterwards; the counting lemmas are proved from them.
\<close>

locale slot_table =
  fixes taken :: "'s \<Rightarrow> nat \<Rightarrow> bool"
    and slots :: nat
    and alloc :: "'s \<Rightarrow> int \<times> 's \<Rightarrow> bool"
    and release :: "int \<Rightarrow> 's \<Rightarrow> int \<times> 's \<Rightarrow> bool"
  assumes alloc_law: "alloc s (r, s') \<Longrightarrow>
      r = -1 \<and> (\<forall>i < slots. taken s i) \<and> taken s' = taken s \<or>
      (\<exists>i < slots. r = int i \<and> \<not> taken s i \<and> (\<forall>j<i. taken s j) \<and> taken s' = (taken s)(i := True))"
    and release_law: "release r s (0, s') \<Longrightarrow>
      0 \<le> r \<and> r < int slots \<and> taken s' = (taken s)(nat r := False)"
begin

definition used :: "'s \<Rightarrow> nat" where
  "used s = card {i. i < slots \<and> taken s i}"

lemma used_le: "used s \<le> slots"
proof -
  have "card {i. i < slots \<and> taken s i} \<le> card {..<slots}"
    by (rule card_mono) auto
  then show ?thesis by (simp add: used_def)
qed

lemma used_full: "used s = slots \<longleftrightarrow> (\<forall>i < slots. taken s i)"
proof
  assume "used s = slots"
  then have "card {i. i < slots \<and> taken s i} = card {..<slots}" by (simp add: used_def)
  then have "{i. i < slots \<and> taken s i} = {..<slots}"
    by (intro card_subset_eq) auto
  then show "\<forall>i < slots. taken s i" by auto
next
  assume "\<forall>i < slots. taken s i"
  then have "{i. i < slots \<and> taken s i} = {..<slots}" by auto
  then show "used s = slots" by (simp add: used_def)
qed

lemma alloc_used:
  assumes "alloc s (r, s')"
  shows "used s' = (if r = -1 then used s else Suc (used s))"
proof -
  have "{i. i < slots \<and> ((taken s)(k := True)) i} = insert k {i. i < slots \<and> taken s i}"
    if "k < slots" for k using that by auto
  with alloc_law [OF assms] show ?thesis by (auto simp: used_def)
qed

lemma alloc_fails_iff:
  assumes "alloc s (r, s')"
  shows "r = -1 \<longleftrightarrow> used s = slots"
  using alloc_law [OF assms] by (auto simp: used_full)

lemma alloc_range: "alloc s (r, s') \<Longrightarrow> r \<noteq> -1 \<Longrightarrow>
  0 \<le> r \<and> r < int slots \<and> \<not> taken s (nat r) \<and> taken s' = (taken s)(nat r := True)"
  using alloc_law [of s r s'] by auto

lemma alloc_alloc_distinct:
  "alloc s (r, s1) \<Longrightarrow> alloc s1 (r', s2) \<Longrightarrow> r \<noteq> -1 \<Longrightarrow> r \<noteq> r'"
  using alloc_range [of s r s1] alloc_range [of s1 r' s2] by auto

lemma alloc_release:
  assumes "alloc s (r, s1)" and "r \<noteq> -1" and "release r s1 (0, s2)"
  shows "taken s2 = taken s"
  using alloc_range [OF assms(1,2)] release_law [OF assms(3)] by (auto simp: fun_eq_iff)

lemma release_used:
  assumes "release r s (0, s')" and "taken s (nat r)"
  shows "Suc (used s') = used s"
proof -
  from release_law [OF assms(1)] have r: "nat r < slots" "taken s' = (taken s)(nat r := False)"
    by auto
  then have "{i. i < slots \<and> taken s i} = insert (nat r) {i. i < slots \<and> taken s' i}"
    using assms(2) by auto
  moreover have "nat r \<notin> {i. i < slots \<and> taken s' i}" using r by simp
  ultimately show ?thesis by (simp add: used_def)
qed

end

end
