(* ===== verification/Sync.thy ===== *)
theory Sync
  imports Prelude
begin

text \<open>
  Mutexes as one thread of control sees them, and the wrappers of \<open>parte-2/fs/state.c\<close> that end
  the process when a pthread call reports an error.
\<close>

text \<open>
  A default mutex: locking it twice from the same thread blocks for ever, using one that was not
  initialised, or unlocking or destroying one in the wrong state, is undefined.
\<close>

datatype mutex = Uninit | Unlocked | Locked

text \<open>Initialisation may fail for lack of resources: its return code comes from the environment.\<close>

definition pthread_mutex_init :: "int \<Rightarrow> mutex \<Rightarrow> int \<times> mutex" where
  "pthread_mutex_init rc m = (rc, if rc = 0 then Unlocked else m)"

fun pthread_mutex_lock :: "mutex \<Rightarrow> (int \<times> mutex) outcome" where
  "pthread_mutex_lock Unlocked = Ok (0, Locked)"
| "pthread_mutex_lock Locked = Fault Deadlock"
| "pthread_mutex_lock Uninit = Fault Undefined"

fun pthread_mutex_unlock :: "mutex \<Rightarrow> (int \<times> mutex) outcome" where
  "pthread_mutex_unlock Locked = Ok (0, Unlocked)"
| "pthread_mutex_unlock Unlocked = Fault Undefined"
| "pthread_mutex_unlock Uninit = Fault Undefined"

fun pthread_mutex_destroy :: "mutex \<Rightarrow> (int \<times> mutex) outcome" where
  "pthread_mutex_destroy Unlocked = Ok (0, Uninit)"
| "pthread_mutex_destroy Locked = Fault Undefined"
| "pthread_mutex_destroy Uninit = Fault Undefined"

definition EXIT_FAILURE :: int where "EXIT_FAILURE = 1"

definition lock_mutex :: "mutex \<Rightarrow> mutex outcome" where
  "lock_mutex m = and_then (pthread_mutex_lock m) (\<lambda>(rc, m').
     if rc \<noteq> 0 then Fault (Exit EXIT_FAILURE) else Ok m')"

definition unlock_mutex :: "mutex \<Rightarrow> mutex outcome" where
  "unlock_mutex m = and_then (pthread_mutex_unlock m) (\<lambda>(rc, m').
     if rc \<noteq> 0 then Fault (Exit EXIT_FAILURE) else Ok m')"

definition init_mutex :: "int \<Rightarrow> mutex \<Rightarrow> mutex outcome" where
  "init_mutex rc m = (case pthread_mutex_init rc m of (rc', m') \<Rightarrow>
     if rc' \<noteq> 0 then Fault (Exit EXIT_FAILURE) else Ok m')"

definition destroy_mutex :: "mutex \<Rightarrow> mutex outcome" where
  "destroy_mutex m = and_then (pthread_mutex_destroy m) (\<lambda>(rc, m').
     if rc \<noteq> 0 then Fault (Exit EXIT_FAILURE) else Ok m')"

text \<open>Locking returns exactly on a free mutex, unlocking exactly on a held one.\<close>

lemma pthread_mutex_lock_Ok [outcome_simps]:
  "pthread_mutex_lock m = Ok r \<longleftrightarrow> m = Unlocked \<and> r = (0, Locked)"
  by (cases m) auto

lemma pthread_mutex_unlock_Ok [outcome_simps]:
  "pthread_mutex_unlock m = Ok r \<longleftrightarrow> m = Locked \<and> r = (0, Unlocked)"
  by (cases m) auto

lemma lock_mutex_Ok [outcome_simps]: "lock_mutex m = Ok m' \<longleftrightarrow> m = Unlocked \<and> m' = Locked"
  by (cases m) (auto simp: lock_mutex_def)

lemma unlock_mutex_Ok [outcome_simps]: "unlock_mutex m = Ok m' \<longleftrightarrow> m = Locked \<and> m' = Unlocked"
  by (cases m) (auto simp: unlock_mutex_def)

lemma init_mutex_Ok [outcome_simps]: "init_mutex rc m = Ok m' \<longleftrightarrow> rc = 0 \<and> m' = Unlocked"
  by (auto simp: init_mutex_def pthread_mutex_init_def)

lemma lock_mutex_Unlocked [simp]: "lock_mutex Unlocked = Ok Locked"
  by (simp add: lock_mutex_def)

lemma unlock_mutex_Locked [simp]: "unlock_mutex Locked = Ok Unlocked"
  by (simp add: unlock_mutex_def)

lemma init_mutex_0 [simp]: "init_mutex 0 m = Ok Unlocked"
  by (simp add: init_mutex_def pthread_mutex_init_def)

end
