(* ===== verification/FS_State.thy ===== *)
theory FS_State
  imports Config Slots Sync
begin

text \<open>
  The state layer of the server's file system, \<open>parte-2/fs/state.c\<close>: the i-node table, the block
  map with the blocks' bytes, the directory entries laid out in a block, and the open file table.
  An array is a function from indices; every access of the code is guarded by its bounds check.
  The busy-wait \<open>insert_delay\<close> has no effect on the state and is left out.
\<close>

section \<open>State\<close>

datatype inode_type = T_FILE | T_DIRECTORY

record inode =
  i_node_type :: inode_type
  i_size :: size_t
  i_data_block :: int

record open_file_entry =
  of_inumber :: int
  of_offset :: size_t

record fs_state =
  inode_table :: "nat \<Rightarrow> inode"
  freeinode_ts :: "nat \<Rightarrow> allocation_state"
  fs_data :: memory
  free_blocks :: "nat \<Rightarrow> allocation_state"
  open_file_table :: "nat \<Rightarrow> open_file_entry"
  free_open_file_entries :: "nat \<Rightarrow> allocation_state"
  open_files_count :: int
  open_flag :: int
  open_files_mutex :: mutex
  single_global_lock :: mutex

text \<open>The static storage before the first call: zeroes, and the two initialised counters.\<close>

definition fs_static :: fs_state where
  "fs_static =
     \<lparr>inode_table = (\<lambda>_. \<lparr>i_node_type = T_FILE, i_size = 0, i_data_block = 0\<rparr>),
      freeinode_ts = (\<lambda>_. FREE),
      fs_data = (\<lambda>_. 0),
      free_blocks = (\<lambda>_. FREE),
      open_file_table = (\<lambda>_. \<lparr>of_inumber = 0, of_offset = 0\<rparr>),
      free_open_file_entries = (\<lambda>_. FREE),
      open_files_count = 0,
      open_flag = 1,
      open_files_mutex = Uninit,
      single_global_lock = Uninit\<rparr>"

definition valid_inumber :: "int \<Rightarrow> bool" where
  "valid_inumber inumber \<longleftrightarrow> 0 \<le> inumber \<and> inumber < int INODE_TABLE_SIZE"

definition valid_block_number :: "int \<Rightarrow> bool" where
  "valid_block_number block_number \<longleftrightarrow> 0 \<le> block_number \<and> block_number < int DATA_BLOCKS"

definition valid_file_handle :: "int \<Rightarrow> bool" where
  "valid_file_handle file_handle \<longleftrightarrow> 0 \<le> file_handle \<and> file_handle < int MAX_OPEN_FILES"

text \<open>Assigning to one element of a table.\<close>

definition put_inode :: "nat \<Rightarrow> (inode \<Rightarrow> inode) \<Rightarrow> fs_state \<Rightarrow> fs_state" where
  "put_inode i f s = s\<lparr>inode_table := (inode_table s)(i := f (inode_table s i))\<rparr>"

definition put_file :: "nat \<Rightarrow> (open_file_entry \<Rightarrow> open_file_entry) \<Rightarrow> fs_state \<Rightarrow> fs_state" where
  "put_file i f s = s\<lparr>open_file_table := (open_file_table s)(i := f (open_file_table s i))\<rparr>"

definition put_freeinode :: "nat \<Rightarrow> allocation_state \<Rightarrow> fs_state \<Rightarrow> fs_state" where
  "put_freeinode i a s = s\<lparr>freeinode_ts := (freeinode_ts s)(i := a)\<rparr>"

definition put_block :: "nat \<Rightarrow> allocation_state \<Rightarrow> fs_state \<Rightarrow> fs_state" where
  "put_block i a s = s\<lparr>free_blocks := (free_blocks s)(i := a)\<rparr>"

definition put_open :: "nat \<Rightarrow> allocation_state \<Rightarrow> fs_state \<Rightarrow> fs_state" where
  "put_open i a s = s\<lparr>free_open_file_entries := (free_open_file_entries s)(i := a)\<rparr>"

section \<open>Initialisation\<close>

text \<open>
  \<open>rc\<close> is what \<open>pthread_mutex_init\<close> answers. The loops set the first entries of the three flag
  arrays; \<open>open_files_count\<close> keeps its value.
\<close>

definition state_init :: "int \<Rightarrow> fs_state \<Rightarrow> fs_state outcome" where
  "state_init rc s =
     and_then (init_mutex rc (open_files_mutex s)) (\<lambda>m.
     and_then (lock_mutex m) (\<lambda>m.
     let s = s\<lparr>open_flag := 1\<rparr> in
     and_then (unlock_mutex m) (\<lambda>m.
     Ok (s\<lparr>open_files_mutex := m,
           freeinode_ts := (\<lambda>i. if i < INODE_TABLE_SIZE then FREE else freeinode_ts s i),
           free_blocks := (\<lambda>i. if i < DATA_BLOCKS then FREE else free_blocks s i),
           free_open_file_entries :=
             (\<lambda>i. if i < MAX_OPEN_FILES then FREE else free_open_file_entries s i)\<rparr>))))"

definition state_destroy :: "fs_state \<Rightarrow> fs_state" where
  "state_destroy s = s"

section \<open>Data blocks\<close>

definition data_block_alloc :: "fs_state \<Rightarrow> int \<times> fs_state" where
  "data_block_alloc s = (case first_free (free_blocks s) 0 DATA_BLOCKS of
     Some i \<Rightarrow> (int i, put_block i TAKEN s)
   | None \<Rightarrow> (-1, s))"

definition data_block_free :: "int \<Rightarrow> fs_state \<Rightarrow> int \<times> fs_state" where
  "data_block_free block_number s =
     (if \<not> valid_block_number block_number then (-1, s)
      else (0, put_block (nat block_number) FREE s))"

text \<open>The address of a block's first byte in \<open>fs_data\<close>; \<open>None\<close> is the null pointer.\<close>

definition data_block_get :: "int \<Rightarrow> nat option" where
  "data_block_get block_number =
     (if \<not> valid_block_number block_number then None else Some (nat block_number * BLOCK_SIZE))"

section \<open>Directory entries\<close>

text \<open>Entry \<open>i\<close> of the array of \<open>dir_entry_t\<close> that starts at address \<open>p\<close>.\<close>

definition d_name :: "memory \<Rightarrow> nat \<Rightarrow> nat \<Rightarrow> byte list" where
  "d_name m p i = mem_read m (p + sizeof_dir_entry * i) MAX_FILE_NAME"

definition d_inumber :: "memory \<Rightarrow> nat \<Rightarrow> nat \<Rightarrow> int" where
  "d_inumber m p i = load_int m (p + sizeof_dir_entry * i + MAX_FILE_NAME)"

definition set_d_name :: "nat \<Rightarrow> nat \<Rightarrow> byte list \<Rightarrow> memory \<Rightarrow> memory" where
  "set_d_name p i bs m = mem_write m (p + sizeof_dir_entry * i) bs"

definition set_d_inumber :: "nat \<Rightarrow> nat \<Rightarrow> int \<Rightarrow> memory \<Rightarrow> memory" where
  "set_d_inumber p i v m = store_int (p + sizeof_dir_entry * i + MAX_FILE_NAME) v m"

text \<open>The loop of \<open>inode_create\<close> that empties the first \<open>n\<close> entries.\<close>

primrec clear_entries :: "nat \<Rightarrow> nat \<Rightarrow> memory \<Rightarrow> memory" where
  "clear_entries p 0 m = m"
| "clear_entries p (Suc n) m = set_d_inumber p n (-1) (clear_entries p n m)"

text \<open>The loops of \<open>add_dir_entry\<close> and \<open>find_in_dir\<close>, from entry \<open>i\<close>.\<close>

function free_entry :: "memory \<Rightarrow> nat \<Rightarrow> nat \<Rightarrow> nat option" where
  "free_entry m p i =
     (if i < MAX_DIR_ENTRIES then if d_inumber m p i = -1 then Some i else free_entry m p (Suc i)
      else None)"
  by pat_completeness auto
termination
  by (relation "measure (\<lambda>(m, p, i). MAX_DIR_ENTRIES - i)") auto

function find_entry :: "memory \<Rightarrow> nat \<Rightarrow> cstring \<Rightarrow> nat \<Rightarrow> int" where
  "find_entry m p sub_name i =
     (if i < MAX_DIR_ENTRIES
      then if d_inumber m p i \<noteq> -1 \<and> c_strncmp MAX_FILE_NAME (d_name m p i) sub_name = 0
           then d_inumber m p i
           else find_entry m p sub_name (Suc i)
      else -1)"
  by pat_completeness auto
termination
  by (relation "measure (\<lambda>(m, p, n, i). MAX_DIR_ENTRIES - i)") auto

declare free_entry.simps [simp del] find_entry.simps [simp del]

definition add_dir_entry :: "int \<Rightarrow> int \<Rightarrow> cstring \<Rightarrow> fs_state \<Rightarrow> int \<times> fs_state" where
  "add_dir_entry inumber sub_inumber sub_name s =
     (if \<not> valid_inumber inumber \<or> \<not> valid_inumber sub_inumber then (-1, s)
      else if i_node_type (inode_table s (nat inumber)) \<noteq> T_DIRECTORY then (-1, s)
      else if length sub_name = 0 then (-1, s)
      else (case data_block_get (i_data_block (inode_table s (nat inumber))) of
        None \<Rightarrow> (-1, s)
      | Some p \<Rightarrow> (case free_entry (fs_data s) p 0 of
          None \<Rightarrow> (-1, s)
        | Some i \<Rightarrow>
            let m = set_d_inumber p i sub_inumber (fs_data s);
                m = set_d_name p i (c_strncpy (MAX_FILE_NAME - 1) sub_name) m;
                m = m(p + sizeof_dir_entry * i + (MAX_FILE_NAME - 1) := 0)
            in (0, s\<lparr>fs_data := m\<rparr>))))"

definition find_in_dir :: "int \<Rightarrow> cstring \<Rightarrow> fs_state \<Rightarrow> int" where
  "find_in_dir inumber sub_name s =
     (if \<not> valid_inumber inumber \<or> i_node_type (inode_table s (nat inumber)) \<noteq> T_DIRECTORY then -1
      else (case data_block_get (i_data_block (inode_table s (nat inumber))) of
        None \<Rightarrow> -1
      | Some p \<Rightarrow> find_entry (fs_data s) p sub_name 0))"

section \<open>I-nodes\<close>

definition inode_create :: "inode_type \<Rightarrow> fs_state \<Rightarrow> int \<times> fs_state" where
  "inode_create n_type s = (case first_free (freeinode_ts s) 0 INODE_TABLE_SIZE of
     None \<Rightarrow> (-1, s)
   | Some inumber \<Rightarrow>
       let s = put_freeinode inumber TAKEN s;
           s = put_inode inumber (i_node_type_update (\<lambda>_. n_type)) s
       in if n_type = T_DIRECTORY then
            (case data_block_alloc s of (b, s) \<Rightarrow>
               if b = -1 then (-1, put_freeinode inumber FREE s)
               else
                 let s = put_inode inumber (\<lambda>n. n\<lparr>i_size := of_nat BLOCK_SIZE, i_data_block := b\<rparr>) s
                 in (case data_block_get b of
                       None \<Rightarrow> (-1, put_freeinode inumber FREE s)
                     | Some p \<Rightarrow>
                         (int inumber, s\<lparr>fs_data := clear_entries p MAX_DIR_ENTRIES (fs_data s)\<rparr>)))
          else (int inumber, put_inode inumber (\<lambda>n. n\<lparr>i_size := 0, i_data_block := -1\<rparr>) s))"

definition inode_delete :: "int \<Rightarrow> fs_state \<Rightarrow> int \<times> fs_state" where
  "inode_delete inumber s =
     (if \<not> valid_inumber inumber \<or> freeinode_ts s (nat inumber) = FREE then (-1, s)
      else
        let s = put_freeinode (nat inumber) FREE s
        in if i_size (inode_table s (nat inumber)) > 0 then
             (case data_block_free (i_data_block (inode_table s (nat inumber))) s of
                (r, s) \<Rightarrow> if r = -1 then (-1, s) else (0, s))
           else (0, s))"

text \<open>A pointer to an i-node is its index; \<open>None\<close> is the null pointer.\<close>

definition inode_get :: "int \<Rightarrow> nat option" where
  "inode_get inumber = (if \<not> valid_inumber inumber then None else Some (nat inumber))"

section \<open>The open file table\<close>

definition add_to_open_file_table :: "int \<Rightarrow> size_t \<Rightarrow> fs_state \<Rightarrow> (int \<times> fs_state) outcome" where
  "add_to_open_file_table inumber offset s =
     (case first_free (free_open_file_entries s) 0 MAX_OPEN_FILES of
        None \<Rightarrow> Ok (-1, s)
      | Some i \<Rightarrow>
          and_then (lock_mutex (open_files_mutex s)) (\<lambda>m.
          let s = s\<lparr>open_files_mutex := m\<rparr>;
              s = put_open i TAKEN s;
              s = put_file i (\<lambda>_. \<lparr>of_inumber = inumber, of_offset = offset\<rparr>) s;
              s = s\<lparr>open_files_count := open_files_count s + 1\<rparr> in
          and_then (unlock_mutex (open_files_mutex s)) (\<lambda>m.
          Ok (int i, s\<lparr>open_files_mutex := m\<rparr>))))"

text \<open>The signal on \<open>open_files_cond\<close> wakes another thread; it does not change this state.\<close>

definition remove_from_open_file_table :: "int \<Rightarrow> fs_state \<Rightarrow> (int \<times> fs_state) outcome" where
  "remove_from_open_file_table fhandle s =
     (if \<not> valid_file_handle fhandle \<or> free_open_file_entries s (nat fhandle) \<noteq> TAKEN
      then Ok (-1, s)
      else
        and_then (lock_mutex (open_files_mutex s)) (\<lambda>m.
        let s = s\<lparr>open_files_mutex := m\<rparr>;
            s = s\<lparr>open_files_count := open_files_count s - 1\<rparr>;
            s = put_open (nat fhandle) FREE s in
        and_then (unlock_mutex (open_files_mutex s)) (\<lambda>m.
        Ok (0, s\<lparr>open_files_mutex := m\<rparr>))))"

definition get_open_file_entry :: "int \<Rightarrow> nat option" where
  "get_open_file_entry fhandle =
     (if \<not> valid_file_handle fhandle then None else Some (nat fhandle))"

section \<open>The three allocation tables\<close>

text \<open>Unfolding an assignment to a table, and the tables' laws.\<close>

lemmas put_defs = put_inode_def put_file_def put_freeinode_def put_block_def put_open_def

text \<open>Record updates that do not change anything, or that add to a field.\<close>

lemma offset_add: "of_offset_update (\<lambda>off. off + w) e = e\<lparr>of_offset := of_offset e + w\<rparr>"
  by (cases e) simp

lemma size_idem: "i_size n = x \<Longrightarrow> n\<lparr>i_data_block := b, i_size := x\<rparr> = n\<lparr>i_data_block := b\<rparr>"
  by (cases n) auto

lemma not_TAKEN [simp]: "a \<noteq> TAKEN \<longleftrightarrow> a = FREE"
  by (cases a) auto

interpretation blocks: slot_table "\<lambda>s i. free_blocks s i = TAKEN" DATA_BLOCKS
  "\<lambda>s r. data_block_alloc s = r" "\<lambda>b s r. data_block_free b s = r"
proof unfold_locales
  fix s r s'
  assume "data_block_alloc s = (r, s')"
  then show "r = -1 \<and> (\<forall>i < DATA_BLOCKS. free_blocks s i = TAKEN) \<and>
      (\<lambda>i. free_blocks s' i = TAKEN) = (\<lambda>i. free_blocks s i = TAKEN) \<or>
    (\<exists>i < DATA_BLOCKS. r = int i \<and> free_blocks s i \<noteq> TAKEN \<and> (\<forall>j<i. free_blocks s j = TAKEN) \<and>
      (\<lambda>i. free_blocks s' i = TAKEN) = (\<lambda>i. free_blocks s i = TAKEN)(i := True))"
    by (cases rule: first_free_cases [of "free_blocks s" DATA_BLOCKS])
       (auto simp: data_block_alloc_def put_block_def fun_eq_iff)
next
  fix r s s'
  assume "data_block_free r s = (0, s')"
  then show "0 \<le> r \<and> r < int DATA_BLOCKS \<and>
      (\<lambda>i. free_blocks s' i = TAKEN) = (\<lambda>i. free_blocks s i = TAKEN)(nat r := False)"
    by (auto simp: data_block_free_def valid_block_number_def put_block_def fun_eq_iff split: if_splits)
qed

interpretation inodes: slot_table "\<lambda>s i. freeinode_ts s i = TAKEN" INODE_TABLE_SIZE
  "\<lambda>s r. inode_create T_FILE s = r" "\<lambda>i s r. inode_delete i s = r"
proof unfold_locales
  fix s r s'
  assume "inode_create T_FILE s = (r, s')"
  then show "r = -1 \<and> (\<forall>i < INODE_TABLE_SIZE. freeinode_ts s i = TAKEN) \<and>
      (\<lambda>i. freeinode_ts s' i = TAKEN) = (\<lambda>i. freeinode_ts s i = TAKEN) \<or>
    (\<exists>i < INODE_TABLE_SIZE. r = int i \<and> freeinode_ts s i \<noteq> TAKEN \<and> (\<forall>j<i. freeinode_ts s j = TAKEN) \<and>
      (\<lambda>i. freeinode_ts s' i = TAKEN) = (\<lambda>i. freeinode_ts s i = TAKEN)(i := True))"
    by (cases rule: first_free_cases [of "freeinode_ts s" INODE_TABLE_SIZE])
       (auto simp: inode_create_def put_defs Let_def fun_eq_iff)
next
  fix r s s'
  assume "inode_delete r s = (0, s')"
  then show "0 \<le> r \<and> r < int INODE_TABLE_SIZE \<and>
      (\<lambda>i. freeinode_ts s' i = TAKEN) = (\<lambda>i. freeinode_ts s i = TAKEN)(nat r := False)"
    by (auto simp: inode_delete_def data_block_free_def valid_inumber_def put_defs Let_def fun_eq_iff split: if_splits)
qed

interpretation handles: slot_table "\<lambda>s i. free_open_file_entries s i = TAKEN" MAX_OPEN_FILES
  "\<lambda>s r. add_to_open_file_table inumber offset s = Ok r"
  "\<lambda>f s r. remove_from_open_file_table f s = Ok r" for inumber offset
proof unfold_locales
  fix s r s'
  assume "add_to_open_file_table inumber offset s = Ok (r, s')"
  then show "r = -1 \<and> (\<forall>i < MAX_OPEN_FILES. free_open_file_entries s i = TAKEN) \<and>
      (\<lambda>i. free_open_file_entries s' i = TAKEN) = (\<lambda>i. free_open_file_entries s i = TAKEN) \<or>
    (\<exists>i < MAX_OPEN_FILES. r = int i \<and> free_open_file_entries s i \<noteq> TAKEN \<and>
      (\<forall>j<i. free_open_file_entries s j = TAKEN) \<and>
      (\<lambda>i. free_open_file_entries s' i = TAKEN) = (\<lambda>i. free_open_file_entries s i = TAKEN)(i := True))"
    by (cases rule: first_free_cases [of "free_open_file_entries s" MAX_OPEN_FILES])
       (auto simp: add_to_open_file_table_def put_defs Let_def outcome_simps fun_eq_iff)
next
  fix r s s'
  assume "remove_from_open_file_table r s = Ok (0, s')"
  then show "0 \<le> r \<and> r < int MAX_OPEN_FILES \<and>
      (\<lambda>i. free_open_file_entries s' i = TAKEN) = (\<lambda>i. free_open_file_entries s i = TAKEN)(nat r := False)"
    by (auto simp: remove_from_open_file_table_def valid_file_handle_def put_defs Let_def outcome_simps
        fun_eq_iff split: if_splits)
qed

end
