(* ===== verification/FS_Ops.thy ===== *)
theory FS_Ops
  imports FS_State
begin

text \<open>
  The operations of the server's file system, \<open>parte-2/fs/operations.c\<close>. Each public operation is
  its \<open>_unsynchronized\<close> body run between locking and unlocking \<open>single_global_lock\<close>. A path name
  is \<open>None\<close> for the null pointer; the buffer of \<open>tfs_write\<close> is the list of the bytes it holds, and
  \<open>tfs_read\<close> returns the bytes it copied to its caller's buffer.
\<close>

unbundle bit_operations_syntax

section \<open>Initialisation and destruction\<close>

definition tfs_init :: "int \<Rightarrow> int \<Rightarrow> fs_state \<Rightarrow> (int \<times> fs_state) outcome" where
  "tfs_init rc1 rc2 s =
     and_then (state_init rc1 s) (\<lambda>s.
     case pthread_mutex_init rc2 (single_global_lock s) of (rc, m) \<Rightarrow>
       let s = s\<lparr>single_global_lock := m\<rparr> in
       if rc \<noteq> 0 then Ok (-1, s)
       else (case inode_create T_DIRECTORY s of (root, s) \<Rightarrow>
               if root \<noteq> ROOT_DIR_INUM then Ok (-1, s) else Ok (0, s)))"

definition tfs_destroy :: "fs_state \<Rightarrow> (int \<times> fs_state) outcome" where
  "tfs_destroy s =
     (let s = state_destroy s in
      and_then (pthread_mutex_destroy (single_global_lock s)) (\<lambda>(rc, m).
        let s = s\<lparr>single_global_lock := m\<rparr> in
        if rc \<noteq> 0 then Ok (-1, s) else Ok (0, s)))"

text \<open>
  The wait for \<open>open_files_count = 0\<close>. Each element of the list is what the other threads do to the
  state while this one waits on the condition; \<open>None\<close>: it is still waiting after the last.
\<close>

fun wait_all_closed :: "(fs_state \<Rightarrow> fs_state) list \<Rightarrow> fs_state \<Rightarrow> fs_state option" where
  "wait_all_closed ws s =
     (if open_files_count s \<noteq> 0
      then (case ws of [] \<Rightarrow> None | w # ws' \<Rightarrow> wait_all_closed ws' (w s))
      else Some s)"

declare wait_all_closed.simps [simp del]

definition tfs_destroy_after_all_closed ::
  "(fs_state \<Rightarrow> fs_state) list \<Rightarrow> fs_state \<Rightarrow> (int \<times> fs_state) option outcome" where
  "tfs_destroy_after_all_closed ws s =
     and_then (lock_mutex (open_files_mutex s)) (\<lambda>m.
     case wait_all_closed ws (s\<lparr>open_files_mutex := m\<rparr>) of
       None \<Rightarrow> Ok None
     | Some s \<Rightarrow>
         let s = s\<lparr>open_flag := 0\<rparr>; s = state_destroy s in
         and_then (unlock_mutex (open_files_mutex s)) (\<lambda>m. Ok (Some (0, s\<lparr>open_files_mutex := m\<rparr>))))"

section \<open>Path names\<close>

definition valid_pathname :: "cstring option \<Rightarrow> bool" where
  "valid_pathname name = (case name of None \<Rightarrow> False | Some p \<Rightarrow> 1 < length p \<and> c_char p = 0x2F)"

definition tfs_lookup_unsynchronized :: "cstring option \<Rightarrow> fs_state \<Rightarrow> int" where
  "tfs_lookup_unsynchronized name s =
     (if \<not> valid_pathname name then -1 else find_in_dir ROOT_DIR_INUM (tl (the name)) s)"

text \<open>\<open>name + 1\<close>: no string is there when \<open>name\<close> is null or empty.\<close>

definition skip_char :: "cstring option \<Rightarrow> cstring outcome" where
  "skip_char name = (case name of Some (_ # cs) \<Rightarrow> Ok cs | _ \<Rightarrow> Fault Undefined)"

section \<open>The global lock\<close>

text \<open>An operation with its body between the two lock calls; \<open>err\<close> is what it returns if one fails.\<close>

definition synchronized ::
  "'r \<Rightarrow> (fs_state \<Rightarrow> ('r \<times> fs_state) outcome) \<Rightarrow> fs_state \<Rightarrow> ('r \<times> fs_state) outcome" where
  "synchronized err body s =
     and_then (pthread_mutex_lock (single_global_lock s)) (\<lambda>(rc, m).
     let s = s\<lparr>single_global_lock := m\<rparr> in
     if rc \<noteq> 0 then Ok (err, s) else
     and_then (body s) (\<lambda>(ret, s).
     and_then (pthread_mutex_unlock (single_global_lock s)) (\<lambda>(rc, m).
     let s = s\<lparr>single_global_lock := m\<rparr> in
     if rc \<noteq> 0 then Ok (err, s) else Ok (ret, s))))"

definition tfs_lookup :: "cstring option \<Rightarrow> fs_state \<Rightarrow> (int \<times> fs_state) outcome" where
  "tfs_lookup name = synchronized (-1) (\<lambda>s. Ok (tfs_lookup_unsynchronized name s, s))"

section \<open>Opening and closing\<close>

text \<open>The truncation of an existing file: 0, or -1 where \<open>_tfs_open_unsynchronized\<close> returns -1.\<close>

definition truncate_inode :: "nat \<Rightarrow> fs_state \<Rightarrow> int \<times> fs_state" where
  "truncate_inode i s =
     (if i_size (inode_table s i) > 0 then
        (case data_block_free (i_data_block (inode_table s i)) s of (r, s) \<Rightarrow>
           if r = -1 then (-1, s) else (0, put_inode i (i_size_update (\<lambda>_. 0)) s))
      else (0, s))"

definition tfs_open_unsynchronized ::
  "cstring option \<Rightarrow> int \<Rightarrow> fs_state \<Rightarrow> (int \<times> fs_state) outcome" where
  "tfs_open_unsynchronized name flags s =
     (let inum = tfs_lookup_unsynchronized name s in
      if inum \<ge> 0 then
        (case inode_get inum of
           None \<Rightarrow> Ok (-1, s)
         | Some i \<Rightarrow>
             (case (if flags AND TFS_O_TRUNC \<noteq> 0 then truncate_inode i s else (0, s)) of (r, s) \<Rightarrow>
                if r = -1 then Ok (-1, s)
                else
                  let offset = (if flags AND TFS_O_APPEND \<noteq> 0 then i_size (inode_table s i) else 0)
                  in add_to_open_file_table inum offset s))
      else if flags AND TFS_O_CREAT \<noteq> 0 then
        (case inode_create T_FILE s of (inum, s) \<Rightarrow>
           if inum = -1 then Ok (-1, s)
           else
             and_then (skip_char name) (\<lambda>sub_name.
             case add_dir_entry ROOT_DIR_INUM inum sub_name s of (r, s) \<Rightarrow>
               if r = -1 then (case inode_delete inum s of (_, s) \<Rightarrow> Ok (-1, s))
               else add_to_open_file_table inum 0 s))
      else Ok (-1, s))"

definition tfs_open :: "cstring option \<Rightarrow> int \<Rightarrow> fs_state \<Rightarrow> (int \<times> fs_state) outcome" where
  "tfs_open name flags s =
     and_then (lock_mutex (open_files_mutex s)) (\<lambda>m.
     let s = s\<lparr>open_files_mutex := m\<rparr> in
     if open_flag s = 0 then
       and_then (unlock_mutex (open_files_mutex s)) (\<lambda>m. Ok (-1, s\<lparr>open_files_mutex := m\<rparr>))
     else
       and_then (unlock_mutex (open_files_mutex s)) (\<lambda>m.
       synchronized (-1) (tfs_open_unsynchronized name flags) (s\<lparr>open_files_mutex := m\<rparr>)))"

definition tfs_close :: "int \<Rightarrow> fs_state \<Rightarrow> (int \<times> fs_state) outcome" where
  "tfs_close fhandle = synchronized (-1) (remove_from_open_file_table fhandle)"

section \<open>Writing and reading\<close>

text \<open>
  \<open>memcpy\<close> into and out of \<open>fs_data\<close>. Copying bytes that lie outside the array, or that the source
  buffer does not hold, is undefined.
\<close>

definition memcpy_in :: "nat \<Rightarrow> byte list \<Rightarrow> nat \<Rightarrow> memory \<Rightarrow> memory outcome" where
  "memcpy_in a buffer n m =
     (if a + n \<le> BLOCK_SIZE * DATA_BLOCKS \<and> n \<le> length buffer then Ok (mem_write m a (take n buffer))
      else Fault Undefined)"

definition memcpy_out :: "nat \<Rightarrow> nat \<Rightarrow> memory \<Rightarrow> byte list outcome" where
  "memcpy_out a n m =
     (if a + n \<le> BLOCK_SIZE * DATA_BLOCKS then Ok (mem_read m a n) else Fault Undefined)"

text \<open>The number of bytes to write: \<open>size_t\<close> arithmetic, with its wrap-around.\<close>

definition write_amount :: "size_t \<Rightarrow> size_t \<Rightarrow> size_t" where
  "write_amount to_write offset =
     (if to_write + offset > of_nat BLOCK_SIZE then of_nat BLOCK_SIZE - offset else to_write)"

definition tfs_write_unsynchronized ::
  "int \<Rightarrow> byte list \<Rightarrow> size_t \<Rightarrow> fs_state \<Rightarrow> (int \<times> fs_state) outcome" where
  "tfs_write_unsynchronized fhandle buffer to_write s =
     (case get_open_file_entry fhandle of
        None \<Rightarrow> Ok (-1, s)
      | Some f \<Rightarrow>
        (case inode_get (of_inumber (open_file_table s f)) of
           None \<Rightarrow> Ok (-1, s)
         | Some i \<Rightarrow>
           let to_write = write_amount to_write (of_offset (open_file_table s f)) in
           if to_write > 0 then
             let s = (if i_size (inode_table s i) = 0 then
                        (case data_block_alloc s of (b, s) \<Rightarrow>
                           put_inode i (i_data_block_update (\<lambda>_. b)) s)
                      else s) in
             (case data_block_get (i_data_block (inode_table s i)) of
                None \<Rightarrow> Ok (-1, s)
              | Some block \<Rightarrow>
                and_then (memcpy_in (block + unat (of_offset (open_file_table s f))) buffer
                            (unat to_write) (fs_data s)) (\<lambda>m.
                let s = s\<lparr>fs_data := m\<rparr>;
                    s = put_file f (of_offset_update (\<lambda>off. off + to_write)) s;
                    s = (if of_offset (open_file_table s f) > i_size (inode_table s i)
                         then put_inode i (i_size_update (\<lambda>_. of_offset (open_file_table s f))) s
                         else s)
                in Ok (sint to_write, s)))
           else Ok (sint to_write, s)))"

definition tfs_write :: "int \<Rightarrow> byte list \<Rightarrow> size_t \<Rightarrow> fs_state \<Rightarrow> (int \<times> fs_state) outcome" where
  "tfs_write fhandle buffer to_write =
     synchronized (-1) (tfs_write_unsynchronized fhandle buffer to_write)"

text \<open>The number of bytes to read: the difference wraps around below zero.\<close>

definition read_amount :: "size_t \<Rightarrow> size_t \<Rightarrow> size_t \<Rightarrow> size_t" where
  "read_amount fsize offset len =
     (let to_read = fsize - offset in if to_read > len then len else to_read)"

definition tfs_read_unsynchronized ::
  "int \<Rightarrow> size_t \<Rightarrow> fs_state \<Rightarrow> ((int \<times> byte list) \<times> fs_state) outcome" where
  "tfs_read_unsynchronized fhandle len s =
     (case get_open_file_entry fhandle of
        None \<Rightarrow> Ok ((-1, []), s)
      | Some f \<Rightarrow>
        (case inode_get (of_inumber (open_file_table s f)) of
           None \<Rightarrow> Ok ((-1, []), s)
         | Some i \<Rightarrow>
           let to_read = read_amount (i_size (inode_table s i)) (of_offset (open_file_table s f)) len in
           if to_read > 0 then
             (case data_block_get (i_data_block (inode_table s i)) of
                None \<Rightarrow> Ok ((-1, []), s)
              | Some block \<Rightarrow>
                and_then (memcpy_out (block + unat (of_offset (open_file_table s f)))
                            (unat to_read) (fs_data s)) (\<lambda>bytes.
                Ok ((sint to_read, bytes), put_file f (of_offset_update (\<lambda>off. off + to_read)) s)))
           else Ok ((sint to_read, []), s)))"

definition tfs_read ::
  "int \<Rightarrow> size_t \<Rightarrow> fs_state \<Rightarrow> ((int \<times> byte list) \<times> fs_state) outcome" where
  "tfs_read fhandle len = synchronized (-1, []) (tfs_read_unsynchronized fhandle len)"

end
