(* ===== verification/FS_Dir.thy ===== *)
theory FS_Dir
  imports FS_State
begin

text \<open>
  The directory component: what \<open>find_entry\<close> and the stores of \<open>add_dir_entry\<close> do to the array of
  entries laid out in a block, and the interface by which the rest of the file system relies on
  a directory (what a lookup returns after an insertion).
\<close>

definition live :: "memory \<Rightarrow> nat \<Rightarrow> nat \<Rightarrow> bool" where
  "live m p e \<longleftrightarrow> e < MAX_DIR_ENTRIES \<and> d_inumber m p e \<noteq> -1"

definition entry_name :: "memory \<Rightarrow> nat \<Rightarrow> nat \<Rightarrow> cstring" where
  "entry_name m p e = c_str (d_name m p e)"

text \<open>A name that fits in an entry: not empty, at most 39 bytes, none of them zero.\<close>

definition good_name :: "cstring \<Rightarrow> bool" where
  "good_name n \<longleftrightarrow> n \<noteq> [] \<and> length n < MAX_FILE_NAME \<and> 0 \<notin> set n"

definition name_match :: "memory \<Rightarrow> nat \<Rightarrow> cstring \<Rightarrow> nat \<Rightarrow> bool" where
  "name_match m p n e \<longleftrightarrow> take MAX_FILE_NAME (entry_name m p e) = take MAX_FILE_NAME (c_str n)"

lemma length_d_name [simp]: "length (d_name m p e) = MAX_FILE_NAME"
  by (simp add: d_name_def)

lemma length_entry_name: "length (entry_name m p e) \<le> MAX_FILE_NAME"
proof -
  have "length (c_str (d_name m p e)) \<le> length (d_name m p e)"
    unfolding c_str_def by (rule length_takeWhile_le)
  then show ?thesis by (simp add: entry_name_def)
qed

lemma strncmp_name_match: "c_strncmp MAX_FILE_NAME (d_name m p e) n = 0 \<longleftrightarrow> name_match m p n e"
  by (simp add: c_strncmp_eq_0_iff name_match_def entry_name_def)

lemma name_match_good: "good_name n \<Longrightarrow> name_match m p n e \<longleftrightarrow> entry_name m p e = n"
  using length_entry_name [of m p e] by (simp add: name_match_def good_name_def c_str_id)

section \<open>Searching\<close>

lemma find_entry_found:
  "find_entry m p n i = r \<Longrightarrow> r \<noteq> -1 \<Longrightarrow>
    \<exists>e\<ge>i. live m p e \<and> name_match m p n e \<and> d_inumber m p e = r"
proof (induction m p n i rule: find_entry.induct)
  case (1 m p n i)
  then show ?case
    by (subst (asm) (2) find_entry.simps)
       (auto simp: strncmp_name_match live_def split: if_splits intro: Suc_leD)
qed

lemma find_entry_none:
  "find_entry m p n i = -1 \<Longrightarrow> i \<le> e \<Longrightarrow> live m p e \<Longrightarrow> \<not> name_match m p n e"
proof (induction m p n i rule: find_entry.induct)
  case (1 m p n i)
  then show ?case
    by (cases "i = e")
       (auto simp: strncmp_name_match live_def find_entry.simps [of m p n i]
          find_entry.simps [of m p n e] split: if_splits)
qed

lemma find_entry_unique:
  assumes "live m p e" and "name_match m p n e"
    and "\<And>e'. live m p e' \<Longrightarrow> name_match m p n e' \<Longrightarrow> e' = e"
  shows "find_entry m p n 0 = d_inumber m p e"
proof (cases "find_entry m p n 0 = -1")
  case True
  then show ?thesis using find_entry_none [OF True _ assms(1)] assms(2) by simp
next
  case False
  from find_entry_found [OF refl False] obtain e' where
    "live m p e'" "name_match m p n e'" "d_inumber m p e' = find_entry m p n 0" by blast
  with assms(3) show ?thesis by metis
qed

lemma find_entry_absent: "(\<And>e. live m p e \<Longrightarrow> \<not> name_match m p n e) \<Longrightarrow> find_entry m p n 0 = -1"
  using find_entry_found [OF refl, of m p n 0] by metis

lemma free_entry_Some: "free_entry m p i = Some e \<Longrightarrow> i \<le> e \<and> e < MAX_DIR_ENTRIES \<and> d_inumber m p e = -1"
proof (induction m p i rule: free_entry.induct)
  case (1 m p i)
  then show ?case
    by (auto simp: free_entry.simps [of m p i] split: if_splits)
qed

lemma free_entry_None: "free_entry m p i = None \<Longrightarrow> i \<le> e \<Longrightarrow> e < MAX_DIR_ENTRIES \<Longrightarrow> live m p e"
proof (induction m p i rule: free_entry.induct)
  case (1 m p i)
  then show ?case
    by (cases "i = e") (auto simp: live_def free_entry.simps [of m p i] free_entry.simps [of m p e] split: if_splits)
qed

text \<open>An array without a free entry is one with as many live entries as fit.\<close>

lemma dir_full_card: "free_entry m p 0 = None \<longleftrightarrow> card {e. live m p e} = MAX_DIR_ENTRIES"
proof -
  have sub: "{e. live m p e} \<subseteq> {..<MAX_DIR_ENTRIES}" by (auto simp: live_def)
  have "free_entry m p 0 = None \<longleftrightarrow> {e. live m p e} = {..<MAX_DIR_ENTRIES}"
  proof (cases "free_entry m p 0")
    case None
    with sub show ?thesis using free_entry_None [OF None] by auto
  next
    case (Some e)
    have "e \<in> {..<MAX_DIR_ENTRIES} - {e. live m p e}" using free_entry_Some [OF Some] by (simp add: live_def)
    with Some show ?thesis by auto
  qed
  also have "\<dots> \<longleftrightarrow> card {e. live m p e} = MAX_DIR_ENTRIES"
  proof
    assume "card {e. live m p e} = MAX_DIR_ENTRIES"
    then show "{e. live m p e} = {..<MAX_DIR_ENTRIES}" by (intro card_subset_eq sub) simp_all
  qed simp
  finally show ?thesis .
qed

lemma card_live_le: "card {e. live m p e} \<le> MAX_DIR_ENTRIES"
proof -
  have "{e. live m p e} \<subseteq> {..<MAX_DIR_ENTRIES}" by (auto simp: live_def)
  then show ?thesis by (metis card_mono card_lessThan finite_lessThan)
qed

section \<open>Reading entries back\<close>

text \<open>The address range of entry \<open>e\<close> ends before the next entry and before the end of the block.\<close>

lemma entry_order: "e < e' \<Longrightarrow> sizeof_dir_entry * e + sizeof_dir_entry \<le> sizeof_dir_entry * e'"
  using mult_le_mono2 [of "Suc e" e' sizeof_dir_entry] by simp

text \<open>The memory after the stores of \<open>add_dir_entry\<close> into entry \<open>e\<close>.\<close>

definition put_entry :: "nat \<Rightarrow> nat \<Rightarrow> int \<Rightarrow> cstring \<Rightarrow> memory \<Rightarrow> memory" where
  "put_entry p e v n m =
     (let m = set_d_inumber p e v m;
          m = set_d_name p e (c_strncpy (MAX_FILE_NAME - 1) n) m
      in m(p + sizeof_dir_entry * e + (MAX_FILE_NAME - 1) := 0))"

lemma put_entry_outside:
  "a < p + sizeof_dir_entry * e \<or> p + sizeof_dir_entry * e + sizeof_dir_entry \<le> a \<Longrightarrow>
    put_entry p e v n m a = m a"
  by (auto simp: put_entry_def set_d_name_def set_d_inumber_def config mem_write_def store_int_def)

lemma put_entry_other_block:
  assumes "sizeof_dir_entry * e + sizeof_dir_entry \<le> BLOCK_SIZE" and "b \<noteq> b'" and "k < BLOCK_SIZE"
  shows "put_entry (b * BLOCK_SIZE) e v n m (b' * BLOCK_SIZE + k) = m (b' * BLOCK_SIZE + k)"
proof (rule put_entry_outside)
  show "b' * BLOCK_SIZE + k < b * BLOCK_SIZE + sizeof_dir_entry * e \<or>
    b * BLOCK_SIZE + sizeof_dir_entry * e + sizeof_dir_entry \<le> b' * BLOCK_SIZE + k"
    using assms block_ranges [of b b' k] by linarith
qed

lemma d_inumber_put_entry: "int_ok v \<Longrightarrow> d_inumber (put_entry p e v n m) p e = v"
proof -
  let ?a = "p + sizeof_dir_entry * e + MAX_FILE_NAME"
  assume "int_ok v"
  have "d_inumber (put_entry p e v n m) p e = load_int (store_int ?a v m) ?a"
    unfolding d_inumber_def
    by (rule load_int_cong) (simp add: put_entry_def set_d_name_def set_d_inumber_def config mem_write_def)
  then show ?thesis using \<open>int_ok v\<close> by simp
qed

lemma d_name_put_entry: "d_name (put_entry p e v n m) p e = c_strncpy (MAX_FILE_NAME - 1) n @ [0]"
proof (rule nth_equalityI)
  fix i assume "i < length (d_name (put_entry p e v n m) p e)"
  then have "i < 40" by (simp add: config)
  then show "d_name (put_entry p e v n m) p e ! i = (c_strncpy (MAX_FILE_NAME - 1) n @ [0]) ! i"
    by (auto simp: d_name_def put_entry_def set_d_name_def mem_write_def nth_append config)
qed (simp add: config)

lemma entry_name_put_entry:
  "0 \<notin> set n \<Longrightarrow> entry_name (put_entry p e v n m) p e = take (MAX_FILE_NAME - 1) n"
  by (simp add: entry_name_def d_name_put_entry c_str_strncpy del: c_str_append_zero)

lemma other_entry_put_entry:
  assumes "e' \<noteq> e"
  shows "d_inumber (put_entry p e v n m) p e' = d_inumber m p e'"
    and "entry_name (put_entry p e v n m) p e' = entry_name m p e'"
proof -
  have *: "put_entry p e v n m (p + sizeof_dir_entry * e' + i) = m (p + sizeof_dir_entry * e' + i)"
    if "i < sizeof_dir_entry" for i
    using that assms entry_order [of e e'] entry_order [of e' e]
    by (intro put_entry_outside) (auto simp: nat_neq_iff)
  show "d_inumber (put_entry p e v n m) p e' = d_inumber m p e'"
    unfolding d_inumber_def using *
    by (intro load_int_cong) (simp add: add.assoc, simp add: config)
  show "entry_name (put_entry p e v n m) p e' = entry_name m p e'"
    unfolding entry_name_def d_name_def using *
    by (intro arg_cong [where f = c_str] mem_read_cong) (simp add: config)
qed

text \<open>Two memories that agree on the block have the same entries.\<close>

lemma entries_cong:
  assumes "\<And>i. i < BLOCK_SIZE \<Longrightarrow> m (p + i) = m' (p + i)" and "e < MAX_DIR_ENTRIES"
  shows "d_inumber m p e = d_inumber m' p e" and "entry_name m p e = entry_name m' p e"
proof -
  have *: "m (p + sizeof_dir_entry * e + i) = m' (p + sizeof_dir_entry * e + i)"
    if "i < sizeof_dir_entry" for i
    using that assms(1) [of "sizeof_dir_entry * e + i"] dir_entry_in_block [OF assms(2)]
    by (simp add: add.assoc)
  show "d_inumber m p e = d_inumber m' p e"
    unfolding d_inumber_def using *
    by (intro load_int_cong) (simp add: add.assoc, simp add: config)
  show "entry_name m p e = entry_name m' p e"
    unfolding entry_name_def d_name_def using *
    by (intro arg_cong [where f = c_str] mem_read_cong) (simp add: config)
qed

lemma find_entry_cong:
  assumes "\<And>e. e < MAX_DIR_ENTRIES \<Longrightarrow> d_inumber m p e = d_inumber m' p e"
    and "\<And>e. e < MAX_DIR_ENTRIES \<Longrightarrow> entry_name m p e = entry_name m' p e"
  shows "find_entry m p n i = find_entry m' p n i"
proof (induction "MAX_DIR_ENTRIES - i" arbitrary: i)
  case 0
  then show ?case by (simp add: find_entry.simps [of _ p n i])
next
  case (Suc k)
  then have "find_entry m p n (Suc i) = find_entry m' p n (Suc i)" by simp
  moreover have "name_match m p n i \<longleftrightarrow> name_match m' p n i" if "i < MAX_DIR_ENTRIES"
    using assms(2) [OF that] by (simp add: name_match_def)
  ultimately show ?case
    using assms(1) by (simp add: find_entry.simps [of _ p n i] strncmp_name_match)
qed

text \<open>A block whose bytes are unchanged is the same directory.\<close>

lemma same_block_entries:
  assumes "\<And>c. c < BLOCK_SIZE \<Longrightarrow> m' (p + c) = m (p + c)"
  shows "live m' p = live m p" and "find_entry m' p n i = find_entry m p n i"
    and "live m p e \<Longrightarrow> entry_name m' p e = entry_name m p e"
    and "bij_betw (d_inumber m' p) {e. live m p e} B \<longleftrightarrow> bij_betw (d_inumber m p) {e. live m p e} B"
proof -
  have e: "d_inumber m' p e = d_inumber m p e" "entry_name m' p e = entry_name m p e" if "e < MAX_DIR_ENTRIES" for e
    using entries_cong [of m' p m e] assms that by auto
  then show live: "live m' p = live m p" by (auto simp: live_def fun_eq_iff)
  show "find_entry m' p n i = find_entry m p n i" using e by (rule find_entry_cong)
  show "live m p e \<Longrightarrow> entry_name m' p e = entry_name m p e" using e by (simp add: live_def)
  show "bij_betw (d_inumber m' p) {e. live m p e} B \<longleftrightarrow> bij_betw (d_inumber m p) {e. live m p e} B"
    using e by (intro bij_betw_cong) (simp add: live_def)
qed

section \<open>Emptying a directory\<close>

lemma clear_entries_outside:
  "a < p \<or> p + sizeof_dir_entry * n \<le> a \<Longrightarrow> clear_entries p n m a = m a"
  by (induction n) (auto simp: set_d_inumber_def store_int_outside config)

lemma clear_entries_inumber: "e < n \<Longrightarrow> d_inumber (clear_entries p n m) p e = -1"
proof (induction n)
  case 0
  then show ?case by simp
next
  case (Suc n)
  show ?case
  proof (cases "e = n")
    case True
    then show ?thesis by (simp add: d_inumber_def set_d_inumber_def int_ok_def)
  next
    case False
    with Suc.prems have "e < n" by simp
    moreover have "d_inumber (clear_entries p (Suc n) m) p e = d_inumber (clear_entries p n m) p e"
      using entry_order [OF \<open>e < n\<close>] unfolding d_inumber_def
      by (simp add: set_d_inumber_def load_store_int_disjoint config)
    ultimately show ?thesis using Suc.IH by simp
  qed
qed

section \<open>The interface of a directory\<close>

text \<open>
  A directory answers -1 for a name it does not hold. Inserting an absent name makes a lookup of
  it return the inserted value and changes no other lookup; \<open>None\<close> is a full directory.
\<close>

locale directory =
  fixes lookup :: "'n \<Rightarrow> 's \<Rightarrow> int"
    and insert_name :: "'n \<Rightarrow> int \<Rightarrow> 's \<Rightarrow> 's option"
    and ok :: "'s \<Rightarrow> bool"
    and name_ok :: "'n \<Rightarrow> bool"
    and value_ok :: "int \<Rightarrow> bool"
  assumes lookup_insert: "ok s \<Longrightarrow> name_ok n \<Longrightarrow> value_ok v \<Longrightarrow> lookup n s = -1 \<Longrightarrow>
      insert_name n v s = Some s' \<Longrightarrow> lookup n s' = v"
    and lookup_insert_other: "ok s \<Longrightarrow> name_ok n \<Longrightarrow> value_ok v \<Longrightarrow> lookup n s = -1 \<Longrightarrow>
      insert_name n v s = Some s' \<Longrightarrow> name_ok n' \<Longrightarrow> n' \<noteq> n \<Longrightarrow> lookup n' s' = lookup n' s"
    and ok_insert: "ok s \<Longrightarrow> name_ok n \<Longrightarrow> value_ok v \<Longrightarrow> lookup n s = -1 \<Longrightarrow>
      insert_name n v s = Some s' \<Longrightarrow> ok s'"
    and value_not_absent: "value_ok v \<Longrightarrow> v \<noteq> -1"
begin

primrec insert_all :: "('n \<times> int) list \<Rightarrow> 's \<Rightarrow> 's option" where
  "insert_all [] s = Some s"
| "insert_all (x # xs) s = (case insert_name (fst x) (snd x) s of
     None \<Rightarrow> None | Some s' \<Rightarrow> insert_all xs s')"

text \<open>After any sequence of insertions of distinct absent names, each is found with its value.\<close>

lemma lookup_insert_all:
  assumes "ok s" and "distinct (map fst xs)" and "\<forall>(n, v) \<in> set xs. name_ok n \<and> value_ok v \<and> lookup n s = -1"
    and "insert_all xs s = Some s'" and "name_ok n"
  shows "lookup n s' = (case map_of xs n of None \<Rightarrow> lookup n s | Some v \<Rightarrow> v)"
  using assms
proof (induction xs arbitrary: s)
  case Nil
  then show ?case by simp
next
  case (Cons x xs)
  obtain k v where x: "x = (k, v)" by (cases x)
  from Cons.prems x obtain s1 where s1: "insert_name k v s = Some s1" "insert_all xs s1 = Some s'"
    by (auto split: option.splits)
  from Cons.prems x have k: "name_ok k" "value_ok v" "lookup k s = -1" by auto
  have other: "lookup n' s1 = lookup n' s" if "name_ok n'" "n' \<noteq> k" for n'
    using lookup_insert_other [OF Cons.prems(1) k s1(1) that] .
  have found: "lookup k s1 = v" using lookup_insert [OF Cons.prems(1) k s1(1)] .
  have "lookup n s' = (case map_of xs n of None \<Rightarrow> lookup n s1 | Some v \<Rightarrow> v)"
  proof (rule Cons.IH [OF ok_insert [OF Cons.prems(1) k s1(1)] _ _ s1(2) Cons.prems(5)])
    show "distinct (map fst xs)" using Cons.prems(2) by simp
    show "\<forall>(n, v) \<in> set xs. name_ok n \<and> value_ok v \<and> lookup n s1 = -1"
      using Cons.prems(2,3) x other by (fastforce simp: image_iff)
  qed
  moreover have "map_of xs k = None"
    using Cons.prems(2) x by (auto simp: map_of_eq_None_iff)
  ultimately show ?case
    using other [OF Cons.prems(5)] found x by (auto split: option.splits)
qed

end

text \<open>The array of entries at \<open>p\<close> is a directory while its names are distinct.\<close>

definition distinct_names :: "memory \<Rightarrow> nat \<Rightarrow> bool" where
  "distinct_names m p \<longleftrightarrow> inj_on (entry_name m p) {e. live m p e}"

definition insert_entry :: "nat \<Rightarrow> cstring \<Rightarrow> int \<Rightarrow> memory \<Rightarrow> memory option" where
  "insert_entry p n v m = map_option (\<lambda>e. put_entry p e v n m) (free_entry m p 0)"

lemma live_put_entry:
  assumes "e < MAX_DIR_ENTRIES" and "int_ok v" and "v \<noteq> -1"
  shows "live (put_entry p e v n m) p e' \<longleftrightarrow> e' = e \<or> live m p e'"
  using assms by (cases "e' = e") (auto simp: live_def d_inumber_put_entry other_entry_put_entry)

lemma entry_name_put_good:
  "good_name n \<Longrightarrow> entry_name (put_entry p e v n m) p e = n"
  by (simp add: entry_name_put_entry good_name_def config)

lemma find_put_entry:
  assumes "distinct_names m p" and "good_name n" and "find_entry m p n 0 = -1"
    and "free_entry m p 0 = Some e" and "int_ok v" and "v \<noteq> -1" and "good_name n'"
  shows "find_entry (put_entry p e v n m) p n' 0 = (if n' = n then v else find_entry m p n' 0)"
    and "distinct_names (put_entry p e v n m) p"
proof -
  let ?m = "put_entry p e v n m"
  have e: "e < MAX_DIR_ENTRIES" "\<not> live m p e"
    using free_entry_Some [OF assms(4)] by (auto simp: live_def)
  have live: "live ?m p e' \<longleftrightarrow> e' = e \<or> live m p e'" for e'
    using live_put_entry [OF e(1) assms(5,6)] .
  have name: "entry_name ?m p e' = (if e' = e then n else entry_name m p e')" for e'
    using entry_name_put_good [OF assms(2)] other_entry_put_entry(2) by auto
  have val: "d_inumber ?m p e' = (if e' = e then v else d_inumber m p e')" for e'
    using d_inumber_put_entry [OF assms(5)] other_entry_put_entry(1) by auto
  have absent: "live m p e' \<Longrightarrow> entry_name m p e' \<noteq> n" for e'
    using find_entry_none [OF assms(3), of e'] name_match_good [OF assms(2)] by auto
  show "distinct_names ?m p"
    using assms(1) absent e by (auto simp: distinct_names_def inj_on_def live name)
  show "find_entry ?m p n' 0 = (if n' = n then v else find_entry m p n' 0)"
  proof (cases "\<exists>e'. live ?m p e' \<and> entry_name ?m p e' = n'")
    case True
    then obtain e' where e': "live ?m p e'" "entry_name ?m p e' = n'" by blast
    have "find_entry ?m p n' 0 = d_inumber ?m p e'"
      by (rule find_entry_unique)
         (use e' assms(1,7) absent in \<open>auto simp: name_match_good live name distinct_names_def inj_on_def
            split: if_splits\<close>)
    moreover have "find_entry m p n' 0 = d_inumber m p e'" if "n' \<noteq> n"
      by (rule find_entry_unique)
         (use that e' assms(1,7) in \<open>auto simp: name_match_good live name distinct_names_def inj_on_def
            split: if_splits\<close>)
    ultimately show ?thesis using e' absent by (auto simp: val name live split: if_splits)
  next
    case False
    then have "n' \<noteq> n" using live name by auto
    moreover from False assms(7) have "find_entry ?m p n' 0 = -1"
      by (intro find_entry_absent) (auto simp: name_match_good)
    moreover have "find_entry m p n' 0 = -1"
      using False assms(7) e(2) by (intro find_entry_absent) (auto simp: name_match_good live name split: if_splits)
    ultimately show ?thesis by simp
  qed
qed

interpretation dir: directory "\<lambda>n m. find_entry m p n 0" "insert_entry p" "\<lambda>m. distinct_names m p"
  good_name "\<lambda>v. int_ok v \<and> v \<noteq> -1" for p
  by unfold_locales (auto simp: insert_entry_def find_put_entry)

end
