(* ===== verification/FS_Inv.thy ===== *)
theory FS_Inv
  imports FS_Ops FS_Dir
begin

text \<open>
  The well-formedness invariant of the file system and its preservation by every operation: the
  root directory, the ownership of data blocks by i-nodes (a one-to-one correspondence with the
  blocks marked TAKEN, so no block is shared and none is leaked), the directory (a one-to-one
  correspondence between live entries and file i-nodes), the open file table and its counter.
\<close>

section \<open>The invariant\<close>

definition blk :: "fs_state \<Rightarrow> nat \<Rightarrow> nat" where
  "blk s i = nat (i_data_block (inode_table s i))"

definition dir_addr :: "fs_state \<Rightarrow> nat" where
  "dir_addr s = blk s 0 * BLOCK_SIZE"

definition is_file :: "fs_state \<Rightarrow> nat \<Rightarrow> bool" where
  "is_file s i \<longleftrightarrow> 0 < i \<and> i < INODE_TABLE_SIZE \<and> freeinode_ts s i = TAKEN"

definition owner :: "fs_state \<Rightarrow> nat \<Rightarrow> bool" where
  "owner s i \<longleftrightarrow> i = 0 \<or> is_file s i \<and> i_size (inode_table s i) \<noteq> 0"

definition root_ok :: "fs_state \<Rightarrow> bool" where
  "root_ok s \<longleftrightarrow> freeinode_ts s 0 = TAKEN \<and> i_node_type (inode_table s 0) = T_DIRECTORY \<and>
     i_size (inode_table s 0) = of_nat BLOCK_SIZE"

definition types_ok :: "fs_state \<Rightarrow> bool" where
  "types_ok s \<longleftrightarrow> (\<forall>i. is_file s i \<longrightarrow> i_node_type (inode_table s i) = T_FILE)"

definition blocks_ok :: "fs_state \<Rightarrow> bool" where
  "blocks_ok s \<longleftrightarrow>
     (\<forall>i. owner s i \<longrightarrow> valid_block_number (i_data_block (inode_table s i)) \<and>
        i_size (inode_table s i) \<le> of_nat BLOCK_SIZE) \<and>
     bij_betw (blk s) {i. owner s i} {b. b < DATA_BLOCKS \<and> free_blocks s b = TAKEN}"

definition dir_ok :: "fs_state \<Rightarrow> bool" where
  "dir_ok s \<longleftrightarrow> bij_betw (d_inumber (fs_data s) (dir_addr s)) {e. live (fs_data s) (dir_addr s) e}
     (int ` {i. is_file s i})"

definition handles_ok :: "fs_state \<Rightarrow> bool" where
  "handles_ok s \<longleftrightarrow> (\<forall>f. f < MAX_OPEN_FILES \<and> free_open_file_entries s f = TAKEN \<longrightarrow>
     of_inumber (open_file_table s f) \<in> int ` {i. is_file s i})"

definition count_ok :: "fs_state \<Rightarrow> bool" where
  "count_ok s \<longleftrightarrow> open_files_count s = int (handles.used s)"

definition wf_core :: "fs_state \<Rightarrow> bool" where
  "wf_core s \<longleftrightarrow> root_ok s \<and> types_ok s \<and> blocks_ok s \<and> dir_ok s \<and> handles_ok s \<and> count_ok s"

text \<open>Between two operations both mutexes are free.\<close>

definition unlocked :: "fs_state \<Rightarrow> bool" where
  "unlocked s \<longleftrightarrow> open_files_mutex s = Unlocked \<and> single_global_lock s = Unlocked"

definition wf :: "fs_state \<Rightarrow> bool" where
  "wf s \<longleftrightarrow> wf_core s \<and> unlocked s"

lemmas wf_parts = root_ok_def types_ok_def blocks_ok_def dir_ok_def handles_ok_def count_ok_def
lemmas view_defs = blk_def dir_addr_def is_file_def owner_def

text \<open>Locks and the open flag are no part of the core.\<close>

lemma view_locks [simp]:
  "blk (s\<lparr>open_files_mutex := m\<rparr>) = blk s" "blk (s\<lparr>single_global_lock := m\<rparr>) = blk s"
  "blk (s\<lparr>open_flag := v\<rparr>) = blk s"
  "is_file (s\<lparr>open_files_mutex := m\<rparr>) = is_file s" "is_file (s\<lparr>single_global_lock := m\<rparr>) = is_file s"
  "is_file (s\<lparr>open_flag := v\<rparr>) = is_file s"
  by (auto simp: view_defs fun_eq_iff)

lemma wf_core_locks [simp]:
  "wf_core (s\<lparr>open_files_mutex := m\<rparr>) = wf_core s"
  "wf_core (s\<lparr>single_global_lock := m\<rparr>) = wf_core s"
  "wf_core (s\<lparr>open_flag := v\<rparr>) = wf_core s"
  by (simp_all add: wf_core_def wf_parts owner_def dir_addr_def handles.used_def)

section \<open>Consequences\<close>

lemma root_block:
  assumes "wf_core s"
  shows "data_block_get (i_data_block (inode_table s 0)) = Some (dir_addr s)"
    and "blk s 0 < DATA_BLOCKS"
  using assms by (auto simp: wf_core_def blocks_ok_def owner_def data_block_get_def dir_addr_def blk_def
    valid_block_number_def)

lemma owner_block:
  assumes "wf_core s" and "owner s i"
  shows "data_block_get (i_data_block (inode_table s i)) = Some (blk s i * BLOCK_SIZE)"
    and "blk s i < DATA_BLOCKS" and "free_blocks s (blk s i) = TAKEN"
    and "unat (i_size (inode_table s i)) \<le> BLOCK_SIZE"
proof -
  from assms have v: "valid_block_number (i_data_block (inode_table s i))"
    and sz: "i_size (inode_table s i) \<le> of_nat BLOCK_SIZE"
    and bij: "bij_betw (blk s) {i. owner s i} {b. b < DATA_BLOCKS \<and> free_blocks s b = TAKEN}"
    by (auto simp: wf_core_def blocks_ok_def)
  from v show "data_block_get (i_data_block (inode_table s i)) = Some (blk s i * BLOCK_SIZE)"
    by (simp add: data_block_get_def blk_def)
  from bij_betwE [OF bij] assms(2)
  show "blk s i < DATA_BLOCKS" "free_blocks s (blk s i) = TAKEN" by auto
  from sz show "unat (i_size (inode_table s i)) \<le> BLOCK_SIZE"
    by (simp add: word_le_nat_alt config)
qed

text \<open>Two different owners have different blocks.\<close>

lemma owner_blk_inj:
  assumes "wf_core s" and "owner s i" and "owner s j" and "blk s i = blk s j"
  shows "i = j"
proof -
  have "inj_on (blk s) {i. owner s i}"
    using assms(1) by (auto simp: wf_core_def blocks_ok_def bij_betw_def)
  with assms(2-4) show ?thesis by (auto dest: inj_onD)
qed

lemma owner_root [simp]: "owner s 0"
  by (simp add: owner_def)

lemma open_handle:
  assumes "wf_core s" and "f < MAX_OPEN_FILES" and "free_open_file_entries s f = TAKEN"
  obtains i where "of_inumber (open_file_table s f) = int i" and "is_file s i"
    and "inode_get (of_inumber (open_file_table s f)) = Some i"
  using assms by (auto simp: wf_core_def handles_ok_def inode_get_def valid_inumber_def is_file_def)

text \<open>What a lookup in the root directory finds is the i-node of a live entry.\<close>

lemma find_in_root:
  assumes "wf_core s"
  shows "find_in_dir ROOT_DIR_INUM n s = find_entry (fs_data s) (dir_addr s) n 0"
  using root_block [OF assms] assms
  by (simp add: find_in_dir_def valid_inumber_def ROOT_DIR_INUM_def wf_core_def root_ok_def config)

lemma live_is_file:
  assumes "wf_core s" and "live (fs_data s) (dir_addr s) e"
  obtains i where "d_inumber (fs_data s) (dir_addr s) e = int i" and "is_file s i"
  using assms by (auto simp: wf_core_def dir_ok_def dest: bij_betwE)

lemma find_in_root_file:
  assumes "wf_core s" and "find_in_dir ROOT_DIR_INUM n s \<noteq> -1"
  obtains i where "find_in_dir ROOT_DIR_INUM n s = int i" and "is_file s i"
proof -
  from assms find_in_root [OF assms(1)] obtain e where
    "live (fs_data s) (dir_addr s) e" "d_inumber (fs_data s) (dir_addr s) e = find_in_dir ROOT_DIR_INUM n s"
    using find_entry_found by metis
  with that show ?thesis using live_is_file [OF assms(1)] by metis
qed

text \<open>At most 50 of the 1024 blocks are ever taken, so an allocation succeeds.\<close>

lemma some_block_free:
  assumes "wf_core s"
  shows "\<exists>b<DATA_BLOCKS. free_blocks s b = FREE"
proof -
  have "{i. owner s i} \<subseteq> {..<INODE_TABLE_SIZE}"
    by (auto simp: owner_def is_file_def config)
  then have "card {i. owner s i} \<le> INODE_TABLE_SIZE"
    using card_mono [of "{..<INODE_TABLE_SIZE}" "{i. owner s i}"] by simp
  moreover have "card {i. owner s i} = blocks.used s"
    using assms by (auto simp: wf_core_def blocks_ok_def blocks.used_def dest: bij_betw_same_card)
  ultimately have "blocks.used s \<noteq> DATA_BLOCKS" by (auto simp: config)
  then show ?thesis by (auto simp: blocks.used_full)
qed

lemma alloc_under_wf:
  assumes "wf_core s"
  obtains b where "data_block_alloc s = (int b, put_block b TAKEN s)" and "b < DATA_BLOCKS"
    and "free_blocks s b = FREE"
  using some_block_free [OF assms]
  by (cases rule: first_free_cases [of "free_blocks s" DATA_BLOCKS])
     (auto simp: data_block_alloc_def)

end
