(* ===== verification/FS_Preserve.thy ===== *)
theory FS_Preserve
  imports FS_Inv
begin

text \<open>
  Every operation of the file system keeps the invariant: lemmas for the building blocks of the
  state layer first, then for the operations.
\<close>

section \<open>Handles\<close>

lemma add_handle_eq:
  "open_files_mutex s = Unlocked \<Longrightarrow>
   add_to_open_file_table inumber offset s =
     (case first_free (free_open_file_entries s) 0 MAX_OPEN_FILES of
        None \<Rightarrow> Ok (-1, s)
      | Some f \<Rightarrow> Ok (int f, s\<lparr>free_open_file_entries := (free_open_file_entries s)(f := TAKEN),
          open_file_table := (open_file_table s)(f := \<lparr>of_inumber = inumber, of_offset = offset\<rparr>),
          open_files_count := open_files_count s + 1\<rparr>))"
  by (cases s) (simp add: add_to_open_file_table_def put_defs Let_def split: option.splits)

lemma wf_core_add_handle:
  assumes "wf_core s" and "is_file s i" and "add_to_open_file_table (int i) offset s = Ok (r, s')"
  shows "wf_core s'"
proof (cases "r = -1")
  case True
  with assms(3) have "s' = s"
    by (auto simp: add_to_open_file_table_def Let_def outcome_simps split: option.splits)
  with assms(1) show ?thesis by simp
next
  case False
  then obtain f where f: "r = int f" "f < MAX_OPEN_FILES" "free_open_file_entries s f = FREE"
    and s': "s' = s\<lparr>open_files_mutex := Unlocked,
        free_open_file_entries := (free_open_file_entries s)(f := TAKEN),
        open_file_table := (open_file_table s)(f := \<lparr>of_inumber = int i, of_offset = offset\<rparr>),
        open_files_count := open_files_count s + 1\<rparr>"
    using assms(3)
    by (cases rule: first_free_cases [of "free_open_file_entries s" MAX_OPEN_FILES])
       (auto simp: add_to_open_file_table_def put_defs Let_def outcome_simps)
  have "handles.used s' = Suc (handles.used s)"
    using handles.alloc_used [OF assms(3)] False by simp
  with assms(1,2) f s' show ?thesis
    by (auto simp: wf_core_def wf_parts owner_def is_file_def blk_def [abs_def] dir_addr_def)
qed

lemma wf_core_remove_handle:
  assumes "wf_core s" and "remove_from_open_file_table fhandle s = Ok (r, s')"
  shows "wf_core s'"
proof (cases "valid_file_handle fhandle \<and> free_open_file_entries s (nat fhandle) = TAKEN")
  case True
  with assms(2) have r: "r = 0" and
    s': "s' = s\<lparr>open_files_mutex := Unlocked, open_files_count := open_files_count s - 1,
        free_open_file_entries := (free_open_file_entries s)(nat fhandle := FREE)\<rparr>"
    by (auto simp: remove_from_open_file_table_def put_defs Let_def outcome_simps)
  have "Suc (handles.used s') = handles.used s"
    using handles.release_used [of fhandle s s'] assms(2) r True by simp
  with assms(1) s' show ?thesis
    by (auto simp: wf_core_def wf_parts owner_def is_file_def blk_def [abs_def] dir_addr_def)
next
  case False
  with assms(2) have "s' = s" by (auto simp: remove_from_open_file_table_def)
  with assms(1) show ?thesis by simp
qed

lemma remove_handle_eq:
  "open_files_mutex s = Unlocked \<Longrightarrow>
   remove_from_open_file_table fhandle s =
     (if valid_file_handle fhandle \<and> free_open_file_entries s (nat fhandle) = TAKEN
      then Ok (0, s\<lparr>open_files_count := open_files_count s - 1,
             free_open_file_entries := (free_open_file_entries s)(nat fhandle := FREE)\<rparr>)
      else Ok (-1, s))"
  by (cases s) (auto simp: remove_from_open_file_table_def put_defs Let_def)

section \<open>Truncation\<close>

lemma truncate_eq:
  assumes "wf_core s" and "is_file s i"
  shows "truncate_inode i s =
    (0, if i_size (inode_table s i) = 0 then s
        else s\<lparr>free_blocks := (free_blocks s)(blk s i := FREE),
               inode_table := (inode_table s)(i := (inode_table s i)\<lparr>i_size := 0\<rparr>)\<rparr>)"
proof (cases "i_size (inode_table s i) = 0")
  case True
  then show ?thesis by (simp add: truncate_inode_def)
next
  case False
  with assms(2) have "owner s i" by (simp add: owner_def)
  with assms(1) have "valid_block_number (i_data_block (inode_table s i))"
    by (simp add: wf_core_def blocks_ok_def)
  with False show ?thesis
    by (simp add: truncate_inode_def data_block_free_def put_defs blk_def word_gt_0)
qed

lemma wf_core_truncate:
  assumes "wf_core s" and "is_file s i" and "truncate_inode i s = (r, s')"
  shows "wf_core s'"
proof (cases "i_size (inode_table s i) = 0")
  case True
  with assms truncate_eq [OF assms(1,2)] show ?thesis by simp
next
  case False
  with assms truncate_eq [OF assms(1,2)] have
    s': "s' = s\<lparr>free_blocks := (free_blocks s)(blk s i := FREE),
           inode_table := (inode_table s)(i := (inode_table s i)\<lparr>i_size := 0\<rparr>)\<rparr>" by simp
  have i: "i \<noteq> 0" "owner s i" using assms(2) False by (auto simp: is_file_def owner_def)
  have files: "is_file s' = is_file s" and blk: "blk s' = blk s"
    using s' by (auto simp: is_file_def blk_def fun_eq_iff)
  have "{j. owner s' j} = {j. owner s j} - {i}"
    using s' i by (auto simp: owner_def is_file_def)
  moreover have "{b. b < DATA_BLOCKS \<and> free_blocks s' b = TAKEN} =
      {b. b < DATA_BLOCKS \<and> free_blocks s b = TAKEN} - {blk s i}"
    using s' by auto
  ultimately have "bij_betw (blk s') {j. owner s' j} {b. b < DATA_BLOCKS \<and> free_blocks s' b = TAKEN}"
    using assms(1) i blk by (auto simp: wf_core_def blocks_ok_def intro: bij_betw_drop)
  with assms(1) s' files i blk show ?thesis
    by (auto simp: wf_core_def wf_parts dir_addr_def owner_def handles.used_def)
qed

section \<open>Creation\<close>

lemma inode_create_file_eq:
  "inode_create T_FILE s = (case first_free (freeinode_ts s) 0 INODE_TABLE_SIZE of
     None \<Rightarrow> (-1, s)
   | Some i \<Rightarrow> (int i, s\<lparr>freeinode_ts := (freeinode_ts s)(i := TAKEN),
       inode_table := (inode_table s)(i := (inode_table s i)\<lparr>i_node_type := T_FILE, i_size := 0,
         i_data_block := -1\<rparr>)\<rparr>))"
  by (simp add: inode_create_def put_defs Let_def split: option.splits)

lemma add_dir_entry_eq:
  assumes "i_node_type (inode_table s 0) = T_DIRECTORY"
    and "data_block_get (i_data_block (inode_table s 0)) = Some p" and "valid_inumber v"
  shows "add_dir_entry ROOT_DIR_INUM v n s =
    (if n = [] then (-1, s)
     else case free_entry (fs_data s) p 0 of
       None \<Rightarrow> (-1, s)
     | Some e \<Rightarrow> (0, s\<lparr>fs_data := put_entry p e v n (fs_data s)\<rparr>))"
  using assms
  by (simp add: add_dir_entry_def put_entry_def Let_def valid_inumber_def ROOT_DIR_INUM_def
      INODE_TABLE_SIZE_def split: option.splits)

text \<open>
  Creating a file: the first free i-node and the first free entry; without an entry (or with an
  empty name) the i-node is given back.
\<close>

definition created :: "fs_state \<Rightarrow> nat \<Rightarrow> nat \<Rightarrow> cstring \<Rightarrow> fs_state" where
  "created s i e n = s\<lparr>freeinode_ts := (freeinode_ts s)(i := TAKEN),
     inode_table := (inode_table s)(i := (inode_table s i)\<lparr>i_node_type := T_FILE, i_size := 0,
       i_data_block := -1\<rparr>),
     fs_data := put_entry (dir_addr s) e (int i) n (fs_data s)\<rparr>"

lemma wf_core_created:
  assumes "wf_core s" and "i < INODE_TABLE_SIZE" and "freeinode_ts s i = FREE"
    and "free_entry (fs_data s) (dir_addr s) 0 = Some e"
  shows "wf_core (created s i e n)" and "is_file (created s i e n) i"
proof -
  let ?s = "created s i e n" let ?m = "fs_data s" let ?p = "dir_addr s"
  have i0: "0 < i" using assms(1,3) by (cases i) (auto simp: wf_core_def root_ok_def)
  have iok: "int_ok (int i)" "int i \<noteq> -1" using assms(2) by (auto simp: int_ok_def config)
  have e: "e < MAX_DIR_ENTRIES" "\<not> live ?m ?p e"
    using free_entry_Some [OF assms(4)] by (auto simp: live_def)
  have files: "{j. is_file ?s j} = insert i {j. is_file s j}"
    using assms(2) i0 by (auto simp: created_def is_file_def)
  have notfile: "\<not> is_file s i" using assms(3) by (simp add: is_file_def)
  have addr: "dir_addr ?s = ?p" using i0 by (simp add: created_def dir_addr_def blk_def)
  have owners: "owner ?s j \<longleftrightarrow> owner s j" for j
    using assms(3) i0 by (auto simp: owner_def is_file_def created_def)
  have own_i: "\<not> owner s i" using notfile i0 by (simp add: owner_def)
  have blk: "blk ?s j = blk s j" if "owner s j" for j
    using that own_i by (auto simp: created_def blk_def)
  have "bij_betw (blk ?s) {j. owner ?s j} {b. b < DATA_BLOCKS \<and> free_blocks ?s b = TAKEN} \<longleftrightarrow>
      bij_betw (blk s) {j. owner s j} {b. b < DATA_BLOCKS \<and> free_blocks s b = TAKEN}"
    unfolding owners using blk by (subst bij_betw_cong [where g = "blk s"]) (simp_all add: created_def)
  moreover have "inode_table ?s j = inode_table s j" if "owner s j" for j
    using that own_i by (auto simp: created_def)
  ultimately have blocks: "blocks_ok ?s"
    using assms(1) by (simp add: owners wf_core_def blocks_ok_def)
  have "bij_betw ((d_inumber ?m ?p)(e := int i)) (insert e {e. live ?m ?p e})
      (insert (int i) (int ` {j. is_file s j}))"
    using assms(1) e(2) notfile by (intro bij_betw_upd) (auto simp: wf_core_def dir_ok_def)
  moreover have "d_inumber (put_entry ?p e (int i) n ?m) ?p = (d_inumber ?m ?p)(e := int i)"
    using d_inumber_put_entry [OF iok(1)] other_entry_put_entry(1) by (auto simp: fun_eq_iff)
  moreover have "{e'. live (put_entry ?p e (int i) n ?m) ?p e'} = insert e {e. live ?m ?p e}"
    using live_put_entry [OF e(1) iok] by auto
  ultimately have "dir_ok ?s"
    by (simp add: dir_ok_def addr files) (simp add: created_def)
  moreover have "handles_ok ?s"
    using assms(1) files by (auto simp: wf_core_def handles_ok_def created_def)
  ultimately show "wf_core ?s"
    using assms(1) blocks files i0
    by (auto simp: wf_core_def root_ok_def types_ok_def count_ok_def created_def handles.used_def is_file_def)
  show "is_file ?s i" using files by auto
qed

text \<open>What the table holds for i-nodes that are not in use does not matter.\<close>

definition same_used_inodes :: "fs_state \<Rightarrow> (nat \<Rightarrow> inode) \<Rightarrow> bool" where
  "same_used_inodes s t \<longleftrightarrow> (\<forall>j. j = 0 \<or> is_file s j \<longrightarrow> t j = inode_table s j)"

lemma unused_inodes:
  assumes "same_used_inodes s t"
  shows "is_file (s\<lparr>inode_table := t\<rparr>) = is_file s" and "owner (s\<lparr>inode_table := t\<rparr>) = owner s"
    and "dir_addr (s\<lparr>inode_table := t\<rparr>) = dir_addr s"
  using assms by (auto simp: is_file_def owner_def dir_addr_def blk_def same_used_inodes_def fun_eq_iff)

lemma wf_core_unused_inodes:
  assumes "wf_core s" and "same_used_inodes s t"
  shows "wf_core (s\<lparr>inode_table := t\<rparr>)"
proof -
  let ?s = "s\<lparr>inode_table := t\<rparr>"
  note same = unused_inodes [OF assms(2)]
  have node: "t j = inode_table s j" if "owner s j \<or> is_file s j" for j
    using that assms(2) by (auto simp: owner_def same_used_inodes_def)
  have "bij_betw (blk ?s) {j. owner s j} B \<longleftrightarrow> bij_betw (blk s) {j. owner s j} B" for B
    using node by (intro bij_betw_cong) (simp add: blk_def)
  with assms(1) node have "blocks_ok ?s"
    by (auto simp: wf_core_def blocks_ok_def same)
  moreover have "types_ok ?s" using assms(1) node by (auto simp: wf_core_def types_ok_def same)
  moreover have "root_ok ?s" using assms(1) node [of 0] by (simp add: wf_core_def root_ok_def)
  ultimately show ?thesis
    using assms(1) by (simp add: wf_core_def dir_ok_def handles_ok_def count_ok_def same handles.used_def)
qed

text \<open>The creation branch of \<open>tfs_open\<close> before the handle is added.\<close>

definition create_file :: "cstring \<Rightarrow> fs_state \<Rightarrow> (nat \<times> fs_state) option" where
  "create_file n s = (case first_free (freeinode_ts s) 0 INODE_TABLE_SIZE of
     None \<Rightarrow> None
   | Some i \<Rightarrow> (case free_entry (fs_data s) (dir_addr s) 0 of
       None \<Rightarrow> None
     | Some e \<Rightarrow> if n = [] then None else Some (i, created s i e n)))"

lemma wf_core_create_file:
  assumes "wf_core s" and "create_file n s = Some (i, s')"
  shows "wf_core s'" and "is_file s' i"
  using assms wf_core_created [OF assms(1)]
  by (cases rule: first_free_cases [of "freeinode_ts s" INODE_TABLE_SIZE];
      auto simp: create_file_def split: option.splits if_splits)+

lemma open_new_eq:
  assumes "wf_core s" and "tfs_lookup_unsynchronized (Some (c # n)) s < 0" and "flags AND TFS_O_CREAT \<noteq> 0"
  shows "\<exists>t. same_used_inodes s t \<and> tfs_open_unsynchronized (Some (c # n)) flags s =
    (case create_file n s of
       None \<Rightarrow> Ok (-1, s\<lparr>inode_table := t\<rparr>)
     | Some (i, s') \<Rightarrow> add_to_open_file_table (int i) 0 s')"
proof (cases rule: first_free_cases [of "freeinode_ts s" INODE_TABLE_SIZE])
  case full
  with assms have "tfs_open_unsynchronized (Some (c # n)) flags s = Ok (-1, s\<lparr>inode_table := inode_table s\<rparr>)"
    by (auto simp: tfs_open_unsynchronized_def inode_create_file_eq Let_def)
  with full show ?thesis
    by (intro exI [of _ "inode_table s"]) (simp add: create_file_def same_used_inodes_def)
next
  case (found i)
  let ?t = "(inode_table s)(i := (inode_table s i)\<lparr>i_node_type := T_FILE, i_size := 0, i_data_block := -1\<rparr>)"
  let ?s1 = "s\<lparr>freeinode_ts := (freeinode_ts s)(i := TAKEN), inode_table := ?t\<rparr>"
  have i0: "0 < i" using assms(1) found by (cases i) (auto simp: wf_core_def root_ok_def)
  have v: "valid_inumber (int i)" using found by (simp add: valid_inumber_def)
  have same: "same_used_inodes s ?t"
    using i0 found(3) by (auto simp: same_used_inodes_def is_file_def)
  have add: "add_dir_entry ROOT_DIR_INUM (int i) n ?s1 =
    (if n = [] then (-1, ?s1)
     else case free_entry (fs_data s) (dir_addr s) 0 of
       None \<Rightarrow> (-1, ?s1)
     | Some e \<Rightarrow> (0, created s i e n))"
    using i0 assms(1) root_block [OF assms(1)] v
    by (subst add_dir_entry_eq) (auto simp: wf_core_def root_ok_def created_def split: option.splits)
  have "(freeinode_ts s)(i := FREE) = freeinode_ts s" using found(3) by (simp add: fun_upd_idem)
  then have del: "inode_delete (int i) ?s1 = (0, s\<lparr>inode_table := ?t\<rparr>)"
    using v by (simp add: inode_delete_def put_defs)
  show ?thesis
  proof (cases "n = [] \<or> free_entry (fs_data s) (dir_addr s) 0 = None")
    case True
    with assms found add del same show ?thesis
      by (intro exI [of _ ?t])
         (auto simp: tfs_open_unsynchronized_def create_file_def inode_create_file_eq Let_def skip_char_def
           split: option.splits)
  next
    case False
    with assms found add same show ?thesis
      by (intro exI [of _ ?t])
         (auto simp: tfs_open_unsynchronized_def create_file_def inode_create_file_eq Let_def skip_char_def
           split: option.splits)
  qed
qed

text \<open>The branch of \<open>tfs_open\<close> that finds the file.\<close>

lemma open_existing_eq:
  assumes "wf_core s" and "is_file s i" and "tfs_lookup_unsynchronized name s = int i"
  shows "tfs_open_unsynchronized name flags s =
    (let s = (if flags AND TFS_O_TRUNC \<noteq> 0 then snd (truncate_inode i s) else s)
     in add_to_open_file_table (int i) (if flags AND TFS_O_APPEND \<noteq> 0 then i_size (inode_table s i) else 0) s)"
  using assms(3) truncate_eq [OF assms(1,2)] assms(2)
  by (auto simp: tfs_open_unsynchronized_def inode_get_def valid_inumber_def is_file_def Let_def)

lemma lookup_cases:
  assumes "wf_core s"
  obtains (absent) "tfs_lookup_unsynchronized name s = -1"
    | (present) i where "tfs_lookup_unsynchronized name s = int i" and "is_file s i"
proof (cases "tfs_lookup_unsynchronized name s = -1")
  case True
  then show ?thesis by (rule absent)
next
  case False
  with find_in_root_file [OF assms] present show ?thesis
    by (metis tfs_lookup_unsynchronized_def)
qed

lemma wf_core_open:
  assumes "wf_core s" and "tfs_open_unsynchronized name flags s = Ok (r, s')"
  shows "wf_core s'"
proof -
  consider (absent) "tfs_lookup_unsynchronized name s = -1"
    | (present) i where "tfs_lookup_unsynchronized name s = int i" and "is_file s i"
    using lookup_cases [OF assms(1)] by metis
  then show ?thesis
  proof cases
  case (present i)
  let ?s = "if flags AND TFS_O_TRUNC \<noteq> 0 then snd (truncate_inode i s) else s"
  have "wf_core ?s"
    using assms(1) present wf_core_truncate [OF assms(1) present(2)] by (cases "truncate_inode i s") auto
  moreover have "is_file ?s i"
    using present truncate_eq [OF assms(1) present(2)] by (simp add: is_file_def)
  ultimately show ?thesis
    using assms(2) open_existing_eq [OF assms(1) present(2,1)] wf_core_add_handle
    unfolding Let_def by metis
next
  case absent
  show ?thesis
  proof (cases "flags AND TFS_O_CREAT = 0")
    case True
    with absent assms show ?thesis by (simp add: tfs_open_unsynchronized_def)
  next
    case False
    show ?thesis
    proof (cases "\<exists>c n. name = Some (c # n)")
      case True
      then obtain c n where name: "name = Some (c # n)" by blast
      with absent have "tfs_lookup_unsynchronized (Some (c # n)) s < 0" by simp
      from open_new_eq [OF assms(1) this False] obtain t where "same_used_inodes s t" and
        "(case create_file n s of None \<Rightarrow> Ok (-1, s\<lparr>inode_table := t\<rparr>)
          | Some (i, s') \<Rightarrow> add_to_open_file_table (int i) 0 s') = Ok (r, s')"
        using assms(2) name by auto
      moreover from this(1) have "wf_core (s\<lparr>inode_table := t\<rparr>)"
        by (rule wf_core_unused_inodes [OF assms(1)])
      ultimately show ?thesis
        by (auto split: option.splits dest: wf_core_create_file [OF assms(1)]
            intro: wf_core_add_handle [OF _ _, rotated 2])
    next
      case no_name: False
      then have "skip_char name = Fault Undefined"
        by (auto simp: skip_char_def split: option.splits list.splits)
      with absent assms False show ?thesis
        by (cases rule: first_free_cases [of "freeinode_ts s" INODE_TABLE_SIZE])
           (auto simp: tfs_open_unsynchronized_def inode_create_file_eq)
    qed
  qed
qed
qed

section \<open>Reading\<close>

lemma wf_core_offset:
  "wf_core s \<Longrightarrow> wf_core (put_file f (of_offset_update g) s)"
  by (auto simp: wf_core_def wf_parts put_file_def owner_def is_file_def blk_def [abs_def] dir_addr_def
      handles.used_def)

lemma wf_core_read:
  assumes "wf_core s" and "tfs_read_unsynchronized fhandle len s = Ok (r, s')"
  shows "wf_core s'"
  using assms wf_core_offset [OF assms(1)]
  by (auto simp: tfs_read_unsynchronized_def Let_def outcome_simps split: option.splits if_splits)

section \<open>Writing\<close>

lemma write_amount_unat:
  assumes "unat offset \<le> BLOCK_SIZE" and "unat w + unat offset < 18446744073709551616"
  shows "unat (write_amount w offset) = min (unat w) (BLOCK_SIZE - unat offset)"
proof -
  have "unat (w + offset) = unat w + unat offset"
    using assms(2) by (subst unat_add_lem [THEN iffD1]) auto
  moreover have "unat (of_nat BLOCK_SIZE - offset :: size_t) = BLOCK_SIZE - unat offset"
    using assms(1) by (subst unat_sub) (auto simp: word_le_nat_alt config)
  moreover have "unat (of_nat BLOCK_SIZE :: size_t) = BLOCK_SIZE" by (simp add: config)
  ultimately show ?thesis by (auto simp: write_amount_def word_less_nat_alt)
qed

text \<open>The state after \<open>bs\<close> was written through handle \<open>f\<close> into block \<open>b\<close> of i-node \<open>i\<close>.\<close>

definition written :: "fs_state \<Rightarrow> nat \<Rightarrow> nat \<Rightarrow> nat \<Rightarrow> byte list \<Rightarrow> fs_state" where
  "written s f i b bs =
     (let off = of_offset (open_file_table s f); off' = off + of_nat (length bs);
          node = inode_table s i
      in s\<lparr>free_blocks := (free_blocks s)(b := TAKEN),
           inode_table := (inode_table s)(i := node\<lparr>i_data_block := int b, i_size := max (i_size node) off'\<rparr>),
           fs_data := mem_write (fs_data s) (b * BLOCK_SIZE + unat off) bs,
           open_file_table := (open_file_table s)(f := (open_file_table s f)\<lparr>of_offset := off'\<rparr>)\<rparr>)"

text \<open>The block a write through an open handle goes to.\<close>

definition target_block :: "fs_state \<Rightarrow> nat \<Rightarrow> nat" where
  "target_block s i = (if i_size (inode_table s i) = 0 then the (first_free (free_blocks s) 0 DATA_BLOCKS)
     else blk s i)"

lemma target_block_fresh:
  assumes "wf_core s" and "is_file s i"
  shows "target_block s i < DATA_BLOCKS"
    and "i_size (inode_table s i) = 0 \<Longrightarrow> free_blocks s (target_block s i) = FREE"
    and "i_size (inode_table s i) \<noteq> 0 \<Longrightarrow> target_block s i = blk s i"
    and "j \<noteq> i \<Longrightarrow> owner s j \<Longrightarrow> blk s j \<noteq> target_block s i"
proof -
  have new: "target_block s i < DATA_BLOCKS \<and> free_blocks s (target_block s i) = FREE"
    if "i_size (inode_table s i) = 0"
    using some_block_free [OF assms(1)] that
    by (cases rule: first_free_cases [of "free_blocks s" DATA_BLOCKS]) (auto simp: target_block_def)
  have old: "owner s i" "target_block s i = blk s i" if "i_size (inode_table s i) \<noteq> 0"
    using that assms(2) by (auto simp: owner_def target_block_def)
  show "target_block s i < DATA_BLOCKS"
    using new old owner_block(2) [OF assms(1)] by metis
  show "i_size (inode_table s i) = 0 \<Longrightarrow> free_blocks s (target_block s i) = FREE"
    using new by simp
  show "i_size (inode_table s i) \<noteq> 0 \<Longrightarrow> target_block s i = blk s i"
    using old by simp
  assume j: "j \<noteq> i" "owner s j"
  show "blk s j \<noteq> target_block s i"
  proof (cases "i_size (inode_table s i) = 0")
    case True
    with new owner_block(3) [OF assms(1) j(2)] show ?thesis by auto
  next
    case False
    with old owner_blk_inj [OF assms(1) j(2)] j(1) show ?thesis by auto
  qed
qed

text \<open>The allocation step of a write: afterwards the i-node names the target block.\<close>

lemma claim_block_eq:
  assumes "wf_core s" and "is_file s i"
  shows "(if i_size (inode_table s i) = 0 then
      case data_block_alloc s of (b, s) \<Rightarrow> put_inode i (i_data_block_update (\<lambda>_. b)) s else s) =
    s\<lparr>free_blocks := (free_blocks s)(target_block s i := TAKEN),
      inode_table := (inode_table s)(i := (inode_table s i)\<lparr>i_data_block := int (target_block s i)\<rparr>)\<rparr>"
proof (cases "i_size (inode_table s i) = 0")
  case True
  then show ?thesis
    using some_block_free [OF assms(1)]
    by (cases rule: first_free_cases [of "free_blocks s" DATA_BLOCKS])
       (auto simp: data_block_alloc_def target_block_def put_defs)
next
  case False
  then have own: "owner s i" using assms(2) by (simp add: owner_def)
  then have "valid_block_number (i_data_block (inode_table s i))"
    using assms(1) by (simp add: wf_core_def blocks_ok_def)
  then have "int (blk s i) = i_data_block (inode_table s i)" by (simp add: blk_def valid_block_number_def)
  then have "(inode_table s)(i := (inode_table s i)\<lparr>i_data_block := int (blk s i)\<rparr>) = inode_table s"
    by (simp add: fun_upd_idem)
  moreover have "(free_blocks s)(blk s i := TAKEN) = free_blocks s"
    using owner_block(3) [OF assms(1) own] by (simp add: fun_upd_idem)
  ultimately show ?thesis using False by (simp add: target_block_def)
qed

text \<open>A write through an open handle whose offset is inside the block, branch by branch.\<close>

lemma write_eq:
  assumes "wf_core s" and "f < MAX_OPEN_FILES" and "is_file s i"
    and "of_inumber (open_file_table s f) = int i"
    and "unat (of_offset (open_file_table s f)) \<le> BLOCK_SIZE"
    and "unat w \<le> length buffer" and "unat w + unat (of_offset (open_file_table s f)) < 18446744073709551616"
  defines "n \<equiv> min (unat w) (BLOCK_SIZE - unat (of_offset (open_file_table s f)))"
  shows "tfs_write_unsynchronized (int f) buffer w s =
    Ok (int n, if n = 0 then s else written s f i (target_block s i) (take n buffer))"
proof -
  let ?off = "of_offset (open_file_table s f)" and ?w = "write_amount w (of_offset (open_file_table s f))"
  let ?b = "target_block s i"
  have amount: "unat ?w = n" unfolding n_def using assms(5,7) by (rule write_amount_unat)
  then have n: "n \<le> BLOCK_SIZE - unat ?off" "n \<le> length buffer" using assms(6) by (auto simp: n_def)
  have sw: "sint ?w = int n"
    using amount n by (subst sint_small) (auto simp: config)
  have get: "get_open_file_entry (int f) = Some f" "inode_get (of_inumber (open_file_table s f)) = Some i"
    using assms(2-4) by (auto simp: get_open_file_entry_def valid_file_handle_def inode_get_def
        valid_inumber_def is_file_def)
  show ?thesis
  proof (cases "n = 0")
    case True
    with amount have "?w = 0" by (simp add: unat_eq_0)
    with True get show ?thesis by (simp add: tfs_write_unsynchronized_def)
  next
    case False
    then have pos: "?w > 0" using amount by (simp add: word_gt_0 unat_eq_0 [symmetric])
    let ?s = "if i_size (inode_table s i) = 0 then
        case data_block_alloc s of (b, s) \<Rightarrow> put_inode i (i_data_block_update (\<lambda>_. b)) s else s"
    have s1: "?s = s\<lparr>free_blocks := (free_blocks s)(?b := TAKEN),
        inode_table := (inode_table s)(i := (inode_table s i)\<lparr>i_data_block := int ?b\<rparr>)\<rparr>"
      by (rule claim_block_eq [OF assms(1,3)])
    have "data_block_get (int ?b) = Some (?b * BLOCK_SIZE)"
      using target_block_fresh(1) [OF assms(1,3)] by (simp add: data_block_get_def valid_block_number_def)
    moreover have "memcpy_in (?b * BLOCK_SIZE + unat ?off) buffer n (fs_data s) =
        Ok (mem_write (fs_data s) (?b * BLOCK_SIZE + unat ?off) (take n buffer))"
      using n False target_block_fresh(1) [OF assms(1,3)] by (simp add: memcpy_in_def config)
    moreover have "of_nat n = ?w" by (simp flip: amount)
    ultimately show ?thesis
      using False n(2) unfolding tfs_write_unsynchronized_def get option.case Let_def s1 if_P [OF pos]
      by (auto simp: amount sw written_def Let_def put_defs max_def min_absorb2 offset_add size_idem)
  qed
qed

text \<open>A write inside one block changes no byte of another.\<close>

lemma block_write_other:
  assumes "b \<noteq> b'" and "off + length bs \<le> BLOCK_SIZE" and "k < BLOCK_SIZE"
  shows "mem_write m (b * BLOCK_SIZE + off) bs (b' * BLOCK_SIZE + k) = m (b' * BLOCK_SIZE + k)"
  using block_ranges [OF assms(1,3)] assms(2) by (intro mem_write_outside) linarith

lemma dir_ok_cong:
  assumes "dir_addr s' = dir_addr s" and "is_file s' = is_file s"
    and "\<And>k. k < BLOCK_SIZE \<Longrightarrow> fs_data s' (dir_addr s + k) = fs_data s (dir_addr s + k)"
  shows "dir_ok s' \<longleftrightarrow> dir_ok s"
proof -
  have same: "d_inumber (fs_data s') (dir_addr s) e = d_inumber (fs_data s) (dir_addr s) e"
    if "e < MAX_DIR_ENTRIES" for e
    by (rule entries_cong(1)) (use assms(3) that in auto)
  then have "live (fs_data s') (dir_addr s) = live (fs_data s) (dir_addr s)"
    by (auto simp: live_def fun_eq_iff)
  moreover have "bij_betw (d_inumber (fs_data s') (dir_addr s)) {e. live (fs_data s) (dir_addr s) e} B \<longleftrightarrow>
      bij_betw (d_inumber (fs_data s) (dir_addr s)) {e. live (fs_data s) (dir_addr s) e} B" for B
    using same by (intro bij_betw_cong) (simp add: live_def)
  ultimately show ?thesis by (simp add: dir_ok_def assms(1,2))
qed

lemma unat_advance:
  "unat off + n \<le> BLOCK_SIZE \<Longrightarrow> unat (off + of_nat n :: size_t) = unat off + n"
  by (simp add: unat_word_ariths unat_of_nat config)

lemma wf_core_written:
  assumes "wf_core s" and "is_file s i" and "bs \<noteq> []"
    and "unat (of_offset (open_file_table s f)) + length bs \<le> BLOCK_SIZE"
  shows "wf_core (written s f i (target_block s i) bs)"
proof -
  let ?b = "target_block s i" and ?s = "written s f i (target_block s i) bs"
  let ?off = "of_offset (open_file_table s f)" and ?off' = "of_offset (open_file_table s f) + of_nat (length bs)"
  have i0: "i \<noteq> 0" using assms(2) by (simp add: is_file_def)
  have off': "unat ?off' = unat ?off + length bs" using assms(4) by (rule unat_advance)
  then have pos: "?off' \<noteq> 0" "?off' \<le> of_nat BLOCK_SIZE"
    using assms(3,4) by (auto simp: word_le_nat_alt config simp flip: unat_eq_0)
  have node: "inode_table ?s j = (if j = i then (inode_table s i)\<lparr>i_data_block := int ?b,
      i_size := max (i_size (inode_table s i)) ?off'\<rparr> else inode_table s j)" for j
    by (simp add: written_def Let_def)
  have files: "is_file ?s = is_file s" by (auto simp: is_file_def written_def Let_def fun_eq_iff)
  have size': "max (i_size (inode_table s i)) ?off' \<noteq> 0"
    using pos(1) by (auto simp: max_def dest: word_le_0_iff [THEN iffD1])
  have owners: "{j. owner ?s j} = insert i {j. owner s j}"
    using assms(2) size' by (auto simp: owner_def files node)
  have blk: "blk ?s = (blk s)(i := ?b)" by (auto simp: blk_def node fun_eq_iff)
  have addr: "dir_addr ?s = dir_addr s" using i0 by (simp add: dir_addr_def blk)
  note fresh = target_block_fresh [OF assms(1,2)]
  have taken: "{b. b < DATA_BLOCKS \<and> free_blocks ?s b = TAKEN} =
      insert ?b {b. b < DATA_BLOCKS \<and> free_blocks s b = TAKEN}"
    using fresh(1) by (auto simp: written_def Let_def)
  have bij0: "bij_betw (blk s) {j. owner s j} {b. b < DATA_BLOCKS \<and> free_blocks s b = TAKEN}"
    using assms(1) by (simp add: wf_core_def blocks_ok_def)
  have "bij_betw (blk ?s) {j. owner ?s j} {b. b < DATA_BLOCKS \<and> free_blocks ?s b = TAKEN}"
  proof (cases "i_size (inode_table s i) = 0")
    case True
    with fresh(2) i0 show ?thesis
      unfolding owners taken blk by (intro bij_betw_upd [OF bij0]) (auto simp: owner_def)
  next
    case False
    then have "i \<in> {j. owner s j}" "?b = blk s i" using assms(2) fresh(3) by (auto simp: owner_def)
    with bij0 bij_betwE [OF bij0] show ?thesis
      unfolding owners taken blk by (auto simp: insert_absorb)
  qed
  moreover have "valid_block_number (i_data_block (inode_table ?s j)) \<and> i_size (inode_table ?s j) \<le> of_nat BLOCK_SIZE"
    if "owner ?s j" for j
  proof (cases "j = i")
    case True
    moreover have "i_size (inode_table s i) \<le> of_nat BLOCK_SIZE"
      using assms(1,2) by (cases "owner s i") (auto simp: wf_core_def blocks_ok_def owner_def config)
    ultimately show ?thesis using pos(2) fresh(1) by (simp add: node valid_block_number_def)
  next
    case False
    with that owners have "owner s j" by auto
    with False assms(1) show ?thesis by (simp add: node wf_core_def blocks_ok_def)
  qed
  ultimately have "blocks_ok ?s" by (simp add: blocks_ok_def)
  moreover have "dir_ok ?s \<longleftrightarrow> dir_ok s"
  proof (rule dir_ok_cong [OF addr files])
    fix k assume "k < BLOCK_SIZE"
    with fresh(4) [of 0] i0 assms(4) show "fs_data ?s (dir_addr s + k) = fs_data s (dir_addr s + k)"
      unfolding dir_addr_def by (simp add: written_def Let_def block_write_other)
  qed
  moreover have "types_ok ?s" using assms(1) by (auto simp: wf_core_def types_ok_def files node)
  moreover have "root_ok ?s" using assms(1) i0 by (simp add: wf_core_def root_ok_def node) (simp add: written_def Let_def)
  moreover have "handles_ok ?s \<and> count_ok ?s"
    using assms(1) by (auto simp: wf_core_def handles_ok_def count_ok_def files handles.used_def)
      (auto simp: written_def Let_def)
  ultimately show ?thesis using assms(1) by (simp add: wf_core_def)
qed

end
