(* ===== verification/FS_Spec.thy ===== *)
theory FS_Spec
  imports FS_Preserve
begin

text \<open>
  The abstract file system: a map from names to file numbers, a map from file numbers to byte
  strings, and a map from open handles to a file and a position. The abstraction function reads it
  off the tables, the directory block and the data blocks; the lemmas show that each concrete
  operation, run under the invariant, is the abstract one.
\<close>

section \<open>The abstract file system\<close>

record afs =
  a_dir :: "cstring \<Rightarrow> nat option"
  a_files :: "nat \<Rightarrow> byte list option"
  a_open :: "nat \<Rightarrow> (nat \<times> nat) option"

definition a_lookup :: "cstring \<Rightarrow> afs \<Rightarrow> int" where
  "a_lookup n a = (case a_dir a n of None \<Rightarrow> -1 | Some i \<Rightarrow> int i)"

definition a_add_handle :: "nat \<Rightarrow> nat \<Rightarrow> afs \<Rightarrow> int \<times> afs" where
  "a_add_handle i off a =
     (case first_free (\<lambda>f. if a_open a f = None then FREE else TAKEN) 0 MAX_OPEN_FILES of
        None \<Rightarrow> (-1, a)
      | Some f \<Rightarrow> (int f, a\<lparr>a_open := (a_open a)(f \<mapsto> (i, off))\<rparr>))"

text \<open>Opening by name: truncation, the starting position, creation while fewer than 23 files exist.\<close>

definition a_open_file :: "cstring \<Rightarrow> bool \<Rightarrow> bool \<Rightarrow> bool \<Rightarrow> afs \<Rightarrow> int \<times> afs" where
  "a_open_file n creat trunc at_end a =
     (case a_dir a n of
        Some i \<Rightarrow>
          (let a = (if trunc then a\<lparr>a_files := (a_files a)(i \<mapsto> [])\<rparr> else a)
           in a_add_handle i (if at_end then length (the (a_files a i)) else 0) a)
      | None \<Rightarrow>
          if creat \<and> card (dom (a_files a)) \<noteq> MAX_DIR_ENTRIES then
            (let i = the (first_free (\<lambda>i. if i = 0 then TAKEN else case a_files a i of None \<Rightarrow> FREE | Some _ \<Rightarrow> TAKEN)
                            0 INODE_TABLE_SIZE)
             in a_add_handle i 0 (a\<lparr>a_files := (a_files a)(i \<mapsto> []), a_dir := (a_dir a)(n \<mapsto> i)\<rparr>))
          else (-1, a))"

definition a_close :: "nat \<Rightarrow> afs \<Rightarrow> int \<times> afs" where
  "a_close f a = (if a_open a f = None then (-1, a) else (0, a\<lparr>a_open := (a_open a)(f := None)\<rparr>))"

definition a_write :: "nat \<Rightarrow> byte list \<Rightarrow> afs \<Rightarrow> int \<times> afs" where
  "a_write f data a = (case a_open a f of
     None \<Rightarrow> (-1, a)
   | Some (i, off) \<Rightarrow>
       let c = the (a_files a i); n = min (length data) (BLOCK_SIZE - off)
       in (int n, a\<lparr>a_files := (a_files a)(i \<mapsto> take off c @ take n data @ drop (off + n) c),
                    a_open := (a_open a)(f \<mapsto> (i, off + n))\<rparr>))"

definition a_read :: "nat \<Rightarrow> nat \<Rightarrow> afs \<Rightarrow> (int \<times> byte list) \<times> afs" where
  "a_read f len a = (case a_open a f of
     None \<Rightarrow> ((-1, []), a)
   | Some (i, off) \<Rightarrow>
       let bytes = take len (drop off (the (a_files a i)))
       in ((int (length bytes), bytes), a\<lparr>a_open := (a_open a)(f \<mapsto> (i, off + length bytes))\<rparr>))"

section \<open>The abstraction function\<close>

definition content :: "fs_state \<Rightarrow> nat \<Rightarrow> byte list" where
  "content s i = mem_read (fs_data s) (blk s i * BLOCK_SIZE) (unat (i_size (inode_table s i)))"

definition abs_dir :: "fs_state \<Rightarrow> cstring \<Rightarrow> nat option" where
  "abs_dir s n = (let r = find_entry (fs_data s) (dir_addr s) n 0
     in if good_name n \<and> r \<noteq> -1 then Some (nat r) else None)"

definition abs_files :: "fs_state \<Rightarrow> nat \<Rightarrow> byte list option" where
  "abs_files s i = (if is_file s i then Some (content s i) else None)"

definition abs_open :: "fs_state \<Rightarrow> nat \<Rightarrow> (nat \<times> nat) option" where
  "abs_open s f = (if f < MAX_OPEN_FILES \<and> free_open_file_entries s f = TAKEN
     then Some (nat (of_inumber (open_file_table s f)), unat (of_offset (open_file_table s f))) else None)"

definition abs_fs :: "fs_state \<Rightarrow> afs" where
  "abs_fs s = \<lparr>a_dir = abs_dir s, a_files = abs_files s, a_open = abs_open s\<rparr>"

text \<open>
  Beyond the invariant: every position is inside its file, and the names in the directory are
  distinct and fit their entries.
\<close>

definition offsets_ok :: "fs_state \<Rightarrow> bool" where
  "offsets_ok s \<longleftrightarrow> (\<forall>f i off. abs_open s f = Some (i, off) \<longrightarrow> off \<le> length (content s i))"

definition names_ok :: "fs_state \<Rightarrow> bool" where
  "names_ok s \<longleftrightarrow> distinct_names (fs_data s) (dir_addr s) \<and>
     (\<forall>e. live (fs_data s) (dir_addr s) e \<longrightarrow> good_name (entry_name (fs_data s) (dir_addr s) e))"

definition fs_ok :: "fs_state \<Rightarrow> bool" where
  "fs_ok s \<longleftrightarrow> wf_core s \<and> offsets_ok s \<and> names_ok s"

lemmas abs_defs = abs_fs_def abs_dir_def abs_files_def abs_open_def content_def

lemma abs_mutex [simp]:
  "dir_addr (s\<lparr>open_files_mutex := m\<rparr>) = dir_addr s" "content (s\<lparr>open_files_mutex := m\<rparr>) = content s"
  "abs_dir (s\<lparr>open_files_mutex := m\<rparr>) = abs_dir s" "abs_files (s\<lparr>open_files_mutex := m\<rparr>) = abs_files s"
  "abs_open (s\<lparr>open_files_mutex := m\<rparr>) = abs_open s"
  by (simp_all add: fun_eq_iff dir_addr_def content_def abs_dir_def abs_files_def abs_open_def)

lemma abs_lock [simp]:
  "dir_addr (s\<lparr>single_global_lock := m\<rparr>) = dir_addr s" "content (s\<lparr>single_global_lock := m\<rparr>) = content s"
  "abs_dir (s\<lparr>single_global_lock := m\<rparr>) = abs_dir s" "abs_files (s\<lparr>single_global_lock := m\<rparr>) = abs_files s"
  "abs_open (s\<lparr>single_global_lock := m\<rparr>) = abs_open s"
  by (simp_all add: fun_eq_iff dir_addr_def content_def abs_dir_def abs_files_def abs_open_def)

lemma fs_ok_locks [simp]:
  "abs_fs (s\<lparr>open_files_mutex := m\<rparr>) = abs_fs s" "abs_fs (s\<lparr>single_global_lock := m\<rparr>) = abs_fs s"
  "fs_ok (s\<lparr>open_files_mutex := m\<rparr>) = fs_ok s" "fs_ok (s\<lparr>single_global_lock := m\<rparr>) = fs_ok s"
  by (simp_all add: abs_fs_def fs_ok_def offsets_ok_def names_ok_def)

lemma abs_sel [simp]:
  "a_dir (abs_fs s) = abs_dir s" "a_files (abs_fs s) = abs_files s" "a_open (abs_fs s) = abs_open s"
  by (simp_all add: abs_fs_def)

lemma length_content [simp]: "length (content s i) = unat (i_size (inode_table s i))"
  by (simp add: content_def)

lemma content_empty_iff: "content s i = [] \<longleftrightarrow> i_size (inode_table s i) = 0"
  by (simp add: unat_eq_0 flip: length_0_conv)

lemma length_content_le: "wf_core s \<Longrightarrow> is_file s i \<Longrightarrow> length (content s i) \<le> BLOCK_SIZE"
  using owner_block(4) [of s i] by (cases "i_size (inode_table s i) = 0") (auto simp: owner_def)

section \<open>Handles\<close>

lemma abs_open_Some:
  assumes "wf_core s" and "abs_open s f = Some (i, off)"
  shows "f < MAX_OPEN_FILES" "free_open_file_entries s f = TAKEN" "is_file s i"
    and "of_inumber (open_file_table s f) = int i" "unat (of_offset (open_file_table s f)) = off"
proof -
  from assms(2) show f: "f < MAX_OPEN_FILES" "free_open_file_entries s f = TAKEN"
    and "unat (of_offset (open_file_table s f)) = off"
    by (auto simp: abs_open_def split: if_splits)
  from open_handle [OF assms(1) f] obtain j where
    j: "of_inumber (open_file_table s f) = int j" "is_file s j" by blast
  moreover from assms(2) f have "nat (of_inumber (open_file_table s f)) = i"
    by (simp add: abs_open_def)
  ultimately show "is_file s i" "of_inumber (open_file_table s f) = int i" by auto
qed

lemma first_free_abs_open:
  "first_free (\<lambda>f. if abs_open s f = None then FREE else TAKEN) 0 MAX_OPEN_FILES =
   first_free (free_open_file_entries s) 0 MAX_OPEN_FILES"
  by (rule first_free_cong) (auto simp: abs_open_def)

lemma refine_add_handle:
  assumes "fs_ok s" and "is_file s i" and "unat offset \<le> length (content s i)"
    and "open_files_mutex s = Unlocked"
  shows "\<exists>s'. add_to_open_file_table (int i) offset s = Ok (fst (a_add_handle i (unat offset) (abs_fs s)), s') \<and>
    abs_fs s' = snd (a_add_handle i (unat offset) (abs_fs s)) \<and> fs_ok s' \<and>
    open_files_mutex s' = Unlocked \<and> single_global_lock s' = single_global_lock s"
proof (cases rule: first_free_cases [of "free_open_file_entries s" MAX_OPEN_FILES])
  case full
  with assms show ?thesis
    by (simp add: add_handle_eq a_add_handle_def first_free_abs_open)
next
  case (found f)
  let ?s = "s\<lparr>free_open_file_entries := (free_open_file_entries s)(f := TAKEN),
      open_file_table := (open_file_table s)(f := \<lparr>of_inumber = int i, of_offset = offset\<rparr>),
      open_files_count := open_files_count s + 1\<rparr>"
  have add: "add_to_open_file_table (int i) offset s = Ok (int f, ?s)"
    using assms(4) found by (simp add: add_handle_eq)
  have open': "abs_open ?s = (abs_open s)(f \<mapsto> (i, unat offset))"
    using found(2) by (auto simp: abs_open_def fun_eq_iff)
  have same: "abs_dir ?s = abs_dir s" "abs_files ?s = abs_files s" "content ?s = content s"
    by (auto simp: abs_dir_def abs_files_def content_def fun_eq_iff view_defs)
  have "fs_ok ?s"
    using assms(1,3) wf_core_add_handle [OF _ assms(2) add]
    by (auto simp: fs_ok_def offsets_ok_def names_ok_def open' same dir_addr_def blk_def simp del: length_content)
  moreover have "a_add_handle i (unat offset) (abs_fs s) = (int f, abs_fs ?s)"
    using found by (simp add: a_add_handle_def first_free_abs_open abs_fs_def open' same)
  ultimately show ?thesis using add assms(4) by auto
qed

lemma refine_close:
  assumes "fs_ok s" and "open_files_mutex s = Unlocked" and "f < MAX_OPEN_FILES"
  shows "\<exists>s'. remove_from_open_file_table (int f) s = Ok (fst (a_close f (abs_fs s)), s') \<and>
    abs_fs s' = snd (a_close f (abs_fs s)) \<and> fs_ok s' \<and>
    open_files_mutex s' = Unlocked \<and> single_global_lock s' = single_global_lock s"
proof (cases "free_open_file_entries s f = TAKEN")
  case False
  with assms show ?thesis
    by (simp add: remove_handle_eq valid_file_handle_def a_close_def abs_open_def)
next
  case True
  let ?s = "s\<lparr>open_files_count := open_files_count s - 1,
      free_open_file_entries := (free_open_file_entries s)(f := FREE)\<rparr>"
  have rem: "remove_from_open_file_table (int f) s = Ok (0, ?s)"
    using assms(2,3) True by (simp add: remove_handle_eq valid_file_handle_def)
  have open': "abs_open ?s = (abs_open s)(f := None)"
    by (auto simp: abs_open_def fun_eq_iff)
  have same: "abs_dir ?s = abs_dir s" "abs_files ?s = abs_files s" "content ?s = content s"
    by (auto simp: abs_dir_def abs_files_def content_def fun_eq_iff view_defs)
  have "fs_ok ?s"
    using assms(1) wf_core_remove_handle [OF _ rem]
    by (auto simp: fs_ok_def offsets_ok_def names_ok_def open' same dir_addr_def blk_def simp del: length_content)
  moreover have "a_close f (abs_fs s) = (0, abs_fs ?s)"
    using True assms(3) by (simp add: a_close_def abs_fs_def open' same) (simp add: abs_open_def)
  ultimately show ?thesis using rem assms(2) by auto
qed

section \<open>Truncation\<close>

lemma refine_truncate:
  assumes "fs_ok s" and "is_file s i" and "\<And>f off. abs_open s f = Some (i, off) \<Longrightarrow> off = 0"
  shows "fs_ok (snd (truncate_inode i s))" and "is_file (snd (truncate_inode i s)) i"
    and "abs_fs (snd (truncate_inode i s)) = (abs_fs s)\<lparr>a_files := (abs_files s)(i \<mapsto> [])\<rparr>"
    and "open_files_mutex (snd (truncate_inode i s)) = open_files_mutex s"
    and "single_global_lock (snd (truncate_inode i s)) = single_global_lock s"
proof -
  let ?s = "snd (truncate_inode i s)"
  have wf: "wf_core s" using assms(1) by (simp add: fs_ok_def)
  have i0: "i \<noteq> 0" using assms(2) by (simp add: is_file_def)
  note eq = truncate_eq [OF wf assms(2)]
  have files: "is_file ?s = is_file s" and open': "abs_open ?s = abs_open s"
    and data: "fs_data ?s = fs_data s" and blk: "blk ?s = blk s"
    by (auto simp: eq is_file_def abs_open_def blk_def fun_eq_iff)
  have addr: "dir_addr ?s = dir_addr s" by (simp add: dir_addr_def blk)
  have size: "i_size (inode_table ?s j) = (if j = i then 0 else i_size (inode_table s j))" for j
    by (simp add: eq)
  have content: "content ?s j = (if j = i then [] else content s j)" for j
    by (simp add: content_def data blk size)
  show "is_file ?s i" using assms(2) files by simp
  show "fs_ok ?s"
    using assms(1,3) wf_core_truncate [OF wf assms(2), of "fst (truncate_inode i s)" ?s]
    by (auto simp: fs_ok_def offsets_ok_def names_ok_def open' content data addr simp del: length_content)
  show "abs_fs ?s = (abs_fs s)\<lparr>a_files := (abs_files s)(i \<mapsto> [])\<rparr>"
    using assms(2) by (auto simp: abs_fs_def abs_dir_def abs_files_def open' data addr files content fun_eq_iff)
  show "open_files_mutex ?s = open_files_mutex s" "single_global_lock ?s = single_global_lock s"
    by (simp_all add: eq)
qed

section \<open>Reading\<close>

lemma read_amount_unat:
  assumes "unat offset \<le> unat fsize"
  shows "unat (read_amount fsize offset len) = min (unat fsize - unat offset) (unat len)"
proof -
  have "unat (fsize - offset) = unat fsize - unat offset"
    using assms by (simp add: unat_sub word_le_nat_alt)
  then show ?thesis by (auto simp: read_amount_def Let_def word_less_nat_alt)
qed

lemma refine_read:
  assumes "fs_ok s" and "abs_open s f = Some (i, off)"
  shows "\<exists>s'. tfs_read_unsynchronized (int f) len s = Ok (fst (a_read f (unat len) (abs_fs s)), s') \<and>
    abs_fs s' = snd (a_read f (unat len) (abs_fs s)) \<and> fs_ok s' \<and>
    open_files_mutex s' = open_files_mutex s \<and> single_global_lock s' = single_global_lock s"
proof -
  have wf: "wf_core s" and offs: "off \<le> length (content s i)"
    using assms by (auto simp: fs_ok_def offsets_ok_def)
  note h = abs_open_Some [OF wf assms(2)]
  let ?e = "open_file_table s f" and ?size = "i_size (inode_table s i)"
  let ?n = "min (unat ?size - off) (unat len)"
  let ?s = "s\<lparr>open_file_table := (open_file_table s)(f := ?e\<lparr>of_offset := of_offset ?e + of_nat ?n\<rparr>)\<rparr>"
  have amount: "unat (read_amount ?size (of_offset ?e) len) = ?n"
    using offs h(5) by (subst read_amount_unat) auto
  have le: "off + ?n \<le> unat ?size" "unat ?size \<le> BLOCK_SIZE"
    using offs length_content_le [OF wf h(3)] by auto
  have get: "get_open_file_entry (int f) = Some f" "inode_get (of_inumber ?e) = Some i"
    using h by (auto simp: get_open_file_entry_def valid_file_handle_def inode_get_def
        valid_inumber_def is_file_def)
  have bytes: "take (unat len) (drop off (content s i)) = mem_read (fs_data s) (blk s i * BLOCK_SIZE + off) ?n"
    using offs by (simp add: content_def drop_mem_read take_mem_read min.commute)
  have "tfs_read_unsynchronized (int f) len s =
      Ok ((int ?n, mem_read (fs_data s) (blk s i * BLOCK_SIZE + off) ?n), ?s)"
  proof (cases "?n = 0")
    case True
    then have "read_amount ?size (of_offset ?e) len = 0" using amount by (simp add: unat_eq_0)
    moreover have "?s = s" using True by (cases s) (simp add: fun_upd_idem)
    ultimately show ?thesis using get True by (simp add: tfs_read_unsynchronized_def)
  next
    case False
    have pos: "read_amount ?size (of_offset ?e) len > 0"
      using False amount by (simp add: word_gt_0 flip: unat_eq_0)
    from False have own: "owner s i" using h(3) by (auto simp: owner_def)
    have "memcpy_out (blk s i * BLOCK_SIZE + off) ?n (fs_data s) =
        Ok (mem_read (fs_data s) (blk s i * BLOCK_SIZE + off) ?n)"
      using le owner_block(2) [OF wf own] by (simp add: memcpy_out_def config)
    moreover have "sint (read_amount ?size (of_offset ?e) len) = int ?n"
      using amount le by (subst sint_small) (auto simp: config)
    moreover have "of_nat ?n = read_amount ?size (of_offset ?e) len" by (simp flip: amount)
    ultimately show ?thesis
      unfolding tfs_read_unsynchronized_def get option.case Let_def if_P [OF pos]
      by (simp add: owner_block(1) [OF wf own] amount h(5) put_file_def offset_add)
  qed
  moreover have open': "abs_open ?s = (abs_open s)(f \<mapsto> (i, off + ?n))"
    using h le unat_advance [of "of_offset ?e" ?n] by (auto simp: abs_open_def fun_eq_iff)
  moreover have same: "abs_dir ?s = abs_dir s" "abs_files ?s = abs_files s" "content ?s = content s"
    by (auto simp: abs_dir_def abs_files_def content_def fun_eq_iff view_defs)
  moreover have "fs_ok ?s"
    using assms(1) le wf_core_offset [OF wf, of f "\<lambda>_. of_offset ?e + of_nat ?n"]
    by (auto simp: fs_ok_def offsets_ok_def names_ok_def open' same dir_addr_def blk_def put_file_def)
  moreover have "a_read f (unat len) (abs_fs s) =
      ((int ?n, mem_read (fs_data s) (blk s i * BLOCK_SIZE + off) ?n), abs_fs ?s)"
    using assms(2) h(3) bytes by (simp add: a_read_def abs_fs_def open' same Let_def) (simp add: abs_files_def)
  ultimately show ?thesis by auto
qed

section \<open>Writing\<close>

lemma content_written:
  assumes "wf_core s" and "is_file s i" and "unat (of_offset (open_file_table s f)) = off"
    and "off \<le> length (content s i)" and "off + length bs \<le> BLOCK_SIZE" and "bs \<noteq> []"
  shows "content (written s f i (target_block s i) bs) i =
    take off (content s i) @ bs @ drop (off + length bs) (content s i)"
proof -
  let ?b = "target_block s i" and ?s = "written s f i (target_block s i) bs" and ?m = "fs_data s"
  let ?off' = "of_offset (open_file_table s f) + of_nat (length bs)"
  let ?size = "unat (i_size (inode_table s i))"
  have off': "unat ?off' = off + length bs" using assms(3,5) unat_advance [of "of_offset (open_file_table s f)"] by simp
  then have size': "unat (max (i_size (inode_table s i)) ?off') = max ?size (off + length bs)"
    by (auto simp: max_def word_le_nat_alt)
  have c': "content ?s i = mem_read (mem_write ?m (?b * BLOCK_SIZE + off) bs) (?b * BLOCK_SIZE) (max ?size (off + length bs))"
    using size' assms(3) by (simp add: content_def written_def Let_def blk_def)
  have prefix: "take off (content s i) = mem_read ?m (?b * BLOCK_SIZE) off"
    using assms(4) target_block_fresh(3) [OF assms(1,2)]
    by (cases "i_size (inode_table s i) = 0") (auto simp: content_def take_mem_read)
  show ?thesis
  proof (cases "off + length bs \<le> ?size")
    case True
    then have "i_size (inode_table s i) \<noteq> 0" using assms(6) by auto
    then have "?b = blk s i" using target_block_fresh(3) [OF assms(1,2)] by simp
    with True c' show ?thesis by (simp add: max_absorb1 mem_read_write_inside content_def)
  next
    case False
    then have "content ?s i = mem_read ?m (?b * BLOCK_SIZE) off @ bs"
      using c' by (simp add: max_absorb2 mem_read_append mem_read_write_disjoint)
    with prefix False show ?thesis by simp
  qed
qed

lemma refine_write:
  assumes "fs_ok s" and "abs_open s f = Some (i, off)" and "unat w = length buffer"
    and "length buffer + BLOCK_SIZE < 18446744073709551616"
  shows "\<exists>s'. tfs_write_unsynchronized (int f) buffer w s = Ok (fst (a_write f buffer (abs_fs s)), s') \<and>
    abs_fs s' = snd (a_write f buffer (abs_fs s)) \<and> fs_ok s' \<and>
    open_files_mutex s' = open_files_mutex s \<and> single_global_lock s' = single_global_lock s"
proof -
  have wf: "wf_core s" and offs: "off \<le> length (content s i)"
    using assms by (auto simp: fs_ok_def offsets_ok_def)
  note h = abs_open_Some [OF wf assms(2)]
  have room: "off \<le> BLOCK_SIZE" using offs length_content_le [OF wf h(3)] by simp
  define n where "n = min (length buffer) (BLOCK_SIZE - off)"
  let ?s = "if n = 0 then s else written s f i (target_block s i) (take n buffer)"
  let ?c = "take off (content s i) @ take n buffer @ drop (off + n) (content s i)"
  have pre: "unat (of_offset (open_file_table s f)) \<le> BLOCK_SIZE" "unat w \<le> length buffer"
    "unat w + unat (of_offset (open_file_table s f)) < 18446744073709551616"
    using room assms(3,4) h(5) by auto
  have step: "tfs_write_unsynchronized (int f) buffer w s = Ok (int n, ?s)"
    using write_eq [OF wf h(1,3,4) pre] by (simp only: h(5) assms(3) n_def)
  have a: "a_write f buffer (abs_fs s) = (int n, (abs_fs s)\<lparr>a_files := (abs_files s)(i \<mapsto> ?c),
      a_open := (abs_open s)(f \<mapsto> (i, off + n))\<rparr>)"
    using assms(2) h(3) by (simp add: a_write_def n_def Let_def) (simp add: abs_files_def)
  have "abs_fs ?s = (abs_fs s)\<lparr>a_files := (abs_files s)(i \<mapsto> ?c), a_open := (abs_open s)(f \<mapsto> (i, off + n))\<rparr> \<and>
    fs_ok ?s \<and> open_files_mutex ?s = open_files_mutex s \<and> single_global_lock ?s = single_global_lock s"
  proof (cases "n = 0")
    case True
    have "(abs_files s)(i \<mapsto> content s i) = abs_files s" "(abs_open s)(f \<mapsto> (i, off)) = abs_open s"
      using h(3) assms(2) by (auto simp: fun_upd_idem abs_files_def)
    with True assms(1) show ?thesis by (simp add: abs_fs_def)
  next
    case False
    let ?bs = "take n buffer"
    have bs: "?bs \<noteq> []" "length ?bs = n" "off + length ?bs \<le> BLOCK_SIZE"
      using False room by (auto simp: n_def)
    have i0: "i \<noteq> 0" using h(3) by (simp add: is_file_def)
    let ?w = "written s f i (target_block s i) ?bs"
    have wf': "wf_core ?w" using wf_core_written [OF wf h(3) bs(1)] bs(3) h(5) by simp
    have files: "is_file ?w = is_file s" by (auto simp: is_file_def written_def Let_def fun_eq_iff)
    have addr: "dir_addr ?w = dir_addr s" using i0 by (simp add: dir_addr_def blk_def written_def Let_def)
    have other: "fs_data ?w (blk s j * BLOCK_SIZE + k) = fs_data s (blk s j * BLOCK_SIZE + k)"
      if "j \<noteq> i" "owner s j" "k < BLOCK_SIZE" for j k
      using target_block_fresh(4) [OF wf h(3) that(1,2)] that(3) bs(3) h(5)
      by (auto simp: written_def Let_def block_write_other)
    have content: "content ?w j = (if j = i then ?c else content s j)" if "is_file s j" for j
    proof (cases "j = i")
      case True
      then show ?thesis using content_written [OF wf h(3,5) offs bs(3,1)] bs(2) by simp
    next
      case j: False
      have "mem_read (fs_data ?w) (blk s j * BLOCK_SIZE) (unat (i_size (inode_table s j))) =
          mem_read (fs_data s) (blk s j * BLOCK_SIZE) (unat (i_size (inode_table s j)))"
      proof (cases "i_size (inode_table s j) = 0")
        case False
        then have "owner s j" using that by (simp add: owner_def)
        with owner_block(4) [OF wf this] j show ?thesis by (intro mem_read_cong) (simp add: other)
      qed simp
      with j show ?thesis by (simp add: content_def written_def Let_def blk_def)
    qed
    have open': "abs_open ?w = (abs_open s)(f \<mapsto> (i, off + n))"
      using h bs unat_advance [of "of_offset (open_file_table s f)" n]
      by (auto simp: abs_open_def written_def Let_def fun_eq_iff)
    have root: "fs_data ?w (dir_addr s + k) = fs_data s (dir_addr s + k)" if "k < BLOCK_SIZE" for k
      using other [of 0] i0 that by (simp add: dir_addr_def)
    note entries = entries_cong [of "fs_data ?w" "dir_addr s" "fs_data s", OF root]
    have dirs: "abs_dir ?w = abs_dir s"
      using find_entry_cong [OF entries] by (auto simp: abs_dir_def addr fun_eq_iff)
    have names: "names_ok ?w"
      using assms(1) entries
      by (auto simp: fs_ok_def names_ok_def addr distinct_names_def live_def inj_on_def)
    have "offsets_ok ?w"
      unfolding offsets_ok_def
    proof (intro allI impI)
      fix g j o'
      assume g: "abs_open ?w g = Some (j, o')"
      show "o' \<le> length (content ?w j)"
      proof (cases "g = f")
        case True
        with g open' content [OF h(3)] offs bs show ?thesis by (auto simp del: length_content)
      next
        case False
        with g open' have g': "abs_open s g = Some (j, o')" by simp
        with assms(1) have "o' \<le> length (content s j)" by (auto simp: fs_ok_def offsets_ok_def)
        with content [OF abs_open_Some(3) [OF wf g']] offs bs show ?thesis
          by (auto simp del: length_content)
      qed
    qed
    moreover have "abs_files ?w = (abs_files s)(i \<mapsto> ?c)"
      using content h(3) by (auto simp: abs_files_def files fun_eq_iff)
    moreover have "open_files_mutex ?w = open_files_mutex s" "single_global_lock ?w = single_global_lock s"
      by (simp_all add: written_def Let_def)
    ultimately show ?thesis using False wf' names dirs open' by (simp add: abs_fs_def fs_ok_def)
  qed
  with step a show ?thesis by auto
qed

section \<open>Looking up and creating\<close>

text \<open>The path of a good name.\<close>

definition path :: "cstring \<Rightarrow> cstring option" where
  "path n = Some (0x2F # n)"

lemma lookup_path:
  "wf_core s \<Longrightarrow> good_name n \<Longrightarrow>
    tfs_lookup_unsynchronized (path n) s = find_entry (fs_data s) (dir_addr s) n 0"
  by (simp add: tfs_lookup_unsynchronized_def path_def valid_pathname_def good_name_def c_char_def find_in_root)

lemma abs_dir_lookup:
  assumes "wf_core s" and "good_name n"
  shows "abs_dir s n = None \<Longrightarrow> tfs_lookup_unsynchronized (path n) s = -1"
    and "abs_dir s n = Some i \<Longrightarrow> tfs_lookup_unsynchronized (path n) s = int i \<and> is_file s i"
proof -
  let ?r = "find_entry (fs_data s) (dir_addr s) n 0"
  show "abs_dir s n = None \<Longrightarrow> tfs_lookup_unsynchronized (path n) s = -1"
    using assms by (simp add: lookup_path abs_dir_def Let_def split: if_splits)
  assume i: "abs_dir s n = Some i"
  then have "find_in_dir ROOT_DIR_INUM n s \<noteq> -1"
    using find_in_root [OF assms(1)] by (auto simp: abs_dir_def Let_def split: if_splits)
  from find_in_root_file [OF assms(1) this] obtain j where "?r = int j" "is_file s j"
    using find_in_root [OF assms(1)] by metis
  with i assms show "tfs_lookup_unsynchronized (path n) s = int i \<and> is_file s i"
    by (auto simp: lookup_path abs_dir_def)
qed

lemma refine_lookup:
  "fs_ok s \<Longrightarrow> good_name n \<Longrightarrow> tfs_lookup_unsynchronized (path n) s = a_lookup n (abs_fs s)"
  using abs_dir_lookup [of s n] by (auto simp: fs_ok_def a_lookup_def split: option.splits)

text \<open>The directory is full exactly when 23 files exist; then i-nodes are still free.\<close>

lemma card_files:
  assumes "wf_core s"
  shows "card (dom (abs_files s)) = card {e. live (fs_data s) (dir_addr s) e}"
proof -
  have "dom (abs_files s) = {i. is_file s i}" by (auto simp: abs_files_def split: if_splits)
  moreover have "card (int ` {i. is_file s i}) = card {i. is_file s i}" by (rule card_image) simp
  ultimately show ?thesis using assms by (auto simp: wf_core_def dir_ok_def dest: bij_betw_same_card)
qed

lemma dir_full_iff:
  "wf_core s \<Longrightarrow> free_entry (fs_data s) (dir_addr s) 0 = None \<longleftrightarrow> card (dom (abs_files s)) = MAX_DIR_ENTRIES"
  by (simp add: dir_full_card card_files)

lemma abs_inode_flags:
  assumes "wf_core s"
  shows "first_free (\<lambda>i. if i = 0 then TAKEN else case a_files (abs_fs s) i of
      None \<Rightarrow> FREE | Some _ \<Rightarrow> TAKEN) 0 INODE_TABLE_SIZE =
    first_free (freeinode_ts s) 0 INODE_TABLE_SIZE"
  using assms by (intro first_free_cong) (auto simp: abs_files_def is_file_def wf_core_def root_ok_def)

lemma inode_available:
  assumes "wf_core s" and "card (dom (abs_files s)) \<noteq> MAX_DIR_ENTRIES"
  obtains i where "first_free (freeinode_ts s) 0 INODE_TABLE_SIZE = Some i"
    and "i < INODE_TABLE_SIZE" and "freeinode_ts s i = FREE"
proof (cases rule: first_free_cases [of "freeinode_ts s" INODE_TABLE_SIZE])
  case full
  have "card (dom (abs_files s)) \<le> MAX_DIR_ENTRIES"
    unfolding card_files [OF assms(1)] by (rule card_live_le)
  moreover have "dom (abs_files s) = {0<..<INODE_TABLE_SIZE}"
    using full by (auto simp: abs_files_def is_file_def split: if_splits)
  ultimately show ?thesis by (simp add: config)
next
  case (found i)
  then show ?thesis using that by blast
qed

lemma refine_create:
  assumes "fs_ok s" and "good_name n" and "abs_dir s n = None"
    and "card (dom (abs_files s)) \<noteq> MAX_DIR_ENTRIES"
    and i: "first_free (freeinode_ts s) 0 INODE_TABLE_SIZE = Some i"
  shows "\<exists>s'. create_file n s = Some (i, s') \<and> fs_ok s' \<and> is_file s' i \<and> content s' i = [] \<and>
    abs_fs s' = (abs_fs s)\<lparr>a_files := (abs_files s)(i \<mapsto> []), a_dir := (abs_dir s)(n \<mapsto> i)\<rparr> \<and>
    open_files_mutex s' = open_files_mutex s \<and> single_global_lock s' = single_global_lock s"
proof -
  have wf: "wf_core s" using assms(1) by (simp add: fs_ok_def)
  obtain e where e: "free_entry (fs_data s) (dir_addr s) 0 = Some e"
    using dir_full_iff [OF wf] assms(4) by auto
  have free: "i < INODE_TABLE_SIZE" "freeinode_ts s i = FREE" using first_free_zero(1) [OF i] by auto
  let ?s = "created s i e n"
  have "create_file n s = Some (i, ?s)"
    using i e assms(2) by (simp add: create_file_def good_name_def)
  note wf' = wf_core_created [OF wf free e]
  have i0: "i \<noteq> 0" using wf'(2) by (simp add: is_file_def)
  have vi: "int_ok (int i)" "int i \<noteq> -1" using free(1) by (auto simp: int_ok_def config)
  have addr: "dir_addr ?s = dir_addr s" using i0 by (simp add: created_def dir_addr_def blk_def)
  have files: "is_file ?s j \<longleftrightarrow> j = i \<or> is_file s j" for j
    using wf'(2) by (auto simp: is_file_def created_def split: if_splits)
  have e': "e < MAX_DIR_ENTRIES" using free_entry_Some [OF e] by simp
  have new: "content ?s i = []" by (simp add: content_empty_iff) (simp add: created_def)
  have old: "content ?s j = content s j" if "is_file s j" for j
  proof -
    have ji: "j \<noteq> i" using that free(2) by (auto simp: is_file_def)
    have "mem_read (fs_data ?s) (blk s j * BLOCK_SIZE) (unat (i_size (inode_table s j))) = content s j"
      unfolding content_def
    proof (cases "i_size (inode_table s j) = 0")
      case False
      with that have own: "owner s j" by (simp add: owner_def)
      have "blk s j \<noteq> blk s 0" using owner_blk_inj [OF wf own, of 0] that by (auto simp: is_file_def)
      moreover have "sizeof_dir_entry * e + sizeof_dir_entry \<le> BLOCK_SIZE" using dir_entry_in_block [OF e'] .
      ultimately show "mem_read (fs_data ?s) (blk s j * BLOCK_SIZE) (unat (i_size (inode_table s j))) =
          mem_read (fs_data s) (blk s j * BLOCK_SIZE) (unat (i_size (inode_table s j)))"
        using owner_block(4) [OF wf own]
        by (intro mem_read_cong) (simp add: created_def put_entry_other_block dir_addr_def)
    qed simp
    with ji show ?thesis by (simp add: content_def created_def blk_def)
  qed
  have open': "abs_open ?s = abs_open s" by (auto simp: abs_open_def created_def fun_eq_iff)
  have absent: "find_entry (fs_data s) (dir_addr s) n 0 = -1"
    using assms(2,3) by (auto simp: abs_dir_def Let_def split: if_splits)
  have distinct: "distinct_names (fs_data s) (dir_addr s)" using assms(1) by (simp add: fs_ok_def names_ok_def)
  note find = find_put_entry [OF distinct assms(2) absent e vi]
  have data: "fs_data ?s = put_entry (dir_addr s) e (int i) n (fs_data s)" by (simp add: created_def)
  have dirs: "abs_dir ?s = (abs_dir s)(n \<mapsto> i)"
    using find(1) assms(2) by (auto simp: abs_dir_def addr data fun_eq_iff Let_def split: if_splits)
  have names: "names_ok ?s"
    using assms(1,2) find(2) [OF assms(2)] entry_name_put_good [OF assms(2)] other_entry_put_entry(2)
      live_put_entry [OF e' vi]
    by (auto simp: fs_ok_def names_ok_def addr data) metis
  have fi: "abs_files ?s = (abs_files s)(i \<mapsto> [])"
    using files new old by (auto simp: abs_files_def fun_eq_iff)
  have "offsets_ok ?s"
    unfolding offsets_ok_def open'
  proof (intro allI impI)
    fix f j off
    assume f: "abs_open s f = Some (j, off)"
    with old [OF abs_open_Some(3) [OF wf f]] assms(1) show "off \<le> length (content ?s j)"
      by (auto simp: fs_ok_def offsets_ok_def simp del: length_content)
  qed
  with wf' names \<open>create_file n s = Some (i, ?s)\<close> new fi dirs open' show ?thesis
    by (auto simp: fs_ok_def abs_fs_def) (simp_all add: created_def)
qed

end
