(* ===== verification/Refinement.thy ===== *)
theory Refinement
  imports Prelude
begin

text \<open>
  Running a list of operations one after the other, the interface of a component that implements an
  abstract machine operation by operation, and the runs of a step relation.
\<close>

fun run_ops :: "('o \<Rightarrow> 's \<Rightarrow> ('r \<times> 's) outcome) \<Rightarrow> 'o list \<Rightarrow> 's \<Rightarrow> ('r list \<times> 's) outcome" where
  "run_ops step [] s = Ok ([], s)"
| "run_ops step (x # xs) s =
     and_then (step x s) (\<lambda>(r, s). and_then (run_ops step xs s) (\<lambda>(rs, s). Ok (r # rs, s)))"

fun run_abs :: "('o \<Rightarrow> 'a \<Rightarrow> 'r \<times> 'a) \<Rightarrow> 'o list \<Rightarrow> 'a \<Rightarrow> 'r list \<times> 'a" where
  "run_abs step [] a = ([], a)"
| "run_abs step (x # xs) a =
     (case step x a of (r, a) \<Rightarrow> case run_abs step xs a of (rs, a) \<Rightarrow> (r # rs, a))"

text \<open>Every operation of the list is allowed in the abstract state it is issued in.\<close>

fun all_allowed :: "('o \<Rightarrow> 'a \<Rightarrow> 'r \<times> 'a) \<Rightarrow> ('o \<Rightarrow> 'a \<Rightarrow> bool) \<Rightarrow> 'o list \<Rightarrow> 'a \<Rightarrow> bool" where
  "all_allowed step allowed [] a = True"
| "all_allowed step allowed (x # xs) a \<longleftrightarrow> allowed x a \<and> all_allowed step allowed xs (snd (step x a))"

lemma run_abs_append:
  "snd (run_abs step (xs @ ys) a) = snd (run_abs step ys (snd (run_abs step xs a)))"
  by (induction xs arbitrary: a) (auto simp: case_prod_beta)

lemma fst_run_abs_append:
  "fst (run_abs step (xs @ ys) a) = fst (run_abs step xs a) @ fst (run_abs step ys (snd (run_abs step xs a)))"
  by (induction xs arbitrary: a) (auto simp: case_prod_beta)

lemma all_allowed_append:
  "all_allowed step allowed (xs @ ys) a \<longleftrightarrow>
    all_allowed step allowed xs a \<and> all_allowed step allowed ys (snd (run_abs step xs a))"
  by (induction xs arbitrary: a) (auto simp: case_prod_beta)

text \<open>Repeating a group of operations, each time from the state the group before left.\<close>

lemma run_abs_repeat:
  assumes "P 0 a"
    and "\<And>k a. k < n \<Longrightarrow> P k a \<Longrightarrow> all_allowed step allowed (ops k) a \<and> P (Suc k) (snd (run_abs step (ops k) a))"
  shows "all_allowed step allowed (concat (map ops [0..<n])) a \<and>
    P n (snd (run_abs step (concat (map ops [0..<n])) a))"
  using assms(2)
proof (induction n)
  case 0
  with assms(1) show ?case by simp
next
  case (Suc n)
  then show ?case by (simp add: all_allowed_append run_abs_append)
qed

locale implements =
  fixes step :: "'o \<Rightarrow> 's \<Rightarrow> ('r \<times> 's) outcome"
    and abs_step :: "'o \<Rightarrow> 'a \<Rightarrow> 'r \<times> 'a"
    and allowed :: "'o \<Rightarrow> 'a \<Rightarrow> bool"
    and abstract :: "'s \<Rightarrow> 'a"
    and ok :: "'s \<Rightarrow> bool"
  assumes step_law: "ok s \<Longrightarrow> allowed x (abstract s) \<Longrightarrow>
    \<exists>s'. step x s = Ok (fst (abs_step x (abstract s)), s') \<and>
      abstract s' = snd (abs_step x (abstract s)) \<and> ok s'"
begin

lemma run_law:
  "ok s \<Longrightarrow> all_allowed abs_step allowed xs (abstract s) \<Longrightarrow>
    \<exists>s'. run_ops step xs s = Ok (fst (run_abs abs_step xs (abstract s)), s') \<and>
      abstract s' = snd (run_abs abs_step xs (abstract s)) \<and> ok s'"
proof (induction xs arbitrary: s)
  case Nil
  then show ?case by simp
next
  case (Cons x xs)
  from Cons.prems step_law [of s x] obtain s1 where s1:
    "step x s = Ok (fst (abs_step x (abstract s)), s1)" "abstract s1 = snd (abs_step x (abstract s))" "ok s1"
    by auto
  with Cons.prems Cons.IH [of s1] show ?case
    by (auto simp: case_prod_beta)
qed

text \<open>No run of allowed operations meets a fault.\<close>

lemma run_no_fault:
  "ok s \<Longrightarrow> all_allowed abs_step allowed xs (abstract s) \<Longrightarrow> run_ops step xs s \<noteq> Fault e"
  using run_law [of s xs] by auto

end

section \<open>Runs of a transition relation\<close>

text \<open>The runs of a labelled step relation, with the list of their labels; the last step is the newest.\<close>

inductive steps :: "('c \<Rightarrow> 'e \<Rightarrow> 'c \<Rightarrow> bool) \<Rightarrow> 'c \<Rightarrow> 'e list \<Rightarrow> 'c \<Rightarrow> bool" for step where
  none: "steps step c [] c"
| more: "steps step c es c' \<Longrightarrow> step c' e c'' \<Longrightarrow> steps step c (es @ [e]) c''"

lemma steps_invariant:
  assumes "steps step c es c'" and "I c" and "\<And>c e c'. I c \<Longrightarrow> step c e c' \<Longrightarrow> I c'"
  shows "I c'"
  using assms(1,2) by (induction rule: steps.induct) (auto intro: assms(3))

lemma steps_one: "step c e c' \<Longrightarrow> steps step c [e] c'"
  using steps.more [OF steps.none, of step c e c'] by simp

lemma steps_append: "steps step c' es' c'' \<Longrightarrow> steps step c es c' \<Longrightarrow> steps step c (es @ es') c''"
proof (induction rule: steps.induct)
  case (none c')
  then show ?case by simp
next
  case (more c' es1 c1 e c2)
  then show ?case using steps.more [of step c "es @ es1" c1 e c2] by simp
qed

lemma steps_Cons: "step c e c' \<Longrightarrow> steps step c' es c'' \<Longrightarrow> steps step c (e # es) c''"
  using steps_append [of step c' es c'' c "[e]"] steps_one [of step c e c'] by simp

lemma steps_split: "steps step c (es @ e # es') c'' \<Longrightarrow> \<exists>c1 c2. steps step c es c1 \<and> step c1 e c2 \<and> steps step c2 es' c''"
proof (induction es' arbitrary: c'' rule: rev_induct)
  case Nil
  then show ?case by (cases rule: steps.cases) (auto intro: steps.none)
next
  case (snoc x xs)
  from snoc.prems obtain c1 where "steps step c (es @ e # xs) c1" "step c1 x c''" by (cases rule: steps.cases) auto
  with snoc.IH show ?case by (blast intro: steps.more)
qed

end
