(* ===== verification/FS_Correct.thy ===== *)
theory FS_Correct
  imports FS_Spec Refinement
begin

text \<open>
  The public operations of the file system, locks included, against the abstract file system.
\<close>

lemma refine_unused_inodes:
  assumes "fs_ok s" and "same_used_inodes s t"
  shows "fs_ok (s\<lparr>inode_table := t\<rparr>)" and "abs_fs (s\<lparr>inode_table := t\<rparr>) = abs_fs s"
proof -
  let ?s = "s\<lparr>inode_table := t\<rparr>"
  note same = unused_inodes [OF assms(2)]
  have content: "content ?s i = content s i" if "is_file s i" for i
    using that assms(2) by (simp add: content_def blk_def same_used_inodes_def)
  then have files: "abs_files ?s = abs_files s" by (auto simp: abs_files_def same fun_eq_iff)
  have dirs: "abs_dir ?s = abs_dir s" by (simp add: abs_dir_def same fun_eq_iff)
  have open': "abs_open ?s = abs_open s" by (simp add: abs_open_def fun_eq_iff)
  have wf: "wf_core s" using assms(1) by (simp add: fs_ok_def)
  from files dirs open' show "abs_fs ?s = abs_fs s" by (simp add: abs_fs_def)
  have "offsets_ok ?s"
    using assms(1) content abs_open_Some(3) [OF wf]
    by (auto simp: fs_ok_def offsets_ok_def open' simp del: length_content)
  with assms(1) wf_core_unused_inodes [OF wf assms(2)] show "fs_ok ?s"
    by (simp add: fs_ok_def names_ok_def same)
qed

abbreviation flag_creat :: "int \<Rightarrow> bool" where "flag_creat flags \<equiv> flags AND TFS_O_CREAT \<noteq> 0"
abbreviation flag_trunc :: "int \<Rightarrow> bool" where "flag_trunc flags \<equiv> flags AND TFS_O_TRUNC \<noteq> 0"
abbreviation flag_append :: "int \<Rightarrow> bool" where "flag_append flags \<equiv> flags AND TFS_O_APPEND \<noteq> 0"

text \<open>A truncation is safe when no handle of the file is past its beginning.\<close>

definition trunc_safe :: "cstring \<Rightarrow> int \<Rightarrow> afs \<Rightarrow> bool" where
  "trunc_safe n flags a \<longleftrightarrow> (flag_trunc flags \<longrightarrow>
     (\<forall>i f off. a_dir a n = Some i \<and> a_open a f = Some (i, off) \<longrightarrow> off = 0))"

lemma refine_open_body:
  assumes "fs_ok s" and "good_name n" and "open_files_mutex s = Unlocked" and "trunc_safe n flags (abs_fs s)"
  shows "\<exists>s'. tfs_open_unsynchronized (path n) flags s =
      Ok (fst (a_open_file n (flag_creat flags) (flag_trunc flags) (flag_append flags) (abs_fs s)), s') \<and>
    abs_fs s' = snd (a_open_file n (flag_creat flags) (flag_trunc flags) (flag_append flags) (abs_fs s)) \<and>
    fs_ok s' \<and> open_files_mutex s' = Unlocked \<and> single_global_lock s' = single_global_lock s"
proof -
  have wf: "wf_core s" using assms(1) by (simp add: fs_ok_def)
  show ?thesis
  proof (cases "abs_dir s n")
    case (Some i)
    note found = abs_dir_lookup(2) [OF wf assms(2) Some]
    let ?s = "if flag_trunc flags then snd (truncate_inode i s) else s"
    have t: "fs_ok ?s" "is_file ?s i" "open_files_mutex ?s = Unlocked"
      "single_global_lock ?s = single_global_lock s"
      "abs_fs ?s = (if flag_trunc flags then (abs_fs s)\<lparr>a_files := (abs_files s)(i \<mapsto> [])\<rparr> else abs_fs s)"
      using refine_truncate [OF assms(1), of i] found assms(1,3,4) Some by (auto simp: trunc_safe_def)
    let ?off = "if flag_append flags then i_size (inode_table ?s i) else 0"
    have off: "unat ?off \<le> length (content ?s i)" by auto
    have len: "length (the (abs_files ?s i)) = unat (i_size (inode_table ?s i))"
      using t(2) by (simp add: abs_files_def)
    have a: "a_open_file n (flag_creat flags) (flag_trunc flags) (flag_append flags) (abs_fs s) =
        a_add_handle i (unat ?off) (abs_fs ?s)"
    proof (cases "flag_trunc flags")
      case True
      with t(5) have "abs_files ?s = (abs_files s)(i \<mapsto> [])" by (simp add: abs_fs_def)
      with len have "unat (i_size (inode_table ?s i)) = 0" by simp
      with True Some t(5) show ?thesis by (simp add: a_open_file_def Let_def)
    next
      case False
      with Some len show ?thesis by (auto simp: a_open_file_def Let_def)
    qed
    have "tfs_open_unsynchronized (path n) flags s = add_to_open_file_table (int i) ?off ?s"
      using open_existing_eq [OF wf _, of i "path n" flags] found by (simp add: Let_def)
    with a refine_add_handle [OF t(1,2) off t(3)] t(4) show ?thesis by auto
  next
    case None
    note absent = abs_dir_lookup(1) [OF wf assms(2) None]
    show ?thesis
    proof (cases "flag_creat flags")
      case False
      with None absent assms(1,3) show ?thesis
        by (auto simp: a_open_file_def tfs_open_unsynchronized_def)
    next
      case creat: True
      have "tfs_lookup_unsynchronized (Some (0x2F # n)) s < 0" using absent by (simp add: path_def)
      from open_new_eq [OF wf this creat] obtain t where t: "same_used_inodes s t"
        and step: "tfs_open_unsynchronized (path n) flags s = (case create_file n s of
            None \<Rightarrow> Ok (-1, s\<lparr>inode_table := t\<rparr>)
          | Some (i, s') \<Rightarrow> add_to_open_file_table (int i) 0 s')"
        by (auto simp: path_def)
      show ?thesis
      proof (cases "card (dom (abs_files s)) = MAX_DIR_ENTRIES")
        case True
        then have "create_file n s = None"
          using dir_full_iff [OF wf] by (simp add: create_file_def split: option.splits)
        with step refine_unused_inodes [OF assms(1) t] assms(3) True None show ?thesis
          by (simp add: a_open_file_def)
      next
        case False
        obtain i where i: "first_free (freeinode_ts s) 0 INODE_TABLE_SIZE = Some i"
          using inode_available [OF wf False] .
        obtain s1 where s1: "create_file n s = Some (i, s1)" "fs_ok s1" "is_file s1 i"
          "abs_fs s1 = (abs_fs s)\<lparr>a_files := (abs_files s)(i \<mapsto> []), a_dir := (abs_dir s)(n \<mapsto> i)\<rparr>"
          "open_files_mutex s1 = Unlocked" "single_global_lock s1 = single_global_lock s"
          using refine_create [OF assms(1,2) None False i] assms(3) by auto
        have a: "a_open_file n (flag_creat flags) (flag_trunc flags) (flag_append flags) (abs_fs s) =
            a_add_handle i (unat (0 :: size_t)) (abs_fs s1)"
          using None creat False i s1(4) by (simp add: a_open_file_def abs_inode_flags [OF wf] Let_def)
        show ?thesis
          unfolding a using step s1(1,6) refine_add_handle [OF s1(2,3) _ s1(5), of 0] by auto
      qed
    qed
  qed
qed

section \<open>The global lock around an operation\<close>

lemma synchronized_Ok_iff:
  "synchronized err body s = Ok (r, s') \<longleftrightarrow>
    single_global_lock s = Unlocked \<and>
    (\<exists>s1. body (s\<lparr>single_global_lock := Locked\<rparr>) = Ok (r, s1) \<and> single_global_lock s1 = Locked \<and>
       s' = s1\<lparr>single_global_lock := Unlocked\<rparr>)"
  by (cases "single_global_lock s") (auto simp: synchronized_def Let_def outcome_simps)

text \<open>
  A body is the abstract operation \<open>g\<close> on every consistent state that represents the same as \<open>s\<close>; then
  it is so under the lock too.
\<close>

definition refines_body :: "(fs_state \<Rightarrow> ('r \<times> fs_state) outcome) \<Rightarrow> (afs \<Rightarrow> 'r \<times> afs) \<Rightarrow> fs_state \<Rightarrow> bool" where
  "refines_body body g s \<longleftrightarrow> (\<forall>s0. abs_fs s0 = abs_fs s \<and> fs_ok s0 \<and> open_files_mutex s0 = Unlocked \<longrightarrow>
     (\<exists>s'. body s0 = Ok (fst (g (abs_fs s)), s') \<and> abs_fs s' = snd (g (abs_fs s)) \<and> fs_ok s' \<and>
        open_files_mutex s' = Unlocked \<and> single_global_lock s' = single_global_lock s0))"

lemma refines_bodyI:
  assumes "\<And>s0. abs_fs s0 = abs_fs s \<Longrightarrow> fs_ok s0 \<Longrightarrow> open_files_mutex s0 = Unlocked \<Longrightarrow>
    \<exists>s'. body s0 = Ok (fst (g (abs_fs s)), s') \<and> abs_fs s' = snd (g (abs_fs s)) \<and> fs_ok s' \<and>
      open_files_mutex s' = Unlocked \<and> single_global_lock s' = single_global_lock s0"
  shows "refines_body body g s"
  using assms unfolding refines_body_def by blast

lemma refines_bodyD:
  assumes "refines_body body g s" and "abs_fs s0 = abs_fs s" and "fs_ok s0" and "open_files_mutex s0 = Unlocked"
  shows "\<exists>s'. body s0 = Ok (fst (g (abs_fs s)), s') \<and> abs_fs s' = snd (g (abs_fs s)) \<and> fs_ok s' \<and>
    open_files_mutex s' = Unlocked \<and> single_global_lock s' = single_global_lock s0"
  using assms unfolding refines_body_def by blast

lemma refine_synchronized:
  assumes "fs_ok s" and "unlocked s" and "refines_body body g s"
  shows "\<exists>s'. synchronized err body s = Ok (fst (g (abs_fs s)), s') \<and> abs_fs s' = snd (g (abs_fs s)) \<and>
    fs_ok s' \<and> unlocked s'"
proof -
  let ?s0 = "s\<lparr>single_global_lock := Locked\<rparr>"
  have "abs_fs ?s0 = abs_fs s" "fs_ok ?s0" "open_files_mutex ?s0 = Unlocked"
    using assms(1,2) by (auto simp: unlocked_def)
  from refines_bodyD [OF assms(3) this] obtain s1 where "body ?s0 = Ok (fst (g (abs_fs s)), s1)"
    "abs_fs s1 = snd (g (abs_fs s))" "fs_ok s1" "open_files_mutex s1 = Unlocked" "single_global_lock s1 = Locked"
    by auto
  then show ?thesis
    using assms(2) by (auto simp: synchronized_Ok_iff unlocked_def)
qed

lemma open_refines_body:
  assumes "good_name n" and "trunc_safe n flags (abs_fs s)"
  shows "refines_body (tfs_open_unsynchronized (path n) flags)
    (a_open_file n (flag_creat flags) (flag_trunc flags) (flag_append flags)) s"
proof (rule refines_bodyI)
  fix s0 assume "abs_fs s0 = abs_fs s" "fs_ok s0" "open_files_mutex s0 = Unlocked"
  with refine_open_body [of s0 n flags] assms show
    "\<exists>s'. tfs_open_unsynchronized (path n) flags s0 =
      Ok (fst (a_open_file n (flag_creat flags) (flag_trunc flags) (flag_append flags) (abs_fs s)), s') \<and>
    abs_fs s' = snd (a_open_file n (flag_creat flags) (flag_trunc flags) (flag_append flags) (abs_fs s)) \<and>
    fs_ok s' \<and> open_files_mutex s' = Unlocked \<and> single_global_lock s' = single_global_lock s0"
    by simp
qed

lemma lookup_refines_body:
  "good_name n \<Longrightarrow> refines_body (\<lambda>s. Ok (tfs_lookup_unsynchronized (path n) s, s)) (\<lambda>a. (a_lookup n a, a)) s"
  by (auto simp: refines_body_def refine_lookup)

lemma close_refines_body: "refines_body (remove_from_open_file_table (int f)) (a_close f) s"
proof (rule refines_bodyI)
  fix s0 assume s0: "abs_fs s0 = abs_fs s" "fs_ok s0" "open_files_mutex s0 = Unlocked"
  show "\<exists>s'. remove_from_open_file_table (int f) s0 = Ok (fst (a_close f (abs_fs s)), s') \<and>
    abs_fs s' = snd (a_close f (abs_fs s)) \<and> fs_ok s' \<and>
    open_files_mutex s' = Unlocked \<and> single_global_lock s' = single_global_lock s0"
  proof (cases "f < MAX_OPEN_FILES")
    case True
    with refine_close [of s0 f] s0 show ?thesis by simp
  next
    case False
    then have "a_close f (abs_fs s0) = (-1, abs_fs s0)" by (simp add: a_close_def abs_open_def)
    with False s0 show ?thesis by (simp add: remove_from_open_file_table_def valid_file_handle_def)
  qed
qed

lemma write_refines_body:
  assumes "abs_open s f = Some (i, off)" and "unat w = length buffer"
    and "length buffer + BLOCK_SIZE < 18446744073709551616"
  shows "refines_body (tfs_write_unsynchronized (int f) buffer w) (a_write f buffer) s"
proof (rule refines_bodyI)
  fix s0 assume s0: "abs_fs s0 = abs_fs s" "fs_ok s0" "open_files_mutex s0 = Unlocked"
  then have "abs_open s0 f = Some (i, off)" using assms(1) by (metis abs_sel(3))
  with refine_write [of s0 f i off w buffer] s0 assms(2,3) show
    "\<exists>s'. tfs_write_unsynchronized (int f) buffer w s0 = Ok (fst (a_write f buffer (abs_fs s)), s') \<and>
    abs_fs s' = snd (a_write f buffer (abs_fs s)) \<and> fs_ok s' \<and>
    open_files_mutex s' = Unlocked \<and> single_global_lock s' = single_global_lock s0" by simp
qed

lemma read_refines_body:
  assumes "abs_open s f = Some (i, off)"
  shows "refines_body (tfs_read_unsynchronized (int f) len) (a_read f (unat len)) s"
proof (rule refines_bodyI)
  fix s0 assume s0: "abs_fs s0 = abs_fs s" "fs_ok s0" "open_files_mutex s0 = Unlocked"
  then have "abs_open s0 f = Some (i, off)" using assms by (metis abs_sel(3))
  with refine_read [of s0 f i off len] s0 show
    "\<exists>s'. tfs_read_unsynchronized (int f) len s0 = Ok (fst (a_read f (unat len) (abs_fs s)), s') \<and>
    abs_fs s' = snd (a_read f (unat len) (abs_fs s)) \<and> fs_ok s' \<and>
    open_files_mutex s' = Unlocked \<and> single_global_lock s' = single_global_lock s0" by simp
qed

section \<open>Every body leaves the locks and the open flag as it found them\<close>

definition kept :: "fs_state \<Rightarrow> fs_state \<Rightarrow> bool" where
  "kept s s' \<longleftrightarrow> open_flag s' = open_flag s \<and> open_files_mutex s' = open_files_mutex s \<and>
     single_global_lock s' = single_global_lock s"

lemma kept_refl [simp]: "kept s s"
  by (simp add: kept_def)

lemma kept_trans: "kept s s' \<Longrightarrow> kept s' s'' \<Longrightarrow> kept s s''"
  by (simp add: kept_def)

lemma add_handle_kept: "add_to_open_file_table i off s = Ok (r, s') \<Longrightarrow> kept s s'"
  by (auto simp: kept_def add_to_open_file_table_def put_defs Let_def outcome_simps split: option.splits)

lemma remove_handle_kept: "remove_from_open_file_table f s = Ok (r, s') \<Longrightarrow> kept s s'"
  by (auto simp: kept_def remove_from_open_file_table_def put_defs Let_def outcome_simps split: if_splits)

lemma alloc_kept: "kept s (snd (data_block_alloc s))"
  by (simp add: kept_def data_block_alloc_def put_defs split: option.splits)

lemma inode_create_kept: "inode_create T_FILE s = (r, s') \<Longrightarrow> kept s s'"
  by (auto simp: kept_def inode_create_def put_defs Let_def split: option.splits)

lemma inode_delete_kept: "inode_delete i s = (r, s') \<Longrightarrow> kept s s'"
  by (auto simp: kept_def inode_delete_def data_block_free_def put_defs Let_def split: if_splits)

lemma add_dir_entry_kept: "add_dir_entry d i n s = (r, s') \<Longrightarrow> kept s s'"
  by (auto simp: kept_def add_dir_entry_def Let_def split: option.splits if_splits)

lemma truncate_kept: "kept s (snd (truncate_inode i s))"
  by (auto simp: kept_def truncate_inode_def data_block_free_def put_defs)

lemmas body_kept = add_handle_kept remove_handle_kept inode_create_kept inode_delete_kept add_dir_entry_kept

lemma open_body_kept:
  assumes "tfs_open_unsynchronized name flags s = Ok (r, s')"
  shows "kept s s'"
proof (cases "tfs_lookup_unsynchronized name s \<ge> 0")
  case True
  show ?thesis
  proof (cases "inode_get (tfs_lookup_unsynchronized name s)")
    case None
    with True assms show ?thesis by (auto simp: tfs_open_unsynchronized_def Let_def)
  next
    case (Some i)
    let ?t = "if flags AND TFS_O_TRUNC \<noteq> 0 then truncate_inode i s else (0, s)"
    have "kept s (snd ?t)" using truncate_kept by simp
    moreover have "kept (snd ?t) s'"
      using assms True Some
      by (cases ?t) (auto simp: tfs_open_unsynchronized_def Let_def dest!: add_handle_kept split: if_splits)
    ultimately show ?thesis by (rule kept_trans)
  qed
next
  case False
  show ?thesis
  proof (cases "flags AND TFS_O_CREAT = 0")
    case True
    with False assms show ?thesis by (simp add: tfs_open_unsynchronized_def)
  next
    case creat: False
    obtain inum s1 where c: "inode_create T_FILE s = (inum, s1)" by (cases "inode_create T_FILE s")
    note k1 = inode_create_kept [OF c]
    show ?thesis
    proof (cases "inum = -1 \<or> (\<exists>e. skip_char name = Fault e)")
      case True
      with False creat assms c k1 show ?thesis by (auto simp: tfs_open_unsynchronized_def split: if_splits)
    next
      case ok: False
      then obtain n where n: "skip_char name = Ok n" by (cases "skip_char name") auto
      obtain r2 s2 where a: "add_dir_entry ROOT_DIR_INUM inum n s1 = (r2, s2)"
        by (cases "add_dir_entry ROOT_DIR_INUM inum n s1")
      note k2 = kept_trans [OF k1 add_dir_entry_kept [OF a]]
      obtain r3 s3 where d: "inode_delete inum s2 = (r3, s3)" by (cases "inode_delete inum s2")
      note k3 = kept_trans [OF k2 inode_delete_kept [OF d]]
      from False creat assms c ok n a d k3 show ?thesis
        by (auto simp: tfs_open_unsynchronized_def dest!: add_handle_kept split: if_splits
            intro: kept_trans [OF k2])
    qed
  qed
qed

lemma write_body_kept: "tfs_write_unsynchronized f b w s = Ok (r, s') \<Longrightarrow> kept s s'"
  using alloc_kept [of s]
  by (auto simp: kept_def tfs_write_unsynchronized_def Let_def outcome_simps put_defs
      split: option.splits if_splits prod.splits)

lemma read_body_kept: "tfs_read_unsynchronized f len s = Ok (r, s') \<Longrightarrow> kept s s'"
  by (auto simp: kept_def tfs_read_unsynchronized_def Let_def outcome_simps put_defs split: option.splits if_splits)

lemma synchronized_kept:
  assumes "synchronized err body s = Ok (r, s')" and "\<And>s r s'. body s = Ok (r, s') \<Longrightarrow> kept s s'"
  shows "kept s s'"
  using assms(1) by (auto simp: synchronized_Ok_iff kept_def dest!: assms(2))

section \<open>Sequences of operations\<close>

text \<open>Between two calls, before the file system is destroyed.\<close>

definition ready :: "fs_state \<Rightarrow> bool" where
  "ready s \<longleftrightarrow> fs_ok s \<and> unlocked s \<and> open_flag s \<noteq> 0"

lemma readyD: "ready s \<Longrightarrow> fs_ok s" "ready s \<Longrightarrow> unlocked s" "ready s \<Longrightarrow> wf s"
  by (auto simp: ready_def fs_ok_def wf_def)

lemma ready_synchronized:
  assumes "ready s" and "refines_body body g s" and "\<And>s r s'. body s = Ok (r, s') \<Longrightarrow> kept s s'"
  shows "\<exists>s'. synchronized err body s = Ok (fst (g (abs_fs s)), s') \<and> abs_fs s' = snd (g (abs_fs s)) \<and> ready s'"
proof -
  obtain s' where "synchronized err body s = Ok (fst (g (abs_fs s)), s')"
    "abs_fs s' = snd (g (abs_fs s))" "fs_ok s'" "unlocked s'"
    using refine_synchronized [OF readyD(1,2) [OF assms(1)] assms(2)] by blast
  moreover from this(1) have "kept s s'" by (rule synchronized_kept) (rule assms(3))
  ultimately show ?thesis using assms(1) by (auto simp: ready_def kept_def)
qed

lemma tfs_open_ready:
  assumes "ready s"
  shows "tfs_open name flags s = synchronized (-1) (tfs_open_unsynchronized name flags) s"
proof -
  have same: "s\<lparr>open_files_mutex := Unlocked\<rparr> = s" using assms by (cases s) (simp add: ready_def unlocked_def)
  have "tfs_open name flags s = synchronized (-1) (tfs_open_unsynchronized name flags)
      (s\<lparr>open_files_mutex := Unlocked\<rparr>)"
    using assms by (simp add: tfs_open_def Let_def ready_def unlocked_def)
  then show ?thesis by (simp only: same)
qed

lemma refine_tfs_open:
  assumes "ready s" and "good_name n" and "trunc_safe n flags (abs_fs s)"
  shows "\<exists>s'. tfs_open (path n) flags s =
      Ok (fst (a_open_file n (flag_creat flags) (flag_trunc flags) (flag_append flags) (abs_fs s)), s') \<and>
    abs_fs s' = snd (a_open_file n (flag_creat flags) (flag_trunc flags) (flag_append flags) (abs_fs s)) \<and>
    ready s'"
  unfolding tfs_open_ready [OF assms(1)]
  by (rule ready_synchronized [OF assms(1) open_refines_body [OF assms(2,3)] open_body_kept])

lemma refine_tfs_lookup:
  assumes "ready s" and "good_name n"
  shows "\<exists>s'. tfs_lookup (path n) s = Ok (a_lookup n (abs_fs s), s') \<and> abs_fs s' = abs_fs s \<and> ready s'"
  using ready_synchronized [OF assms(1) lookup_refines_body [OF assms(2)], of "-1"] by (simp add: tfs_lookup_def)

lemma refine_tfs_close:
  assumes "ready s"
  shows "\<exists>s'. tfs_close (int f) s = Ok (fst (a_close f (abs_fs s)), s') \<and>
    abs_fs s' = snd (a_close f (abs_fs s)) \<and> ready s'"
  unfolding tfs_close_def by (rule ready_synchronized [OF assms close_refines_body remove_handle_kept])

lemma refine_tfs_write:
  assumes "ready s" and "abs_open s f = Some (i, off)" and "unat w = length buffer"
    and "length buffer + BLOCK_SIZE < 18446744073709551616"
  shows "\<exists>s'. tfs_write (int f) buffer w s = Ok (fst (a_write f buffer (abs_fs s)), s') \<and>
    abs_fs s' = snd (a_write f buffer (abs_fs s)) \<and> ready s'"
  unfolding tfs_write_def
  by (rule ready_synchronized [OF assms(1) write_refines_body [OF assms(2-4)] write_body_kept])

lemma refine_tfs_read:
  assumes "ready s" and "abs_open s f = Some (i, off)"
  shows "\<exists>s'. tfs_read (int f) len s = Ok (fst (a_read f (unat len) (abs_fs s)), s') \<and>
    abs_fs s' = snd (a_read f (unat len) (abs_fs s)) \<and> ready s'"
  unfolding tfs_read_def
  by (rule ready_synchronized [OF assms(1) read_refines_body [OF assms(2)] read_body_kept])

section \<open>The invariant under every call\<close>

lemma synchronized_wf:
  assumes "wf s" and "synchronized err body s = Ok (r, s')"
    and "\<And>s r s'. body s = Ok (r, s') \<Longrightarrow> kept s s'"
    and "\<And>s r s'. wf_core s \<Longrightarrow> body s = Ok (r, s') \<Longrightarrow> wf_core s'"
  shows "wf s'"
proof -
  obtain s1 where s1: "body (s\<lparr>single_global_lock := Locked\<rparr>) = Ok (r, s1)"
    and s': "s' = s1\<lparr>single_global_lock := Unlocked\<rparr>"
    using assms(2) by (auto simp: synchronized_Ok_iff)
  from assms(1) have "wf_core s1" by (intro assms(4) [OF _ s1]) (simp add: wf_def)
  moreover have "open_files_mutex s1 = Unlocked"
    using assms(3) [OF s1] assms(1) by (simp add: kept_def wf_def unlocked_def)
  ultimately show ?thesis by (simp add: s' wf_def unlocked_def)
qed

lemma tfs_open_wf:
  assumes "wf s" and "tfs_open name flags s = Ok (r, s')"
  shows "wf s'"
proof (cases "open_flag s = 0")
  case True
  with assms show ?thesis by (auto simp: tfs_open_def Let_def outcome_simps wf_def unlocked_def)
next
  case False
  with assms(2) have "synchronized (-1) (tfs_open_unsynchronized name flags) (s\<lparr>open_files_mutex := Unlocked\<rparr>) = Ok (r, s')"
    by (auto simp: tfs_open_def Let_def outcome_simps)
  moreover have "wf (s\<lparr>open_files_mutex := Unlocked\<rparr>)" using assms(1) by (simp add: wf_def unlocked_def)
  ultimately show ?thesis by (blast intro: synchronized_wf open_body_kept wf_core_open)
qed

lemma tfs_close_wf: "wf s \<Longrightarrow> tfs_close f s = Ok (r, s') \<Longrightarrow> wf s'"
  unfolding tfs_close_def by (blast intro: synchronized_wf remove_handle_kept wf_core_remove_handle)

lemma tfs_read_wf: "wf s \<Longrightarrow> tfs_read f len s = Ok (r, s') \<Longrightarrow> wf s'"
  unfolding tfs_read_def by (blast intro: synchronized_wf read_body_kept wf_core_read)

section \<open>Destruction\<close>

lemma no_handle_when_count_0:
  assumes "wf_core s" and "open_files_count s = 0" and "f < MAX_OPEN_FILES"
  shows "free_open_file_entries s f = FREE"
proof -
  have "card {f. f < MAX_OPEN_FILES \<and> free_open_file_entries s f = TAKEN} = 0"
    using assms(1,2) by (simp add: wf_core_def count_ok_def handles.used_def)
  then show ?thesis using assms(3) by (auto simp: not_TAKEN [symmetric] simp del: not_TAKEN)
qed

lemma wait_all_closed_count: "wait_all_closed ws s = Some s' \<Longrightarrow> open_files_count s' = 0"
proof (induction ws s rule: wait_all_closed.induct)
  case (1 ws s)
  then show ?case by (auto simp: wait_all_closed.simps [of ws s] split: if_splits list.splits)
qed

lemma wait_all_closed_inv:
  "wait_all_closed ws s = Some s' \<Longrightarrow> P s \<Longrightarrow> (\<And>w s. w \<in> set ws \<Longrightarrow> P s \<Longrightarrow> P (w s)) \<Longrightarrow> P s'"
proof (induction ws s rule: wait_all_closed.induct)
  case (1 ws s)
  show ?case
  proof (cases "open_files_count s = 0")
    case True
    with 1 show ?thesis by (simp add: wait_all_closed.simps [of ws s])
  next
    case False
    with 1 obtain w ws' where ws: "ws = w # ws'"
      by (auto simp: wait_all_closed.simps [of ws s] split: list.splits)
    with 1 False show ?thesis by (simp add: wait_all_closed.simps [of "w # ws'" s])
  qed
qed

lemma destroy_returns:
  assumes "tfs_destroy_after_all_closed ws s = Ok (Some (r, s'))"
  obtains s1 where "wait_all_closed ws (s\<lparr>open_files_mutex := Locked\<rparr>) = Some s1"
    and "s' = s1\<lparr>open_flag := 0, open_files_mutex := Unlocked\<rparr>" and "r = 0"
  using assms by (auto simp: tfs_destroy_after_all_closed_def Let_def outcome_simps state_destroy_def
      split: option.splits)

lemma tfs_open_closed:
  assumes "open_flag s = 0" and "open_files_mutex s = Unlocked"
  shows "tfs_open name flags s = Ok (-1, s)"
proof -
  have "s\<lparr>open_files_mutex := Unlocked\<rparr> = s" using assms(2) by (cases s) simp
  with assms show ?thesis by (simp add: tfs_open_def Let_def)
qed

end
