(* ===== verification/FS_Run.thy ===== *)
theory FS_Run
  imports FS_Correct
begin

text \<open>
  Start-up establishes the invariant and the empty abstract file system; from there every sequence
  of allowed operations behaves as the abstract file system does.
\<close>

section \<open>Start-up\<close>

text \<open>The state \<open>tfs_init\<close> leaves behind when the mutexes could be initialised.\<close>

definition booted :: "fs_state \<Rightarrow> fs_state" where
  "booted s = s\<lparr>inode_table := (inode_table s)(0 := \<lparr>i_node_type = T_DIRECTORY, i_size = of_nat BLOCK_SIZE, i_data_block = 0\<rparr>),
     freeinode_ts := (\<lambda>i. if i < INODE_TABLE_SIZE then if i = 0 then TAKEN else FREE else freeinode_ts s i),
     fs_data := clear_entries 0 MAX_DIR_ENTRIES (fs_data s),
     free_blocks := (\<lambda>i. if i < DATA_BLOCKS then if i = 0 then TAKEN else FREE else free_blocks s i),
     free_open_file_entries := (\<lambda>i. if i < MAX_OPEN_FILES then FREE else free_open_file_entries s i),
     open_flag := 1, open_files_mutex := Unlocked, single_global_lock := Unlocked\<rparr>"

lemma first_free_first: "0 < n \<Longrightarrow> t 0 = FREE \<Longrightarrow> first_free t 0 n = Some 0"
  by (simp add: first_free.simps [of t 0 n])

lemma tfs_init_eq: "tfs_init 0 0 s = Ok (0, booted s)"
  by (simp add: tfs_init_def state_init_def Let_def pthread_mutex_init_def inode_create_def
      first_free_first data_block_alloc_def data_block_get_def valid_block_number_def put_defs
      booted_def fun_eq_iff if_distrib ROOT_DIR_INUM_def config)

lemma booted_view:
  "blk (booted s) 0 = 0" "dir_addr (booted s) = 0" "is_file (booted s) i \<longleftrightarrow> False"
  "owner (booted s) i \<longleftrightarrow> i = 0" "fs_data (booted s) = clear_entries 0 MAX_DIR_ENTRIES (fs_data s)"
  by (auto simp: view_defs booted_def)

lemma booted_no_entry: "\<not> live (fs_data (booted s)) 0 e"
  by (auto simp: booted_view live_def clear_entries_inumber)

lemma booted_no_handle: "f < MAX_OPEN_FILES \<Longrightarrow> free_open_file_entries (booted s) f = FREE"
  by (simp add: booted_def)

lemma abs_booted: "abs_fs (booted s) = \<lparr>a_dir = (\<lambda>_. None), a_files = (\<lambda>_. None), a_open = (\<lambda>_. None)\<rparr>"
proof -
  have "find_entry (fs_data (booted s)) 0 n 0 = -1" for n
    by (rule find_entry_absent) (simp add: booted_no_entry)
  then show ?thesis
    by (auto simp: abs_fs_def abs_dir_def abs_files_def abs_open_def booted_view(2,3) booted_no_handle fun_eq_iff)
qed

lemma ready_booted:
  assumes "open_files_count s = 0"
  shows "ready (booted s)"
proof -
  have "root_ok (booted s)" by (simp add: root_ok_def booted_def config)
  moreover have "types_ok (booted s)" by (simp add: types_ok_def booted_view)
  moreover have "handles_ok (booted s)" by (auto simp: handles_ok_def booted_no_handle)
  moreover have "count_ok (booted s)"
  proof -
    have "handles.used (booted s) = 0" by (auto simp: handles.used_def booted_no_handle)
    with assms show ?thesis by (simp add: count_ok_def) (simp add: booted_def)
  qed
  moreover have "dir_ok (booted s)"
    unfolding dir_ok_def booted_view(2,3) by (simp add: booted_no_entry bij_betw_def inj_on_def)
  moreover have "blocks_ok (booted s)"
  proof -
    have "{b. b < DATA_BLOCKS \<and> free_blocks (booted s) b = TAKEN} = {0}"
      by (auto simp: booted_def config split: if_splits)
    moreover have "bij_betw (blk (booted s)) {0} {0}" by (simp add: bij_betw_def booted_view)
    moreover have "valid_block_number (i_data_block (inode_table (booted s) 0)) \<and>
        i_size (inode_table (booted s) 0) \<le> of_nat BLOCK_SIZE"
      by (simp add: booted_def valid_block_number_def config)
    ultimately show ?thesis by (simp add: blocks_ok_def booted_view(4))
  qed
  moreover have "offsets_ok (booted s)"
    using abs_booted [of s] by (simp add: offsets_ok_def abs_fs_def)
  moreover have "names_ok (booted s)"
    by (simp add: names_ok_def distinct_names_def booted_view(2) booted_no_entry)
  ultimately show ?thesis
    by (simp add: ready_def fs_ok_def wf_core_def) (simp add: unlocked_def booted_def)
qed

section \<open>Operations as data\<close>

datatype fs_op =
    Op_open cstring int
  | Op_lookup cstring
  | Op_close nat
  | Op_write nat "byte list"
  | Op_read nat nat

type_synonym fs_res = "int \<times> byte list"

definition no_bytes :: "(int \<times> 's) outcome \<Rightarrow> (fs_res \<times> 's) outcome" where
  "no_bytes m = and_then m (\<lambda>(r, s). Ok ((r, []), s))"

fun fs_step :: "fs_op \<Rightarrow> fs_state \<Rightarrow> (fs_res \<times> fs_state) outcome" where
  "fs_step (Op_open n flags) s = no_bytes (tfs_open (path n) flags s)"
| "fs_step (Op_lookup n) s = no_bytes (tfs_lookup (path n) s)"
| "fs_step (Op_close f) s = no_bytes (tfs_close (int f) s)"
| "fs_step (Op_write f data) s = no_bytes (tfs_write (int f) data (of_nat (length data)) s)"
| "fs_step (Op_read f len) s = tfs_read (int f) (of_nat len) s"

fun a_step :: "fs_op \<Rightarrow> afs \<Rightarrow> fs_res \<times> afs" where
  "a_step (Op_open n flags) a =
     (case a_open_file n (flag_creat flags) (flag_trunc flags) (flag_append flags) a of (r, a) \<Rightarrow> ((r, []), a))"
| "a_step (Op_lookup n) a = ((a_lookup n a, []), a)"
| "a_step (Op_close f) a = (case a_close f a of (r, a) \<Rightarrow> ((r, []), a))"
| "a_step (Op_write f data) a = (case a_write f data a of (r, a) \<Rightarrow> ((r, []), a))"
| "a_step (Op_read f len) a = a_read f len a"

text \<open>
  What a well-behaved client respects: names that fit an entry, no truncation of a file some handle
  is past the beginning of, reads and writes through open handles only, lengths that fit.
\<close>

fun allowed :: "fs_op \<Rightarrow> afs \<Rightarrow> bool" where
  "allowed (Op_open n flags) a \<longleftrightarrow> good_name n \<and> trunc_safe n flags a"
| "allowed (Op_lookup n) a \<longleftrightarrow> good_name n"
| "allowed (Op_close f) a \<longleftrightarrow> True"
| "allowed (Op_write f data) a \<longleftrightarrow> a_open a f \<noteq> None \<and> length data + BLOCK_SIZE < 18446744073709551616"
| "allowed (Op_read f len) a \<longleftrightarrow> a_open a f \<noteq> None \<and> len < 18446744073709551616"

interpretation tfs: implements fs_step a_step allowed abs_fs ready
proof unfold_locales
  fix s x
  assume s: "ready s" and x: "allowed x (abs_fs s)"
  show "\<exists>s'. fs_step x s = Ok (fst (a_step x (abs_fs s)), s') \<and> abs_fs s' = snd (a_step x (abs_fs s)) \<and> ready s'"
  proof (cases x)
    case (Op_open n flags)
    with refine_tfs_open [OF s, of n flags] x show ?thesis by (auto simp: no_bytes_def case_prod_beta)
  next
    case (Op_lookup n)
    with refine_tfs_lookup [OF s, of n] x show ?thesis by (auto simp: no_bytes_def)
  next
    case (Op_close f)
    with refine_tfs_close [OF s, of f] show ?thesis by (auto simp: no_bytes_def case_prod_beta)
  next
    case (Op_write f data)
    with x obtain i off where "abs_open s f = Some (i, off)" by auto
    with Op_write x refine_tfs_write [OF s this, of "of_nat (length data)" data] show ?thesis
      by (auto simp: no_bytes_def case_prod_beta unat_of_nat_small)
  next
    case (Op_read f len)
    with x obtain i off where "abs_open s f = Some (i, off)" by auto
    with Op_read x refine_tfs_read [OF s this, of "of_nat len"] show ?thesis
      by (auto simp: unat_of_nat_small)
  qed
qed

end
