(* ===== verification/FS_Demo.thy ===== *)
theory FS_Demo
  imports FS_Run
begin

text \<open>
  Concrete file systems: the state after start-up and a list of operations. The witnesses of the
  file system's properties are evaluated on them.
\<close>

definition empty_fs :: afs where
  "empty_fs = \<lparr>a_dir = (\<lambda>_. None), a_files = (\<lambda>_. None), a_open = (\<lambda>_. None)\<rparr>"

definition run_state :: "fs_op list \<Rightarrow> fs_state" where
  "run_state xs = (case run_ops fs_step xs (booted fs_static) of Ok (_, s) \<Rightarrow> s | Fault _ \<Rightarrow> fs_static)"

lemma ready_start: "ready (booted fs_static)" "abs_fs (booted fs_static) = empty_fs"
  by (simp_all add: ready_booted fs_static_def) (simp add: abs_booted empty_fs_def)

lemma ready_run_state:
  assumes "all_allowed a_step allowed xs empty_fs"
  shows "ready (run_state xs)" and "abs_fs (run_state xs) = snd (run_abs a_step xs empty_fs)"
  using tfs.run_law [OF ready_start(1), of xs] assms by (auto simp: run_state_def ready_start(2))

text \<open>The name \<open>f1\<close>, and the operations the witnesses run.\<close>

definition f1 :: cstring where "f1 = [0x66, 0x31]"
definition f2 :: cstring where "f2 = [0x66, 0x32]"

lemma good_f1 [simp]: "good_name f1" "good_name f2" "f1 \<noteq> f2" "f2 \<noteq> f1"
  by (simp_all add: f1_def f2_def good_name_def config)

lemmas eval_abs = a_open_file_def a_add_handle_def a_write_def a_read_def a_close_def a_lookup_def
  first_free.simps empty_fs_def trunc_safe_def config Let_def numeral_2_eq_2 [symmetric]

definition demo_created :: fs_state where
  "demo_created = run_state [Op_open f1 1]"

definition demo_written :: fs_state where
  "demo_written = run_state [Op_open f1 1, Op_write 0 [7, 8, 9]]"

definition demo_two :: fs_state where
  "demo_two = run_state [Op_open f1 1, Op_write 0 [7, 8, 9], Op_open f2 1]"

lemma demo_created:
  "ready demo_created"
  "abs_fs demo_created = \<lparr>a_dir = [f1 \<mapsto> 1], a_files = [1 \<mapsto> []], a_open = [0 \<mapsto> (1, 0)]\<rparr>"
  unfolding demo_created_def
  by (subst ready_run_state; simp add: eval_abs)+

lemma demo_written:
  "ready demo_written"
  "abs_fs demo_written = \<lparr>a_dir = [f1 \<mapsto> 1], a_files = [1 \<mapsto> [7, 8, 9]], a_open = [0 \<mapsto> (1, 3)]\<rparr>"
  unfolding demo_written_def
  by (subst ready_run_state; simp add: eval_abs)+

lemma demo_two:
  "ready demo_two"
  "abs_fs demo_two = \<lparr>a_dir = [f1 \<mapsto> 1, f2 \<mapsto> 2], a_files = [1 \<mapsto> [7, 8, 9], 2 \<mapsto> []],
     a_open = [0 \<mapsto> (1, 3), 1 \<mapsto> (2, 0)]\<rparr>"
  unfolding demo_two_def
  by (subst ready_run_state; simp add: eval_abs)+

text \<open>All twenty handles on one file.\<close>

definition demo_handles :: fs_state where
  "demo_handles = run_state (concat (map (\<lambda>_. [Op_open f1 1]) [0..<MAX_OPEN_FILES]))"

definition handles_up_to :: "nat \<Rightarrow> afs \<Rightarrow> bool" where
  "handles_up_to k a \<longleftrightarrow> (if k = 0 then a = empty_fs
     else a_dir a = [f1 \<mapsto> 1] \<and> a_files a = [1 \<mapsto> []] \<and> (\<forall>f. a_open a f = None \<longleftrightarrow> k \<le> f))"

lemma first_handle:
  assumes "handles_up_to 0 a"
  shows "snd (a_step (Op_open f1 1) a) = \<lparr>a_dir = [f1 \<mapsto> 1], a_files = [1 \<mapsto> []], a_open = [0 \<mapsto> (1, 0)]\<rparr>"
  using assms by (simp add: eval_abs handles_up_to_def)

lemma next_handle:
  assumes "0 < k" and "k < MAX_OPEN_FILES" and "handles_up_to k a"
  shows "snd (a_step (Op_open f1 1) a) = a\<lparr>a_open := (a_open a)(k \<mapsto> (1, 0))\<rparr>"
proof -
  from assms have a: "a_dir a = [f1 \<mapsto> 1]" "a_files a = [1 \<mapsto> []]" "\<And>f. a_open a f = None \<longleftrightarrow> k \<le> f"
    by (simp_all add: handles_up_to_def)
  have "first_free (\<lambda>f. if a_open a f = None then FREE else TAKEN) 0 MAX_OPEN_FILES = Some k"
    using assms(2) by (intro first_free_least) (simp_all add: a(3))
  then show ?thesis
    by (simp add: a(1) a_open_file_def a_add_handle_def TFS_O_TRUNC_def TFS_O_APPEND_def)
qed

lemma handles_up_to_step:
  assumes "k < MAX_OPEN_FILES" and "handles_up_to k a"
  shows "allowed (Op_open f1 1) a \<and> handles_up_to (Suc k) (snd (a_step (Op_open f1 1) a))"
proof (cases "k = 0")
  case True
  with assms(2) first_handle [of a] show ?thesis
    by (simp add: handles_up_to_def trunc_safe_def empty_fs_def good_f1 del: a_step.simps)
next
  case False
  with assms next_handle [of k a] show ?thesis
    by (simp add: handles_up_to_def trunc_safe_def TFS_O_TRUNC_def del: a_step.simps) presburger
qed

lemma demo_handles:
  "ready demo_handles" "abs_dir demo_handles = [f1 \<mapsto> 1]" "abs_files demo_handles = [1 \<mapsto> []]"
  "f < MAX_OPEN_FILES \<Longrightarrow> abs_open demo_handles f \<noteq> None"
proof -
  let ?xs = "concat (map (\<lambda>_. [Op_open f1 1]) [0..<MAX_OPEN_FILES])"
  have run: "all_allowed a_step allowed ?xs empty_fs \<and>
      handles_up_to MAX_OPEN_FILES (snd (run_abs a_step ?xs empty_fs))"
  proof (rule run_abs_repeat)
    show "handles_up_to 0 empty_fs" by (simp add: handles_up_to_def)
  next
    fix k a assume "k < MAX_OPEN_FILES" "handles_up_to k a"
    from handles_up_to_step [OF this] show "all_allowed a_step allowed [Op_open f1 1] a \<and>
        handles_up_to (Suc k) (snd (run_abs a_step [Op_open f1 1] a))"
      by (simp add: case_prod_beta del: a_step.simps allowed.simps)
  qed
  have max: "MAX_OPEN_FILES \<noteq> 0" by (simp add: config)
  show "ready demo_handles" unfolding demo_handles_def by (rule ready_run_state [OF conjunct1 [OF run]])
  have "handles_up_to MAX_OPEN_FILES (abs_fs demo_handles)"
    unfolding demo_handles_def ready_run_state(2) [OF conjunct1 [OF run]] by (rule conjunct2 [OF run])
  then show "abs_dir demo_handles = [f1 \<mapsto> 1]" "abs_files demo_handles = [1 \<mapsto> []]"
    "f < MAX_OPEN_FILES \<Longrightarrow> abs_open demo_handles f \<noteq> None"
    using max by (auto simp: handles_up_to_def)
qed

text \<open>A full directory: 23 files, named by strings of different lengths, all closed.\<close>

definition nth_name :: "nat \<Rightarrow> cstring" where
  "nth_name k = replicate (Suc k) 1"

definition create_nth :: "nat \<Rightarrow> fs_op list" where
  "create_nth k = [Op_open (nth_name k) 1, Op_close 0]"

definition demo_full :: fs_state where
  "demo_full = run_state (concat (map create_nth [0..<MAX_DIR_ENTRIES]))"

definition files_up_to :: "nat \<Rightarrow> afs \<Rightarrow> bool" where
  "files_up_to k a \<longleftrightarrow> a_open a = (\<lambda>_. None) \<and> finite (dom (a_files a)) \<and> card (dom (a_files a)) = k \<and>
     (\<forall>n. a_dir a n \<noteq> None \<longrightarrow> length n \<le> k)"

lemma files_up_to_step:
  assumes "k < MAX_DIR_ENTRIES" and "files_up_to k a"
  shows "all_allowed a_step allowed (create_nth k) a \<and> files_up_to (Suc k) (snd (run_abs a_step (create_nth k) a))"
proof -
  have a: "a_open a = (\<lambda>_. None)" "finite (dom (a_files a))" "card (dom (a_files a)) = k"
    and short: "\<And>n. k < length n \<Longrightarrow> a_dir a n = None"
    using assms(2) by (auto simp: files_up_to_def not_le)
  have name: "good_name (nth_name k)" "a_dir a (nth_name k) = None"
    using assms(1) short by (auto simp: nth_name_def good_name_def config)
  let ?t = "\<lambda>i. if i = 0 then TAKEN else case a_files a i of None \<Rightarrow> FREE | Some _ \<Rightarrow> TAKEN"
  obtain i where i: "first_free ?t 0 INODE_TABLE_SIZE = Some i" "a_files a i = None"
  proof (cases rule: first_free_cases [of ?t INODE_TABLE_SIZE])
    case full
    then have "{0<..<INODE_TABLE_SIZE} \<subseteq> dom (a_files a)" by (fastforce split: option.splits if_splits)
    then have "card {0<..<INODE_TABLE_SIZE} \<le> k" using a(2,3) by (metis card_mono)
    with assms(1) show ?thesis by (simp add: config)
  next
    case (found i)
    with that show ?thesis by (auto split: if_splits option.splits)
  qed
  have h: "first_free (\<lambda>f. FREE) 0 MAX_OPEN_FILES = Some 0"
    by (rule first_free_least) (simp_all add: config)
  have step: "snd (run_abs a_step (create_nth k) a) =
      a\<lparr>a_files := (a_files a)(i \<mapsto> []), a_dir := (a_dir a)(nth_name k \<mapsto> i), a_open := (\<lambda>_. None)\<rparr>"
    using name a(1,3) assms(1) i h
    by (simp add: create_nth_def a_open_file_def a_add_handle_def a_close_def TFS_O_CREAT_def fun_upd_idem Let_def)
  have "card (dom ((a_files a)(i \<mapsto> []))) = Suc k"
    using a(2,3) i(2) by (simp add: card_insert_if domIff)
  moreover have "length n \<le> Suc k" if "((a_dir a)(nth_name k \<mapsto> i)) n \<noteq> None" for n
    using that short [of n] by (cases "n = nth_name k") (auto simp: nth_name_def intro: le_SucI leI)
  moreover have "finite (dom ((a_files a)(i \<mapsto> [])))" using a(2) by simp
  ultimately show ?thesis
    unfolding step using name a
    by (auto simp: files_up_to_def create_nth_def trunc_safe_def TFS_O_TRUNC_def simp del: dom_fun_upd)
qed

lemma demo_full:
  "ready demo_full" "card (dom (abs_files demo_full)) = MAX_DIR_ENTRIES"
  "abs_dir demo_full (replicate 30 1) = None"
proof -
  let ?xs = "concat (map create_nth [0..<MAX_DIR_ENTRIES])"
  have run: "all_allowed a_step allowed ?xs empty_fs \<and>
      files_up_to MAX_DIR_ENTRIES (snd (run_abs a_step ?xs empty_fs))"
    by (rule run_abs_repeat [where P = files_up_to, OF _ files_up_to_step]) (simp_all add: files_up_to_def empty_fs_def)
  show "ready demo_full" unfolding demo_full_def by (rule ready_run_state [OF conjunct1 [OF run]])
  have "files_up_to MAX_DIR_ENTRIES (abs_fs demo_full)"
    unfolding demo_full_def ready_run_state(2) [OF conjunct1 [OF run]] by (rule conjunct2 [OF run])
  then show "card (dom (abs_files demo_full)) = MAX_DIR_ENTRIES" "abs_dir demo_full (replicate 30 1) = None"
    by (auto simp: files_up_to_def config)
qed


end
