(* ===== verification/FS_Props.thy ===== *)
theory FS_Props
  imports FS_Demo
begin

text \<open>
  The properties of the server's file system (\<open>parte-2/fs/state.c\<close>, \<open>parte-2/fs/operations.c\<close>), each
  with a witness on a concrete file system.
\<close>

section \<open>Runs of operations\<close>

text \<open>
  C2: After a successful start-up, every sequence of allowed opens, lookups, closes, writes and reads
  meets no fault, returns exactly the results and the bytes of the abstract file system, and ends in
  a well-formed state that represents the abstract one.
\<close>
theorem tfs_runs_refine:
  assumes "open_files_count s = 0" and "tfs_init 0 0 s = Ok (0, s0)"
    and "all_allowed a_step allowed xs empty_fs"
  shows "\<exists>s'. run_ops fs_step xs s0 = Ok (fst (run_abs a_step xs empty_fs), s') \<and>
    abs_fs s' = snd (run_abs a_step xs empty_fs) \<and> wf s'"
proof -
  from assms(2) have "s0 = booted s" by (simp add: tfs_init_eq)
  then show ?thesis
    using tfs.run_law [OF ready_booted [OF assms(1)], of xs] assms(3)
    by (auto simp: abs_booted empty_fs_def dest: readyD)
qed

theorem tfs_runs_refine_witness:
  "\<exists>s'. run_ops fs_step [Op_open f1 1, Op_write 0 [7, 8, 9], Op_close 0, Op_open f1 0, Op_read 0 5] (booted fs_static) =
    Ok ([(0, []), (3, []), (0, []), (0, []), (3, [7, 8, 9])], s') \<and> wf s'"
proof -
  have "open_files_count fs_static = 0" by (simp add: fs_static_def)
  from tfs_runs_refine [OF this tfs_init_eq, of
      "[Op_open f1 1, Op_write 0 [7, 8, 9], Op_close 0, Op_open f1 0, Op_read 0 5]"]
  show ?thesis by (auto simp: eval_abs)
qed

text \<open>
  C8: What is written to a new file is read back: create, write, close, open again and read return the
  handle, the number of bytes written (all of them, up to one block) and the first bytes of the data.
\<close>
theorem write_read_round_trip:
  assumes "ready s" and "good_name n" and "abs_dir s n = None" and "card (dom (abs_files s)) \<noteq> MAX_DIR_ENTRIES"
    and "f < MAX_OPEN_FILES" and "abs_open s f = None" and "\<And>g. g < f \<Longrightarrow> abs_open s g \<noteq> None"
    and "length data \<le> BLOCK_SIZE" and "k < 18446744073709551616"
  shows "\<exists>s'. run_ops fs_step [Op_open n TFS_O_CREAT, Op_write f data, Op_close f, Op_open n 0, Op_read f k] s =
    Ok ([(int f, []), (int (length data), []), (0, []), (int f, []), (int (min k (length data)), take k data)], s')"
proof -
  let ?xs = "[Op_open n TFS_O_CREAT, Op_write f data, Op_close f, Op_open n 0, Op_read f k]"
  have flags: "flag_creat TFS_O_CREAT" "\<not> flag_trunc TFS_O_CREAT" "\<not> flag_trunc 0" "\<not> flag_append TFS_O_CREAT"
    by (simp_all add: config)
  have free: "first_free (\<lambda>g. if abs_open s g = None then FREE else TAKEN) 0 MAX_OPEN_FILES = Some f"
    "first_free (\<lambda>g. if (if g = f then None else abs_open s g) = None then FREE else TAKEN) 0 MAX_OPEN_FILES = Some f"
    using assms(5-7) by (auto intro!: first_free_least)
  have len: "length data + BLOCK_SIZE < 18446744073709551616" using assms(8) by (simp add: config)
  have "all_allowed a_step allowed ?xs (abs_fs s)"
    using assms(2,3,4,9) flags free len
    by (simp add: a_open_file_def a_add_handle_def a_write_def a_close_def trunc_safe_def Let_def)
  moreover have "fst (run_abs a_step ?xs (abs_fs s)) =
      [(int f, []), (int (length data), []), (0, []), (int f, []), (int (min k (length data)), take k data)]"
    using assms(3,4,8) flags free
    by (simp add: a_open_file_def a_add_handle_def a_write_def a_close_def a_read_def Let_def min.commute)
  ultimately show ?thesis using tfs.run_law [OF assms(1), of ?xs] by auto
qed

theorem write_read_round_trip_witness:
  "\<exists>s'. run_ops fs_step [Op_open f2 TFS_O_CREAT, Op_write 1 [1, 2], Op_close 1, Op_open f2 0, Op_read 1 1] demo_written =
    Ok ([(1, []), (2, []), (0, []), (1, []), (1, [1])], s')"
  using write_read_round_trip [of demo_written f2 1 "[1, 2]" 1] demo_written
  by (simp add: abs_fs_def config)

section \<open>Writing and reading\<close>

text \<open>
  C16: A write through an open handle at position \<open>off\<close> writes \<open>min (length buffer) (1024 - off)\<close> bytes:
  it replaces exactly that slice of the file's bytes, advances that handle, and changes no other
  file, no other handle and no directory entry.
\<close>
theorem write_effect:
  assumes "ready s" and "abs_open s f = Some (i, off)" and "unat w = length buffer"
    and "length buffer + BLOCK_SIZE < 18446744073709551616"
  defines "n \<equiv> min (length buffer) (BLOCK_SIZE - off)"
  shows "\<exists>s'. tfs_write (int f) buffer w s = Ok (int n, s') \<and> ready s' \<and>
    abs_files s' = (abs_files s)(i \<mapsto> take off (content s i) @ take n buffer @ drop (off + n) (content s i)) \<and>
    abs_open s' = (abs_open s)(f \<mapsto> (i, off + n)) \<and> abs_dir s' = abs_dir s"
proof -
  have "is_file s i"
    using assms(1,2) by (auto simp: ready_def fs_ok_def intro: abs_open_Some(3))
  then have "the (abs_files s i) = content s i" by (simp add: abs_files_def)
  with refine_tfs_write [OF assms(1-4)] assms(2) show ?thesis
    by (auto simp: a_write_def Let_def abs_fs_def n_def)
qed

theorem write_effect_witness:
  "\<exists>s'. tfs_write 0 [4, 5] 2 demo_written = Ok (2, s') \<and> abs_files s' 1 = Some [7, 8, 9, 4, 5]"
proof -
  have "abs_open demo_written 0 = Some (1, 3)" "content demo_written 1 = [7, 8, 9]"
    using demo_written(2) by (auto simp: abs_fs_def abs_files_def fun_eq_iff split: if_splits)
  with write_effect [OF demo_written(1), of 0 1 3 2 "[4, 5]"] show ?thesis by (auto simp: config)
qed

text \<open>
  C23: A read through an open handle at position \<open>off\<close> returns the next \<open>min len (size - off)\<close> bytes of
  the file (none at its end, with result 0), advances that handle and changes nothing else.
\<close>
theorem read_effect:
  fixes len :: size_t
  assumes "ready s" and "abs_open s f = Some (i, off)"
  defines "bytes \<equiv> take (unat len) (drop off (content s i))"
  shows "\<exists>s'. tfs_read (int f) len s = Ok ((int (length bytes), bytes), s') \<and> ready s' \<and>
    abs_files s' = abs_files s \<and> abs_dir s' = abs_dir s \<and>
    abs_open s' = (abs_open s)(f \<mapsto> (i, off + length bytes))"
proof -
  have "is_file s i"
    using assms(1,2) by (auto simp: ready_def fs_ok_def intro: abs_open_Some(3))
  then have "the (abs_files s i) = content s i" by (simp add: abs_files_def)
  with refine_tfs_read [OF assms(1,2), of len] assms(2) show ?thesis
    unfolding bytes_def by (auto simp: a_read_def Let_def abs_fs_def)
qed

theorem read_effect_witness:
  "\<exists>s'. tfs_read 0 10 demo_written = Ok ((0, []), s') \<and> ready s'"
proof -
  have "abs_open demo_written 0 = Some (1, 3)" "content demo_written 1 = [7, 8, 9]"
    using demo_written(2) by (auto simp: abs_fs_def abs_files_def fun_eq_iff split: if_splits)
  with read_effect [OF demo_written(1), of 0 1 3 10] show ?thesis by (auto simp del: length_content)
qed

section \<open>Opening\<close>

text \<open>
  Opening an existing file returns the lowest free handle; with TRUNC the file is emptied and its
  block released, with APPEND the handle starts at the end of the file, otherwise at its beginning.
\<close>
theorem open_existing_effect:
  fixes flags :: int
  assumes "ready s" and "good_name n" and "abs_dir s n = Some i" and "trunc_safe n flags (abs_fs s)"
    and "f < MAX_OPEN_FILES" and "abs_open s f = None" and "\<And>g. g < f \<Longrightarrow> abs_open s g \<noteq> None"
  defines "files \<equiv> (if flag_trunc flags then (abs_files s)(i \<mapsto> []) else abs_files s)"
  shows "\<exists>s'. tfs_open (path n) flags s = Ok (int f, s') \<and> ready s' \<and>
    abs_files s' = files \<and> abs_dir s' = abs_dir s \<and>
    abs_open s' = (abs_open s)(f \<mapsto> (i, if flag_append flags then length (the (files i)) else 0))"
proof -
  have "first_free (\<lambda>g. if abs_open s g = None then FREE else TAKEN) 0 MAX_OPEN_FILES = Some f"
    using assms(5-7) by (auto intro!: first_free_least)
  with refine_tfs_open [OF assms(1,2,4)] assms(3) show ?thesis
    unfolding files_def by (auto simp: a_open_file_def a_add_handle_def Let_def abs_fs_def)
qed

theorem open_existing_effect_witness:
  "\<exists>s'. tfs_open (path f1) TFS_O_APPEND demo_written = Ok (1, s') \<and> abs_open s' 1 = Some (1, 3)"
  using open_existing_effect [of demo_written f1 1 TFS_O_APPEND 1] demo_written
  by (auto simp: abs_fs_def config trunc_safe_def)

text \<open>
  Opening an absent name with CREAT, while fewer than 23 files exist and a handle is free, adds the
  name to the directory with an i-node no other file uses, as an empty file, and opens it.
\<close>
theorem open_creates:
  assumes "ready s" and "good_name n" and "abs_dir s n = None" and "flag_creat flags"
    and "card (dom (abs_files s)) \<noteq> MAX_DIR_ENTRIES"
    and "f < MAX_OPEN_FILES" and "abs_open s f = None" and "\<And>g. g < f \<Longrightarrow> abs_open s g \<noteq> None"
  shows "\<exists>s' i. tfs_open (path n) flags s = Ok (int f, s') \<and> ready s' \<and> abs_files s i = None \<and>
    abs_files s' = (abs_files s)(i \<mapsto> []) \<and> abs_dir s' = (abs_dir s)(n \<mapsto> i) \<and>
    abs_open s' = (abs_open s)(f \<mapsto> (i, 0))"
proof -
  have wf: "wf_core s" using assms(1) by (simp add: ready_def fs_ok_def)
  have "first_free (\<lambda>g. if abs_open s g = None then FREE else TAKEN) 0 MAX_OPEN_FILES = Some f"
    using assms(6-8) by (auto intro!: first_free_least)
  moreover obtain i where "first_free (freeinode_ts s) 0 INODE_TABLE_SIZE = Some i" "freeinode_ts s i = FREE"
    using inode_available [OF wf assms(5)] by metis
  moreover from this(2) have "abs_files s i = None" by (simp add: abs_files_def is_file_def)
  moreover have "trunc_safe n flags (abs_fs s)" using assms(3) by (simp add: trunc_safe_def)
  ultimately show ?thesis
    using refine_tfs_open [OF assms(1,2), of flags] assms(3-5) abs_inode_flags [OF wf, unfolded abs_fs_def]
    by (auto simp: a_open_file_def a_add_handle_def Let_def abs_fs_def)
qed

theorem open_creates_witness:
  "\<exists>s' i. tfs_open (path f2) TFS_O_CREAT demo_written = Ok (1, s') \<and> abs_dir s' = [f1 \<mapsto> 1, f2 \<mapsto> i]"
  using open_creates [of demo_written f2 TFS_O_CREAT 1] demo_written
  by (simp add: abs_fs_def config) blast

text \<open>
  With 23 files in the directory, opening an absent name with CREAT returns -1 and leaves the
  files, the directory and the handles as they were (the i-node taken for it is given back).
\<close>
theorem open_directory_full:
  assumes "ready s" and "good_name n" and "abs_dir s n = None" and "card (dom (abs_files s)) = MAX_DIR_ENTRIES"
  shows "\<exists>s'. tfs_open (path n) flags s = Ok (-1, s') \<and> ready s' \<and> abs_fs s' = abs_fs s"
proof -
  have "trunc_safe n flags (abs_fs s)" using assms(3) by (simp add: trunc_safe_def)
  with refine_tfs_open [OF assms(1,2)] assms(3,4) show ?thesis by (auto simp: a_open_file_def)
qed

theorem open_directory_full_witness:
  "\<exists>s'. tfs_open (path (replicate 30 1)) TFS_O_CREAT demo_full = Ok (-1, s') \<and> abs_fs s' = abs_fs demo_full"
proof -
  have "good_name (replicate 30 1)" by (simp add: good_name_def config)
  from open_directory_full [OF demo_full(1) this demo_full(3,2)] show ?thesis by blast
qed

text \<open>
  When all 20 handles are in use, opening an absent name with CREAT returns -1, and the file has
  been created all the same: the failed open is not undone.
\<close>
theorem open_without_handle_creates:
  assumes "ready s" and "good_name n" and "abs_dir s n = None" and "flag_creat flags"
    and "card (dom (abs_files s)) \<noteq> MAX_DIR_ENTRIES" and "\<And>f. f < MAX_OPEN_FILES \<Longrightarrow> abs_open s f \<noteq> None"
  shows "\<exists>s' i. tfs_open (path n) flags s = Ok (-1, s') \<and> ready s' \<and>
    abs_dir s' = (abs_dir s)(n \<mapsto> i) \<and> abs_files s' = (abs_files s)(i \<mapsto> []) \<and> abs_open s' = abs_open s"
proof -
  have "first_free (\<lambda>g. if abs_open s g = None then FREE else TAKEN) 0 MAX_OPEN_FILES = None"
    using assms(6) by (auto intro!: first_free_full)
  moreover have "trunc_safe n flags (abs_fs s)" using assms(3) by (simp add: trunc_safe_def)
  ultimately show ?thesis
    using refine_tfs_open [OF assms(1,2), of flags] assms(3-5)
    by (auto simp: a_open_file_def a_add_handle_def Let_def abs_fs_def)
qed

theorem open_without_handle_creates_witness:
  "\<exists>s' i. tfs_open (path f2) TFS_O_CREAT demo_handles = Ok (-1, s') \<and> abs_dir s' = [f1 \<mapsto> 1, f2 \<mapsto> i]"
proof -
  have "abs_dir demo_handles f2 = None" "flag_creat TFS_O_CREAT" by (simp_all add: demo_handles(2) config)
  moreover have "card (dom (abs_files demo_handles)) \<noteq> MAX_DIR_ENTRIES" by (simp add: demo_handles(3) config)
  ultimately show ?thesis
    using open_without_handle_creates [OF demo_handles(1) good_f1(2)] demo_handles(2,4) by metis
qed

section \<open>The invariant\<close>

text \<open>
  C15: Whatever the path name (null, empty, without its slash, too long) and the flags, an open that
  returns keeps the file system well formed: blocks owned one to one, the directory and the i-nodes in
  correspondence, handles on existing files, the counter of open files exact, both mutexes free.
\<close>
theorem open_keeps_wf:
  assumes "wf s" and "tfs_open name flags s = Ok (r, s')"
  shows "wf s'"
  using assms by (rule tfs_open_wf)

theorem open_keeps_wf_witness:
  "case tfs_open (Some [0x2F]) 0 (booted fs_static) of Ok (r, s') \<Rightarrow> r = -1 \<and> wf s' | Fault _ \<Rightarrow> False"
proof -
  have start: "open_flag (booted fs_static) \<noteq> 0" "unlocked (booted fs_static)"
    by (simp_all add: booted_def unlocked_def)
  have "\<exists>s'. tfs_open (Some [0x2F]) 0 (booted fs_static) = Ok (-1, s')"
    using start by (simp add: tfs_open_ready [OF ready_start(1)] synchronized_Ok_iff unlocked_def
        tfs_open_unsynchronized_def tfs_lookup_unsynchronized_def valid_pathname_def)
  then obtain s' where s': "tfs_open (Some [0x2F]) 0 (booted fs_static) = Ok (-1, s')" by blast
  from open_keeps_wf [OF readyD(3) [OF ready_start(1)] s'] s' show ?thesis by simp
qed

text \<open>Closing and reading, with any handle, keep the file system well formed.\<close>
theorem close_read_keep_wf:
  assumes "wf s"
  shows "(\<forall>r s'. tfs_close fhandle s = Ok (r, s') \<longrightarrow> wf s') \<and> (\<forall>r s'. tfs_read fhandle len s = Ok (r, s') \<longrightarrow> wf s')"
  using assms by (auto intro: tfs_close_wf tfs_read_wf)

theorem close_read_keep_wf_witness:
  "\<exists>r s'. tfs_close 0 demo_written = Ok (r, s') \<and> wf s'"
proof -
  obtain s' where s': "tfs_close (int 0) demo_written = Ok (fst (a_close 0 (abs_fs demo_written)), s')"
    using refine_tfs_close [OF demo_written(1)] by blast
  from close_read_keep_wf [OF readyD(3) [OF demo_written(1)], of 0 0] s' show ?thesis by auto
qed

text \<open>
  In a well-formed file system the block allocator never fails, and the block it returns belongs to
  no file and is not the root directory's.
\<close>
theorem block_alloc_fresh:
  assumes "wf s" and "data_block_alloc s = (b, s')"
  shows "b \<noteq> -1 \<and> valid_block_number b \<and> (\<forall>i. owner s i \<longrightarrow> int (blk s i) \<noteq> b) \<and>
    (\<forall>i j. owner s i \<and> owner s j \<and> i \<noteq> j \<longrightarrow> blk s i \<noteq> blk s j)"
proof -
  have wf: "wf_core s" using assms(1) by (simp add: wf_def)
  obtain k where k: "b = int k" "k < DATA_BLOCKS" "free_blocks s k = FREE"
    using alloc_under_wf [OF wf] assms(2) by (metis prod.inject)
  have "b \<noteq> -1 \<and> valid_block_number b" using k by (auto simp: valid_block_number_def)
  moreover have "int (blk s i) \<noteq> b" if "owner s i" for i using owner_block(3) [OF wf that] k by force
  moreover have "blk s i \<noteq> blk s j" if "owner s i" "owner s j" "i \<noteq> j" for i j
    using owner_blk_inj [OF wf] that by blast
  ultimately show ?thesis by blast
qed

theorem block_alloc_fresh_witness:
  "case data_block_alloc (booted fs_static) of (b, s') \<Rightarrow> b = 1 \<and> valid_block_number b"
proof -
  have "first_free (free_blocks (booted fs_static)) 0 DATA_BLOCKS = Some 1"
    by (rule first_free_least) (simp_all add: booted_def fs_static_def config)
  then have a: "data_block_alloc (booted fs_static) = (1, put_block 1 TAKEN (booted fs_static))"
    by (simp add: data_block_alloc_def)
  from block_alloc_fresh [OF readyD(3) [OF ready_start(1)] a] a show ?thesis by simp
qed

section \<open>Errors\<close>

text \<open>
  A handle outside the table makes close, write and read return -1 without changing anything.
\<close>
theorem invalid_handle_rejected:
  assumes "single_global_lock s = Unlocked" and "\<not> valid_file_handle fhandle"
  shows "tfs_close fhandle s = Ok (-1, s) \<and> tfs_write fhandle buffer w s = Ok (-1, s) \<and>
    tfs_read fhandle len s = Ok ((-1, []), s)"
proof -
  have "s\<lparr>single_global_lock := Unlocked\<rparr> = s" using assms(1) by (cases s) simp
  with assms show ?thesis
    by (simp add: tfs_close_def tfs_write_def tfs_read_def synchronized_Ok_iff
        remove_from_open_file_table_def tfs_write_unsynchronized_def tfs_read_unsynchronized_def
        get_open_file_entry_def)
qed

theorem invalid_handle_rejected_witness:
  "tfs_close (-1) (booted fs_static) = Ok (-1, booted fs_static) \<and>
   tfs_write 20 [1] 1 (booted fs_static) = Ok (-1, booted fs_static)"
proof -
  have "single_global_lock (booted fs_static) = Unlocked" by (simp add: booted_def)
  note rejected = invalid_handle_rejected [OF this]
  have "\<not> valid_file_handle (-1)" "\<not> valid_file_handle 20" by (simp_all add: valid_file_handle_def config)
  with rejected show ?thesis by blast
qed

text \<open>
  Closing works once: after a close that returned 0 the number of open files is one less, and
  closing the same handle again returns -1 and changes nothing.
\<close>
theorem close_twice:
  assumes "wf s" and "tfs_close fhandle s = Ok (0, s')"
  shows "open_files_count s' = open_files_count s - 1 \<and> tfs_close fhandle s' = Ok (-1, s')"
proof -
  have s': "s' = s\<lparr>open_files_count := open_files_count s - 1,
      free_open_file_entries := (free_open_file_entries s)(nat fhandle := FREE)\<rparr>"
    using assms by (cases s)
      (auto simp: tfs_close_def synchronized_Ok_iff remove_from_open_file_table_def put_defs Let_def
        outcome_simps wf_def unlocked_def split: if_splits)
  have free: "free_open_file_entries s' (nat fhandle) = FREE" using s' by simp
  have count: "open_files_count s' = open_files_count s - 1" using s' by simp
  have "single_global_lock s' = Unlocked" using assms(1) s' by (simp add: wf_def unlocked_def)
  moreover from this have "s'\<lparr>single_global_lock := Unlocked\<rparr> = s'" by (cases s') simp
  ultimately show ?thesis
    using free count by (simp add: tfs_close_def synchronized_Ok_iff remove_from_open_file_table_def)
qed

theorem close_twice_witness:
  "\<exists>s'. tfs_close 0 demo_written = Ok (0, s') \<and> tfs_close 0 s' = Ok (-1, s')"
proof -
  have "a_close 0 (abs_fs demo_written) = (0, (abs_fs demo_written)\<lparr>a_open := \<lambda>_. None\<rparr>)"
    by (simp add: demo_written(2) a_close_def fun_upd_idem)
  then obtain s' where s': "tfs_close 0 demo_written = Ok (0, s')"
    using refine_tfs_close [OF demo_written(1), of 0] by auto
  from close_twice [OF readyD(3) [OF demo_written(1)] s'] s' show ?thesis by blast
qed

end
