(* ===== verification/FS_Types.thy ===== *)
theory FS_Types
  imports FS_Demo
begin

text \<open>
  The types and ranges of the results of the second delivery's operations, in every state, consistent
  or not: what a caller may rely on without knowing anything of the file system.
\<close>

section \<open>Results\<close>

text \<open>
  A handle below 20, an \<open>int\<close>, 0, or a number of bytes within the request and within the 2^20 bytes of
  \<open>fs_data\<close>, or else -1; a read delivers exactly as many bytes as it says.
\<close>

fun result_ok :: "fs_op \<Rightarrow> fs_res \<Rightarrow> bool" where
  "result_ok (Op_open n flags) (r, bs) \<longleftrightarrow> bs = [] \<and> -1 \<le> r \<and> r < 20"
| "result_ok (Op_lookup n) (r, bs) \<longleftrightarrow> bs = [] \<and> int_ok r"
| "result_ok (Op_close f) (r, bs) \<longleftrightarrow> bs = [] \<and> (r = 0 \<or> r = -1)"
| "result_ok (Op_write f data) (r, bs) \<longleftrightarrow> bs = [] \<and> -1 \<le> r \<and> r \<le> int (length data) \<and> r \<le> 1048576"
| "result_ok (Op_read f len) (r, bs) \<longleftrightarrow>
     (if r = -1 then bs = [] else r = int (length bs) \<and> length bs \<le> len \<and> length bs \<le> 1048576)"

section \<open>The bodies\<close>

lemma int_ok_bytes_int: "length bs = 4 \<Longrightarrow> int_ok (bytes_int bs)"
  using le_decode_less [of bs] by (auto simp: int_ok_def bytes_int_def Let_def)

lemma int_ok_find_entry: "int_ok (find_entry m p n i)"
proof (induction m p n i rule: find_entry.induct)
  case (1 m p n i)
  have "int_ok (d_inumber m p i)" by (simp add: d_inumber_def load_int_def int_ok_bytes_int)
  with 1 show ?case by (auto simp: find_entry.simps [of m p n i] int_ok_def)
qed

lemma lookup_typed: "int_ok (tfs_lookup_unsynchronized name s)"
  by (auto simp: tfs_lookup_unsynchronized_def find_in_dir_def int_ok_find_entry Let_def int_ok_def [of "-1"]
      split: option.splits)

lemma add_handle_typed: "add_to_open_file_table i off s = Ok (r, s') \<Longrightarrow> -1 \<le> r \<and> r < 20"
  by (cases rule: first_free_cases [of "free_open_file_entries s" MAX_OPEN_FILES])
     (auto simp: add_to_open_file_table_def outcome_simps Let_def put_defs config)

lemma open_typed: "tfs_open_unsynchronized name flags s = Ok (r, s') \<Longrightarrow> -1 \<le> r \<and> r < 20"
  by (auto simp: tfs_open_unsynchronized_def Let_def outcome_simps case_prod_beta dest!: add_handle_typed
      split: if_splits option.splits)

lemma close_typed: "remove_from_open_file_table f s = Ok (r, s') \<Longrightarrow> r = 0 \<or> r = -1"
  by (auto simp: remove_from_open_file_table_def Let_def outcome_simps split: if_splits)

lemma unat_of_nat_le: "unat (of_nat n :: size_t) \<le> n"
  by (simp add: unat_of_nat)

text \<open>The length of a copy that stays inside \<open>fs_data\<close>.\<close>

lemma copy_length:
  fixes n :: size_t
  assumes "a + unat n \<le> BLOCK_SIZE * DATA_BLOCKS"
  shows "sint n = int (unat n)" and "0 \<le> sint n" and "sint n \<le> 1048576" and "unat n \<le> k \<Longrightarrow> sint n \<le> int k"
    and "unat n \<le> 1048576" and "sint n \<noteq> -1"
proof -
  show small: "unat n \<le> 1048576" using assms by (simp add: config)
  then show eq: "sint n = int (unat n)" by (intro sint_small) simp
  have "0 \<le> int (unat n)" by (rule of_nat_0_le_iff)
  then show "0 \<le> sint n" "sint n \<noteq> -1" unfolding eq by linarith+
  show "sint n \<le> 1048576" "unat n \<le> k \<Longrightarrow> sint n \<le> int k" using small unfolding eq by linarith+
qed

lemma write_typed:
  assumes "tfs_write_unsynchronized f data w s = Ok (r, s')"
  shows "-1 \<le> r \<and> r \<le> int (length data) \<and> r \<le> 1048576"
proof -
  have minus: "-1 \<le> x" if "0 \<le> x" for x :: int using that by simp
  show ?thesis
    using assms
    by (auto simp: tfs_write_unsynchronized_def Let_def outcome_simps memcpy_in_def word_gt_0
        intro: copy_length minus split: option.splits if_splits)
qed

lemma read_amount_le: "read_amount n off len \<le> len"
  by (simp add: read_amount_def Let_def not_less)

lemma read_typed:
  assumes "tfs_read_unsynchronized f (of_nat len) s = Ok ((r, bs), s')"
  shows "result_ok (Op_read g len) (r, bs)"
proof -
  have amount: "unat (read_amount n off (of_nat len)) \<le> len" for n off
    using read_amount_le [of n off "of_nat len"] unat_of_nat_le [of len] by (simp add: word_le_nat_alt)
  have small: "sint n \<noteq> -1 \<and> sint n = int (unat n) \<and> unat n \<le> 1048576" if "a + unat n \<le> BLOCK_SIZE * DATA_BLOCKS"
    for a and n :: size_t using copy_length [OF that] by blast
  show ?thesis
    using assms amount
    by (auto simp: tfs_read_unsynchronized_def Let_def outcome_simps memcpy_out_def word_gt_0 dest: small
        split: option.splits if_splits)
qed

section \<open>Every call\<close>

text \<open>Under the lock the result is the body's, or the value for a lock that cannot be had.\<close>

lemma synchronized_result:
  assumes "synchronized err body s = Ok (r, s')" and "\<And>s r s'. body s = Ok (r, s') \<Longrightarrow> Q r"
  shows "Q r"
  using assms by (auto simp: synchronized_Ok_iff)

text \<open>
  C17: Results are well-typed in every state whatsoever, consistent or not: an open returns -1 or a handle
  below 20, a lookup a 32-bit integer, a close 0 or -1, a write -1 or a number of bytes it was given; a
  read returns -1 and no bytes, or exactly as many bytes as it says, no more than were asked for.
\<close>
theorem results_typed:
  assumes "fs_step x s = Ok (res, s')"
  shows "result_ok x res"
proof -
  obtain r bs where res: "res = (r, bs)" by (cases res)
  show ?thesis
  proof (cases x)
    case (Op_open n flags)
    with assms res have "tfs_open (path n) flags s = Ok (r, s')" "bs = []"
      by (auto simp: no_bytes_def outcome_simps)
    moreover have "-1 \<le> r \<and> r < 20" if "synchronized (-1) (tfs_open_unsynchronized (path n) flags) t = Ok (r, s')" for t
      using that by (rule synchronized_result) (rule open_typed)
    ultimately show ?thesis using Op_open res
      by (auto simp: tfs_open_def Let_def outcome_simps split: if_splits)
  next
    case (Op_lookup n)
    with assms res have "bs = []" "\<exists>s1. s1 = s' \<and> r = tfs_lookup_unsynchronized (path n) (s\<lparr>single_global_lock := Locked\<rparr>)"
      by (auto simp: no_bytes_def outcome_simps tfs_lookup_def synchronized_Ok_iff)
    with Op_lookup res lookup_typed show ?thesis by simp
  next
    case (Op_close f)
    with assms res have "synchronized (-1) (remove_from_open_file_table (int f)) s = Ok (r, s')" "bs = []"
      by (auto simp: no_bytes_def outcome_simps tfs_close_def)
    moreover from this(1) have "r = 0 \<or> r = -1" by (rule synchronized_result) (rule close_typed)
    ultimately show ?thesis using Op_close res by simp
  next
    case (Op_write f data)
    with assms res have "synchronized (-1) (tfs_write_unsynchronized (int f) data (of_nat (length data))) s = Ok (r, s')" "bs = []"
      by (auto simp: no_bytes_def outcome_simps tfs_write_def)
    moreover from this(1) have "-1 \<le> r \<and> r \<le> int (length data) \<and> r \<le> 1048576"
      by (rule synchronized_result) (rule write_typed)
    ultimately show ?thesis using Op_write res by simp
  next
    case (Op_read f len)
    with assms have "synchronized (-1, []) (tfs_read_unsynchronized (int f) (of_nat len)) s = Ok (res, s')"
      by (simp add: tfs_read_def)
    then have "result_ok (Op_read f len) res"
    proof (rule synchronized_result)
      fix s res s' assume "tfs_read_unsynchronized (int f) (of_nat len) s = Ok (res, s')"
      then show "result_ok (Op_read f len) res" by (cases res) (simp only: read_typed)
    qed
    then show ?thesis using Op_read by simp
  qed
qed

text \<open>Applied before \<open>tfs_init\<close>: the locks are not initialised, so a state with free locks is used.\<close>

theorem results_typed_witness:
  "fs_step (Op_read 3 5) (fs_static\<lparr>single_global_lock := Unlocked\<rparr>) = Ok ((0, []), fs_static\<lparr>single_global_lock := Unlocked\<rparr>) \<and>
    result_ok (Op_read 3 5) (0, [])"
proof -
  have step: "fs_step (Op_read 3 5) (fs_static\<lparr>single_global_lock := Unlocked\<rparr>) = Ok ((0, []), fs_static\<lparr>single_global_lock := Unlocked\<rparr>)"
    by (simp add: tfs_read_def synchronized_def tfs_read_unsynchronized_def get_open_file_entry_def valid_file_handle_def
        inode_get_def valid_inumber_def read_amount_def fs_static_def Let_def config)
  with results_typed [OF step] show ?thesis by blast
qed

end
