(* ===== verification/FS_Misuse.thy ===== *)
theory FS_Misuse
  imports FS_Demo
begin

text \<open>
  What the file system does outside its contract: unopened handles, truncation of a file that is open
  elsewhere, path names without a slash or longer than an entry; and the end of its life.
\<close>

section \<open>Creating through \<open>tfs_open\<close>, path name and all\<close>

definition handle_added :: "nat \<Rightarrow> nat \<Rightarrow> fs_state \<Rightarrow> fs_state" where
  "handle_added f i s = s\<lparr>free_open_file_entries := (free_open_file_entries s)(f := TAKEN),
     open_file_table := (open_file_table s)(f := \<lparr>of_inumber = int i, of_offset = 0\<rparr>),
     open_files_count := open_files_count s + 1\<rparr>"

lemma tfs_open_new:
  assumes "ready s" and "\<And>s0. abs_fs s0 = abs_fs s \<Longrightarrow> fs_ok s0 \<Longrightarrow> tfs_lookup_unsynchronized (Some (c # n)) s0 < 0"
    and "flag_creat flags" and "n \<noteq> []" and "card (dom (abs_files s)) \<noteq> MAX_DIR_ENTRIES"
    and "f < MAX_OPEN_FILES" and "abs_open s f = None" and "\<And>g. g < f \<Longrightarrow> abs_open s g \<noteq> None"
  obtains i e where "i < INODE_TABLE_SIZE" and "freeinode_ts s i = FREE"
    and "free_entry (fs_data s) (dir_addr s) 0 = Some e"
    and "tfs_open (Some (c # n)) flags s = Ok (int f, handle_added f i (created s i e n))"
proof -
  let ?s0 = "s\<lparr>single_global_lock := Locked\<rparr>"
  have locks: "open_files_mutex s = Unlocked" "single_global_lock s = Unlocked"
    using assms(1) by (auto simp: ready_def unlocked_def)
  have wf: "wf_core s" "wf_core ?s0" using assms(1) by (auto simp: ready_def fs_ok_def)
  have "tfs_lookup_unsynchronized (Some (c # n)) ?s0 < 0" using assms(1,2) by (simp add: ready_def)
  from open_new_eq [OF wf(2) this assms(3)] obtain t where open_eq:
    "tfs_open_unsynchronized (Some (c # n)) flags ?s0 = (case create_file n ?s0 of
       None \<Rightarrow> Ok (-1, ?s0\<lparr>inode_table := t\<rparr>) | Some (i, s') \<Rightarrow> add_to_open_file_table (int i) 0 s')" by blast
  obtain i where i: "first_free (freeinode_ts s) 0 INODE_TABLE_SIZE = Some i" "i < INODE_TABLE_SIZE" "freeinode_ts s i = FREE"
    using inode_available [OF wf(1) assms(5)] .
  obtain e where e: "free_entry (fs_data s) (dir_addr s) 0 = Some e"
    using dir_full_iff [OF wf(1)] assms(5) by auto
  have "create_file n ?s0 = Some (i, created ?s0 i e n)"
    using i e assms(4) by (simp add: create_file_def)
  moreover have h: "first_free (free_open_file_entries s) 0 MAX_OPEN_FILES = Some f"
    using assms(6-8) unfolding first_free_abs_open [symmetric] by (intro first_free_least) auto
  ultimately have "tfs_open_unsynchronized (Some (c # n)) flags ?s0 = Ok (int f, handle_added f i (created ?s0 i e n))"
    using open_eq locks by (simp add: add_handle_eq created_def handle_added_def)
  moreover have "(handle_added f i (created ?s0 i e n))\<lparr>single_global_lock := Unlocked\<rparr> = handle_added f i (created s i e n)"
    using locks by (cases s) (simp add: handle_added_def created_def dir_addr_def blk_def)
  ultimately have "tfs_open (Some (c # n)) flags s = Ok (int f, handle_added f i (created s i e n))"
    unfolding tfs_open_ready [OF assms(1)] synchronized_Ok_iff using locks
    by (auto simp: handle_added_def created_def)
  with that i e show ?thesis by blast
qed

lemma handle_added_lookup:
  assumes "wf_core s" and "i < INODE_TABLE_SIZE" and "freeinode_ts s i = FREE"
    and "free_entry (fs_data s) (dir_addr s) 0 = Some e" and "single_global_lock s = Unlocked" and "n' \<noteq> []"
  shows "tfs_lookup (path n') (handle_added f i (created s i e n)) =
    Ok (find_entry (put_entry (dir_addr s) e (int i) n (fs_data s)) (dir_addr s) n' 0,
        handle_added f i (created s i e n))"
proof -
  let ?s = "handle_added f i (created s i e n)" and ?c = "created s i e n"
  have wf: "wf_core ?c" and i0: "i \<noteq> 0" using wf_core_created [OF assms(1-4), of n] by (auto simp: is_file_def)
  have "find_in_dir ROOT_DIR_INUM n' (?s\<lparr>single_global_lock := Locked\<rparr>) = find_in_dir ROOT_DIR_INUM n' ?c"
    by (simp add: find_in_dir_def handle_added_def split: option.splits)
  also have "\<dots> = find_entry (put_entry (dir_addr s) e (int i) n (fs_data s)) (dir_addr s) n' 0"
    using find_in_root [OF wf] i0 by (simp add: created_def dir_addr_def blk_def)
  finally have "tfs_lookup_unsynchronized (path n') (?s\<lparr>single_global_lock := Locked\<rparr>) =
      find_entry (put_entry (dir_addr s) e (int i) n (fs_data s)) (dir_addr s) n' 0"
    using assms(6) by (simp add: tfs_lookup_unsynchronized_def path_def valid_pathname_def c_char_def)
  moreover have "?s\<lparr>single_global_lock := Unlocked\<rparr> = ?s" "single_global_lock ?s = Unlocked"
    using assms(5) by (auto simp: handle_added_def created_def)
  ultimately show ?thesis by (simp add: tfs_lookup_def synchronized_Ok_iff)
qed

section \<open>Path names outside the contract\<close>

text \<open>
  The creating branch of \<open>tfs_open\<close> does not check the path name: a name whose first character is
  not a slash is refused by the lookup, and then created without that character, so the file becomes
  visible under the path with a slash.
\<close>
theorem create_without_slash:
  assumes "ready s" and "good_name n" and "c \<noteq> 0x2F" and "abs_dir s n = None" and "flag_creat flags"
    and "card (dom (abs_files s)) \<noteq> MAX_DIR_ENTRIES"
    and "f < MAX_OPEN_FILES" and "abs_open s f = None" and "\<And>g. g < f \<Longrightarrow> abs_open s g \<noteq> None"
  shows "\<exists>s' i. tfs_lookup (Some (c # n)) s = Ok (-1, s) \<and> tfs_open (Some (c # n)) flags s = Ok (int f, s') \<and>
    tfs_lookup (path n) s' = Ok (int i, s')"
proof -
  have wf: "wf_core s" and distinct: "distinct_names (fs_data s) (dir_addr s)" and lock: "single_global_lock s = Unlocked"
    using assms(1) by (auto simp: ready_def fs_ok_def names_ok_def unlocked_def)
  have invalid: "tfs_lookup_unsynchronized (Some (c # n)) s0 = -1" for s0
    using assms(3) by (simp add: tfs_lookup_unsynchronized_def valid_pathname_def c_char_def)
  have same: "s\<lparr>single_global_lock := Unlocked\<rparr> = s" using lock by (cases s) simp
  have l1: "tfs_lookup (Some (c # n)) s = Ok (-1, s)"
    using lock same invalid by (simp add: tfs_lookup_def synchronized_Ok_iff)
  obtain i e where ie: "i < INODE_TABLE_SIZE" "freeinode_ts s i = FREE"
    "free_entry (fs_data s) (dir_addr s) 0 = Some e"
    "tfs_open (Some (c # n)) flags s = Ok (int f, handle_added f i (created s i e n))"
    using tfs_open_new [OF assms(1) _ assms(5) _ assms(6-9), of c n] invalid assms(2)
    by (auto simp: good_name_def)
  have "int_ok (int i)" "int i \<noteq> -1" using ie(1) by (auto simp: int_ok_def config)
  moreover have "find_entry (fs_data s) (dir_addr s) n 0 = -1"
    using assms(2,4) by (auto simp: abs_dir_def Let_def split: if_splits)
  ultimately have "find_entry (put_entry (dir_addr s) e (int i) n (fs_data s)) (dir_addr s) n 0 = int i"
    using find_put_entry(1) [OF distinct assms(2) _ ie(3), of "int i" n] assms(2) by simp
  with handle_added_lookup [OF wf ie(1-3) lock, of n f n] assms(2) ie(4) l1 show ?thesis
    by (auto simp: good_name_def)
qed

theorem create_without_slash_witness:
  "\<exists>s' i. tfs_open (Some (0x78 # f1)) TFS_O_CREAT (booted fs_static) = Ok (0, s') \<and>
    tfs_lookup (path f1) s' = Ok (int i, s')"
proof -
  have d: "abs_dir (booted fs_static) f1 = None" "abs_files (booted fs_static) = (\<lambda>_. None)"
    "abs_open (booted fs_static) = (\<lambda>_. None)"
    using ready_start(2) by (simp_all add: abs_fs_def empty_fs_def)
  have "flag_creat TFS_O_CREAT" "(0x78 :: byte) \<noteq> 0x2F" "0 < MAX_OPEN_FILES" "MAX_DIR_ENTRIES \<noteq> 0"
    by (simp_all add: config)
  with create_without_slash [OF ready_start(1) good_f1(1), of "0x78" TFS_O_CREAT 0] d show ?thesis by auto
qed

text \<open>
  A file whose name is 40 bytes or longer is created under its first 39 bytes: the open returns a
  handle, and a lookup of the same path afterwards returns -1.
\<close>
theorem long_name_lost:
  assumes "ready s" and "MAX_FILE_NAME \<le> length n" and "0 \<notin> set n" and "flag_creat flags"
    and "card (dom (abs_files s)) \<noteq> MAX_DIR_ENTRIES"
    and "f < MAX_OPEN_FILES" and "abs_open s f = None" and "\<And>g. g < f \<Longrightarrow> abs_open s g \<noteq> None"
  shows "\<exists>s'. tfs_open (path n) flags s = Ok (int f, s') \<and> tfs_lookup (path n) s' = Ok (-1, s')"
proof -
  have wf: "wf_core s" and lock: "single_global_lock s = Unlocked"
    using assms(1) by (auto simp: ready_def fs_ok_def unlocked_def)
  have n: "n \<noteq> []" using assms(2) by (auto simp: config)
  have short: "\<not> name_match m p n e" if "length (entry_name m p e) < MAX_FILE_NAME" for m p e
  proof
    assume "name_match m p n e"
    then have "length (take MAX_FILE_NAME (entry_name m p e)) = length (take MAX_FILE_NAME n)"
      using assms(3) by (simp add: name_match_def c_str_id)
    with that assms(2) show False by simp
  qed
  have "tfs_lookup_unsynchronized (Some (0x2F # n)) s0 < 0" if "fs_ok s0" for s0
  proof -
    have "find_entry (fs_data s0) (dir_addr s0) n 0 = -1"
      using that by (intro find_entry_absent short) (auto simp: fs_ok_def names_ok_def good_name_def)
    then show ?thesis
      using find_in_root [of s0 n] that n
      by (simp add: tfs_lookup_unsynchronized_def valid_pathname_def c_char_def fs_ok_def)
  qed
  from tfs_open_new [OF assms(1) this assms(4) n assms(5-8)]
  obtain i e where ie: "i < INODE_TABLE_SIZE" "freeinode_ts s i = FREE"
    "free_entry (fs_data s) (dir_addr s) 0 = Some e"
    "tfs_open (path n) flags s = Ok (int f, handle_added f i (created s i e n))"
    unfolding path_def by metis
  have e: "e < MAX_DIR_ENTRIES" using free_entry_Some [OF ie(3)] by simp
  have vi: "int_ok (int i)" "int i \<noteq> -1" using ie(1) by (auto simp: int_ok_def config)
  have "find_entry (put_entry (dir_addr s) e (int i) n (fs_data s)) (dir_addr s) n 0 = -1"
  proof (intro find_entry_absent short)
    fix e' assume "live (put_entry (dir_addr s) e (int i) n (fs_data s)) (dir_addr s) e'"
    then consider "e' = e" | "e' \<noteq> e" "live (fs_data s) (dir_addr s) e'"
      using live_put_entry [OF e vi] by auto
    then show "length (entry_name (put_entry (dir_addr s) e (int i) n (fs_data s)) (dir_addr s) e') < MAX_FILE_NAME"
    proof cases
      case 1
      then show ?thesis using assms(3) by (simp add: entry_name_put_entry config)
    next
      case 2
      with assms(1) show ?thesis
        by (auto simp: other_entry_put_entry ready_def fs_ok_def names_ok_def good_name_def)
    qed
  qed
  with handle_added_lookup [OF wf ie(1-3) lock n, of f n] ie(4) show ?thesis by auto
qed

theorem long_name_lost_witness:
  "\<exists>s'. tfs_open (path (replicate 40 0x61)) TFS_O_CREAT (booted fs_static) = Ok (0, s') \<and>
    tfs_lookup (path (replicate 40 0x61)) s' = Ok (-1, s')"
proof -
  have d: "abs_files (booted fs_static) = (\<lambda>_. None)" "abs_open (booted fs_static) = (\<lambda>_. None)"
    using ready_start(2) by (simp_all add: abs_fs_def empty_fs_def)
  have "flag_creat TFS_O_CREAT" "0 < MAX_OPEN_FILES" "MAX_DIR_ENTRIES \<noteq> 0"
    "MAX_FILE_NAME \<le> length (replicate 40 (0x61 :: byte))" "0 \<notin> set (replicate 40 (0x61 :: byte))"
    by (simp_all add: config)
  with long_name_lost [OF ready_start(1), of "replicate 40 0x61" TFS_O_CREAT 0] d show ?thesis by auto
qed

section \<open>Handles outside the contract\<close>

lemma under_lock:
  assumes "single_global_lock s = Unlocked" and "body (s\<lparr>single_global_lock := Locked\<rparr>) = Ok (r, s1)"
    and "single_global_lock s1 = Locked"
  shows "synchronized err body s = Ok (r, s1\<lparr>single_global_lock := Unlocked\<rparr>)"
  using assms by (simp add: synchronized_Ok_iff)

text \<open>
  C28: \<open>tfs_write\<close> does not check that its handle is open. Through a table entry that was never used
  (i-number 0, position 0) a write of at most one block succeeds and overwrites the root directory.
\<close>
theorem write_through_unopened_handle:
  assumes "ready s" and "f < MAX_OPEN_FILES" and "open_file_table s f = \<lparr>of_inumber = 0, of_offset = 0\<rparr>"
    and "data \<noteq> []" and "length data \<le> BLOCK_SIZE"
  shows "free_open_file_entries s f = FREE \<and>
    (\<exists>s'. tfs_write (int f) data (of_nat (length data)) s = Ok (int (length data), s') \<and>
      mem_read (fs_data s') (dir_addr s) (length data) = data)"
proof -
  have wf: "wf_core s" and lock: "single_global_lock s = Unlocked"
    using assms(1) by (auto simp: ready_def fs_ok_def unlocked_def)
  have free: "free_open_file_entries s f = FREE"
  proof (rule ccontr)
    assume "free_open_file_entries s f \<noteq> FREE"
    then have "free_open_file_entries s f = TAKEN" by (metis not_TAKEN)
    from open_handle [OF wf assms(2) this] assms(3) show False by (auto simp: is_file_def)
  qed
  let ?s = "s\<lparr>single_global_lock := Locked\<rparr>" and ?w = "of_nat (length data) :: size_t"
  have size: "i_size (inode_table s 0) = of_nat BLOCK_SIZE" using wf by (simp add: wf_core_def root_ok_def)
  have len: "unat ?w = length data" using assms(5) by (simp add: unat_of_nat config)
  have amount: "write_amount ?w 0 = ?w"
    using assms(5) len by (simp add: write_amount_def word_less_nat_alt config)
  have pos: "?w > 0" using assms(4) len by (auto simp: word_gt_0 simp flip: unat_eq_0)
  have "?w \<le> of_nat BLOCK_SIZE" using assms(5) len by (simp add: word_le_nat_alt config)
  then have grow: "\<not> i_size (inode_table s 0) < ?w" by (simp add: size not_less)
  have "sint ?w = int (length data)" using len assms(5) by (subst sint_small) (auto simp: config)
  moreover have "memcpy_in (dir_addr s) data (length data) (fs_data s) = Ok (mem_write (fs_data s) (dir_addr s) data)"
    using root_block(2) [OF wf] assms(5) by (simp add: memcpy_in_def dir_addr_def config)
  ultimately have "tfs_write_unsynchronized (int f) data ?w ?s =
      Ok (int (length data), put_file f (of_offset_update (\<lambda>off. off + ?w))
        (?s\<lparr>fs_data := mem_write (fs_data s) (dir_addr s) data\<rparr>))"
    using assms(2,3) amount len pos grow root_block(1) [OF wf] size
    by (simp add: tfs_write_unsynchronized_def get_open_file_entry_def valid_file_handle_def
        inode_get_def valid_inumber_def put_file_def Let_def) (simp add: config)
  from under_lock [where body = "tfs_write_unsynchronized (int f) data ?w", OF lock this] have "tfs_write (int f) data ?w s =
      Ok (int (length data), (put_file f (of_offset_update (\<lambda>off. off + ?w))
        (?s\<lparr>fs_data := mem_write (fs_data s) (dir_addr s) data\<rparr>))\<lparr>single_global_lock := Unlocked\<rparr>)"
    by (simp add: tfs_write_def put_file_def)
  with free show ?thesis by (auto simp: put_file_def)
qed

theorem write_through_unopened_handle_witness:
  "\<exists>s'. tfs_write 5 [1, 2, 3, 4] 4 (booted fs_static) = Ok (4, s') \<and> mem_read (fs_data s') 0 4 = [1, 2, 3, 4]"
proof -
  have "open_file_table (booted fs_static) 5 = \<lparr>of_inumber = 0, of_offset = 0\<rparr>"
    by (simp add: booted_def fs_static_def)
  moreover have "length [1 :: byte, 2, 3, 4] = 4" "5 < MAX_OPEN_FILES" "4 \<le> BLOCK_SIZE"
    by (simp_all add: config)
  ultimately show ?thesis
    using write_through_unopened_handle [OF ready_start(1), of 5 "[1, 2, 3, 4]"]
    by (simp only: booted_view) simp
qed

text \<open>
  C25: The number of bytes to read is computed without a check: through a handle whose position lies
  beyond the end of a file (another handle truncated it), a read returns all the bytes asked for, from
  the file's former block or the blocks after it.
\<close>
theorem read_beyond_end:
  assumes "single_global_lock s = Unlocked" and "f < MAX_OPEN_FILES"
    and "of_inumber (open_file_table s f) = int i" and "i < INODE_TABLE_SIZE"
    and "i_data_block (inode_table s i) = int b" and "b < DATA_BLOCKS"
    and "unat (i_size (inode_table s i)) < unat (of_offset (open_file_table s f))"
    and "0 < unat len" and "b * BLOCK_SIZE + unat (of_offset (open_file_table s f)) + unat len \<le> BLOCK_SIZE * DATA_BLOCKS"
  shows "\<exists>s'. tfs_read (int f) len s =
    Ok ((int (unat len), mem_read (fs_data s) (b * BLOCK_SIZE + unat (of_offset (open_file_table s f))) (unat len)), s')"
proof -
  let ?s = "s\<lparr>single_global_lock := Locked\<rparr>" and ?off = "of_offset (open_file_table s f)"
  let ?size = "i_size (inode_table s i)"
  have small: "unat ?off + unat len \<le> 1048576" using assms(9) by (simp add: config)
  have "?off > ?size" using assms(7) by (simp add: word_less_nat_alt)
  then have "unat (?size - ?off) = 18446744073709551616 + unat ?size - unat ?off"
    using unat_sub_if_size [of ?size ?off] assms(7) by (simp add: word_size)
  then have "?size - ?off > len" using small by (simp add: word_less_nat_alt)
  then have amount: "read_amount ?size ?off len = len" by (simp add: read_amount_def Let_def)
  have "sint len = int (unat len)" using small by (subst sint_small) auto
  moreover have "memcpy_out (b * BLOCK_SIZE + unat ?off) (unat len) (fs_data s) =
      Ok (mem_read (fs_data s) (b * BLOCK_SIZE + unat ?off) (unat len))"
    using assms(9) by (simp add: memcpy_out_def)
  moreover have "len > 0" using assms(8) by (simp add: word_gt_0 flip: unat_eq_0)
  ultimately have "tfs_read_unsynchronized (int f) len ?s =
      Ok ((int (unat len), mem_read (fs_data s) (b * BLOCK_SIZE + unat ?off) (unat len)),
        put_file f (of_offset_update (\<lambda>off. off + len)) ?s)"
    using assms(2-6) amount
    by (simp add: tfs_read_unsynchronized_def get_open_file_entry_def valid_file_handle_def inode_get_def
        valid_inumber_def data_block_get_def valid_block_number_def)
  from under_lock [where body = "tfs_read_unsynchronized (int f) len", OF assms(1) this]
  show ?thesis by (simp add: tfs_read_def put_file_def)
qed

theorem read_beyond_end_witness:
  "\<exists>s1 s' bytes. tfs_open (path f1) TFS_O_TRUNC demo_written = Ok (1, s1) \<and>
    i_size (inode_table s1 1) = 0 \<and> tfs_read 0 4 s1 = Ok ((4, bytes), s')"
proof -
  let ?s = demo_written and ?locked = "demo_written\<lparr>single_global_lock := Locked\<rparr>"
  have wf: "wf_core ?s" and locks: "single_global_lock ?s = Unlocked" "open_files_mutex ?s = Unlocked"
    using demo_written(1) by (simp_all add: ready_def fs_ok_def unlocked_def)
  have wf0: "wf_core ?locked" using wf by simp
  have view: "abs_dir ?s f1 = Some 1" "abs_open ?s = [0 \<mapsto> (1, 3)]" "abs_files ?s 1 = Some [7, 8, 9]"
    using demo_written(2) by (simp_all add: abs_fs_def)
  have h: "of_inumber (open_file_table ?s 0) = 1" "unat (of_offset (open_file_table ?s 0)) = 3" "is_file ?s 1"
    using abs_open_Some [OF wf, of 0 1 3] view(2) by auto
  then have i: "is_file ?locked 1" "owner ?s 1"
    using view(3) by (auto simp: owner_def abs_files_def is_file_def content_def)
  have "i_size (inode_table ?s 1) \<noteq> 0" using view(3) h(3) by (auto simp: abs_files_def content_def)
  then have t: "snd (truncate_inode 1 ?locked) = ?locked\<lparr>free_blocks := (free_blocks ?s)(blk ?s 1 := FREE),
      inode_table := (inode_table ?s)(1 := (inode_table ?s 1)\<lparr>i_size := 0\<rparr>)\<rparr>" (is "_ = ?t")
    using truncate_eq [OF wf0 i(1)] by simp
  have "tfs_lookup_unsynchronized (path f1) ?locked = int 1"
    using abs_dir_lookup(2) [OF wf0 good_f1(1), of 1] view(1) by simp
  from open_existing_eq [OF wf0 i(1) this, of TFS_O_TRUNC]
  have "tfs_open_unsynchronized (path f1) TFS_O_TRUNC ?locked = add_to_open_file_table (int 1) 0 ?t"
    unfolding t by (simp add: config)
  moreover have "first_free (free_open_file_entries ?s) 0 MAX_OPEN_FILES = Some 1"
    unfolding first_free_abs_open [symmetric] view(2) by (rule first_free_least) (simp_all add: config)
  ultimately have body: "tfs_open_unsynchronized (path f1) TFS_O_TRUNC ?locked =
      Ok (1, handle_added 1 1 ?t)" using locks by (simp add: add_handle_eq handle_added_def)
  let ?opened = "(handle_added 1 1 ?t)\<lparr>single_global_lock := Unlocked\<rparr>"
  have opened: "tfs_open (path f1) TFS_O_TRUNC ?s = Ok (1, ?opened)"
    unfolding tfs_open_ready [OF demo_written(1)]
    by (rule under_lock [where body = "tfs_open_unsynchronized (path f1) TFS_O_TRUNC", OF locks(1) body]) (simp add: handle_added_def)
  have "i_data_block (inode_table ?s 1) = int (blk ?s 1)" "blk ?s 1 < DATA_BLOCKS"
    using owner_block(1,2) [OF wf i(2)] by (auto simp: data_block_get_def blk_def valid_block_number_def split: if_splits)
  with read_beyond_end [of ?opened 0 1 "blk ?s 1" 4] h(1,2) opened show ?thesis
    by (auto simp: handle_added_def config)
qed

section \<open>The end of the file system\<close>

text \<open>
  C21: \<open>tfs_destroy_after_all_closed\<close> returns only when no handle is open any more, whatever the other
  threads do meanwhile to a consistent state, and from then on every open returns -1 and changes
  nothing.
\<close>
theorem destroy_after_all_closed:
  assumes "wf_core s" and "\<And>w t. w \<in> set ws \<Longrightarrow> wf_core t \<Longrightarrow> wf_core (w t)"
    and "tfs_destroy_after_all_closed ws s = Ok (Some (r, s'))"
  shows "r = 0 \<and> (\<forall>f<MAX_OPEN_FILES. free_open_file_entries s' f = FREE) \<and>
    (\<forall>name flags. tfs_open name flags s' = Ok (-1, s'))"
proof -
  from destroy_returns [OF assms(3)] obtain s1 where w: "wait_all_closed ws (s\<lparr>open_files_mutex := Locked\<rparr>) = Some s1"
    and s': "s' = s1\<lparr>open_flag := 0, open_files_mutex := Unlocked\<rparr>" and "r = 0" .
  have "wf_core (s\<lparr>open_files_mutex := Locked\<rparr>)" using assms(1) by simp
  then have "wf_core s1" using wait_all_closed_inv [OF w, of wf_core] assms(2) by blast
  moreover have "open_files_count s1 = 0" using w by (rule wait_all_closed_count)
  ultimately have "\<forall>f<MAX_OPEN_FILES. free_open_file_entries s' f = FREE"
    using no_handle_when_count_0 [of s1] by (simp add: s')
  moreover have "tfs_open name flags s' = Ok (-1, s')" for name flags
    by (rule tfs_open_closed) (simp_all add: s')
  ultimately show ?thesis using \<open>r = 0\<close> by blast
qed

text \<open>What a thread that closes handle 0 does while the destroying thread waits.\<close>

definition close_0 :: "fs_state \<Rightarrow> fs_state" where
  "close_0 s = (case remove_from_open_file_table 0 (s\<lparr>open_files_mutex := Unlocked\<rparr>) of
     Ok (_, s') \<Rightarrow> s'\<lparr>open_files_mutex := Locked\<rparr> | Fault _ \<Rightarrow> s)"

lemma wf_core_close_0: "wf_core s \<Longrightarrow> wf_core (close_0 s)"
  using wf_core_remove_handle [of "s\<lparr>open_files_mutex := Unlocked\<rparr>"]
  by (auto simp: close_0_def split: outcome.splits)

theorem destroy_after_all_closed_witness:
  "\<exists>s'. tfs_destroy_after_all_closed [close_0] demo_written = Ok (Some (0, s')) \<and>
    tfs_open (path f1) 0 s' = Ok (-1, s')"
proof -
  have wf: "wf_core demo_written" and m: "open_files_mutex demo_written = Unlocked"
    using demo_written(1) by (auto simp: ready_def fs_ok_def unlocked_def)
  have open0: "abs_open demo_written = [0 \<mapsto> (1, 3)]" using demo_written(2) by (simp add: abs_fs_def)
  have h: "free_open_file_entries demo_written f = TAKEN \<longleftrightarrow> f = 0" if "f < MAX_OPEN_FILES" for f
    using that fun_cong [OF open0, of f] by (simp add: abs_open_def split: if_splits)
  have "0 < MAX_OPEN_FILES" by (simp add: config)
  with h have "{f. f < MAX_OPEN_FILES \<and> free_open_file_entries demo_written f = TAKEN} = {0}" by blast
  then have c: "open_files_count demo_written = 1"
    using wf by (simp add: wf_core_def count_ok_def handles.used_def)
  have "free_open_file_entries demo_written 0 = TAKEN" using h [of 0] by (simp add: config)
  then have "open_files_count (close_0 (demo_written\<lparr>open_files_mutex := Locked\<rparr>)) = 0"
    "open_files_mutex (close_0 (demo_written\<lparr>open_files_mutex := Locked\<rparr>)) = Locked"
    using c by (simp_all add: close_0_def remove_from_open_file_table_def valid_file_handle_def put_defs config)
  moreover from this(1) c have "wait_all_closed [close_0] (demo_written\<lparr>open_files_mutex := Locked\<rparr>) =
      Some (close_0 (demo_written\<lparr>open_files_mutex := Locked\<rparr>))"
    by (simp add: wait_all_closed.simps [of "[close_0]"] wait_all_closed.simps [of "[]"])
  ultimately obtain s' where d: "tfs_destroy_after_all_closed [close_0] demo_written = Ok (Some (0, s'))"
    using m by (auto simp: tfs_destroy_after_all_closed_def state_destroy_def Let_def)
  from destroy_after_all_closed [OF wf _ d] wf_core_close_0 d show ?thesis by auto
qed

end
