(* ===== verification/FS_Threads.thy ===== *)
theory FS_Threads
  imports FS_Demo
begin

text \<open>
  Several threads on the second delivery's file system (\<open>parte-2/fs/operations.c\<close>), as the server's
  workers are. What a thread does while it holds \<open>single_global_lock\<close> or \<open>open_files_mutex\<close> is one
  step, so the steps of different threads interleave where the code holds no lock: inside \<open>tfs_open\<close>
  between the test of \<open>open_flag\<close> and the body, and in \<open>tfs_destroy_after_all_closed\<close> at the wait.
  A thread can also start the file system anew, as \<open>tests/test_open_after_destroy.c\<close> does; \<open>tfs_init\<close> resets
  the tables without a lock and is one step here, so what other calls would do in its middle is not modelled.
\<close>

section \<open>The two halves of tfs_open\<close>

text \<open>The first half: has the file system been destroyed?\<close>

definition check_open_flag :: "fs_state \<Rightarrow> (bool \<times> fs_state) outcome" where
  "check_open_flag s =
     and_then (lock_mutex (open_files_mutex s)) (\<lambda>m.
     let s = s\<lparr>open_files_mutex := m\<rparr> in
     and_then (unlock_mutex (open_files_mutex s)) (\<lambda>m. Ok (open_flag s \<noteq> 0, s\<lparr>open_files_mutex := m\<rparr>)))"

definition open_body :: "cstring option \<Rightarrow> int \<Rightarrow> fs_state \<Rightarrow> (int \<times> fs_state) outcome" where
  "open_body name flags = synchronized (-1) (tfs_open_unsynchronized name flags)"

lemma tfs_open_halves:
  "tfs_open name flags s =
    and_then (check_open_flag s) (\<lambda>(is_open, s). if is_open then open_body name flags s else Ok (-1, s))"
  by (cases "open_files_mutex s")
     (simp_all add: tfs_open_def check_open_flag_def open_body_def Let_def lock_mutex_def unlock_mutex_def)

section \<open>Threads\<close>

text \<open>Between two calls; in \<open>tfs_open\<close> past the test; waiting for the last handle to be closed.\<close>

datatype pc = Idle | In_open cstring int | In_wait

type_synonym threads = "(nat \<Rightarrow> pc) \<times> fs_state"

text \<open>
  What a step does: pass the test of \<open>tfs_open\<close> or be refused by it, finish a call of an operation with
  a result, begin to wait, return from \<open>tfs_destroy_after_all_closed\<close>, or return from \<open>tfs_init\<close>.
\<close>

datatype event = Checked cstring int | Refused cstring int | Did fs_op fs_res | Waits | Destroyed int | Initialised int

fun is_open_op :: "fs_op \<Rightarrow> bool" where
  "is_open_op (Op_open _ _) = True"
| "is_open_op _ = False"

text \<open>
  Waking up is possible whenever the counter is zero, with or without a signal, as
  \<open>pthread_cond_wait\<close> allows.
\<close>

inductive thread_step :: "threads \<Rightarrow> nat \<times> event \<Rightarrow> threads \<Rightarrow> bool" where
  check: "pc t = Idle \<Longrightarrow> check_open_flag s = Ok (True, s') \<Longrightarrow>
    thread_step (pc, s) (t, Checked n flags) (pc(t := In_open n flags), s')"
| refuse: "pc t = Idle \<Longrightarrow> check_open_flag s = Ok (False, s') \<Longrightarrow>
    thread_step (pc, s) (t, Refused n flags) (pc, s')"
| open_file: "pc t = In_open n flags \<Longrightarrow> open_body (path n) flags s = Ok (r, s') \<Longrightarrow>
    thread_step (pc, s) (t, Did (Op_open n flags) (r, [])) (pc(t := Idle), s')"
| call: "pc t = Idle \<Longrightarrow> \<not> is_open_op x \<Longrightarrow> fs_step x s = Ok (res, s') \<Longrightarrow>
    thread_step (pc, s) (t, Did x res) (pc, s')"
| wait: "pc t = Idle \<Longrightarrow> tfs_destroy_after_all_closed [] s = Ok None \<Longrightarrow>
    thread_step (pc, s) (t, Waits) (pc(t := In_wait), s)"
| destroy: "pc t = Idle \<or> pc t = In_wait \<Longrightarrow> tfs_destroy_after_all_closed [] s = Ok (Some (r, s')) \<Longrightarrow>
    thread_step (pc, s) (t, Destroyed r) (pc(t := Idle), s')"
| initialise: "pc t = Idle \<Longrightarrow> tfs_init 0 0 s = Ok (r, s') \<Longrightarrow>
    thread_step (pc, s) (t, Initialised r) (pc, s')"

inductive_cases thread_stepE: "thread_step c e c'"

inductive_simps thread_did_simps: "thread_step (pc, s) (t, Did x res) c'"

text \<open>The operations that took effect in a run, in their order, and their results.\<close>

fun ops_of :: "(nat \<times> event) list \<Rightarrow> fs_op list" where
  "ops_of [] = []"
| "ops_of ((t, Did x res) # es) = x # ops_of es"
| "ops_of (e # es) = ops_of es"

fun results_of :: "(nat \<times> event) list \<Rightarrow> fs_res list" where
  "results_of [] = []"
| "results_of ((t, Did x res) # es) = res # results_of es"
| "results_of (e # es) = results_of es"

text \<open>Runs in which the file system is not started anew.\<close>

definition no_init :: "(nat \<times> event) list \<Rightarrow> bool" where
  "no_init es \<longleftrightarrow> (\<forall>(t, e) \<in> set es. case e of Initialised _ \<Rightarrow> False | _ \<Rightarrow> True)"

lemma no_init_simps [simp]:
  "no_init []" "no_init (es @ es') \<longleftrightarrow> no_init es \<and> no_init es'"
  "no_init ((t, e) # es) \<longleftrightarrow> (\<forall>r. e \<noteq> Initialised r) \<and> no_init es"
  by (auto simp: no_init_def split: event.splits)

lemma ops_of_append [simp]:
  "ops_of (es @ es') = ops_of es @ ops_of es'" "results_of (es @ es') = results_of es @ results_of es'"
  by (induction es rule: ops_of.induct) simp_all

section \<open>The steps on a consistent state\<close>

definition at_rest :: "fs_state \<Rightarrow> bool" where
  "at_rest s \<longleftrightarrow> fs_ok s \<and> unlocked s"

lemma ready_at_rest: "ready s \<Longrightarrow> at_rest s"
  by (simp add: ready_def at_rest_def)

lemma at_rest_flag:
  "at_rest (s\<lparr>open_flag := v\<rparr>) = at_rest s" "abs_fs (s\<lparr>open_flag := v\<rparr>) = abs_fs s"
proof -
  have open': "abs_open (s\<lparr>open_flag := v\<rparr>) = abs_open s" by (rule ext) (simp add: abs_open_def)
  have dirs: "abs_dir (s\<lparr>open_flag := v\<rparr>) = abs_dir s" by (rule ext) (simp add: abs_dir_def dir_addr_def)
  have content': "content (s\<lparr>open_flag := v\<rparr>) = content s" by (rule ext) (simp add: content_def)
  have files: "abs_files (s\<lparr>open_flag := v\<rparr>) = abs_files s" by (rule ext) (simp add: abs_files_def content')
  show "abs_fs (s\<lparr>open_flag := v\<rparr>) = abs_fs s" by (simp add: abs_fs_def open' dirs files)
  have "dir_addr (s\<lparr>open_flag := v\<rparr>) = dir_addr s" by (simp add: dir_addr_def)
  then show "at_rest (s\<lparr>open_flag := v\<rparr>) = at_rest s"
    by (simp add: at_rest_def fs_ok_def offsets_ok_def names_ok_def unlocked_def open' content')
qed

lemma check_at_rest: "at_rest s \<Longrightarrow> check_open_flag s = Ok (open_flag s \<noteq> 0, s)"
  by (cases s) (simp add: check_open_flag_def at_rest_def unlocked_def)

lemma destroy_at_rest:
  "at_rest s \<Longrightarrow> tfs_destroy_after_all_closed [] s =
    Ok (if open_files_count s = 0 then Some (0, s\<lparr>open_flag := 0\<rparr>) else None)"
  by (cases s) (simp add: tfs_destroy_after_all_closed_def at_rest_def unlocked_def state_destroy_def
      wait_all_closed.simps [of "[]"])

text \<open>Whatever the flag, a step of an allowed operation is the abstract operation.\<close>

lemma open_body_at_rest:
  assumes "at_rest s" and "allowed (Op_open n flags) (abs_fs s)"
  shows "\<exists>r s'. open_body (path n) flags s = Ok (r, s') \<and> (r, []) = fst (a_step (Op_open n flags) (abs_fs s)) \<and>
    abs_fs s' = snd (a_step (Op_open n flags) (abs_fs s)) \<and> at_rest s'"
  using refine_synchronized [OF _ _ open_refines_body [of n flags s], of "-1"] assms
  by (auto simp: at_rest_def open_body_def case_prod_beta)

lemma call_at_rest:
  assumes "at_rest s" and "allowed x (abs_fs s)" and "\<not> is_open_op x"
  shows "\<exists>s'. fs_step x s = Ok (fst (a_step x (abs_fs s)), s') \<and> abs_fs s' = snd (a_step x (abs_fs s)) \<and> at_rest s'"
proof -
  have s: "fs_ok s" "unlocked s" using assms(1) by (simp_all add: at_rest_def)
  note locked = refine_synchronized [OF s]
  show ?thesis
  proof (cases x)
    case (Op_open n flags)
    with assms(3) show ?thesis by simp
  next
    case (Op_lookup n)
    with locked [OF lookup_refines_body [of n s], of "-1"] assms(2) show ?thesis
      by (auto simp: no_bytes_def tfs_lookup_def at_rest_def)
  next
    case (Op_close f)
    with locked [OF close_refines_body [of f s], of "-1"] show ?thesis
      by (auto simp: no_bytes_def tfs_close_def at_rest_def case_prod_beta)
  next
    case (Op_write f data)
    with assms(2) obtain i off where "abs_open s f = Some (i, off)" by auto
    with locked [OF write_refines_body [OF this, of "of_nat (length data)" data], of "-1"] Op_write assms(2)
    show ?thesis by (auto simp: no_bytes_def tfs_write_def at_rest_def case_prod_beta unat_of_nat_small)
  next
    case (Op_read f len)
    with assms(2) obtain i off where "abs_open s f = Some (i, off)" by auto
    with locked [OF read_refines_body [OF this, of "of_nat len"], of "(-1, [])"] Op_read assms(2)
    show ?thesis by (auto simp: tfs_read_def at_rest_def unat_of_nat_small)
  qed
qed

text \<open>One step: an operation that takes effect does so abstractly, every other step changes nothing abstract.\<close>

lemma thread_step_refines:
  assumes "thread_step (pc, s) (t, e) (pc', s')" and "at_rest s" and "no_init [(t, e)]"
    and "all_allowed a_step allowed (ops_of [(t, e)]) (abs_fs s)"
  shows "at_rest s' \<and> results_of [(t, e)] = fst (run_abs a_step (ops_of [(t, e)]) (abs_fs s)) \<and>
    abs_fs s' = snd (run_abs a_step (ops_of [(t, e)]) (abs_fs s))"
  using assms(1)
proof (cases rule: thread_step.cases)
  case (open_file n flags r)
  with open_body_at_rest [OF assms(2), of n flags] assms(4) show ?thesis by (auto simp: case_prod_beta)
next
  case (call x res)
  with call_at_rest [OF assms(2), of x] assms(4) show ?thesis by (auto simp: case_prod_beta)
next
  case (destroy r)
  with assms(2) show ?thesis by (auto simp: destroy_at_rest at_rest_flag split: if_splits)
qed (use assms(2,3) in \<open>auto simp: check_at_rest\<close>)

text \<open>The steps a thread can make: nothing but a missing close keeps one waiting.\<close>

lemma can_check:
  "at_rest s \<Longrightarrow> pc t = Idle \<Longrightarrow> open_flag s \<noteq> 0 \<Longrightarrow>
    thread_step (pc, s) (t, Checked n flags) (pc(t := In_open n flags), s)"
  by (rule thread_step.check) (simp_all add: check_at_rest)

lemma can_open:
  assumes "at_rest s" and "pc t = In_open n flags" and "allowed (Op_open n flags) (abs_fs s)"
  obtains s' where "thread_step (pc, s) (t, Did (Op_open n flags) (fst (a_step (Op_open n flags) (abs_fs s)))) (pc(t := Idle), s')"
    and "at_rest s'" and "abs_fs s' = snd (a_step (Op_open n flags) (abs_fs s))" and "open_flag s' = open_flag s"
proof -
  obtain r s' where s': "open_body (path n) flags s = Ok (r, s')" "(r, []) = fst (a_step (Op_open n flags) (abs_fs s))"
    "abs_fs s' = snd (a_step (Op_open n flags) (abs_fs s))" "at_rest s'"
    using open_body_at_rest [OF assms(1,3)] by blast
  have "open_flag s' = open_flag s"
    using synchronized_kept [OF s'(1) [unfolded open_body_def] open_body_kept] by (simp add: kept_def)
  with that thread_step.open_file [where pc = pc and t = t, OF assms(2) s'(1)] s'(2-4) show ?thesis by metis
qed

lemma can_destroy:
  "at_rest s \<Longrightarrow> pc t = Idle \<or> pc t = In_wait \<Longrightarrow> open_files_count s = 0 \<Longrightarrow>
    thread_step (pc, s) (t, Destroyed 0) (pc(t := Idle), s\<lparr>open_flag := 0\<rparr>)"
  by (rule thread_step.destroy) (simp_all add: destroy_at_rest)

section \<open>Runs of several threads\<close>

abbreviation all_idle :: "fs_state \<Rightarrow> threads" where
  "all_idle s \<equiv> (\<lambda>_. Idle, s)"

lemma threads_refine:
  assumes "steps thread_step (all_idle s0) es (pc, s)" and "ready s0" and "no_init es"
    and "all_allowed a_step allowed (ops_of es) (abs_fs s0)"
  shows "at_rest s \<and> results_of es = fst (run_abs a_step (ops_of es) (abs_fs s0)) \<and>
    abs_fs s = snd (run_abs a_step (ops_of es) (abs_fs s0))"
  using assms(1,3,4)
  proof (induction "all_idle s0" es "(pc, s)" arbitrary: pc s rule: steps.induct)
  case none
  with assms(2) show ?case by (auto dest: ready_at_rest)
  next
  case (more es c' e pc' s')
  obtain pc s where c': "c' = (pc, s)" by (cases c')
  obtain t ev where e: "e = (t, ev)" by (cases e)
  let ?a = "snd (run_abs a_step (ops_of es) (abs_fs s0))"
  have prems: "no_init es" "all_allowed a_step allowed (ops_of es) (abs_fs s0)" "no_init [(t, ev)]" "all_allowed a_step allowed (ops_of [(t, ev)]) ?a"
    using more.prems by (simp_all add: all_allowed_append e)
  from more.hyps(2) [OF c' prems(1,2)] have s: "at_rest s"
    "results_of es = fst (run_abs a_step (ops_of es) (abs_fs s0))" "abs_fs s = ?a" by auto
  from thread_step_refines [of pc s t ev pc' s'] more.hyps(3) s(1) prems(3,4)
  have "at_rest s' \<and> results_of [(t, ev)] = fst (run_abs a_step (ops_of [(t, ev)]) ?a) \<and>
    abs_fs s' = snd (run_abs a_step (ops_of [(t, ev)]) ?a)" by (simp only: c' e s(3))
  then show ?case by (simp add: e s(2) run_abs_append fst_run_abs_append)
  qed

text \<open>
  C10: Threads linearise: in every interleaving of threads that open, look up, close, write and read files
  and destroy the file system, from a consistent state and without another \<open>tfs_init\<close>, as long as every operation
  is allowed in the state in which it takes effect (proper names, reads and writes through open handles, no
  truncation of a file another handle has open beyond its start), the operations return exactly what the abstract
  file system returns when they are carried out one after the other in the order in which they took
  effect, and the state reached is consistent again, with both locks free.
\<close>
theorem threads_linearise:
  assumes "steps thread_step (all_idle s0) es (pc, s)" and "ready s0" and "no_init es"
    and "all_allowed a_step allowed (ops_of es) (abs_fs s0)"
  shows "results_of es = fst (run_abs a_step (ops_of es) (abs_fs s0)) \<and>
    abs_fs s = snd (run_abs a_step (ops_of es) (abs_fs s0)) \<and> wf s"
  using threads_refine [OF assms] by (auto simp: at_rest_def fs_ok_def wf_def)

text \<open>Two threads are in \<open>tfs_open\<close> at once; the second one takes the lock first.\<close>

theorem threads_linearise_witness:
  "\<exists>pc s. steps thread_step (all_idle (booted fs_static)) [(0, Checked f1 1), (1, Checked f2 1),
      (1, Did (Op_open f2 1) (0, [])), (0, Did (Op_open f1 1) (1, []))] (pc, s) \<and>
    abs_dir s = [f2 \<mapsto> 1, f1 \<mapsto> 2] \<and> wf s"
proof -
  let ?s = "booted fs_static" and ?pc = "(\<lambda>_. Idle)(0 := In_open f1 1, Suc 0 := In_open f2 1)"
  note s = ready_at_rest [OF ready_start(1)]
  have flag: "open_flag ?s \<noteq> 0" using ready_start(1) by (simp add: ready_def)
  have a1: "a_step (Op_open f2 1) empty_fs =
      ((0, []), \<lparr>a_dir = [f2 \<mapsto> 1], a_files = [1 \<mapsto> []], a_open = [0 \<mapsto> (1, 0)]\<rparr>)" by (simp add: eval_abs)
  obtain s1 where s1: "thread_step (?pc, ?s) (1, Did (Op_open f2 1) (0, [])) (?pc(1 := Idle), s1)"
    "at_rest s1" "abs_fs s1 = snd (a_step (Op_open f2 1) empty_fs)"
    using can_open [OF s, of ?pc 1 f2 1] a1 by (auto simp: ready_start(2) eval_abs)
  have a2: "a_step (Op_open f1 1) (abs_fs s1) = ((1, []), \<lparr>a_dir = [f2 \<mapsto> 1, f1 \<mapsto> 2], a_files = [1 \<mapsto> [], 2 \<mapsto> []],
      a_open = [0 \<mapsto> (1, 0), 1 \<mapsto> (2, 0)]\<rparr>)" unfolding s1(3) a1 by (simp add: eval_abs)
  obtain s2 where s2: "thread_step (?pc(1 := Idle), s1) (0, Did (Op_open f1 1) (1, [])) (?pc(1 := Idle, 0 := Idle), s2)"
    "at_rest s2"
    using can_open [OF s1(2), of "?pc(1 := Idle)" 0 f1 1] a2 by (auto simp: eval_abs)
  have "thread_step (all_idle ?s) (0, Checked f1 1) ((\<lambda>_. Idle)(0 := In_open f1 1), ?s)"
    "thread_step ((\<lambda>_. Idle)(0 := In_open f1 1), ?s) (1, Checked f2 1) (?pc, ?s)"
    using can_check [OF s, of "\<lambda>_. Idle" 0] can_check [OF s, of "(\<lambda>_. Idle)(0 := In_open f1 1)" 1] flag by auto
  with s1(1) s2(1) have run: "steps thread_step (all_idle ?s) [(0, Checked f1 1), (1, Checked f2 1),
      (1, Did (Op_open f2 1) (0, [])), (0, Did (Op_open f1 1) (1, []))] (?pc(1 := Idle, 0 := Idle), s2)"
    by (blast intro: steps_Cons steps_one)
  note a2 = a2 [unfolded s1(3) a1 snd_conv]
  have "all_allowed a_step allowed [Op_open f2 1, Op_open f1 1] empty_fs"
    unfolding all_allowed.simps a1 by (simp add: trunc_safe_def config)
  with threads_linearise [OF run ready_start(1)] have "abs_fs s2 = snd (a_step (Op_open f1 1) (snd (a_step (Op_open f2 1) empty_fs)))" "wf s2"
    by (simp_all add: ready_start(2) case_prod_beta del: a_step.simps allowed.simps)
  with a1 a2 have "abs_dir s2 = [f2 \<mapsto> 1, f1 \<mapsto> 2]" "wf s2" by (simp_all add: abs_fs_def del: a_step.simps)
  with run show ?thesis by blast
qed

text \<open>
  C36: An open that passed the test before \<open>tfs_destroy_after_all_closed\<close> took the lock succeeds after
  it has returned: the destroyed file system has an open handle again. The test and the opening are not
  one critical section.
\<close>
theorem open_survives_destroy:
  assumes "ready s" and "open_files_count s = 0" and "good_name n" and "abs_dir s n = Some i" and "t \<noteq> u"
  shows "\<exists>pc s'. steps thread_step (all_idle s) [(t, Checked n 0), (u, Destroyed 0), (t, Did (Op_open n 0) (0, []))] (pc, s') \<and>
    open_flag s' = 0 \<and> abs_open s' 0 = Some (i, 0)"
proof -
  note s = ready_at_rest [OF assms(1)]
  let ?pc = "(\<lambda>_. Idle)(t := In_open n 0)" and ?d = "s\<lparr>open_flag := 0\<rparr>"
  have d: "at_rest ?d" "abs_fs ?d = abs_fs s" using s at_rest_flag by auto
  have wf: "wf_core s" using assms(1) by (simp add: ready_def fs_ok_def)
  have none: "abs_open s f = None" for f
    using no_handle_when_count_0 [OF wf assms(2), of f] by (simp add: abs_open_def)
  have "first_free (\<lambda>f. if abs_open s f = None then FREE else TAKEN) 0 MAX_OPEN_FILES = Some 0"
    by (rule first_free_least) (simp_all add: none config)
  then have a: "a_step (Op_open n 0) (abs_fs s) = ((0, []), (abs_fs s)\<lparr>a_open := (abs_open s)(0 \<mapsto> (i, 0))\<rparr>)"
    using assms(4) by (simp add: a_open_file_def a_add_handle_def abs_fs_def)
  have "allowed (Op_open n 0) (abs_fs ?d)" using assms(3) by (simp add: trunc_safe_def)
  from can_open [OF d(1) _ this, of ?pc t] obtain s' where
    s': "thread_step (?pc, ?d) (t, Did (Op_open n 0) (0, [])) (?pc(t := Idle), s')" "open_flag s' = 0"
      "abs_fs s' = (abs_fs s)\<lparr>a_open := (abs_open s)(0 \<mapsto> (i, 0))\<rparr>"
    unfolding d(2) a by auto
  have "thread_step (all_idle s) (t, Checked n 0) (?pc, s)"
    using can_check [OF s, of "\<lambda>_. Idle" t] assms(1) by (simp add: ready_def)
  moreover have "thread_step (?pc, s) (u, Destroyed 0) (?pc, ?d)"
    using can_destroy [OF s, of ?pc u] assms(2,5) by (simp add: fun_upd_idem)
  ultimately have "steps thread_step (all_idle s) [(t, Checked n 0), (u, Destroyed 0), (t, Did (Op_open n 0) (0, []))]
      (?pc(t := Idle), s')"
    using s'(1) by (blast intro: steps_Cons steps_one)
  moreover have "abs_open s' 0 = Some (i, 0)" using s'(3) by (simp add: abs_fs_def)
  ultimately show ?thesis using s'(2) by blast
qed

text \<open>A file system with one file and no handle.\<close>

definition demo_idle :: fs_state where
  "demo_idle = run_state [Op_open f1 1, Op_close 0]"

lemma demo_idle:
  "ready demo_idle"
  "abs_fs demo_idle = \<lparr>a_dir = [f1 \<mapsto> 1], a_files = [1 \<mapsto> []], a_open = (\<lambda>_. None)\<rparr>"
  unfolding demo_idle_def
  by (subst ready_run_state; simp add: eval_abs fun_upd_idem)+

lemma no_handle_count:
  assumes "wf_core s" and "\<And>f. abs_open s f = None"
  shows "open_files_count s = 0"
proof -
  have "abs_open s f \<noteq> None" if "f < MAX_OPEN_FILES" "free_open_file_entries s f = TAKEN" for f
    using that by (simp add: abs_open_def)
  with assms(2) have none: "{f. f < MAX_OPEN_FILES \<and> free_open_file_entries s f = TAKEN} = {}" by blast
  show ?thesis using assms(1) by (simp add: wf_core_def count_ok_def handles.used_def none)
qed

theorem open_survives_destroy_witness:
  "\<exists>pc s'. steps thread_step (all_idle demo_idle) [(1, Checked f1 0), (2, Destroyed 0), (1, Did (Op_open f1 0) (0, []))] (pc, s') \<and>
    open_flag s' = 0 \<and> abs_open s' 0 = Some (1, 0)"
proof -
  have "open_files_count demo_idle = 0"
    using no_handle_count demo_idle by (auto simp: ready_def fs_ok_def abs_fs_def)
  with open_survives_destroy [OF demo_idle(1), of f1 1 1 2] demo_idle(2) show ?thesis
    by (simp add: abs_fs_def)
qed

section \<open>After the destruction\<close>

text \<open>The file system is destroyed, no thread is inside an open, and no handle is open.\<close>

definition shut :: "threads \<Rightarrow> bool" where
  "shut c \<longleftrightarrow> (\<forall>t. fst c t = Idle \<or> fst c t = In_wait) \<and> open_flag (snd c) = 0 \<and> open_files_count (snd c) = 0 \<and>
     (\<forall>f<MAX_OPEN_FILES. free_open_file_entries (snd c) f = FREE)"

text \<open>Every call but \<open>tfs_open\<close> leaves free handles free, and when all are free it leaves their count.\<close>

definition frees :: "fs_state \<Rightarrow> fs_state \<Rightarrow> bool" where
  "frees s s' \<longleftrightarrow> (\<forall>f. free_open_file_entries s f = FREE \<longrightarrow> free_open_file_entries s' f = FREE) \<and>
     ((\<forall>f<MAX_OPEN_FILES. free_open_file_entries s f = FREE) \<longrightarrow> open_files_count s' = open_files_count s)"

lemma synchronized_frees:
  assumes "synchronized err body s = Ok (r, s')" and "\<And>s r s'. body s = Ok (r, s') \<Longrightarrow> frees s s'"
  shows "frees s s'"
  using assms(1) by (auto simp: synchronized_Ok_iff frees_def dest!: assms(2))

lemma close_frees: "remove_from_open_file_table f s = Ok (r, s') \<Longrightarrow> frees s s'"
  by (auto simp: frees_def valid_file_handle_def remove_from_open_file_table_def put_defs Let_def outcome_simps split: if_splits)

lemma write_frees: "tfs_write_unsynchronized f b w s = Ok (r, s') \<Longrightarrow> frees s s'"
proof -
  have "free_open_file_entries (snd (data_block_alloc s)) = free_open_file_entries s \<and>
      open_files_count (snd (data_block_alloc s)) = open_files_count s"
    by (simp add: data_block_alloc_def put_defs split: option.splits)
  then show "tfs_write_unsynchronized f b w s = Ok (r, s') \<Longrightarrow> frees s s'"
    by (auto simp: frees_def tfs_write_unsynchronized_def Let_def outcome_simps put_defs
        split: option.splits if_splits prod.splits)
qed

lemma read_frees: "tfs_read_unsynchronized f len s = Ok (r, s') \<Longrightarrow> frees s s'"
  by (auto simp: frees_def tfs_read_unsynchronized_def Let_def outcome_simps put_defs split: option.splits if_splits)

lemma locked_frees:
  assumes "synchronized err body s = Ok (r, s')"
    and "\<And>s r s'. body s = Ok (r, s') \<Longrightarrow> frees s s'" and "\<And>s r s'. body s = Ok (r, s') \<Longrightarrow> kept s s'"
  shows "frees s s' \<and> open_flag s' = open_flag s"
  using synchronized_frees [OF assms(1,2)] synchronized_kept [OF assms(1,3)] by (simp add: kept_def)

lemma call_frees:
  assumes "fs_step x s = Ok (res, s')" and "\<not> is_open_op x"
  shows "frees s s' \<and> open_flag s' = open_flag s"
proof (cases x)
  case (Op_lookup n)
  then show ?thesis using assms
    by (auto simp: no_bytes_def tfs_lookup_def outcome_simps synchronized_Ok_iff frees_def)
next
  case (Op_close f)
  then obtain r where "synchronized (-1) (remove_from_open_file_table (int f)) s = Ok (r, s')"
    using assms by (auto simp: no_bytes_def tfs_close_def outcome_simps)
  then show ?thesis by (rule locked_frees [OF _ close_frees remove_handle_kept])
next
  case (Op_write f data)
  then obtain r where "synchronized (-1) (tfs_write_unsynchronized (int f) data (of_nat (length data))) s = Ok (r, s')"
    using assms by (auto simp: no_bytes_def tfs_write_def outcome_simps)
  then show ?thesis by (rule locked_frees [OF _ write_frees write_body_kept])
next
  case (Op_read f len)
  with assms have "synchronized (-1, []) (tfs_read_unsynchronized (int f) (of_nat len)) s = Ok (res, s')"
    by (simp add: tfs_read_def)
  then show ?thesis by (rule locked_frees [OF _ read_frees read_body_kept])
qed (use assms in simp)

lemma check_flag: "check_open_flag s = Ok (v, s') \<Longrightarrow> v = (open_flag s \<noteq> 0) \<and> s' = s"
  by (cases s) (auto simp: check_open_flag_def Let_def outcome_simps)

lemma shut_step:
  assumes "thread_step c (t, e) c'" and "shut c" and "no_init [(t, e)]"
  shows "shut c'" and "e \<noteq> Did (Op_open n flags) r" and "e \<noteq> Checked n flags"
proof -
  obtain pc s pc' s' where c: "c = (pc, s)" "c' = (pc', s')" by (metis prod.exhaust)
  have pc: "pc u = Idle \<or> pc u = In_wait" "open_flag s = 0" for u using assms(2) by (auto simp: shut_def c)
  have "shut c' \<and> e \<noteq> Did (Op_open n flags) r \<and> e \<noteq> Checked n flags"
    using assms(1) [unfolded c]
  proof (cases rule: thread_step.cases)
    case (check n flags)
    with pc(2) show ?thesis by (auto dest: check_flag)
  next
    case (open_file n flags r)
    with pc(1) [of t] show ?thesis by simp
  next
    case (call x res)
    with call_frees [OF call(5,4)] assms(2) show ?thesis by (auto simp: shut_def frees_def c)
  next
    case (destroy v)
    then show ?thesis using assms(2)
      by (auto simp: shut_def c tfs_destroy_after_all_closed_def Let_def outcome_simps state_destroy_def
          wait_all_closed.simps [of "[]"] split: if_splits)
  qed (use assms(2,3) in \<open>auto simp: shut_def c dest: check_flag\<close>)
  then show "shut c'" "e \<noteq> Did (Op_open n flags) r" "e \<noteq> Checked n flags" by auto
qed

lemma shut_steps:
  assumes "steps thread_step c es c'" and "shut c" and "no_init es"
  shows "shut c' \<and> (\<forall>t n flags r. (t, Checked n flags) \<notin> set es \<and> (t, Did (Op_open n flags) r) \<notin> set es)"
  using assms
proof (induction rule: steps.induct)
  case (none c)
  then show ?case by simp
next
  case (more c es c' e c'')
  obtain t ev where e: "e = (t, ev)" by (cases e)
  have ok: "no_init es" "no_init [(t, ev)]" using more.prems(2) by (simp_all add: e)
  with more have "shut c'" by blast
  note step = shut_step [OF more(2) [unfolded e] this ok(2)]
  have "(t', Checked n flags) \<notin> set es \<and> (t', Did (Op_open n flags) r) \<notin> set es" for t' n flags r
    using more.IH [OF more.prems(1) ok(1)] by blast
  with step show ?case by (simp add: e) blast
qed

text \<open>A new start after the destruction.\<close>

lemma shut_starts_anew:
  assumes "shut (pc, s)" and "pc t = Idle" and "good_name n"
  shows "ready (booted s)" and "\<exists>s'. steps thread_step (pc, s)
    [(t, Initialised 0), (t, Checked n TFS_O_CREAT), (t, Did (Op_open n TFS_O_CREAT) (0, []))] (pc, s') \<and> open_flag s' \<noteq> 0"
proof -
  show r: "ready (booted s)" using assms(1) by (intro ready_booted) (simp add: shut_def)
  have a: "abs_fs (booted s) = empty_fs" by (simp add: abs_booted empty_fs_def)
  have flag: "open_flag (booted s) \<noteq> 0" using r by (simp add: ready_def)
  let ?pc = "pc(t := In_open n TFS_O_CREAT)"
  have "fst (a_step (Op_open n TFS_O_CREAT) empty_fs) = (0, [])" by (simp add: eval_abs)
  moreover have "allowed (Op_open n TFS_O_CREAT) empty_fs" using assms(3) by (simp add: eval_abs)
  ultimately obtain s' where s': "thread_step (?pc, booted s) (t, Did (Op_open n TFS_O_CREAT) (0, [])) (?pc(t := Idle), s')"
    "open_flag s' = open_flag (booted s)"
    using can_open [OF ready_at_rest [OF r], of ?pc t n TFS_O_CREAT] by (metis a fun_upd_same)
  have "thread_step (pc, s) (t, Initialised 0) (pc, booted s)"
    by (rule thread_step.initialise [where pc = pc and s' = "booted s", OF assms(2)]) (rule tfs_init_eq)
  moreover have "thread_step (pc, booted s) (t, Checked n TFS_O_CREAT) (?pc, booted s)"
    by (rule can_check [where pc = pc, OF ready_at_rest [OF r] assms(2) flag])
  moreover have "?pc(t := Idle) = pc" using assms(2) by (simp add: fun_upd_idem)
  ultimately show "\<exists>s'. steps thread_step (pc, s)
    [(t, Initialised 0), (t, Checked n TFS_O_CREAT), (t, Did (Op_open n TFS_O_CREAT) (0, []))] (pc, s') \<and> open_flag s' \<noteq> 0"
    using s' flag by (metis steps_Cons steps_one)
qed

text \<open>
  C26: Once the file system is destroyed, no handle is open and no thread is between the two halves of \<open>tfs_open\<close>, no
  handle is opened again until \<open>tfs_init\<close> is called again, whatever operations the threads run, allowed or not: every open
  before that is refused. A thread that does call \<open>tfs_init\<close> again finds an empty, consistent file system in which it
  can create a file of any proper name, with handle 0.
\<close>
theorem closed_for_good:
  assumes "steps thread_step c es (pc, s)" and "shut c" and "no_init es"
  shows "(\<forall>t n flags r. (t, Checked n flags) \<notin> set es \<and> (t, Did (Op_open n flags) r) \<notin> set es) \<and>
    (\<forall>t n. pc t = Idle \<and> good_name n \<longrightarrow> (\<exists>s'. ready (booted s) \<and> abs_fs (booted s) = empty_fs \<and>
      steps thread_step (pc, s) [(t, Initialised 0), (t, Checked n TFS_O_CREAT), (t, Did (Op_open n TFS_O_CREAT) (0, []))] (pc, s')))"
proof -
  have "abs_fs (booted s) = empty_fs" by (simp add: abs_booted empty_fs_def)
  with shut_steps [OF assms] shut_starts_anew [of pc s] show ?thesis by blast
qed

theorem closed_for_good_witness:
  "\<exists>s'. steps thread_step (all_idle (demo_idle\<lparr>open_flag := 0\<rparr>)) [(3, Initialised 0), (3, Checked f1 TFS_O_CREAT),
     (3, Did (Op_open f1 TFS_O_CREAT) (0, []))] (all_idle s')"
proof -
  let ?s = "demo_idle\<lparr>open_flag := 0\<rparr>"
  have s: "at_rest ?s" using ready_at_rest [OF demo_idle(1)] at_rest_flag(1) by simp
  have run: "steps thread_step (all_idle ?s) [(3, Refused f1 0)] (all_idle ?s)"
    by (rule steps_one, rule thread_step.refuse) (simp_all add: check_at_rest [OF s])
  have count: "open_files_count demo_idle = 0"
    using no_handle_count demo_idle by (auto simp: ready_def fs_ok_def abs_fs_def)
  then have "free_open_file_entries demo_idle f = FREE" if "f < MAX_OPEN_FILES" for f
    using no_handle_when_count_0 [OF _ _ that] demo_idle by (auto simp: ready_def fs_ok_def)
  then have "shut (all_idle ?s)" using count by (simp add: shut_def)
  from closed_for_good [OF run this] show ?thesis by auto
qed





end
