(* ===== verification/Sys_Calls.thy ===== *)
theory Sys_Calls
  imports Config Sync
begin

text \<open>
  What client and server ask of the operating system, and the operating system's answers: a system
  call consumes the next answer of a list the environment provides, and every call is recorded. With
  no answer left the caller is waiting in that call. Character arrays are byte lists of fixed length; touching one
  outside its bounds is undefined.
\<close>

section \<open>System calls\<close>

text \<open>An answer: the value returned, the error number if that is -1, and the bytes a read delivers.\<close>

record answer =
  ans_ret :: int
  ans_errno :: int
  ans_data :: "byte list"

record sys =
  answers :: "answer list"
  errno :: int
  trace :: "sys_call list"

definition ENOENT :: int where "ENOENT = 2"
definition EPIPE :: int where "EPIPE = 32"
definition O_RDONLY :: int where "O_RDONLY = 0"
definition O_WRONLY :: int where "O_WRONLY = 1"
definition O_RDWR :: int where "O_RDWR = 2"

text \<open>\<open>errno\<close> changes only when a call fails: a success does not reset it.\<close>

definition syscall :: "sys_call \<Rightarrow> sys \<Rightarrow> (answer \<times> sys) outcome" where
  "syscall c w = (case answers w of
     [] \<Rightarrow> Fault (Waiting c)
   | a # as \<Rightarrow> Ok (a, w\<lparr>answers := as, errno := (if ans_ret a = -1 then ans_errno a else errno w),
       trace := trace w @ [c]\<rparr>))"

lemma syscall_consumes: "syscall c w = Ok (a, w') \<Longrightarrow> length (answers w') < length (answers w)"
  by (auto simp: syscall_def split: list.splits)

text \<open>What the system promises about an answer to a read or a write of \<open>n\<close> bytes.\<close>

definition read_answer :: "nat \<Rightarrow> answer \<Rightarrow> bool" where
  "read_answer n a \<longleftrightarrow> ans_ret a = -1 \<or> ans_ret a = int (length (ans_data a)) \<and> length (ans_data a) \<le> n"

definition write_answer :: "nat \<Rightarrow> answer \<Rightarrow> bool" where
  "write_answer n a \<longleftrightarrow> ans_ret a = -1 \<or> 0 \<le> ans_ret a \<and> ans_ret a \<le> int n"

section \<open>Character arrays\<close>

definition buf_put :: "nat \<Rightarrow> byte list \<Rightarrow> byte list \<Rightarrow> byte list outcome" where
  "buf_put off bs buf =
     (if off + length bs \<le> length buf then Ok (take off buf @ bs @ drop (off + length bs) buf)
      else Fault Undefined)"

definition buf_get :: "nat \<Rightarrow> nat \<Rightarrow> byte list \<Rightarrow> byte list outcome" where
  "buf_get off n buf = (if off + n \<le> length buf then Ok (take n (drop off buf)) else Fault Undefined)"

text \<open>The string that starts an array: undefined if the array has no terminator.\<close>

definition buf_str :: "byte list \<Rightarrow> cstring outcome" where
  "buf_str buf = (if 0 \<in> set buf then Ok (c_str buf) else Fault Undefined)"

text \<open>A variable after a read delivered some of its bytes; the others keep their values.\<close>

definition overlay :: "byte list \<Rightarrow> byte list \<Rightarrow> byte list" where
  "overlay new old = take (length old) new @ drop (length new) old"

lemma buf_put_Ok: "off + length bs \<le> length buf \<Longrightarrow>
    buf_put off bs buf = Ok (take off buf @ bs @ drop (off + length bs) buf)"
  by (simp add: buf_put_def)

lemma overlay_full [simp]: "length new = length old \<Longrightarrow> overlay new old = new"
  by (simp add: overlay_def)

end
