(* ===== verification/Pipe_IO.thy ===== *)
theory Pipe_IO
  imports Sys_Calls
begin

text \<open>
  The loops that transfer a given number of bytes over a pipe (\<open>read_buffer\<close> and \<open>write_buffer\<close> of
  \<open>parte-2/fs/state.c\<close>), and the conditions under which they do so: any split of the bytes into
  non-empty pieces. A pipe at its end makes the reading loop spin for ever.
\<close>

function read_loop :: "int \<Rightarrow> nat \<Rightarrow> size_t \<Rightarrow> size_t \<Rightarrow> byte list \<Rightarrow> sys \<Rightarrow> ((int \<times> byte list) \<times> sys) outcome" where
  "read_loop rx base to_read read_so_far buf w =
     (if read_so_far < to_read then
        and_then (syscall (Sys_read rx (unat (to_read - read_so_far))) w) (\<lambda>(a, w').
          if ans_ret a = -1 then Ok ((-1, buf), w')
          else and_then (buf_put (base + unat read_so_far) (ans_data a) buf) (\<lambda>buf'.
            read_loop rx base to_read (read_so_far + of_int (ans_ret a)) buf' w'))
      else Ok ((0, buf), w))"
  by pat_completeness auto
termination
  by (relation "measure (\<lambda>(rx, base, n, k, buf, w). length (answers w))") (auto dest: syscall_consumes)

declare read_loop.simps [simp del]

text \<open>\<open>read_buffer(rx, buf + base, to_read)\<close>.\<close>

definition read_buffer :: "int \<Rightarrow> nat \<Rightarrow> size_t \<Rightarrow> byte list \<Rightarrow> sys \<Rightarrow> ((int \<times> byte list) \<times> sys) outcome" where
  "read_buffer rx base to_read buf w = read_loop rx base to_read 0 buf w"

function write_loop :: "int \<Rightarrow> byte list \<Rightarrow> size_t \<Rightarrow> size_t \<Rightarrow> sys \<Rightarrow> (int \<times> sys) outcome" where
  "write_loop tx buf to_write written_so_far w =
     (if written_so_far < to_write then
        and_then (buf_get (unat written_so_far) (unat (to_write - written_so_far)) buf) (\<lambda>bs.
        and_then (syscall (Sys_write tx bs) w) (\<lambda>(a, w').
          if ans_ret a = -1 then Ok (-1, w')
          else write_loop tx buf to_write (written_so_far + of_int (ans_ret a)) w'))
      else Ok (0, w))"
  by pat_completeness auto
termination
  by (relation "measure (\<lambda>(tx, buf, n, k, w). length (answers w))") (auto dest: syscall_consumes)

declare write_loop.simps [simp del]

definition write_buffer :: "int \<Rightarrow> byte list \<Rightarrow> size_t \<Rightarrow> sys \<Rightarrow> (int \<times> sys) outcome" where
  "write_buffer tx buf to_write w = write_loop tx buf to_write 0 w"

section \<open>Transfers that succeed\<close>

text \<open>Answers of a read that delivers \<open>c\<close>, of a write that accepts \<open>k\<close> bytes, and of a plain success.\<close>

definition deliver :: "byte list \<Rightarrow> answer" where
  "deliver c = \<lparr>ans_ret = int (length c), ans_errno = 0, ans_data = c\<rparr>"

definition reply :: "int \<Rightarrow> answer" where
  "reply r = \<lparr>ans_ret = r, ans_errno = 0, ans_data = []\<rparr>"

definition failure :: "int \<Rightarrow> answer" where
  "failure e = \<lparr>ans_ret = -1, ans_errno = e, ans_data = []\<rparr>"

text \<open>The bytes passed to \<open>write\<close> on a descriptor, in order.\<close>

fun sent :: "int \<Rightarrow> sys_call list \<Rightarrow> byte list list" where
  "sent fd [] = []"
| "sent fd (Sys_write fd' bs # cs) = (if fd' = fd then bs # sent fd cs else sent fd cs)"
| "sent fd (_ # cs) = sent fd cs"

lemma sent_append [simp]: "sent fd (cs @ ds) = sent fd cs @ sent fd ds"
proof (induction cs)
  case (Cons c cs)
  then show ?case by (cases c) auto
qed simp

lemma syscall_Cons:
  "answers w = a # as \<Longrightarrow> syscall c w = Ok (a, w\<lparr>answers := as,
     errno := (if ans_ret a = -1 then ans_errno a else errno w), trace := trace w @ [c]\<rparr>)"
  by (simp add: syscall_def)

lemma size_step:
  assumes "unat k + m \<le> unat (n :: size_t)"
  shows "unat (k + of_nat m :: size_t) = unat k + m"
  using assms unat_size_less [of n] by (simp add: unat_word_ariths unat_of_nat)

lemma read_loop_delivers:
  assumes "answers w = map deliver cs @ as" and "\<forall>c \<in> set cs. c \<noteq> []"
    and "unat k + length (concat cs) = unat n" and "base + unat n \<le> length buf"
  shows "\<exists>w'. read_loop rx base n k buf w =
      Ok ((0, take (base + unat k) buf @ concat cs @ drop (base + unat n) buf), w') \<and>
    answers w' = as \<and> errno w' = errno w \<and> (\<forall>fd. sent fd (trace w') = sent fd (trace w))"
  using assms
proof (induction cs arbitrary: k buf w)
  case Nil
  then have "k = n" by (simp add: word_unat_eq_iff)
  with Nil show ?case by (simp add: read_loop.simps [of rx base n n])
next
  case (Cons c cs)
  let ?w = "w\<lparr>answers := map deliver cs @ as, trace := trace w @ [Sys_read rx (unat (n - k))]\<rparr>"
  let ?k = "k + of_nat (length c)" and ?buf = "take (base + unat k) buf @ c @ drop (base + unat k + length c) buf"
  have "k < n" using Cons.prems(2,3) by (cases c) (auto simp: word_less_nat_alt)
  have k': "unat ?k = unat k + length c" using Cons.prems(3) by (intro size_step [of k "length c" n]) simp
  have put: "buf_put (base + unat k) c buf = Ok ?buf"
    using Cons.prems(3,4) by (intro buf_put_Ok) simp
  have call: "syscall (Sys_read rx (unat (n - k))) w = Ok (deliver c, ?w)"
    using Cons.prems(1) by (subst syscall_Cons [of w "deliver c" "map deliver cs @ as"]) (auto simp: deliver_def)
  have "read_loop rx base n k buf w = read_loop rx base n ?k ?buf ?w"
    using \<open>k < n\<close> call put by (subst read_loop.simps) (simp add: deliver_def)
  moreover have "\<exists>w'. read_loop rx base n ?k ?buf ?w =
      Ok ((0, take (base + unat ?k) ?buf @ concat cs @ drop (base + unat n) ?buf), w') \<and>
    answers w' = as \<and> errno w' = errno ?w \<and> (\<forall>fd. sent fd (trace w') = sent fd (trace ?w))"
    using Cons.prems k' by (intro Cons.IH) auto
  moreover have "take (base + unat ?k) ?buf = take (base + unat k) buf @ c"
    "drop (base + unat n) ?buf = drop (base + unat n) buf"
    using Cons.prems(3,4) k' by (auto simp: add.commute)
  ultimately show ?case by auto
qed

lemma read_buffer_delivers:
  assumes "answers w = map deliver cs @ as" and "\<forall>c \<in> set cs. c \<noteq> []"
    and "length (concat cs) = unat n" and "base + unat n \<le> length buf"
  shows "\<exists>w'. read_buffer rx base n buf w = Ok ((0, take base buf @ concat cs @ drop (base + unat n) buf), w') \<and>
    answers w' = as \<and> errno w' = errno w \<and> (\<forall>fd. sent fd (trace w') = sent fd (trace w))"
  using read_loop_delivers [OF assms(1,2), of 0 n base buf rx] assms(3,4) by (simp add: read_buffer_def)

text \<open>A pipe at its end: the loop consumes the answers for ever.\<close>

lemma read_loop_end_of_file:
  assumes "answers w = replicate m (deliver [])" and "k < n" and "base + unat n \<le> length buf"
  shows "read_loop rx base n k buf w = Fault (Waiting (Sys_read rx (unat (n - k))))"
  using assms
proof (induction m arbitrary: w)
  case 0
  then show ?case by (simp add: read_loop.simps [of rx base n k buf w] syscall_def)
next
  case (Suc m)
  have "unat k < unat n" using Suc.prems(2) by (simp add: word_less_nat_alt)
  then have "buf_put (base + unat k) [] buf = Ok buf" using Suc.prems(3) by (simp add: buf_put_def)
  with Suc show ?case
    by (simp add: read_loop.simps [of rx base n k buf w] syscall_Cons [of w "deliver []"] deliver_def)
qed

lemma write_loop_accepts:
  assumes "answers w = map (\<lambda>k. reply (int k)) ks @ as" and "\<forall>k \<in> set ks. 0 < k"
    and "unat k + sum_list ks = unat n" and "unat n \<le> length buf"
  shows "\<exists>w'. write_loop tx buf n k w = Ok (0, w') \<and> answers w' = as \<and> errno w' = errno w \<and>
    concat (map2 take ks (drop (length (sent tx (trace w))) (sent tx (trace w')))) = take (sum_list ks) (drop (unat k) buf) \<and>
    (\<exists>bss. sent tx (trace w') = sent tx (trace w) @ bss \<and> length bss = length ks)"
  using assms
proof (induction ks arbitrary: k w)
  case Nil
  then have "k = n" by (simp add: word_unat_eq_iff)
  with Nil show ?case by (simp add: write_loop.simps [of tx buf n n])
next
  case (Cons j ks)
  let ?bs = "take (unat (n - k)) (drop (unat k) buf)"
  let ?w = "w\<lparr>answers := map (\<lambda>k. reply (int k)) ks @ as, trace := trace w @ [Sys_write tx ?bs]\<rparr>"
  let ?k = "k + of_nat j"
  have "k < n" using Cons.prems(2,3) by (auto simp: word_less_nat_alt)
  then have d: "unat (n - k) = unat n - unat k" by (simp add: unat_sub word_le_nat_alt word_less_nat_alt)
  have k': "unat ?k = unat k + j" using Cons.prems(3) by (intro size_step [of k j n]) simp
  have get: "buf_get (unat k) (unat (n - k)) buf = Ok ?bs" using Cons.prems(3,4) d by (simp add: buf_get_def)
  have call: "syscall (Sys_write tx ?bs) w = Ok (reply (int j), ?w)"
    using Cons.prems(1) by (subst syscall_Cons [of w "reply (int j)" "map (\<lambda>k. reply (int k)) ks @ as"]) (auto simp: reply_def)
  have "write_loop tx buf n k w = write_loop tx buf n ?k ?w"
    using \<open>k < n\<close> get call by (subst write_loop.simps) (simp add: reply_def)
  moreover obtain w' bss where "write_loop tx buf n ?k ?w = Ok (0, w')" "answers w' = as" "errno w' = errno ?w"
    and sent: "sent tx (trace w') = sent tx (trace ?w) @ bss" "length bss = length ks"
    and rest: "concat (map2 take ks (drop (length (sent tx (trace ?w))) (sent tx (trace w')))) =
      take (sum_list ks) (drop (unat ?k) buf)"
    using Cons.IH [of ?w ?k] Cons.prems k' by auto
  moreover have "take j ?bs @ take (sum_list ks) (drop (unat k + j) buf) = take (j + sum_list ks) (drop (unat k) buf)"
    using Cons.prems(3) d by (simp add: take_add add.commute)
  ultimately show ?case using k' by auto
qed

end
