(* ===== verification/Client.thy ===== *)
theory Client
  imports Pipe_IO
begin

text \<open>
  The client library, \<open>parte-2/client/tecnicofs_client_api.c\<close>: each call builds a request in a local
  array, sends it and reads the answer. The bytes of a local variable that a short read did not set
  (its indeterminate value) are the parameter \<open>junk\<close> of the call.
\<close>

section \<open>The protocol\<close>

definition TFS_OP_CODE_MOUNT :: byte where "TFS_OP_CODE_MOUNT = 1"
definition TFS_OP_CODE_UNMOUNT :: byte where "TFS_OP_CODE_UNMOUNT = 2"
definition TFS_OP_CODE_OPEN :: byte where "TFS_OP_CODE_OPEN = 3"
definition TFS_OP_CODE_CLOSE :: byte where "TFS_OP_CODE_CLOSE = 4"
definition TFS_OP_CODE_WRITE :: byte where "TFS_OP_CODE_WRITE = 5"
definition TFS_OP_CODE_READ :: byte where "TFS_OP_CODE_READ = 6"
definition TFS_OP_CODE_SHUTDOWN :: byte where "TFS_OP_CODE_SHUTDOWN = 7"

lemmas op_codes = TFS_OP_CODE_MOUNT_def TFS_OP_CODE_UNMOUNT_def TFS_OP_CODE_OPEN_def TFS_OP_CODE_CLOSE_def
  TFS_OP_CODE_WRITE_def TFS_OP_CODE_READ_def TFS_OP_CODE_SHUTDOWN_def

definition MAX_REQUEST_SIZE :: nat where [config]: "MAX_REQUEST_SIZE = 2048"
definition MAX_CLIENTS :: nat where [config]: "MAX_CLIENTS = 64"
definition BUFFER_SIZE :: nat where [config]: "BUFFER_SIZE = 40"

definition MOUNT_SIZE_API :: nat where [config]: "MOUNT_SIZE_API = 1 + BUFFER_SIZE"
definition UNMOUNT_SIZE_API :: nat where [config]: "UNMOUNT_SIZE_API = 1 + 4"
definition OPEN_SIZE_API :: nat where [config]: "OPEN_SIZE_API = 1 + 2 * 4 + BUFFER_SIZE"
definition CLOSE_SIZE_API :: nat where [config]: "CLOSE_SIZE_API = 1 + 2 * 4"
definition WRITE_SIZE_API :: "nat \<Rightarrow> nat" where [config]: "WRITE_SIZE_API len = 1 + 2 * 4 + len + 8"
definition READ_SIZE_API :: nat where [config]: "READ_SIZE_API = 1 + 2 * 4 + 8"
definition SHUTDOWN_SIZE_API :: nat where [config]: "SHUTDOWN_SIZE_API = 1 + 4"

section \<open>State and system calls\<close>

record client =
  rx :: int
  tx :: int
  session_id :: int
  c_sys :: sys

definition do_call :: "sys_call \<Rightarrow> client \<Rightarrow> (answer \<times> client) outcome" where
  "do_call call c = and_then (syscall call (c_sys c)) (\<lambda>(a, w). Ok (a, c\<lparr>c_sys := w\<rparr>))"

definition client_write_buffer :: "int \<Rightarrow> byte list \<Rightarrow> size_t \<Rightarrow> client \<Rightarrow> (int \<times> client) outcome" where
  "client_write_buffer fd buf to_write c =
     and_then (write_loop fd buf to_write 0 (c_sys c)) (\<lambda>(r, w). Ok (r, c\<lparr>c_sys := w\<rparr>))"

text \<open>
  Sending a request and receiving an answer of as many bytes as \<open>junk\<close> has: the guards on \<open>errno\<close>
  apply to successful calls too. \<open>None\<close> is the early return of -1.
\<close>

definition send_request :: "byte list \<Rightarrow> client \<Rightarrow> (bool \<times> client) outcome" where
  "send_request req c =
     and_then (client_write_buffer (tx c) req (of_nat (length req)) c) (\<lambda>(r, c).
       Ok (\<not> (r = -1 \<or> errno (c_sys c) = EPIPE), c))"

definition receive :: "byte list \<Rightarrow> client \<Rightarrow> (byte list option \<times> client) outcome" where
  "receive junk c =
     and_then (do_call (Sys_read (rx c) (length junk)) c) (\<lambda>(a, c).
       if ans_ret a = -1 \<or> errno (c_sys c) = EPIPE then Ok (None, c)
       else Ok (Some (overlay (ans_data a) junk), c))"

definition close_pipe :: "int \<Rightarrow> client \<Rightarrow> (bool \<times> client) outcome" where
  "close_pipe fd c = and_then (do_call (Sys_close fd) c) (\<lambda>(a, c).
     Ok (\<not> (ans_ret a = -1 \<or> errno (c_sys c) = EPIPE), c))"

section \<open>Requests\<close>

text \<open>The requests as the stores build them: an array of the request's size, filled piece by piece.\<close>

definition mount_request :: "cstring \<Rightarrow> byte list outcome" where
  "mount_request client_pipe_path =
     and_then (buf_put 0 [TFS_OP_CODE_MOUNT] (replicate MOUNT_SIZE_API 0)) (\<lambda>b.
     and_then (buf_put 1 (replicate BUFFER_SIZE 0) b) (\<lambda>b.
     buf_put 1 client_pipe_path b))"

definition session_request :: "byte \<Rightarrow> int \<Rightarrow> nat \<Rightarrow> byte list outcome" where
  "session_request op_code sid n =
     and_then (buf_put 0 [op_code] (replicate n 0)) (\<lambda>b. buf_put 1 (int_bytes sid) b)"

definition open_request :: "int \<Rightarrow> cstring \<Rightarrow> int \<Rightarrow> byte list outcome" where
  "open_request sid name flags =
     and_then (session_request TFS_OP_CODE_OPEN sid OPEN_SIZE_API) (\<lambda>b.
     and_then (buf_put (1 + 4) (int_bytes flags) b) (\<lambda>b.
     and_then (buf_put (1 + 2 * 4) (replicate BUFFER_SIZE 0) b) (\<lambda>b.
     buf_put (1 + 2 * 4) name b)))"

definition close_request :: "int \<Rightarrow> int \<Rightarrow> byte list outcome" where
  "close_request sid fhandle =
     and_then (session_request TFS_OP_CODE_CLOSE sid CLOSE_SIZE_API) (\<lambda>b.
     buf_put (1 + 4) (int_bytes fhandle) b)"

definition write_request :: "int \<Rightarrow> int \<Rightarrow> byte list \<Rightarrow> size_t \<Rightarrow> byte list outcome" where
  "write_request sid fhandle buffer len =
     and_then (session_request TFS_OP_CODE_WRITE sid (WRITE_SIZE_API (unat len))) (\<lambda>b.
     and_then (buf_put (1 + 4) (int_bytes fhandle) b) (\<lambda>b.
     and_then (buf_put (1 + 2 * 4) (size_bytes len) b) (\<lambda>b.
     and_then (buf_get 0 (unat len) buffer) (\<lambda>bs.
     buf_put (1 + 2 * 4 + 8) bs b))))"

definition read_request :: "int \<Rightarrow> int \<Rightarrow> size_t \<Rightarrow> byte list outcome" where
  "read_request sid fhandle len =
     and_then (session_request TFS_OP_CODE_READ sid READ_SIZE_API) (\<lambda>b.
     and_then (buf_put (1 + 4) (int_bytes fhandle) b) (\<lambda>b.
     buf_put (1 + 2 * 4) (size_bytes len) b))"

section \<open>The calls\<close>

definition client_mount :: "cstring \<Rightarrow> cstring \<Rightarrow> client \<Rightarrow> (int \<times> client) outcome" where
  "client_mount client_pipe_path server_pipe_path c =
     and_then (do_call (Sys_unlink client_pipe_path) c) (\<lambda>(a, c).
     if ans_ret a \<noteq> 0 \<and> errno (c_sys c) \<noteq> ENOENT then Ok (-1, c) else
     and_then (do_call (Sys_mkfifo client_pipe_path 416) c) (\<lambda>(a, c).
     if ans_ret a \<noteq> 0 then Ok (-1, c) else
     and_then (do_call (Sys_open client_pipe_path O_RDWR) c) (\<lambda>(a, c).
     let c = c\<lparr>rx := ans_ret a\<rparr> in
     if rx c = -1 then Ok (-1, c) else
     and_then (do_call (Sys_open server_pipe_path O_WRONLY) c) (\<lambda>(a, c).
     let c = c\<lparr>tx := ans_ret a\<rparr> in
     if tx c = -1 then Ok (-1, c) else
     and_then (mount_request client_pipe_path) (\<lambda>req.
     and_then (send_request req c) (\<lambda>(ok, c).
     if \<not> ok then Ok (-1, c) else
     and_then (receive (int_bytes (session_id c)) c) (\<lambda>(v, c). case v of
       None \<Rightarrow> Ok (-1, c)
     | Some bs \<Rightarrow>
         let c = c\<lparr>session_id := bytes_int bs\<rparr> in
         if session_id c = -1 then Ok (-1, c) else Ok (0, c))))))))"

text \<open>\<open>tfs_unmount\<close>: \<open>ret \<noteq> 0\<close> is checked with the read.\<close>

definition client_unmount :: "byte list \<Rightarrow> client \<Rightarrow> (int \<times> client) outcome" where
  "client_unmount junk c =
     and_then (session_request TFS_OP_CODE_UNMOUNT (session_id c) UNMOUNT_SIZE_API) (\<lambda>req.
     and_then (send_request req c) (\<lambda>(ok, c).
     if \<not> ok then Ok (-1, c) else
     and_then (receive junk c) (\<lambda>(v, c). case v of
       None \<Rightarrow> Ok (-1, c)
     | Some ret \<Rightarrow>
         if bytes_int ret \<noteq> 0 then Ok (-1, c) else
         and_then (close_pipe (rx c) c) (\<lambda>(ok, c).
         if \<not> ok then Ok (-1, c) else
         and_then (close_pipe (tx c) c) (\<lambda>(ok, c).
         if \<not> ok then Ok (-1, c) else Ok (0, c))))))"

text \<open>The shape \<open>tfs_open\<close>, \<open>tfs_close\<close> and \<open>tfs_write\<close> share: send a request, return the answer.\<close>

definition client_rpc :: "byte list outcome \<Rightarrow> byte list \<Rightarrow> (byte list \<Rightarrow> int) \<Rightarrow> client \<Rightarrow> (int \<times> client) outcome" where
  "client_rpc request junk decode c =
     and_then request (\<lambda>req.
     and_then (send_request req c) (\<lambda>(ok, c).
     if \<not> ok then Ok (-1, c) else
     and_then (receive junk c) (\<lambda>(v, c). case v of None \<Rightarrow> Ok (-1, c) | Some ret \<Rightarrow> Ok (decode ret, c))))"

text \<open>\<open>ssize_t\<close> is the signed reading of eight bytes.\<close>

definition bytes_ssize :: "byte list \<Rightarrow> int" where
  "bytes_ssize bs = sint (bytes_size bs)"

definition client_open :: "cstring \<Rightarrow> int \<Rightarrow> byte list \<Rightarrow> client \<Rightarrow> (int \<times> client) outcome" where
  "client_open name flags junk c = client_rpc (open_request (session_id c) name flags) junk bytes_int c"

definition client_close :: "int \<Rightarrow> byte list \<Rightarrow> client \<Rightarrow> (int \<times> client) outcome" where
  "client_close fhandle junk c = client_rpc (close_request (session_id c) fhandle) junk bytes_int c"

definition client_write :: "int \<Rightarrow> byte list \<Rightarrow> size_t \<Rightarrow> byte list \<Rightarrow> client \<Rightarrow> (int \<times> client) outcome" where
  "client_write fhandle buffer len junk c =
     client_rpc (write_request (session_id c) fhandle buffer len) junk bytes_ssize c"

text \<open>\<open>tfs_read\<close> receives the result and then the bytes, as many as it asked for, into its caller's buffer.\<close>

definition client_read :: "int \<Rightarrow> byte list \<Rightarrow> size_t \<Rightarrow> byte list \<Rightarrow> client \<Rightarrow> ((int \<times> byte list) \<times> client) outcome" where
  "client_read fhandle buffer len junk c =
     and_then (read_request (session_id c) fhandle len) (\<lambda>req.
     and_then (send_request req c) (\<lambda>(ok, c).
     if \<not> ok then Ok ((-1, buffer), c) else
     and_then (receive junk c) (\<lambda>(v, c). case v of
       None \<Rightarrow> Ok ((-1, buffer), c)
     | Some ret \<Rightarrow>
         and_then (do_call (Sys_read (rx c) (unat len)) c) (\<lambda>(a, c).
         if ans_ret a = -1 \<or> errno (c_sys c) = EPIPE then Ok ((-1, buffer), c) else
         and_then (buf_put 0 (ans_data a) buffer) (\<lambda>buffer.
         Ok ((bytes_ssize ret, buffer), c))))))"

definition client_shutdown_after_all_closed :: "byte list \<Rightarrow> client \<Rightarrow> (int \<times> client) outcome" where
  "client_shutdown_after_all_closed junk c =
     and_then (session_request TFS_OP_CODE_SHUTDOWN (session_id c) SHUTDOWN_SIZE_API) (\<lambda>req.
     and_then (send_request req c) (\<lambda>(ok, c).
     if \<not> ok then Ok (-1, c) else
     and_then (receive junk c) (\<lambda>(v, c). case v of
       None \<Rightarrow> Ok (-1, c)
     | Some ret \<Rightarrow>
         and_then (close_pipe (tx c) c) (\<lambda>(ok, c).
         if \<not> ok then Ok (-1, c) else
         and_then (close_pipe (rx c) c) (\<lambda>(ok, c).
         if \<not> ok then Ok (-1, c) else Ok (bytes_int ret, c))))))"

end
