(* ===== verification/Server.thy ===== *)
theory Server
  imports Client FS_Ops
begin

text \<open>
  The server, \<open>parte-2/fs/tfs_server.c\<close>: the sessions, the main thread that reads requests from the
  server's pipe into a session's buffer, and the worker thread of a session that carries the request
  out on the file system. One iteration of the main loop, and one of a worker's loop, is one function;
  \<open>fd_main\<close> is the descriptor of the server's pipe.
\<close>

section \<open>State\<close>

text \<open>
  \<open>session->pipename\<close> is null until \<open>case_mount\<close> sets it to its own local array, whose lifetime ends
  when the function returns.
\<close>

datatype pipe_ptr = Null_ptr | Dead_local

record session =
  sess_id :: int
  is_active :: bool
  session_lock :: mutex
  sess_buffer :: "byte list"
  sess_tx :: int
  sess_pipename :: pipe_ptr

record server =
  sessions :: "nat \<Rightarrow> session"
  next_session_id :: int
  shutting_down :: bool
  shutdown_called :: bool
  next_session_id_lock :: mutex
  shutting_down_lock :: mutex
  srv_fs :: fs_state
  srv_sys :: sys

text \<open>Static storage is zero, but for \<open>next_session_id\<close>.\<close>

definition server_static :: server where
  "server_static = \<lparr>
     sessions = (\<lambda>_. \<lparr>sess_id = 0, is_active = False, session_lock = Uninit, sess_buffer = replicate MAX_REQUEST_SIZE 0,
       sess_tx = 0, sess_pipename = Null_ptr\<rparr>),
     next_session_id = 1, shutting_down = False, shutdown_called = False, next_session_id_lock = Uninit,
     shutting_down_lock = Uninit, srv_fs = fs_static, srv_sys = \<lparr>answers = [], errno = 0, trace = []\<rparr>\<rparr>"

definition failure_code :: int where "failure_code = -1"
definition MOUNT_SIZE_SERVER :: nat where [config]: "MOUNT_SIZE_SERVER = BUFFER_SIZE"
definition OPEN_SIZE_SERVER :: nat where [config]: "OPEN_SIZE_SERVER = 4 + BUFFER_SIZE"
definition CLOSE_SIZE_SERVER :: nat where [config]: "CLOSE_SIZE_SERVER = 4"
definition READ_SIZE_SERVER :: nat where [config]: "READ_SIZE_SERVER = 4 + 8"

definition put_session :: "nat \<Rightarrow> (session \<Rightarrow> session) \<Rightarrow> server \<Rightarrow> server" where
  "put_session i f s = s\<lparr>sessions := (sessions s)(i := f (sessions s i))\<rparr>"

definition srv_call :: "sys_call \<Rightarrow> server \<Rightarrow> (answer \<times> server) outcome" where
  "srv_call call s = and_then (syscall call (srv_sys s)) (\<lambda>(a, w). Ok (a, s\<lparr>srv_sys := w\<rparr>))"

text \<open>\<open>write(fd, ...)\<close> of a whole variable; callers that ignore the result use \<open>send_failure\<close>.\<close>

definition srv_write :: "int \<Rightarrow> byte list \<Rightarrow> server \<Rightarrow> (int \<times> server) outcome" where
  "srv_write fd bs s = and_then (srv_call (Sys_write fd bs) s) (\<lambda>(a, s). Ok (ans_ret a, s))"

definition send_failure :: "nat \<Rightarrow> server \<Rightarrow> server outcome" where
  "send_failure i s = and_then (srv_write (sess_tx (sessions s i)) (int_bytes failure_code) s) (\<lambda>(_, s). Ok s)"

definition with_lock :: "(server \<Rightarrow> mutex) \<Rightarrow> ((mutex \<Rightarrow> mutex) \<Rightarrow> server \<Rightarrow> server) \<Rightarrow>
    (mutex \<Rightarrow> mutex outcome) \<Rightarrow> server \<Rightarrow> server outcome" where
  "with_lock sel upd op s = and_then (op (sel s)) (\<lambda>m. Ok (upd (\<lambda>_. m) s))"

abbreviation on_next_id :: "(mutex \<Rightarrow> mutex outcome) \<Rightarrow> server \<Rightarrow> server outcome" where
  "on_next_id \<equiv> with_lock next_session_id_lock next_session_id_lock_update"

abbreviation on_shutting_down :: "(mutex \<Rightarrow> mutex outcome) \<Rightarrow> server \<Rightarrow> server outcome" where
  "on_shutting_down \<equiv> with_lock shutting_down_lock shutting_down_lock_update"

definition on_session :: "nat \<Rightarrow> (mutex \<Rightarrow> mutex outcome) \<Rightarrow> server \<Rightarrow> server outcome" where
  "on_session i = with_lock (\<lambda>s. session_lock (sessions s i)) (\<lambda>f. put_session i (session_lock_update f))"

section \<open>The operations, server side\<close>

text \<open>Reading a field of a session's buffer.\<close>

definition field :: "nat \<Rightarrow> nat \<Rightarrow> nat \<Rightarrow> server \<Rightarrow> byte list outcome" where
  "field i off n s = buf_get off n (sess_buffer (sessions s i))"

definition case_mount :: "nat \<Rightarrow> server \<Rightarrow> server outcome" where
  "case_mount i s =
     and_then (field i 1 BUFFER_SIZE s) (\<lambda>arr.
     and_then (buf_str arr) (\<lambda>client_pipename.
     and_then (srv_call (Sys_open client_pipename O_WRONLY) s) (\<lambda>(a, s).
     if ans_ret a = -1 then and_then (send_failure i s) (\<lambda>s. Fault (Exit EXIT_FAILURE))
     else
       and_then (srv_write (ans_ret a) (int_bytes (sess_id (sessions s i))) s) (\<lambda>(r, s).
       if r = -1 then send_failure i s
       else Ok (put_session i (\<lambda>x. x\<lparr>sess_tx := ans_ret a, sess_pipename := Dead_local\<rparr>) s)))))"

text \<open>Using a pointer to a dead local variable is undefined; a null path name is refused by the call.\<close>

definition case_unmount :: "nat \<Rightarrow> server \<Rightarrow> server outcome" where
  "case_unmount i s =
     and_then (srv_write (sess_tx (sessions s i)) (int_bytes 0) s) (\<lambda>(r, s).
     if r = -1 then Ok s else
     and_then (srv_call (Sys_close (sess_tx (sessions s i))) s) (\<lambda>(a, s).
     if ans_ret a \<noteq> 0 then Ok s else
     (case sess_pipename (sessions s i) of Null_ptr \<Rightarrow> Ok s | Dead_local \<Rightarrow> Fault Undefined)))"

text \<open>Answering with a variable of the result's type.\<close>

definition answer_with :: "nat \<Rightarrow> byte list \<Rightarrow> server \<Rightarrow> (bool \<times> server) outcome" where
  "answer_with i bs s =
     and_then (srv_write (sess_tx (sessions s i)) bs s) (\<lambda>(r, s).
     if r = -1 then and_then (send_failure i s) (\<lambda>s. Ok (False, s)) else Ok (True, s))"

definition case_open :: "nat \<Rightarrow> server \<Rightarrow> server outcome" where
  "case_open i s =
     and_then (field i (1 + 4) 4 s) (\<lambda>flags.
     and_then (field i (1 + 2 * 4) BUFFER_SIZE s) (\<lambda>arr.
     and_then (buf_str arr) (\<lambda>filename.
     and_then (tfs_open (Some filename) (bytes_int flags) (srv_fs s)) (\<lambda>(call_ret, fs).
     and_then (answer_with i (int_bytes call_ret) (s\<lparr>srv_fs := fs\<rparr>)) (\<lambda>(_, s). Ok s)))))"

definition case_close :: "nat \<Rightarrow> server \<Rightarrow> server outcome" where
  "case_close i s =
     and_then (field i (1 + 4) 4 s) (\<lambda>fhandle.
     and_then (tfs_close (bytes_int fhandle) (srv_fs s)) (\<lambda>(ret, fs).
     and_then (answer_with i (int_bytes ret) (s\<lparr>srv_fs := fs\<rparr>)) (\<lambda>(_, s). Ok s)))"

text \<open>\<open>malloc\<close>: the answer 0 is the null pointer; then the process ends.\<close>

definition allocate :: "nat \<Rightarrow> nat \<Rightarrow> server \<Rightarrow> server outcome" where
  "allocate i n s =
     and_then (srv_call (Sys_malloc n) s) (\<lambda>(a, s).
     if ans_ret a = 0 then and_then (send_failure i s) (\<lambda>s. Fault (Exit EXIT_FAILURE)) else Ok s)"

definition ssize_bytes :: "int \<Rightarrow> byte list" where
  "ssize_bytes r = size_bytes (of_int r)"

definition case_write :: "nat \<Rightarrow> server \<Rightarrow> server outcome" where
  "case_write i s =
     and_then (field i (1 + 4) 4 s) (\<lambda>fhandle.
     and_then (field i (1 + 2 * 4) 8 s) (\<lambda>lenb.
     let len = bytes_size lenb in
     and_then (allocate i (unat len) s) (\<lambda>s.
     and_then (field i (1 + 2 * 4 + 8) (unat len) s) (\<lambda>buffer.
     and_then (tfs_write (bytes_int fhandle) buffer len (srv_fs s)) (\<lambda>(ret, fs).
     and_then (answer_with i (ssize_bytes ret) (s\<lparr>srv_fs := fs\<rparr>)) (\<lambda>(_, s). Ok s))))))"

text \<open>
  The bytes of the new buffer that \<open>tfs_read\<close> does not set are indeterminate; \<open>heap\<close> provides them.
  The second \<open>write\<close> takes its length from the result, -1 included.
\<close>

definition case_read :: "(nat \<Rightarrow> byte) \<Rightarrow> nat \<Rightarrow> server \<Rightarrow> server outcome" where
  "case_read heap i s =
     and_then (field i (1 + 4) 4 s) (\<lambda>fhandle.
     and_then (field i (1 + 2 * 4) 8 s) (\<lambda>lenb.
     let len = bytes_size lenb in
     and_then (allocate i (unat len) s) (\<lambda>s.
     and_then (tfs_read (bytes_int fhandle) len (srv_fs s)) (\<lambda>((ret, bytes), fs).
     let buffer = overlay bytes (map heap [0..<unat len]) in
     and_then (answer_with i (ssize_bytes ret) (s\<lparr>srv_fs := fs\<rparr>)) (\<lambda>(ok, s).
     if \<not> ok then Ok s else
     and_then (write_buffer (sess_tx (sessions s i)) buffer (of_int ret) (srv_sys s)) (\<lambda>(r, w).
     let s = s\<lparr>srv_sys := w\<rparr> in
     if r = -1 then send_failure i s else Ok s))))))"

text \<open>\<open>ws\<close> is what other threads do to the file system while this one waits for the last close.\<close>

definition case_shutdown :: "(fs_state \<Rightarrow> fs_state) list \<Rightarrow> nat \<Rightarrow> server \<Rightarrow> server outcome" where
  "case_shutdown ws i s =
     and_then (tfs_destroy_after_all_closed ws (srv_fs s)) (\<lambda>v. case v of
       None \<Rightarrow> Fault Blocked
     | Some (ret, fs) \<Rightarrow>
         let s = s\<lparr>srv_fs := fs\<rparr> in
         and_then (on_shutting_down lock_mutex s) (\<lambda>s.
         let s = s\<lparr>shutting_down := True\<rparr> in
         and_then (srv_write (sess_tx (sessions s i)) (int_bytes ret) s) (\<lambda>(r, s).
         if r = -1 then and_then (send_failure i s) (\<lambda>s. Fault (Exit EXIT_FAILURE))
         else and_then (on_shutting_down unlock_mutex s) (\<lambda>s. Fault (Exit 0)))))"

section \<open>Starting the sessions\<close>

text \<open>Condition variables and threads are created without fault; the locks' return codes are given.\<close>

primrec init_sessions :: "(nat \<Rightarrow> int) \<Rightarrow> nat \<Rightarrow> server \<Rightarrow> server outcome" where
  "init_sessions rc 0 s = Ok s"
| "init_sessions rc (Suc i) s =
     and_then (init_sessions rc i s) (\<lambda>s.
     let s = put_session i (\<lambda>x. x\<lparr>sess_id := int i + 1, is_active := False\<rparr>) s in
     on_session i (init_mutex (rc i)) s)"

definition start_sessions :: "int \<Rightarrow> int \<Rightarrow> (nat \<Rightarrow> int) \<Rightarrow> server \<Rightarrow> server outcome" where
  "start_sessions rc1 rc2 rc s =
     and_then (on_next_id (init_mutex rc1) s) (\<lambda>s.
     and_then (on_shutting_down (init_mutex rc2) s) (\<lambda>s.
     init_sessions rc MAX_CLIENTS s))"

section \<open>One iteration of a worker\<close>

text \<open>
  The result tells whether the thread goes on. Waiting for \<open>session_flag\<close> with nothing to do is
  \<open>Blocked\<close>.
\<close>

definition dispatch :: "(fs_state \<Rightarrow> fs_state) list \<Rightarrow> (nat \<Rightarrow> byte) \<Rightarrow> byte \<Rightarrow> nat \<Rightarrow> server \<Rightarrow> server outcome" where
  "dispatch ws heap op_code i s =
     (if op_code = TFS_OP_CODE_MOUNT then case_mount i s
      else if op_code = TFS_OP_CODE_UNMOUNT then case_unmount i s
      else if op_code = TFS_OP_CODE_OPEN then case_open i s
      else if op_code = TFS_OP_CODE_CLOSE then case_close i s
      else if op_code = TFS_OP_CODE_WRITE then case_write i s
      else if op_code = TFS_OP_CODE_READ then case_read heap i s
      else if op_code = TFS_OP_CODE_SHUTDOWN then case_shutdown ws i s
      else Ok s)"

definition thread_handler :: "(fs_state \<Rightarrow> fs_state) list \<Rightarrow> (nat \<Rightarrow> byte) \<Rightarrow> nat \<Rightarrow> server \<Rightarrow> (bool \<times> server) outcome" where
  "thread_handler ws heap i s =
     and_then (on_session i lock_mutex s) (\<lambda>s.
     if \<not> is_active (sessions s i) then Fault Blocked else
     and_then (on_shutting_down lock_mutex s) (\<lambda>s.
     let s = put_session i (is_active_update (\<lambda>_. True)) s in
     and_then (field i 0 1 s) (\<lambda>b.
     let op_code = hd b in
     if shutdown_called s \<and> op_code = TFS_OP_CODE_SHUTDOWN then
       and_then (send_failure i s) (\<lambda>s.
       and_then (on_shutting_down unlock_mutex s) (\<lambda>s.
       and_then (on_session i unlock_mutex s) (\<lambda>s. Ok (False, s))))
     else
       let s = (if op_code = TFS_OP_CODE_SHUTDOWN then s\<lparr>shutdown_called := True\<rparr> else s) in
       and_then (on_shutting_down unlock_mutex s) (\<lambda>s.
       and_then (dispatch ws heap op_code i s) (\<lambda>s.
       let s = put_session i (is_active_update (\<lambda>_. False)) s in
       and_then (buf_put 0 [0] (sess_buffer (sessions s i))) (\<lambda>b.
       let s = put_session i (sess_buffer_update (\<lambda>_. b)) s in
       and_then (on_session i unlock_mutex s) (\<lambda>s. Ok (True, s))))))))"

section \<open>The main thread\<close>

text \<open>The local variables that survive an iteration, and how an iteration ends.\<close>

record main_vars =
  m_op :: byte
  m_session_id :: int
  m_len :: size_t

datatype main_next = Continue main_vars | Return int

definition check_pipe_open :: "int \<Rightarrow> int \<Rightarrow> cstring \<Rightarrow> server \<Rightarrow> (bool \<times> server) outcome" where
  "check_pipe_open ret fd pipename s =
     (if ret = -1 then Ok (False, s)
      else if ret = 0 then
        and_then (srv_call (Sys_close fd) s) (\<lambda>(_, s).
        and_then (srv_call (Sys_open pipename O_RDONLY) s) (\<lambda>(a, s).
        if ans_ret a = -1 then Fault (Exit EXIT_FAILURE) else
        and_then (on_shutting_down lock_mutex s) (\<lambda>s.
        if shutting_down s then and_then (on_shutting_down unlock_mutex s) (\<lambda>s. Fault (Exit 0))
        else and_then (on_shutting_down unlock_mutex s) (\<lambda>s. Ok (False, s)))))
      else Ok (True, s))"

definition handle_too_many_clients :: "nat \<Rightarrow> server \<Rightarrow> server outcome" where
  "handle_too_many_clients i s =
     and_then (on_next_id unlock_mutex s) (\<lambda>s.
     and_then (field i 1 BUFFER_SIZE s) (\<lambda>arr.
     and_then (buf_str arr) (\<lambda>pipename.
     and_then (srv_call (Sys_open pipename 416) s) (\<lambda>(a, s).
     if ans_ret a = -1 then Ok s else
     and_then (srv_write (ans_ret a) (int_bytes failure_code) s) (\<lambda>(r, s).
     if r = -1 then Ok s else
     and_then (srv_call (Sys_close (ans_ret a)) s) (\<lambda>(_, s). Ok s))))))"

text \<open>\<open>&sessions[session_id - 1]\<close>, which is then locked: undefined outside the array.\<close>

definition session_at :: "int \<Rightarrow> nat outcome" where
  "session_at sid = (if 1 \<le> sid \<and> sid \<le> int MAX_CLIENTS then Ok (nat (sid - 1)) else Fault Undefined)"

text \<open>Storing bytes into a session's buffer; reading from the pipe into it.\<close>

definition buffer_put :: "nat \<Rightarrow> nat \<Rightarrow> byte list \<Rightarrow> server \<Rightarrow> server outcome" where
  "buffer_put i off bs s =
     and_then (buf_put off bs (sess_buffer (sessions s i))) (\<lambda>b.
     Ok (put_session i (sess_buffer_update (\<lambda>_. b)) s))"

definition buffer_read :: "int \<Rightarrow> nat \<Rightarrow> nat \<Rightarrow> size_t \<Rightarrow> server \<Rightarrow> (int \<times> server) outcome" where
  "buffer_read fd i off n s =
     and_then (read_buffer fd off n (sess_buffer (sessions s i)) (srv_sys s)) (\<lambda>((r, b), w).
     Ok (r, put_session i (sess_buffer_update (\<lambda>_. b)) (s\<lparr>srv_sys := w\<rparr>)))"

text \<open>The early exits of an iteration that hold the session's lock.\<close>

definition refuse :: "nat \<Rightarrow> main_vars \<Rightarrow> server \<Rightarrow> (main_next \<times> server) outcome" where
  "refuse i v s =
     and_then (send_failure i s) (\<lambda>s.
     and_then (on_session i unlock_mutex s) (\<lambda>s. Ok (Continue v, s)))"

text \<open>The end of an iteration: the worker is woken.\<close>

definition hand_over :: "nat \<Rightarrow> main_vars \<Rightarrow> server \<Rightarrow> (main_next \<times> server) outcome" where
  "hand_over i v s =
     (let s = put_session i (is_active_update (\<lambda>_. True)) s in
      and_then (on_session i unlock_mutex s) (\<lambda>s.
      and_then (on_shutting_down lock_mutex s) (\<lambda>s. Ok (Continue v, s))))"

definition receive_mount :: "int \<Rightarrow> main_vars \<Rightarrow> server \<Rightarrow> (main_next \<times> server) outcome" where
  "receive_mount fd v s =
     and_then (on_next_id lock_mutex s) (\<lambda>s.
     let sid = next_session_id s; s = s\<lparr>next_session_id := sid + 1\<rparr>; v = v\<lparr>m_session_id := sid\<rparr> in
     and_then (session_at sid) (\<lambda>i.
     and_then (on_session i lock_mutex s) (\<lambda>s.
     let s = put_session i (sess_id_update (\<lambda>_. sid)) s in
     and_then (buffer_put i 0 [m_op v] s) (\<lambda>s.
     if next_session_id s > 64 then
       and_then (handle_too_many_clients i s) (\<lambda>s.
       and_then (read_buffer fd 0 (of_nat MOUNT_SIZE_SERVER) (replicate MAX_REQUEST_SIZE 0) (srv_sys s)) (\<lambda>((r, _), w).
       let s = s\<lparr>srv_sys := w\<rparr> in
       and_then (if r = -1 then send_failure i s else Ok s) (\<lambda>s.
       and_then (on_session i unlock_mutex s) (\<lambda>s. Ok (Continue v, s)))))
     else
       and_then (buffer_read fd i 1 (of_nat MOUNT_SIZE_SERVER) s) (\<lambda>(r, s).
       if r = -1 then refuse i v s
       else and_then (on_next_id unlock_mutex s) (\<lambda>s. hand_over i v s))))))"

text \<open>A request whose remaining \<open>n\<close> bytes go to the buffer after the session number.\<close>

definition receive_rest :: "int \<Rightarrow> nat \<Rightarrow> nat \<Rightarrow> main_vars \<Rightarrow> server \<Rightarrow> (main_next \<times> server) outcome" where
  "receive_rest fd n i v s =
     and_then (buffer_read fd i (1 + 4) (of_nat n) s) (\<lambda>(r, s).
     if r = -1 then refuse i v s else hand_over i v s)"

definition receive_write :: "int \<Rightarrow> nat \<Rightarrow> main_vars \<Rightarrow> server \<Rightarrow> (main_next \<times> server) outcome" where
  "receive_write fd i v s =
     and_then (srv_call (Sys_read fd 4) s) (\<lambda>(a, s).
     if ans_ret a = -1 then refuse i v s else
     and_then (buffer_put i (1 + 4) (ans_data a) s) (\<lambda>s.
     and_then (srv_call (Sys_read fd 8) s) (\<lambda>(a, s).
     if ans_ret a = -1 then refuse i v s else
     let v = v\<lparr>m_len := bytes_size (overlay (ans_data a) (size_bytes (m_len v)))\<rparr> in
     and_then (buffer_put i (1 + 2 * 4) (size_bytes (m_len v)) s) (\<lambda>s.
     and_then (buffer_read fd i (1 + 2 * 4 + 8) (m_len v) s) (\<lambda>(r, s).
     if r = -1 then refuse i v s else hand_over i v s)))))"

definition receive_request :: "int \<Rightarrow> main_vars \<Rightarrow> server \<Rightarrow> (main_next \<times> server) outcome" where
  "receive_request fd v s =
     and_then (srv_call (Sys_read fd 4) s) (\<lambda>(a, s).
     if ans_ret a = -1 then Ok (Continue v, s) else
     let sid = bytes_int (overlay (ans_data a) (int_bytes (m_session_id v))); v = v\<lparr>m_session_id := sid\<rparr> in
     and_then (session_at sid) (\<lambda>i.
     and_then (on_session i lock_mutex s) (\<lambda>s.
     if sid < 1 \<or> sid > int MAX_CLIENTS then refuse i v s else
     and_then (buffer_put i 0 [m_op v] s) (\<lambda>s.
     and_then (buffer_put i 1 (int_bytes sid) s) (\<lambda>s.
     if m_op v = TFS_OP_CODE_OPEN then receive_rest fd OPEN_SIZE_SERVER i v s
     else if m_op v = TFS_OP_CODE_CLOSE then receive_rest fd CLOSE_SIZE_SERVER i v s
     else if m_op v = TFS_OP_CODE_WRITE then receive_write fd i v s
     else if m_op v = TFS_OP_CODE_READ then receive_rest fd READ_SIZE_SERVER i v s
     else if m_op v = TFS_OP_CODE_UNMOUNT \<or> m_op v = TFS_OP_CODE_SHUTDOWN then hand_over i v s
     else and_then (send_failure i s) (\<lambda>s. Ok (Return 2, s)))))))"

text \<open>
  One pass through the body of the \<open>do\<close> loop. Every \<open>continue\<close> goes to the loop's condition without
  locking \<open>shutting_down_lock\<close>, which the next pass unlocks.
\<close>

definition main_iteration :: "int \<Rightarrow> cstring \<Rightarrow> main_vars \<Rightarrow> server \<Rightarrow> (main_next \<times> server) outcome" where
  "main_iteration fd pipename v s =
     and_then (on_shutting_down unlock_mutex s) (\<lambda>s.
     and_then (srv_call (Sys_read fd 1) s) (\<lambda>(a, s).
     let v = (if ans_ret a = 1 then v\<lparr>m_op := hd (ans_data a)\<rparr> else v) in
     and_then (check_pipe_open (ans_ret a) fd pipename s) (\<lambda>(is_open, s).
     if \<not> is_open then Ok (Continue v, s)
     else if m_op v = TFS_OP_CODE_MOUNT then receive_mount fd v s
     else receive_request fd v s)))"

text \<open>
  The loop; before each pass the other threads do something to the server's state. An empty list: the
  loop is still running.
\<close>

fun main_loop :: "int \<Rightarrow> cstring \<Rightarrow> (server \<Rightarrow> server) list \<Rightarrow> main_vars \<Rightarrow> server \<Rightarrow> (int \<times> server) outcome" where
  "main_loop fd pipename [] v s = Fault Blocked"
| "main_loop fd pipename (e # es) v s =
     and_then (main_iteration fd pipename v (e s)) (\<lambda>(n, s). case n of
       Return r \<Rightarrow> Ok (r, s)
     | Continue v \<Rightarrow> if shutting_down s then Ok (0, s) else main_loop fd pipename es v s)"

text \<open>
  The program up to its loop: the descriptor of the server's pipe and the state in which the loop begins. The
  initialisations of the mutexes answer \<open>rc_main\<close> and, for the sessions, \<open>rc\<close>.
\<close>

definition server_start :: "cstring \<Rightarrow> (nat \<Rightarrow> int) \<Rightarrow> (nat \<Rightarrow> int) \<Rightarrow> server \<Rightarrow> (int \<times> server) outcome" where
  "server_start pipename rc_main rc s =
     and_then (tfs_init (rc_main 0) (rc_main 1) (srv_fs s)) (\<lambda>(_, fs).
     let s = s\<lparr>srv_fs := fs\<rparr> in
     and_then (srv_call (Sys_unlink pipename) s) (\<lambda>(a, s).
     if ans_ret a \<noteq> 0 \<and> errno (srv_sys s) \<noteq> ENOENT then Fault (Exit EXIT_FAILURE) else
     and_then (srv_call (Sys_mkfifo pipename 416) s) (\<lambda>(a, s).
     if ans_ret a \<noteq> 0 then Fault (Exit EXIT_FAILURE) else
     and_then (srv_call (Sys_open pipename O_RDONLY) s) (\<lambda>(a, s).
     if ans_ret a = -1 then Fault (Exit EXIT_FAILURE) else
     and_then (start_sessions (rc_main 2) (rc_main 3) rc s) (\<lambda>s.
     and_then (on_shutting_down lock_mutex s) (\<lambda>s. Ok (ans_ret a, s)))))))"

text \<open>The program; \<open>args\<close> are the arguments after the program's name.\<close>

definition server_main ::
  "cstring list \<Rightarrow> (nat \<Rightarrow> int) \<Rightarrow> (nat \<Rightarrow> int) \<Rightarrow> (server \<Rightarrow> server) list \<Rightarrow> main_vars \<Rightarrow> server \<Rightarrow> (int \<times> server) outcome" where
  "server_main args rc_main rc es v s =
     (case args of [] \<Rightarrow> Ok (1, s) | pipename # _ \<Rightarrow>
     and_then (server_start pipename rc_main rc s) (\<lambda>(fd, s). main_loop fd pipename es v s))"

end
