(* ===== verification/Requests.thy ===== *)
theory Requests
  imports Server
begin

text \<open>
  What a request looks like on the wire, and how the server's main thread and a session's worker take
  it in: the lemmas the properties of the protocol share.
\<close>

section \<open>Layout\<close>

lemma session_request_eq:
  "5 \<le> n \<Longrightarrow> session_request op_code sid n = Ok (op_code # int_bytes sid @ replicate (n - 5) 0)"
proof -
  assume n: "5 \<le> n"
  then obtain m where "n = Suc (4 + m)" by (metis add_Suc le_Suc_ex numeral_eq_Suc pred_numeral_simps(3))
  then show ?thesis by (simp add: session_request_def buf_put_def drop_replicate)
qed

definition open_bytes :: "int \<Rightarrow> cstring \<Rightarrow> int \<Rightarrow> byte list" where
  "open_bytes sid name flags =
     TFS_OP_CODE_OPEN # int_bytes sid @ int_bytes flags @ name @ replicate (BUFFER_SIZE - length name) 0"

lemma open_request_eq:
  "open_request sid name flags =
    (if length name \<le> BUFFER_SIZE then Ok (open_bytes sid name flags) else Fault Undefined)"
  by (simp add: open_request_def session_request_eq buf_put_def config open_bytes_def take_Cons' drop_Cons')

lemma close_request_eq:
  "close_request sid fhandle = Ok (TFS_OP_CODE_CLOSE # int_bytes sid @ int_bytes fhandle)"
  by (simp add: close_request_def session_request_eq buf_put_def config take_Cons' drop_Cons')

lemma read_request_eq:
  "read_request sid fhandle len = Ok (TFS_OP_CODE_READ # int_bytes sid @ int_bytes fhandle @ size_bytes len)"
  by (simp add: read_request_def session_request_eq buf_put_def config take_Cons' drop_Cons')

lemma write_request_eq:
  "write_request sid fhandle buffer len =
    (if unat len \<le> length buffer
     then Ok (TFS_OP_CODE_WRITE # int_bytes sid @ int_bytes fhandle @ size_bytes len @ take (unat len) buffer)
     else Fault Undefined)"
  by (simp add: write_request_def session_request_eq buf_put_def buf_get_def config take_Cons' drop_Cons')

section \<open>The main thread takes a request in\<close>

text \<open>A session whose worker is waiting, with its buffer at its full size.\<close>

definition idle :: "nat \<Rightarrow> server \<Rightarrow> bool" where
  "idle i s \<longleftrightarrow> i < MAX_CLIENTS \<and> session_lock (sessions s i) = Unlocked \<and>
     length (sess_buffer (sessions s i)) = MAX_REQUEST_SIZE"

text \<open>The request is in the buffer of session \<open>i\<close>, whose worker has been woken; nothing else happened.\<close>

definition received :: "nat \<Rightarrow> byte list \<Rightarrow> answer list \<Rightarrow> server \<Rightarrow> server \<Rightarrow> bool" where
  "received i req as s s' \<longleftrightarrow>
     sessions s' = (sessions s)(i := (sessions s i)\<lparr>is_active := True,
       sess_buffer := req @ drop (length req) (sess_buffer (sessions s i))\<rparr>) \<and>
     srv_fs s' = srv_fs s \<and> shutting_down_lock s' = Locked \<and> answers (srv_sys s') = as \<and>
     (\<forall>fd. sent fd (trace (srv_sys s')) = sent fd (trace (srv_sys s))) \<and>
     shutting_down s' = shutting_down s \<and> shutdown_called s' = shutdown_called s"

lemmas server_steps = srv_call_def srv_write_def with_lock_def on_session_def put_session_def
  buffer_put_def buffer_read_def Let_def

lemma srv_call_Cons:
  "answers (srv_sys s) = deliver c # as \<Longrightarrow>
    srv_call call s = Ok (deliver c, s\<lparr>srv_sys := (srv_sys s)\<lparr>answers := as, trace := trace (srv_sys s) @ [call]\<rparr>\<rparr>)"
  by (simp add: srv_call_def syscall_def deliver_def)

lemma hand_over_eq:
  assumes "session_lock (sessions s i) = Locked" and "shutting_down_lock s = Unlocked"
  shows "hand_over i v s = Ok (Continue v, s\<lparr>sessions := (sessions s)(i := (sessions s i)\<lparr>is_active := True,
    session_lock := Unlocked\<rparr>), shutting_down_lock := Locked\<rparr>)"
  using assms by (simp add: hand_over_def server_steps)

lemma receive_rest_eq:
  assumes "session_lock (sessions s i) = Locked" and "shutting_down_lock s = Unlocked"
    and "answers (srv_sys s) = map deliver cs @ as" and "\<forall>c \<in> set cs. c \<noteq> []" and "length (concat cs) = n"
    and "5 + n \<le> length (sess_buffer (sessions s i))" and "n < 18446744073709551616"
  shows "\<exists>w. receive_rest fd n i v s = Ok (Continue v, s\<lparr>srv_sys := w, sessions := (sessions s)(i := (sessions s i)\<lparr>
      sess_buffer := take 5 (sess_buffer (sessions s i)) @ concat cs @ drop (5 + n) (sess_buffer (sessions s i)),
      is_active := True, session_lock := Unlocked\<rparr>), shutting_down_lock := Locked\<rparr>) \<and>
    answers w = as \<and> (\<forall>fd. sent fd (trace w) = sent fd (trace (srv_sys s)))"
proof -
  have n: "unat (of_nat n :: size_t) = n" using assms(7) by (simp add: unat_of_nat)
  let ?buf = "sess_buffer (sessions s i)"
  obtain w where "read_buffer fd 5 (of_nat n) ?buf (srv_sys s) = Ok ((0, take 5 ?buf @ concat cs @ drop (5 + n) ?buf), w)"
    "answers w = as" "\<forall>fd. sent fd (trace w) = sent fd (trace (srv_sys s))"
    using read_buffer_delivers [OF assms(3,4), of "of_nat n" 5 ?buf fd] assms(5,6) by (auto simp: n)
  then show ?thesis
    using assms(1,2) by (intro exI [of _ w]) (simp add: receive_rest_def server_steps hand_over_eq)
qed

lemma main_receives:
  assumes "shutting_down_lock s = Locked" and "idle i s"
    and "answers (srv_sys s) = deliver [op_code] # deliver (int_bytes (int i + 1)) # map deliver cs @ as"
    and "\<forall>c \<in> set cs. c \<noteq> []" and "length (concat cs) = n"
    and "(op_code, n) \<in> {(TFS_OP_CODE_OPEN, OPEN_SIZE_SERVER), (TFS_OP_CODE_CLOSE, CLOSE_SIZE_SERVER),
      (TFS_OP_CODE_READ, READ_SIZE_SERVER)}"
  shows "\<exists>v' s'. main_iteration fd pipename v s = Ok (Continue v', s') \<and>
    received i (op_code # int_bytes (int i + 1) @ concat cs) as s s'"
proof -
  let ?sid = "int i + 1" and ?buf = "sess_buffer (sessions s i)"
  have i: "i < MAX_CLIENTS" "session_lock (sessions s i) = Unlocked" "length ?buf = 2048"
    using assms(2) by (auto simp: idle_def config)
  have sid: "int_ok ?sid" "session_at ?sid = Ok i" using i(1) by (auto simp: int_ok_def session_at_def config)
  let ?s1 = "s\<lparr>shutting_down_lock := Unlocked, srv_sys := (srv_sys s)\<lparr>answers := map deliver cs @ as,
      trace := trace (srv_sys s) @ [Sys_read fd 1, Sys_read fd 4]\<rparr>,
      sessions := (sessions s)(i := (sessions s i)\<lparr>session_lock := Locked,
        sess_buffer := op_code # int_bytes ?sid @ drop 5 ?buf\<rparr>)\<rparr>"
  let ?v = "v\<lparr>m_op := op_code, m_session_id := ?sid\<rparr>"
  have n: "n \<le> 44" using assms(6) by (auto simp: config)
  have op: "op_code \<noteq> TFS_OP_CODE_MOUNT" using assms(6) by (auto simp: op_codes)
  have rest: "main_iteration fd pipename v s = receive_rest fd n i ?v ?s1"
  proof -
    have "drop (Suc 0) (op_code # drop (Suc 0) ?buf) = drop (Suc 0) ?buf" by simp
    have b: "buf_put 0 [op_code] ?buf = Ok (op_code # drop 1 ?buf)"
      "buf_put 1 (int_bytes ?sid) (op_code # drop 1 ?buf) = Ok (op_code # int_bytes ?sid @ drop 5 ?buf)"
      using i(3) by (simp_all add: buf_put_def)
    show ?thesis
      using assms(1,3,6) i sid op b
      by (auto simp: main_iteration_def receive_request_def server_steps syscall_def deliver_def check_pipe_open_def
          bytes_int_bytes op_codes)
  qed
  have "session_lock (sessions ?s1 i) = Locked" "shutting_down_lock ?s1 = Unlocked"
    "answers (srv_sys ?s1) = map deliver cs @ as" "5 + n \<le> length (sess_buffer (sessions ?s1 i))"
    "n < 18446744073709551616"
    using i(3) n by auto
  from receive_rest_eq [OF this(1-3) assms(4,5) this(4,5)] obtain w where
    w: "receive_rest fd n i ?v ?s1 = Ok (Continue ?v, ?s1\<lparr>srv_sys := w, sessions := (sessions ?s1)(i := (sessions ?s1 i)\<lparr>
      sess_buffer := take 5 (sess_buffer (sessions ?s1 i)) @ concat cs @ drop (5 + n) (sess_buffer (sessions ?s1 i)),
      is_active := True, session_lock := Unlocked\<rparr>), shutting_down_lock := Locked\<rparr>)"
      (is "_ = Ok (_, ?s')")
    and "answers w = as" "\<forall>fd. sent fd (trace w) = sent fd (trace (srv_sys ?s1))" by blast
  moreover have tail: "drop (5 + n) (op_code # int_bytes ?sid @ drop 5 b) = drop (5 + n) b" for b
    unfolding add.commute [of 5 n] drop_drop [symmetric] by (simp add: drop_Cons')
  have "sessions ?s' = (sessions s)(i := (sessions s i)\<lparr>is_active := True,
      sess_buffer := op_code # int_bytes ?sid @ concat cs @ drop (5 + n) ?buf\<rparr>)"
    using i(2) by (cases "sessions s i") (simp add: tail)
  ultimately have "received i (op_code # int_bytes ?sid @ concat cs) as s ?s'"
    using assms(5) by (simp add: received_def)
  with w rest show ?thesis by auto
qed

section \<open>The worker carries a request out\<close>

text \<open>A session whose worker has a request, and its state while the request is carried out.\<close>

definition woken :: "nat \<Rightarrow> byte list \<Rightarrow> server \<Rightarrow> bool" where
  "woken i buf s \<longleftrightarrow> shutting_down_lock s = Unlocked \<and> session_lock (sessions s i) = Unlocked \<and>
     is_active (sessions s i) \<and> sess_buffer (sessions s i) = buf"

definition working :: "nat \<Rightarrow> server \<Rightarrow> server" where
  "working i s = s\<lparr>sessions := (sessions s)(i := (sessions s i)\<lparr>session_lock := Locked, is_active := True\<rparr>),
     shutting_down_lock := Unlocked\<rparr>"

text \<open>The worker waits again; its request was answered with \<open>bss\<close> and left the file system as \<open>fs\<close>.\<close>

definition answered :: "nat \<Rightarrow> byte list list \<Rightarrow> fs_state \<Rightarrow> answer list \<Rightarrow> server \<Rightarrow> server \<Rightarrow> bool" where
  "answered i bss fs as s s' \<longleftrightarrow> srv_fs s' = fs \<and> answers (srv_sys s') = as \<and>
     sent (sess_tx (sessions s i)) (trace (srv_sys s')) = sent (sess_tx (sessions s i)) (trace (srv_sys s)) @ bss \<and>
     session_lock (sessions s' i) = Unlocked \<and> \<not> is_active (sessions s' i) \<and>
     length (sess_buffer (sessions s' i)) = length (sess_buffer (sessions s i)) \<and> shutting_down_lock s' = Unlocked \<and>
     sess_tx (sessions s' i) = sess_tx (sessions s i) \<and> shutting_down s' = shutting_down s"

text \<open>What carrying out a request may change: the file system and the record of system calls.\<close>

lemma thread_handler_eq:
  assumes "woken i (op_code # rest) s" and "op_code \<noteq> TFS_OP_CODE_SHUTDOWN"
    and "dispatch ws heap op_code i (working i s) = Ok ((working i s)\<lparr>srv_fs := fs, srv_sys := w\<rparr>)"
    and "answers w = as"
    and "sent (sess_tx (sessions s i)) (trace w) = sent (sess_tx (sessions s i)) (trace (srv_sys s)) @ bss"
  shows "\<exists>s'. thread_handler ws heap i s = Ok (True, s') \<and> answered i bss fs as s s'"
  using assms
  by (simp add: thread_handler_def woken_def working_def server_steps field_def buf_get_def buf_put_def answered_def)

lemma field_working [simp]: "field i off n (working j s) = field i off n s"
  by (simp add: field_def working_def)

lemma working_sel [simp]: "srv_fs (working i s) = srv_fs s" "srv_sys (working i s) = srv_sys s"
  "sess_tx (sessions (working i s) j) = sess_tx (sessions s j)"
  by (simp_all add: working_def)

lemma answer_with_reply:
  "answers (srv_sys s) = reply k # as \<Longrightarrow> k \<noteq> -1 \<Longrightarrow> answer_with i bs s =
    Ok (True, s\<lparr>srv_sys := (srv_sys s)\<lparr>answers := as, trace := trace (srv_sys s) @ [Sys_write (sess_tx (sessions s i)) bs]\<rparr>\<rparr>)"
  by (simp add: answer_with_def srv_write_def srv_call_def syscall_def reply_def)

lemma field_at:
  assumes "sess_buffer (sessions s i) = pre @ bs @ rest" and "length pre = off" and "length bs = n"
  shows "field i off n s = Ok bs"
  using assms by (simp add: field_def buf_get_def)

text \<open>The four requests on files, each as the file system's operation and the answer.\<close>

lemma dispatch_open:
  assumes "woken i (open_bytes sid name flags @ rest) s" and "0 \<notin> set name" and "length name < BUFFER_SIZE"
    and "int_ok flags" and "tfs_open (Some name) flags (srv_fs s) = Ok (r, fs)"
  shows "dispatch ws heap TFS_OP_CODE_OPEN i (working i s) =
    and_then (answer_with i (int_bytes r) ((working i s)\<lparr>srv_fs := fs\<rparr>)) (\<lambda>(_, s). Ok s)"
proof -
  let ?arr = "name @ replicate (BUFFER_SIZE - length name) 0"
  have buf: "sess_buffer (sessions s i) = TFS_OP_CODE_OPEN # int_bytes sid @ int_bytes flags @ ?arr @ rest"
    using assms(1) by (simp add: woken_def open_bytes_def)
  have "field i 5 4 s = Ok (int_bytes flags)"
    using buf by (intro field_at [of s i "TFS_OP_CODE_OPEN # int_bytes sid" _ "?arr @ rest"]) simp_all
  moreover have "field i 9 BUFFER_SIZE s = Ok ?arr"
    using buf assms(3) by (intro field_at [of s i "TFS_OP_CODE_OPEN # int_bytes sid @ int_bytes flags" _ rest]) simp_all
  moreover have "buf_str ?arr = Ok name"
  proof -
    obtain m where "BUFFER_SIZE - length name = Suc m" using assms(3) by (metis Suc_diff_Suc)
    then show ?thesis using assms(2) by (simp add: buf_str_def c_str_id)
  qed
  ultimately show ?thesis using assms(4,5)
    by (simp add: dispatch_def op_codes case_open_def bytes_int_bytes)
qed

lemma dispatch_close:
  assumes "woken i (TFS_OP_CODE_CLOSE # int_bytes sid @ int_bytes fhandle @ rest) s" and "int_ok fhandle"
    and "tfs_close fhandle (srv_fs s) = Ok (r, fs)"
  shows "dispatch ws heap TFS_OP_CODE_CLOSE i (working i s) =
    and_then (answer_with i (int_bytes r) ((working i s)\<lparr>srv_fs := fs\<rparr>)) (\<lambda>(_, s). Ok s)"
proof -
  have "field i 5 4 s = Ok (int_bytes fhandle)"
    using assms(1) by (intro field_at [of s i "TFS_OP_CODE_CLOSE # int_bytes sid" _ rest]) (simp_all add: woken_def)
  then show ?thesis using assms(2,3) by (simp add: dispatch_def op_codes case_close_def bytes_int_bytes)
qed

lemma allocate_Ok: "allocate i n s = Ok t \<Longrightarrow> \<exists>w. t = s\<lparr>srv_sys := w\<rparr>"
  by (auto simp: allocate_def srv_call_def outcome_simps split: if_splits)

lemma allocate_cong:
  assumes "n = n'" and "s = s'" and "\<And>w. f (s'\<lparr>srv_sys := w\<rparr>) = g (s'\<lparr>srv_sys := w\<rparr>)"
  shows "and_then (allocate i n s) f = and_then (allocate i n' s') g"
  using assms by (auto intro!: and_then_cong dest!: allocate_Ok)

lemma field_srv_sys [simp]: "field i off n (s\<lparr>srv_sys := w\<rparr>) = field i off n s"
  by (simp add: field_def)

lemma dispatch_write:
  assumes "woken i (TFS_OP_CODE_WRITE # int_bytes sid @ int_bytes fhandle @ size_bytes len @ data @ rest) s"
    and "int_ok fhandle" and "length data = unat len" and "tfs_write fhandle data len (srv_fs s) = Ok (r, fs)"
  shows "dispatch ws heap TFS_OP_CODE_WRITE i (working i s) =
    and_then (allocate i (unat len) (working i s)) (\<lambda>t.
    and_then (answer_with i (ssize_bytes r) (t\<lparr>srv_fs := fs\<rparr>)) (\<lambda>(_, s). Ok s))"
proof -
  have buf: "sess_buffer (sessions s i) = TFS_OP_CODE_WRITE # int_bytes sid @ int_bytes fhandle @ size_bytes len @ data @ rest"
    using assms(1) by (simp add: woken_def)
  have "field i 5 4 s = Ok (int_bytes fhandle)"
    using buf by (intro field_at [of s i "TFS_OP_CODE_WRITE # int_bytes sid" _ "size_bytes len @ data @ rest"]) simp_all
  moreover have "field i 9 8 s = Ok (size_bytes len)"
    using buf by (intro field_at [of s i "TFS_OP_CODE_WRITE # int_bytes sid @ int_bytes fhandle" _ "data @ rest"]) simp_all
  moreover have "field i 17 (unat len) s = Ok data"
    using buf assms(3)
    by (intro field_at [of s i "TFS_OP_CODE_WRITE # int_bytes sid @ int_bytes fhandle @ size_bytes len" _ rest]) simp_all
  ultimately show ?thesis using assms(2-4)
    by (simp add: dispatch_def op_codes case_write_def bytes_int_bytes bytes_size_bytes Let_def cong: allocate_cong)
qed

lemma dispatch_read:
  assumes "woken i (TFS_OP_CODE_READ # int_bytes sid @ int_bytes fhandle @ size_bytes len @ rest) s" and "int_ok fhandle"
    and "tfs_read fhandle len (srv_fs s) = Ok ((r, bytes), fs)"
  shows "dispatch ws heap TFS_OP_CODE_READ i (working i s) =
    and_then (allocate i (unat len) (working i s)) (\<lambda>t.
    and_then (answer_with i (ssize_bytes r) (t\<lparr>srv_fs := fs\<rparr>)) (\<lambda>(ok, t).
    if \<not> ok then Ok t else
    and_then (write_buffer (sess_tx (sessions t i)) (overlay bytes (map heap [0..<unat len])) (of_int r) (srv_sys t)) (\<lambda>(n, w).
    let t = t\<lparr>srv_sys := w\<rparr> in if n = -1 then send_failure i t else Ok t)))"
proof -
  have buf: "sess_buffer (sessions s i) = TFS_OP_CODE_READ # int_bytes sid @ int_bytes fhandle @ size_bytes len @ rest"
    using assms(1) by (simp add: woken_def)
  have "field i 5 4 s = Ok (int_bytes fhandle)"
    using buf by (intro field_at [of s i "TFS_OP_CODE_READ # int_bytes sid" _ "size_bytes len @ rest"]) simp_all
  moreover have "field i 9 8 s = Ok (size_bytes len)"
    using buf by (intro field_at [of s i "TFS_OP_CODE_READ # int_bytes sid @ int_bytes fhandle" _ rest]) simp_all
  ultimately show ?thesis using assms(2,3)
    by (simp add: dispatch_def op_codes case_read_def bytes_int_bytes bytes_size_bytes Let_def
        cong: allocate_cong if_cong prod.case_cong)
qed

lemma allocate_reply:
  "answers (srv_sys s) = reply m # as \<Longrightarrow> m \<noteq> 0 \<Longrightarrow> m \<noteq> -1 \<Longrightarrow> allocate i n s =
    Ok (s\<lparr>srv_sys := (srv_sys s)\<lparr>answers := as, trace := trace (srv_sys s) @ [Sys_malloc n]\<rparr>\<rparr>)"
  by (simp add: allocate_def srv_call_def syscall_def reply_def)

lemma worker_open:
  assumes "woken i (open_bytes sid name flags @ rest) s" and "0 \<notin> set name" and "length name < BUFFER_SIZE"
    and "int_ok flags" and "tfs_open (Some name) flags (srv_fs s) = Ok (r, fs)"
    and "answers (srv_sys s) = reply k # as" and "k \<noteq> -1"
  shows "\<exists>s'. thread_handler ws heap i s = Ok (True, s') \<and> answered i [int_bytes r] fs as s s'"
proof -
  have d: "dispatch ws heap TFS_OP_CODE_OPEN i (working i s) = Ok ((working i s)\<lparr>srv_fs := fs, srv_sys := (srv_sys s)\<lparr>answers := as,
      trace := trace (srv_sys s) @ [Sys_write (sess_tx (sessions s i)) (int_bytes r)]\<rparr>\<rparr>)"
    using assms(6,7) by (simp add: dispatch_open [OF assms(1-5)] answer_with_reply [of _ k as])
  show ?thesis
    using assms(1) by (intro thread_handler_eq [OF _ _ d]) (auto simp: op_codes open_bytes_def)
qed

lemma worker_close:
  assumes "woken i (TFS_OP_CODE_CLOSE # int_bytes sid @ int_bytes fhandle @ rest) s" and "int_ok fhandle"
    and "tfs_close fhandle (srv_fs s) = Ok (r, fs)" and "answers (srv_sys s) = reply k # as" and "k \<noteq> -1"
  shows "\<exists>s'. thread_handler ws heap i s = Ok (True, s') \<and> answered i [int_bytes r] fs as s s'"
proof -
  have d: "dispatch ws heap TFS_OP_CODE_CLOSE i (working i s) = Ok ((working i s)\<lparr>srv_fs := fs, srv_sys := (srv_sys s)\<lparr>answers := as,
      trace := trace (srv_sys s) @ [Sys_write (sess_tx (sessions s i)) (int_bytes r)]\<rparr>\<rparr>)"
    using assms(4,5) by (simp add: dispatch_close [OF assms(1-3)] answer_with_reply [of _ k as])
  show ?thesis using assms(1) by (intro thread_handler_eq [OF _ _ d]) (auto simp: op_codes)
qed

lemma worker_write:
  assumes "woken i (TFS_OP_CODE_WRITE # int_bytes sid @ int_bytes fhandle @ size_bytes len @ data @ rest) s"
    and "int_ok fhandle" and "length data = unat len" and "tfs_write fhandle data len (srv_fs s) = Ok (r, fs)"
    and "answers (srv_sys s) = reply m # reply k # as" and "0 < m" and "k \<noteq> -1"
  shows "\<exists>s'. thread_handler ws heap i s = Ok (True, s') \<and> answered i [ssize_bytes r] fs as s s'"
proof -
  let ?w = "(srv_sys s)\<lparr>answers := as, trace := trace (srv_sys s) @
      [Sys_malloc (unat len), Sys_write (sess_tx (sessions s i)) (ssize_bytes r)]\<rparr>"
  have d: "dispatch ws heap TFS_OP_CODE_WRITE i (working i s) = Ok ((working i s)\<lparr>srv_fs := fs, srv_sys := ?w\<rparr>)"
    using assms(5-7)
    by (simp add: dispatch_write [OF assms(1-4)] allocate_reply [of _ m "reply k # as"] answer_with_reply [of _ k as])
  show ?thesis using assms(1) by (intro thread_handler_eq [OF _ _ d]) (auto simp: op_codes)
qed

lemma worker_read:
  assumes "woken i (TFS_OP_CODE_READ # int_bytes sid @ int_bytes fhandle @ size_bytes len @ rest) s" and "int_ok fhandle"
    and "tfs_read fhandle len (srv_fs s) = Ok ((int (length bytes), bytes), fs)" and "length bytes \<le> unat len"
    and "answers (srv_sys s) = reply m # reply k # map (\<lambda>j. reply (int j)) ks @ as" and "0 < m" and "k \<noteq> -1"
    and "\<forall>j \<in> set ks. 0 < j" and "sum_list ks = length bytes"
  shows "\<exists>s' bss. thread_handler ws heap i s = Ok (True, s') \<and>
    answered i (ssize_bytes (int (length bytes)) # bss) fs as s s' \<and>
    length bss = length ks \<and> concat (map2 take ks bss) = bytes"
proof -
  let ?tx = "sess_tx (sessions s i)" and ?buf = "overlay bytes (map heap [0..<unat len])"
  have "length bytes < 18446744073709551616" using assms(4) unat_size_less [of len] by linarith
  then have n: "unat (of_nat (length bytes) :: size_t) = length bytes" by (simp add: unat_of_nat)
  have b: "length ?buf = unat len" "take (length bytes) ?buf = bytes" using assms(4) by (auto simp: overlay_def)
  let ?w0 = "(srv_sys s)\<lparr>answers := map (\<lambda>j. reply (int j)) ks @ as, trace := trace (srv_sys s) @
      [Sys_malloc (unat len), Sys_write ?tx (ssize_bytes (int (length bytes)))]\<rparr>"
  obtain w bss where w: "write_loop ?tx ?buf (of_nat (length bytes)) 0 ?w0 = Ok (0, w)" "answers w = as"
    "sent ?tx (trace w) = sent ?tx (trace ?w0) @ bss" "length bss = length ks"
    "concat (map2 take ks (drop (length (sent ?tx (trace ?w0))) (sent ?tx (trace w)))) = take (sum_list ks) ?buf"
    using write_loop_accepts [of ?w0 ks as 0 "of_nat (length bytes)" ?buf ?tx] assms(4,8,9) b(1) by (auto simp: n)
  have d: "dispatch ws heap TFS_OP_CODE_READ i (working i s) = Ok ((working i s)\<lparr>srv_fs := fs, srv_sys := w\<rparr>)"
    using assms(5-7) w(1)
    by (simp add: dispatch_read [OF assms(1-3)] Let_def write_buffer_def
        allocate_reply [of _ m "reply k # map (\<lambda>j. reply (int j)) ks @ as"]
        answer_with_reply [of _ k "map (\<lambda>j. reply (int j)) ks @ as"])
  have "concat (map2 take ks bss) = bytes" using w(3,5) assms(9) b(2) by simp
  moreover have "\<exists>s'. thread_handler ws heap i s = Ok (True, s') \<and>
      answered i (ssize_bytes (int (length bytes)) # bss) fs as s s'"
    using assms(1) w(2,3) by (intro thread_handler_eq [OF _ _ d]) (auto simp: op_codes)
  ultimately show ?thesis using w(4) by blast
qed

section \<open>Write requests\<close>

text \<open>
  The main thread reads a write request in three pieces: the handle, the length, and then as many
  bytes as the length says.
\<close>

lemma main_receives_write:
  assumes "shutting_down_lock s = Locked" and "idle i s"
    and "answers (srv_sys s) = deliver [TFS_OP_CODE_WRITE] # deliver (int_bytes (int i + 1)) #
      deliver (int_bytes fhandle) # deliver (size_bytes len) # map deliver cs @ as"
    and "\<forall>c \<in> set cs. c \<noteq> []" and "length (concat cs) = unat len" and "17 + unat len \<le> MAX_REQUEST_SIZE"
  shows "\<exists>v' s'. main_iteration fd pipename v s = Ok (Continue v', s') \<and>
    received i (TFS_OP_CODE_WRITE # int_bytes (int i + 1) @ int_bytes fhandle @ size_bytes len @ concat cs) as s s'"
proof -
  let ?sid = "int i + 1" and ?buf = "sess_buffer (sessions s i)"
  let ?head = "TFS_OP_CODE_WRITE # int_bytes ?sid @ int_bytes fhandle @ size_bytes len"
  have i: "i < MAX_CLIENTS" "session_lock (sessions s i) = Unlocked" "length ?buf = 2048"
    using assms(2) by (auto simp: idle_def config)
  have sid: "int_ok ?sid" "session_at ?sid = Ok i" using i(1) by (auto simp: int_ok_def session_at_def config)
  have b: "buf_put 0 [TFS_OP_CODE_WRITE] ?buf = Ok (TFS_OP_CODE_WRITE # drop 1 ?buf)"
    "buf_put 1 (int_bytes ?sid) (TFS_OP_CODE_WRITE # drop 1 ?buf) = Ok (TFS_OP_CODE_WRITE # int_bytes ?sid @ drop 5 ?buf)"
    "buf_put 5 (int_bytes fhandle) (TFS_OP_CODE_WRITE # int_bytes ?sid @ drop 5 ?buf) =
      Ok (TFS_OP_CODE_WRITE # int_bytes ?sid @ int_bytes fhandle @ drop 9 ?buf)"
    "buf_put 9 (size_bytes len) (TFS_OP_CODE_WRITE # int_bytes ?sid @ int_bytes fhandle @ drop 9 ?buf) =
      Ok (?head @ drop 17 ?buf)"
    using i(3) by (simp_all add: buf_put_def take_Cons' drop_Cons')
  let ?w = "(srv_sys s)\<lparr>answers := map deliver cs @ as,
      trace := trace (srv_sys s) @ [Sys_read fd 1, Sys_read fd 4, Sys_read fd 4, Sys_read fd 8]\<rparr>"
  have "length (?head @ drop 17 ?buf) = 2048" using i(3) by simp
  then obtain w where w: "read_buffer fd 17 len (?head @ drop 17 ?buf) ?w =
      Ok ((0, take 17 (?head @ drop 17 ?buf) @ concat cs @ drop (17 + unat len) (?head @ drop 17 ?buf)), w)"
    and w': "answers w = as" "\<forall>fd. sent fd (trace w) = sent fd (trace ?w)"
    using read_buffer_delivers [of ?w cs as len 17 "?head @ drop 17 ?buf" fd] assms(4-6) by (auto simp: config)
  have split: "take 17 (?head @ drop 17 ?buf) = ?head" by (simp add: take_Cons')
  have tail: "drop (17 + n) (TFS_OP_CODE_WRITE # int_bytes ?sid @ int_bytes fhandle @ size_bytes len @ drop 17 b) =
      drop (17 + n) b" for n b
    unfolding add.commute [of 17 n] drop_drop [symmetric] by (simp add: drop_Cons')
  have r: "read_buffer fd 17 len (TFS_OP_CODE_WRITE # int_bytes ?sid @ int_bytes fhandle @ size_bytes len @ drop 17 ?buf) ?w =
      Ok ((0, TFS_OP_CODE_WRITE # int_bytes ?sid @ int_bytes fhandle @ size_bytes len @ concat cs @ drop (17 + unat len) ?buf), w)"
    using w unfolding split by (simp add: tail)
  let ?s' = "s\<lparr>shutting_down_lock := Locked, srv_sys := w, sessions := (sessions s)(i := (sessions s i)\<lparr>is_active := True,
      sess_buffer := TFS_OP_CODE_WRITE # int_bytes ?sid @ int_bytes fhandle @ size_bytes len @ concat cs @
        drop (17 + unat len) ?buf\<rparr>)\<rparr>"
  have "main_iteration fd pipename v s =
      Ok (Continue (v\<lparr>m_op := TFS_OP_CODE_WRITE, m_session_id := ?sid, m_len := len\<rparr>), ?s')"
    using assms(1,3) i sid b r
    by (cases "sessions s i") (simp add: main_iteration_def receive_request_def receive_write_def server_steps
        syscall_def deliver_def check_pipe_open_def bytes_int_bytes bytes_size_bytes op_codes hand_over_def)
  moreover have "received i (TFS_OP_CODE_WRITE # int_bytes ?sid @ int_bytes fhandle @ size_bytes len @ concat cs) as s ?s'"
    using w' assms(5) by (simp add: received_def)
  ultimately show ?thesis by blast
qed

end
