(* ===== verification/Protocol.thy ===== *)
theory Protocol
  imports Requests FS_Demo
begin

text \<open>
  The properties of the client/server protocol (\<open>parte-2/client\<close> and \<open>parte-2/fs/tfs_server.c\<close>): requests
  reach the file system with the arguments the client gave, answers come back, and what happens at the
  protocol's edges.
\<close>

section \<open>A concrete server\<close>

definition demo_server :: "fs_state \<Rightarrow> answer list \<Rightarrow> server" where
  "demo_server fs as = \<lparr>sessions = (\<lambda>i. \<lparr>sess_id = int i + 1, is_active = False, session_lock = Unlocked,
       sess_buffer = replicate MAX_REQUEST_SIZE 0, sess_tx = 4, sess_pipename = Null_ptr\<rparr>),
     next_session_id = 2, shutting_down = False, shutdown_called = False, next_session_id_lock = Unlocked,
     shutting_down_lock = Locked, srv_fs = fs, srv_sys = \<lparr>answers = as, errno = 0, trace = []\<rparr>\<rparr>"

definition demo_vars :: main_vars where
  "demo_vars = \<lparr>m_op = 0, m_session_id = 0, m_len = 0\<rparr>"

lemma demo_server_idle: "i < MAX_CLIENTS \<Longrightarrow> idle i (demo_server fs as)"
  by (simp add: idle_def demo_server_def)

lemma demo_server_sel [simp]: "shutting_down_lock (demo_server fs as) = Locked"
  "answers (srv_sys (demo_server fs as)) = as" "srv_fs (demo_server fs as) = fs"
  "sess_tx (sessions (demo_server fs as) i) = 4" "trace (srv_sys (demo_server fs as)) = []"
  by (simp_all add: demo_server_def)

text \<open>The answers that deliver a request in its first pieces and the rest at once.\<close>

definition delivery :: "byte list \<Rightarrow> answer list" where
  "delivery req = [deliver (take 1 req), deliver (take 4 (drop 1 req)), deliver (drop 5 req)]"

section \<open>From the client's request to the file system and back\<close>

lemma received_woken:
  assumes "received i req as s s1" and "idle i s"
  shows "woken i (req @ drop (length req) (sess_buffer (sessions s i))) (s1\<lparr>shutting_down_lock := Unlocked\<rparr>)"
  using assms by (simp add: received_def idle_def woken_def)

lemma received_answered:
  assumes "received i req as0 s s1" and "answered i bss fs as (s1\<lparr>shutting_down_lock := Unlocked\<rparr>) s2"
    and "length req \<le> length (sess_buffer (sessions s i))"
  shows "answered i bss fs as s s2"
  using assms by (simp add: received_def answered_def)

text \<open>
  C19: A \<open>tfs_open\<close> request, as the client builds it, arrives in any pieces; the server's main thread and
  then the session's worker run the file system's \<open>tfs_open\<close> on exactly that name and those flags, and
  the result, as four bytes, is all that is written to the client's pipe.
\<close>
theorem remote_open:
  assumes "open_request (int i + 1) name flags = Ok req" and "0 \<notin> set name" and "length name < BUFFER_SIZE"
    and "int_ok flags" and "shutting_down_lock s = Locked" and "idle i s"
    and "answers (srv_sys s) = deliver (take 1 req) # deliver (take 4 (drop 1 req)) # map deliver cs @ reply k # as"
    and "concat cs = drop 5 req" and "\<forall>c \<in> set cs. c \<noteq> []" and "k \<noteq> -1"
    and "tfs_open (Some name) flags (srv_fs s) = Ok (r, fs)"
  shows "\<exists>v' s1 s2. main_iteration fd pipename v s = Ok (Continue v', s1) \<and>
    thread_handler ws heap i (s1\<lparr>shutting_down_lock := Unlocked\<rparr>) = Ok (True, s2) \<and>
    answered i [int_bytes r] fs as s s2"
proof -
  have req: "req = open_bytes (int i + 1) name flags"
    using assms(1,3) by (simp add: open_request_eq)
  then have parts: "take 1 req = [TFS_OP_CODE_OPEN]" "take 4 (drop 1 req) = int_bytes (int i + 1)"
    "TFS_OP_CODE_OPEN # int_bytes (int i + 1) @ drop 5 req = req"
    and len: "length req = 49" "length (drop 5 req) = OPEN_SIZE_SERVER"
    using assms(3) by (simp_all add: open_bytes_def drop_Cons' config)
  obtain v' s1 where s1: "main_iteration fd pipename v s = Ok (Continue v', s1)" "received i req (reply k # as) s s1"
    using main_receives [OF assms(5,6), of TFS_OP_CODE_OPEN cs "reply k # as" OPEN_SIZE_SERVER fd pipename v] assms(7-9) parts len
    by (auto simp del: length_drop)
  have "woken i (open_bytes (int i + 1) name flags @ drop 49 (sess_buffer (sessions s i))) (s1\<lparr>shutting_down_lock := Unlocked\<rparr>)"
    using received_woken [OF s1(2) assms(6)] len(1) by (simp add: req)
  moreover have "answers (srv_sys (s1\<lparr>shutting_down_lock := Unlocked\<rparr>)) = reply k # as"
    "srv_fs (s1\<lparr>shutting_down_lock := Unlocked\<rparr>) = srv_fs s"
    using s1(2) by (simp_all add: received_def)
  ultimately obtain s2 where s2: "thread_handler ws heap i (s1\<lparr>shutting_down_lock := Unlocked\<rparr>) = Ok (True, s2)"
    "answered i [int_bytes r] fs as (s1\<lparr>shutting_down_lock := Unlocked\<rparr>) s2"
    using worker_open [OF _ assms(2-4)] assms(10,11) by metis
  have "answered i [int_bytes r] fs as s s2"
    using received_answered [OF s1(2) s2(2)] assms(6) len(1) by (simp add: idle_def config)
  with s1(1) s2(1) show ?thesis by blast
qed

theorem remote_open_witness:
  "\<exists>v' s1 s2 fs. main_iteration 3 [] demo_vars (demo_server (booted fs_static)
      (delivery (open_bytes 1 (0x2F # f1) TFS_O_CREAT) @ [reply 4])) = Ok (Continue v', s1) \<and>
    thread_handler [] (\<lambda>_. 0) 0 (s1\<lparr>shutting_down_lock := Unlocked\<rparr>) = Ok (True, s2) \<and>
    tfs_open (path f1) TFS_O_CREAT (booted fs_static) = Ok (0, fs) \<and> srv_fs s2 = fs \<and>
    sent 4 (trace (srv_sys s2)) = [int_bytes 0]"
proof -
  let ?req = "open_bytes 1 (0x2F # f1) TFS_O_CREAT"
  obtain fs where fs: "tfs_open (Some (0x2F # f1)) TFS_O_CREAT (booted fs_static) = Ok (0, fs)"
    using refine_tfs_open [OF ready_start(1) good_f1(1), of TFS_O_CREAT] ready_start(2)
    by (auto simp: eval_abs path_def)
  have "open_request (int 0 + 1) (0x2F # f1) TFS_O_CREAT = Ok ?req" "0 \<notin> set (0x2F # f1)"
    "length (0x2F # f1) < BUFFER_SIZE" "int_ok TFS_O_CREAT" "idle 0 (demo_server (booted fs_static) (delivery ?req @ [reply 4]))"
    "drop 5 ?req \<noteq> []"
    by (simp_all add: open_request_eq f1_def config int_ok_def demo_server_idle open_bytes_def)
  with remote_open [where i = 0 and cs = "[drop 5 ?req]" and req = ?req and k = 4 and as = "[]" and r = 0 and fs = fs
      and s = "demo_server (booted fs_static) (delivery ?req @ [reply 4])" and name = "0x2F # f1" and flags = TFS_O_CREAT
      and fd = 3 and pipename = "[]" and v = demo_vars and ws = "[]" and heap = "\<lambda>_. 0"] fs
  obtain v' s1 s2 where "main_iteration 3 [] demo_vars (demo_server (booted fs_static) (delivery ?req @ [reply 4])) = Ok (Continue v', s1)"
    "thread_handler [] (\<lambda>_. 0) 0 (s1\<lparr>shutting_down_lock := Unlocked\<rparr>) = Ok (True, s2)"
    "answered 0 [int_bytes 0] fs [] (demo_server (booted fs_static) (delivery ?req @ [reply 4])) s2"
    by (auto simp: delivery_def)
  with fs show ?thesis by (auto simp: answered_def path_def)
qed

text \<open>
  A \<open>tfs_write\<close> request of at most 2031 bytes arrives in any pieces; the worker runs the file system's
  \<open>tfs_write\<close> on the same handle, bytes and length, and answers with its result as eight bytes.
\<close>
theorem remote_write:
  assumes "write_request (int i + 1) fhandle buffer len = Ok req" and "int_ok fhandle"
    and "17 + unat len \<le> MAX_REQUEST_SIZE" and "shutting_down_lock s = Locked" and "idle i s"
    and "answers (srv_sys s) = deliver (take 1 req) # deliver (take 4 (drop 1 req)) # deliver (take 4 (drop 5 req)) #
      deliver (take 8 (drop 9 req)) # map deliver cs @ reply m # reply k # as"
    and "concat cs = drop 17 req" and "\<forall>c \<in> set cs. c \<noteq> []" and "0 < m" and "k \<noteq> -1"
    and "tfs_write fhandle (take (unat len) buffer) len (srv_fs s) = Ok (r, fs)"
  shows "\<exists>v' s1 s2. main_iteration fd pipename v s = Ok (Continue v', s1) \<and>
    thread_handler ws heap i (s1\<lparr>shutting_down_lock := Unlocked\<rparr>) = Ok (True, s2) \<and>
    answered i [ssize_bytes r] fs as s s2"
proof -
  let ?data = "take (unat len) buffer"
  have req: "req = TFS_OP_CODE_WRITE # int_bytes (int i + 1) @ int_bytes fhandle @ size_bytes len @ ?data"
    and len: "length ?data = unat len"
    using assms(1) by (auto simp: write_request_eq split: if_splits)
  then have parts: "take 1 req = [TFS_OP_CODE_WRITE]" "take 4 (drop 1 req) = int_bytes (int i + 1)"
    "take 4 (drop 5 req) = int_bytes fhandle" "take 8 (drop 9 req) = size_bytes len" "drop 17 req = ?data"
    by (simp_all add: drop_Cons')
  obtain v' s1 where s1: "main_iteration fd pipename v s = Ok (Continue v', s1)"
    "received i req (reply m # reply k # as) s s1"
    using main_receives_write [OF assms(4,5), of fhandle len cs "reply m # reply k # as" fd pipename v] assms(3,6-8) parts len
    unfolding req by auto
  have "woken i (TFS_OP_CODE_WRITE # int_bytes (int i + 1) @ int_bytes fhandle @ size_bytes len @ ?data @
      drop (length req) (sess_buffer (sessions s i))) (s1\<lparr>shutting_down_lock := Unlocked\<rparr>)"
    using received_woken [OF s1(2) assms(5)] by (simp add: req)
  moreover have "answers (srv_sys (s1\<lparr>shutting_down_lock := Unlocked\<rparr>)) = reply m # reply k # as"
    "srv_fs (s1\<lparr>shutting_down_lock := Unlocked\<rparr>) = srv_fs s"
    using s1(2) by (simp_all add: received_def)
  ultimately obtain s2 where s2: "thread_handler ws heap i (s1\<lparr>shutting_down_lock := Unlocked\<rparr>) = Ok (True, s2)"
    "answered i [ssize_bytes r] fs as (s1\<lparr>shutting_down_lock := Unlocked\<rparr>) s2"
    using worker_write [OF _ assms(2) len] assms(9-11) by metis
  have "length req = 17 + unat len" using len by (simp add: req)
  then have "answered i [ssize_bytes r] fs as s s2"
    using received_answered [OF s1(2) s2(2)] assms(3,5) by (simp add: idle_def)
  with s1(1) s2(1) show ?thesis by blast
qed

theorem remote_write_witness:
  "\<exists>req v' s1 s2. write_request 1 0 [4, 5] 2 = Ok req \<and>
    main_iteration 3 [] demo_vars (demo_server demo_written ([deliver (take 1 req), deliver (take 4 (drop 1 req)),
      deliver (take 4 (drop 5 req)), deliver (take 8 (drop 9 req)), deliver [4], deliver [5], reply 1, reply 8])) =
      Ok (Continue v', s1) \<and>
    thread_handler [] (\<lambda>_. 0) 0 (s1\<lparr>shutting_down_lock := Unlocked\<rparr>) = Ok (True, s2) \<and>
    sent 4 (trace (srv_sys s2)) = [ssize_bytes 2]"
proof -
  let ?req = "TFS_OP_CODE_WRITE # int_bytes 1 @ int_bytes 0 @ size_bytes 2 @ [4, 5]"
  let ?as = "[deliver (take 1 ?req), deliver (take 4 (drop 1 ?req)), deliver (take 4 (drop 5 ?req)),
      deliver (take 8 (drop 9 ?req)), deliver [4], deliver [5], reply 1, reply 8]"
  have req: "write_request (int 0 + 1) 0 [4, 5] 2 = Ok ?req" by (simp add: write_request_eq)
  obtain fs where fs: "tfs_write 0 [4, 5] 2 demo_written = Ok (2, fs)"
    using refine_tfs_write [OF demo_written(1), of 0 1 3 2 "[4, 5]"] demo_written(2)
    by (auto simp: abs_fs_def eval_abs)
  have *: "int_ok 0" "17 + unat (2 :: size_t) \<le> MAX_REQUEST_SIZE" "idle 0 (demo_server demo_written ?as)"
    "concat [[4], [5]] = drop 17 ?req"
    by (simp_all add: int_ok_def config demo_server_idle drop_Cons')
  from remote_write [where cs = "[[4], [5]]" and s = "demo_server demo_written ?as" and m = 1 and k = 8 and as = "[]"
      and r = 2 and fs = fs and fd = 3 and pipename = "[]" and v = demo_vars and ws = "[]" and heap = "\<lambda>_. 0", OF req *(1,2) _ *(3)]
  obtain v' s1 s2 where "main_iteration 3 [] demo_vars (demo_server demo_written ?as) = Ok (Continue v', s1)"
    "thread_handler [] (\<lambda>_. 0) 0 (s1\<lparr>shutting_down_lock := Unlocked\<rparr>) = Ok (True, s2)"
    "answered 0 [ssize_bytes 2] fs [] (demo_server demo_written ?as) s2"
    using *(4) fs by auto
  with req show ?thesis by (intro exI [of _ ?req]) (auto simp: answered_def)
qed

text \<open>
  C24: A \<open>tfs_read\<close> request is carried out by the file system's \<open>tfs_read\<close> on the same handle and length;
  the client's pipe receives the number of bytes read and then, in whatever pieces the pipe accepts,
  exactly those bytes.
\<close>
theorem remote_read:
  assumes "read_request (int i + 1) fhandle len = Ok req" and "int_ok fhandle"
    and "shutting_down_lock s = Locked" and "idle i s"
    and "answers (srv_sys s) = deliver (take 1 req) # deliver (take 4 (drop 1 req)) # map deliver cs @
      reply m # reply k # map (\<lambda>j. reply (int j)) ks @ as"
    and "concat cs = drop 5 req" and "\<forall>c \<in> set cs. c \<noteq> []" and "0 < m" and "k \<noteq> -1"
    and "tfs_read fhandle len (srv_fs s) = Ok ((int (length bytes), bytes), fs)" and "length bytes \<le> unat len"
    and "\<forall>j \<in> set ks. 0 < j" and "sum_list ks = length bytes"
  shows "\<exists>v' s1 s2 bss. main_iteration fd pipename v s = Ok (Continue v', s1) \<and>
    thread_handler ws heap i (s1\<lparr>shutting_down_lock := Unlocked\<rparr>) = Ok (True, s2) \<and>
    answered i (ssize_bytes (int (length bytes)) # bss) fs as s s2 \<and>
    length bss = length ks \<and> concat (map2 take ks bss) = bytes"
proof -
  have req: "req = TFS_OP_CODE_READ # int_bytes (int i + 1) @ int_bytes fhandle @ size_bytes len"
    using assms(1) by (simp add: read_request_eq)
  then have parts: "take 1 req = [TFS_OP_CODE_READ]" "take 4 (drop 1 req) = int_bytes (int i + 1)"
    "TFS_OP_CODE_READ # int_bytes (int i + 1) @ drop 5 req = req"
    and len: "length req = 17" "length (drop 5 req) = READ_SIZE_SERVER"
    by (simp_all add: drop_Cons' config)
  let ?as = "reply m # reply k # map (\<lambda>j. reply (int j)) ks @ as"
  obtain v' s1 where s1: "main_iteration fd pipename v s = Ok (Continue v', s1)" "received i req ?as s s1"
    using main_receives [OF assms(3,4), of TFS_OP_CODE_READ cs ?as READ_SIZE_SERVER fd pipename v] assms(5-7) parts len
    by (auto simp del: length_drop)
  have "woken i (TFS_OP_CODE_READ # int_bytes (int i + 1) @ int_bytes fhandle @ size_bytes len @
      drop 17 (sess_buffer (sessions s i))) (s1\<lparr>shutting_down_lock := Unlocked\<rparr>)"
    using received_woken [OF s1(2) assms(4)] len(1) by (simp add: req)
  moreover have "answers (srv_sys (s1\<lparr>shutting_down_lock := Unlocked\<rparr>)) = ?as"
    "srv_fs (s1\<lparr>shutting_down_lock := Unlocked\<rparr>) = srv_fs s"
    using s1(2) by (simp_all add: received_def)
  ultimately obtain s2 bss where s2: "thread_handler ws heap i (s1\<lparr>shutting_down_lock := Unlocked\<rparr>) = Ok (True, s2)"
    "answered i (ssize_bytes (int (length bytes)) # bss) fs as (s1\<lparr>shutting_down_lock := Unlocked\<rparr>) s2"
    and c: "length bss = length ks" "concat (map2 take ks bss) = bytes"
    using worker_read [OF _ assms(2), of i "int i + 1" len "drop 17 (sess_buffer (sessions s i))"
        "s1\<lparr>shutting_down_lock := Unlocked\<rparr>" bytes fs m k ks as ws heap] assms(8-13) by auto
  have "answered i (ssize_bytes (int (length bytes)) # bss) fs as s s2"
    using received_answered [OF s1(2) s2(2)] assms(4) len(1) by (simp add: idle_def config)
  with s1(1) s2(1) c show ?thesis by blast
qed

text \<open>A file of three bytes, open a second time; the client's pipe takes them in two pieces.\<close>

theorem remote_read_witness:
  "\<exists>fs0 req v' s1 s2 bss. read_request 1 1 10 = Ok req \<and>
    main_iteration 3 [] demo_vars (demo_server fs0 (delivery req @ [reply 1, reply 8, reply 2, reply 1])) = Ok (Continue v', s1) \<and>
    thread_handler [] (\<lambda>_. 0) 0 (s1\<lparr>shutting_down_lock := Unlocked\<rparr>) = Ok (True, s2) \<and>
    sent 4 (trace (srv_sys s2)) = ssize_bytes 3 # bss \<and> concat (map2 take [2, 1] bss) = [7, 8, 9]"
proof -
  let ?xs = "[Op_open f1 1, Op_write 0 [7, 8, 9], Op_open f1 0]" and ?fs = "run_state [Op_open f1 1, Op_write 0 [7, 8, 9], Op_open f1 0]"
  let ?req = "TFS_OP_CODE_READ # int_bytes 1 @ int_bytes 1 @ size_bytes 10"
  let ?s = "demo_server ?fs (delivery ?req @ [reply 1, reply 8, reply 2, reply 1])"
  have req: "read_request (int 0 + 1) 1 10 = Ok ?req" by (simp add: read_request_eq)
  have "all_allowed a_step allowed ?xs empty_fs" by (simp add: eval_abs)
  note fs0 = ready_run_state [OF this]
  have "snd (run_abs a_step ?xs empty_fs) =
      \<lparr>a_dir = [f1 \<mapsto> 1], a_files = [1 \<mapsto> [7, 8, 9]], a_open = [0 \<mapsto> (1, 3), 1 \<mapsto> (1, 0)]\<rparr>" by (simp add: eval_abs)
  then have abs: "abs_fs ?fs = \<lparr>a_dir = [f1 \<mapsto> 1], a_files = [1 \<mapsto> [7, 8, 9]], a_open = [0 \<mapsto> (1, 3), 1 \<mapsto> (1, 0)]\<rparr>"
    using fs0(2) by simp
  obtain fs where fs: "tfs_read 1 10 ?fs = Ok ((int (length [7, 8, 9 :: byte]), [7, 8, 9]), fs)"
    using refine_tfs_read [OF fs0(1), of 1 1 0 10] abs by (auto simp: abs_fs_def eval_abs)
  have "length (drop 5 ?req) = 12" by simp
  then have "drop 5 ?req \<noteq> []" by (metis list.size(3) zero_neq_numeral)
  moreover have "int_ok 1" "idle 0 ?s" by (simp_all add: int_ok_def config demo_server_idle)
  ultimately have *: "int_ok 1" "idle 0 ?s" "drop 5 ?req \<noteq> []" by blast+
  from remote_read [where cs = "[drop 5 ?req]" and s = ?s and m = 1 and k = 8 and as = "[]" and bytes = "[7, 8, 9]"
      and ks = "[2, 1]" and fs = fs and fd = 3 and pipename = "[]" and v = demo_vars and ws = "[]" and heap = "\<lambda>_. 0", OF req *(1) _ *(2)]
  obtain v' s1 s2 bss where "main_iteration 3 [] demo_vars ?s = Ok (Continue v', s1)"
    "thread_handler [] (\<lambda>_. 0) 0 (s1\<lparr>shutting_down_lock := Unlocked\<rparr>) = Ok (True, s2)"
    "answered 0 (ssize_bytes 3 # bss) fs [] ?s s2" "concat (map2 take [2, 1] bss) = [7, 8, 9]"
    using *(3) fs by (auto simp: delivery_def)
  with req show ?thesis by (intro exI [of _ ?fs] exI [of _ ?req]) (auto simp: answered_def)
qed

end
