(* ===== verification/Protocol_Edges.thy ===== *)
theory Protocol_Edges
  imports Protocol
begin

text \<open>
  The client's side of a call, and the edges of the protocol: what both sides do with errors, ends of
  pipes, too many clients and arguments that are too long.
\<close>

section \<open>The client's side\<close>

lemma client_send:
  assumes "answers (c_sys c) = map (\<lambda>k. reply (int k)) ks @ as" and "\<forall>k \<in> set ks. 0 < k"
    and "sum_list ks = length req" and "length req < 18446744073709551616"
  shows "\<exists>w bss. send_request req c = Ok (errno (c_sys c) \<noteq> EPIPE, c\<lparr>c_sys := w\<rparr>) \<and> answers w = as \<and>
    errno w = errno (c_sys c) \<and> sent (tx c) (trace w) = sent (tx c) (trace (c_sys c)) @ bss \<and>
    length bss = length ks \<and> concat (map2 take ks bss) = req"
proof -
  have n: "unat (of_nat (length req) :: size_t) = length req" using assms(4) by (simp add: unat_of_nat)
  obtain w bss where "write_loop (tx c) req (of_nat (length req)) 0 (c_sys c) = Ok (0, w)" "answers w = as"
    "errno w = errno (c_sys c)" "sent (tx c) (trace w) = sent (tx c) (trace (c_sys c)) @ bss" "length bss = length ks"
    "concat (map2 take ks (drop (length (sent (tx c) (trace (c_sys c)))) (sent (tx c) (trace w)))) = req"
    using write_loop_accepts [OF assms(1,2), of 0 "of_nat (length req)" req "tx c"] assms(3) by (auto simp: n)
  then show ?thesis
    by (intro exI [of _ w] exI [of _ bss]) (simp add: send_request_def client_write_buffer_def)
qed

text \<open>
  \<open>tfs_open\<close> on the client sends exactly the open request of its session, in whatever pieces the pipe
  accepts, and returns the integer the server answers.
\<close>
theorem client_open_returns:
  assumes "answers (c_sys c) = map (\<lambda>k. reply (int k)) ks @ deliver (int_bytes r) # as" and "\<forall>k \<in> set ks. 0 < k"
    and "sum_list ks = OPEN_SIZE_API" and "length name \<le> BUFFER_SIZE" and "errno (c_sys c) \<noteq> EPIPE"
    and "int_ok r" and "length junk = 4"
  shows "\<exists>c' bss. client_open name flags junk c = Ok (r, c') \<and> answers (c_sys c') = as \<and>
    sent (tx c) (trace (c_sys c')) = sent (tx c) (trace (c_sys c)) @ bss \<and>
    concat (map2 take ks bss) = open_bytes (session_id c) name flags"
proof -
  let ?req = "open_bytes (session_id c) name flags"
  have len: "length ?req = OPEN_SIZE_API" using assms(4) by (simp add: open_bytes_def config)
  obtain w bss where w: "send_request ?req c = Ok (True, c\<lparr>c_sys := w\<rparr>)" "answers w = deliver (int_bytes r) # as"
    "errno w = errno (c_sys c)" "sent (tx c) (trace w) = sent (tx c) (trace (c_sys c)) @ bss"
    "concat (map2 take ks bss) = ?req"
    using client_send [OF assms(1,2), of ?req] assms(3,5) len by (auto simp: config)
  let ?c = "c\<lparr>c_sys := w\<lparr>answers := as, trace := trace w @ [Sys_read (rx c) 4]\<rparr>\<rparr>"
  have "receive junk (c\<lparr>c_sys := w\<rparr>) = Ok (Some (int_bytes r), ?c)"
    using w(2,3) assms(5,7) by (simp add: receive_def do_call_def syscall_def deliver_def)
  then have "client_open name flags junk c = Ok (r, ?c)"
    using w(1) assms(4,6) by (simp add: client_open_def client_rpc_def open_request_eq bytes_int_bytes)
  with w(4,5) show ?thesis by (intro exI [of _ ?c] exI [of _ bss]) simp
qed

definition demo_client :: "int \<Rightarrow> answer list \<Rightarrow> client" where
  "demo_client e as = \<lparr>rx = 3, tx = 4, session_id = 1, c_sys = \<lparr>answers = as, errno = e, trace = []\<rparr>\<rparr>"

lemma demo_client_sel [simp]: "answers (c_sys (demo_client e as)) = as" "errno (c_sys (demo_client e as)) = e"
  "session_id (demo_client e as) = 1" "tx (demo_client e as) = 4" "rx (demo_client e as) = 3" "trace (c_sys (demo_client e as)) = []"
  by (simp_all add: demo_client_def)

theorem client_open_returns_witness:
  "\<exists>c'. client_open (0x2F # f1) 1 [9, 9, 9, 9] (demo_client 0 [reply 20, reply 29, deliver (int_bytes 7)]) = Ok (7, c')"
proof -
  have "errno (c_sys (demo_client 0 as)) \<noteq> EPIPE" for as by (simp add: EPIPE_def)
  with client_open_returns [of "demo_client 0 [reply 20, reply 29, deliver (int_bytes 7)]" "[20, 29]" 7 "[]" "0x2F # f1" "[9, 9, 9, 9]" 1]
  show ?thesis by (auto simp: config int_ok_def f1_def)
qed

text \<open>
  Once \<open>errno\<close> is EPIPE it stays so through successful calls, and the client checks it after every
  success: a close whose request was sent in full returns -1 without reading the server's answer.
\<close>
theorem client_close_after_epipe:
  assumes "answers (c_sys c) = map (\<lambda>k. reply (int k)) ks @ as" and "\<forall>k \<in> set ks. 0 < k"
    and "sum_list ks = CLOSE_SIZE_API" and "errno (c_sys c) = EPIPE"
  shows "\<exists>c' bss. client_close fhandle junk c = Ok (-1, c') \<and> answers (c_sys c') = as \<and>
    sent (tx c) (trace (c_sys c')) = sent (tx c) (trace (c_sys c)) @ bss \<and>
    concat (map2 take ks bss) = TFS_OP_CODE_CLOSE # int_bytes (session_id c) @ int_bytes fhandle"
proof -
  let ?req = "TFS_OP_CODE_CLOSE # int_bytes (session_id c) @ int_bytes fhandle"
  obtain w bss where "send_request ?req c = Ok (False, c\<lparr>c_sys := w\<rparr>)" "answers w = as"
    "sent (tx c) (trace w) = sent (tx c) (trace (c_sys c)) @ bss" "concat (map2 take ks bss) = ?req"
    using client_send [OF assms(1,2), of ?req] assms(3,4) by (auto simp: config)
  then show ?thesis
    by (intro exI [of _ "c\<lparr>c_sys := w\<rparr>"] exI [of _ bss]) (simp add: client_close_def client_rpc_def close_request_eq)
qed

theorem client_close_after_epipe_witness:
  "\<exists>c'. client_close 0 [0, 0, 0, 0] (demo_client EPIPE [reply 9, deliver (int_bytes 0)]) = Ok (-1, c') \<and>
    answers (c_sys c') = [deliver (int_bytes 0)]"
  using client_close_after_epipe [of "demo_client EPIPE [reply 9, deliver (int_bytes 0)]" "[9]" "[deliver (int_bytes 0)]" 0 "[0, 0, 0, 0]"]
  by (auto simp: config)

section \<open>The server's side\<close>

text \<open>
  Starting the sessions, when every lock can be initialised, numbers the 64 sessions from 1, leaves
  each waiting with its lock free, and touches no buffer.
\<close>
theorem sessions_started:
  "\<exists>s'. start_sessions 0 0 (\<lambda>_. 0) s = Ok s' \<and> next_session_id_lock s' = Unlocked \<and> shutting_down_lock s' = Unlocked \<and>
    (\<forall>i<MAX_CLIENTS. sess_id (sessions s' i) = int i + 1 \<and> \<not> is_active (sessions s' i) \<and>
      session_lock (sessions s' i) = Unlocked \<and> sess_buffer (sessions s' i) = sess_buffer (sessions s i))"
proof -
  have "\<exists>s'. init_sessions (\<lambda>_. 0) n s = Ok s' \<and> next_session_id_lock s' = next_session_id_lock s \<and>
      shutting_down_lock s' = shutting_down_lock s \<and> (\<forall>i. sess_buffer (sessions s' i) = sess_buffer (sessions s i)) \<and>
      (\<forall>i<n. sess_id (sessions s' i) = int i + 1 \<and> \<not> is_active (sessions s' i) \<and> session_lock (sessions s' i) = Unlocked)"
    for n s
  proof (induction n)
    case (Suc n)
    then show ?case by (auto simp: server_steps less_Suc_eq)
  qed simp
  from this [of MAX_CLIENTS "s\<lparr>next_session_id_lock := Unlocked, shutting_down_lock := Unlocked\<rparr>"] show ?thesis
    by (auto simp: start_sessions_def with_lock_def)
qed

theorem sessions_started_witness:
  "\<exists>s'. start_sessions 0 0 (\<lambda>_. 0) (demo_server fs_static []) = Ok s' \<and>
    sess_id (sessions s' 63) = 64 \<and> length (sess_buffer (sessions s' 63)) = MAX_REQUEST_SIZE"
proof -
  have "(63 :: nat) < MAX_CLIENTS" "length (sess_buffer (sessions (demo_server fs_static []) 63)) = MAX_REQUEST_SIZE"
    by (simp_all add: MAX_CLIENTS_def demo_server_def)
  with sessions_started [of "demo_server fs_static []"] show ?thesis by force
qed

text \<open>
  C29: When all clients have closed the server's pipe (a read of 0 bytes), the main loop reopens it and
  \<open>continue\<close>s past the lock of \<open>shutting_down_lock\<close>; the next pass unlocks a mutex it does not hold.
\<close>
theorem end_of_file_unlocks_unheld_mutex:
  assumes "shutting_down_lock s = Locked" and "answers (srv_sys s) = deliver [] # reply 0 # reply fd' # as"
    and "fd' \<noteq> -1" and "\<not> shutting_down s"
    and "\<And>t. shutting_down_lock (e t) = shutting_down_lock t"
  shows "main_loop fd pipename ((\<lambda>s. s) # e # es) v s = Fault Undefined"
proof -
  let ?s = "s\<lparr>shutting_down_lock := Unlocked, srv_sys := (srv_sys s)\<lparr>answers := as,
      trace := trace (srv_sys s) @ [Sys_read fd 1, Sys_close fd, Sys_open pipename O_RDONLY]\<rparr>\<rparr>"
  have "main_iteration fd pipename v s = Ok (Continue v, ?s)"
    using assms(1-4) by (simp add: main_iteration_def check_pipe_open_def server_steps syscall_def deliver_def reply_def)
  moreover have "main_iteration fd pipename v (e ?s) = Fault Undefined"
    using assms(5) [of ?s] by (simp add: main_iteration_def with_lock_def unlock_mutex_def)
  ultimately show ?thesis using assms(4) by simp
qed

theorem end_of_file_unlocks_unheld_mutex_witness:
  "main_loop 3 [0x70] [(\<lambda>s. s), (\<lambda>s. s)] demo_vars (demo_server fs_static [deliver [], reply 0, reply 3]) = Fault Undefined"
  using end_of_file_unlocks_unheld_mutex [of "demo_server fs_static [deliver [], reply 0, reply 3]" 3 "[]" "\<lambda>s. s"]
  by (simp add: demo_server_def)

text \<open>
  C30: The mount that is given number 64 is refused, and the server does not survive it. The main thread opens an empty
  path name (the client's name has not been read yet) instead of the client's pipe, so nothing is sent to anybody, no session
  becomes active, and the number stays taken; it leaves the pass by \<open>continue\<close> with \<open>shutting_down_lock\<close> free, so that its next
  pass unlocks a mutex it does not hold. Where that unlock is harmless and the pass goes on as if the lock were held, the next
  mount is given number 65 and indexes the table of sessions out of its bounds.
\<close>
theorem mounts_exhausted:
  assumes "shutting_down_lock s = Locked" and "next_session_id_lock s = Unlocked" and "\<not> shutting_down s"
    and "next_session_id s = 64" and "idle 63 s" and "take 40 (drop 1 (sess_buffer (sessions s 63))) = replicate 40 0"
    and "answers (srv_sys s) = deliver [TFS_OP_CODE_MOUNT] # failure ENOENT # map deliver cs @ as"
    and "\<forall>c \<in> set cs. c \<noteq> []" and "length (concat cs) = MOUNT_SIZE_SERVER"
    and "\<And>t. shutting_down_lock (e t) = shutting_down_lock t"
  shows "\<exists>v' s'. main_iteration fd pipename v s = Ok (Continue v', s') \<and> next_session_id s' = 65 \<and>
    is_active (sessions s' 63) = is_active (sessions s 63) \<and> (\<forall>fd. sent fd (trace (srv_sys s')) = sent fd (trace (srv_sys s))) \<and>
    main_loop fd pipename ((\<lambda>s. s) # e # es) v s = Fault Undefined \<and>
    (\<forall>as'. main_iteration fd pipename v' (s'\<lparr>shutting_down_lock := Locked,
      srv_sys := (srv_sys s')\<lparr>answers := deliver [TFS_OP_CODE_MOUNT] # as'\<rparr>\<rparr>) = Fault Undefined)"
proof -
  let ?buf = "sess_buffer (sessions s 63)"
  have i: "session_lock (sessions s 63) = Unlocked" "length ?buf = 2048" using assms(5) by (auto simp: idle_def config)
  let ?w = "(srv_sys s)\<lparr>answers := map deliver cs @ as, errno := ENOENT,
      trace := trace (srv_sys s) @ [Sys_read fd 1, Sys_open [] 416]\<rparr>"
  obtain b w where w: "read_buffer fd 0 (of_nat MOUNT_SIZE_SERVER) (replicate MAX_REQUEST_SIZE 0) ?w = Ok ((0, b), w)"
    "answers w = as" "\<forall>fd. sent fd (trace w) = sent fd (trace ?w)"
    using read_buffer_delivers [of ?w cs as "of_nat MOUNT_SIZE_SERVER" 0 "replicate MAX_REQUEST_SIZE 0" fd] assms(8,9)
    by (auto simp: config)
  have "buf_put 0 [TFS_OP_CODE_MOUNT] ?buf = Ok (TFS_OP_CODE_MOUNT # drop 1 ?buf)"
    "buf_get 1 40 (TFS_OP_CODE_MOUNT # drop 1 ?buf) = Ok (replicate 40 0)"
    "buf_str (replicate 40 0) = Ok []"
    using i(2) assms(6) by (simp_all add: buf_put_def buf_get_def buf_str_def c_str_def)
  with assms(1,2,3,4,7) i w obtain v' s' where s': "main_iteration fd pipename v s = Ok (Continue v', s')"
    "next_session_id s' = 65" "is_active (sessions s' 63) = is_active (sessions s 63)"
    "\<forall>fd. sent fd (trace (srv_sys s')) = sent fd (trace (srv_sys s))"
    "shutting_down_lock s' = Unlocked" "next_session_id_lock s' = Unlocked" "\<not> shutting_down s'"
    by (simp add: main_iteration_def check_pipe_open_def receive_mount_def server_steps syscall_def deliver_def
        failure_def session_at_def handle_too_many_clients_def field_def MAX_CLIENTS_def BUFFER_SIZE_def)
  have "main_iteration fd pipename v' (e s') = Fault Undefined"
    using assms(10) [of s'] s'(5) by (simp add: main_iteration_def with_lock_def unlock_mutex_def)
  then have "main_loop fd pipename ((\<lambda>s. s) # e # es) v s = Fault Undefined" using s'(1,7) by simp
  moreover have "main_iteration fd pipename v' (s'\<lparr>shutting_down_lock := Locked,
      srv_sys := (srv_sys s')\<lparr>answers := deliver [TFS_OP_CODE_MOUNT] # as'\<rparr>\<rparr>) = Fault Undefined" for as'
    using s'(2,6) by (simp add: main_iteration_def check_pipe_open_def receive_mount_def server_steps syscall_def deliver_def
        session_at_def config)
  ultimately show ?thesis using s'(1-4) by blast
qed

theorem mounts_exhausted_witness:
  "\<exists>v' s'. main_iteration 3 [0x70] demo_vars ((demo_server fs_static
      [deliver [TFS_OP_CODE_MOUNT], failure ENOENT, deliver (replicate 40 1)])\<lparr>next_session_id := 64\<rparr>) = Ok (Continue v', s') \<and>
    next_session_id s' = 65 \<and> main_iteration 3 [0x70] v' (s'\<lparr>shutting_down_lock := Locked,
      srv_sys := (srv_sys s')\<lparr>answers := [deliver [TFS_OP_CODE_MOUNT]]\<rparr>\<rparr>) = Fault Undefined"
proof -
  let ?s = "(demo_server fs_static [deliver [TFS_OP_CODE_MOUNT], failure ENOENT, deliver (replicate 40 1)])\<lparr>next_session_id := 64\<rparr>"
  have s: "shutting_down_lock ?s = Locked" "next_session_id_lock ?s = Unlocked" "\<not> shutting_down ?s" "next_session_id ?s = 64"
    "idle 63 ?s" "take 40 (drop 1 (sess_buffer (sessions ?s 63))) = replicate 40 0"
    "answers (srv_sys ?s) = deliver [TFS_OP_CODE_MOUNT] # failure ENOENT # map deliver [replicate 40 1] @ []"
    by (simp_all add: idle_def demo_server_def MAX_CLIENTS_def MAX_REQUEST_SIZE_def drop_replicate take_replicate)
  have c: "\<forall>c \<in> set [replicate 40 1 :: byte list]. c \<noteq> []" "length (concat [replicate 40 1 :: byte list]) = MOUNT_SIZE_SERVER"
    by (simp_all add: config)
  from mounts_exhausted [OF s c, of "\<lambda>s. s" 3 "[0x70]" demo_vars "[]"] show ?thesis by blast
qed

text \<open>
  When reading a mount request fails, the iteration ends with \<open>next_session_id_lock\<close> still held: the
  next client's mount waits for it for ever.
\<close>
theorem failed_mount_blocks_mounts:
  assumes "next_session_id_lock s = Unlocked" and "0 < next_session_id s" and "next_session_id s < 64"
    and "idle (nat (next_session_id s - 1)) s" and "shutting_down_lock s = Locked"
    and "answers (srv_sys s) = deliver [TFS_OP_CODE_MOUNT] # failure e # reply k # as"
  shows "\<exists>v' s'. main_iteration fd pipename v s = Ok (Continue v', s') \<and> next_session_id_lock s' = Locked \<and>
    (\<forall>v. m_op v = TFS_OP_CODE_MOUNT \<longrightarrow> receive_mount fd v s' = Fault Deadlock)"
proof -
  let ?i = "nat (next_session_id s - 1)" let ?buf = "sess_buffer (sessions s ?i)"
  have i: "session_lock (sessions s ?i) = Unlocked" "length ?buf = 2048" using assms(4) by (auto simp: idle_def config)
  have "buf_put 0 [TFS_OP_CODE_MOUNT] ?buf = Ok (TFS_OP_CODE_MOUNT # drop 1 ?buf)" using i(2) by (simp add: buf_put_def)
  moreover have "session_at (next_session_id s) = Ok ?i" using assms(2,3) by (simp add: session_at_def config)
  moreover have "read_buffer fd 1 (of_nat MOUNT_SIZE_SERVER) b w = Ok ((-1, b), w\<lparr>answers := as', errno := e,
      trace := trace w @ [Sys_read fd 40]\<rparr>)" if "answers w = failure e # as'" for b w as'
    using that by (simp add: read_buffer_def read_loop.simps [of fd "Suc 0" _ 0] syscall_def failure_def config)
  ultimately show ?thesis
    using assms i
    by (simp add: main_iteration_def check_pipe_open_def receive_mount_def server_steps syscall_def deliver_def
        reply_def refuse_def send_failure_def lock_mutex_def)
qed

theorem failed_mount_blocks_mounts_witness:
  "\<exists>v' s'. main_iteration 3 [0x70] demo_vars (demo_server fs_static [deliver [1], failure 5, reply 4]) = Ok (Continue v', s') \<and>
    next_session_id_lock s' = Locked"
proof -
  let ?s = "demo_server fs_static [deliver [1], failure 5, reply 4]"
  have "next_session_id_lock ?s = Unlocked" "0 < next_session_id ?s" "next_session_id ?s < 64" "idle (nat (next_session_id ?s - 1)) ?s"
    "answers (srv_sys ?s) = deliver [TFS_OP_CODE_MOUNT] # failure 5 # reply 4 # []"
    by (simp_all add: demo_server_def idle_def op_codes config)
  from failed_mount_blocks_mounts [OF this(1-4) _ this(5), of 3 "[0x70]" demo_vars] show ?thesis by auto
qed

text \<open>
  \<open>case_mount\<close> stores a pointer to its own local array in the session; a later unmount that goes
  well up to that point passes the dangling pointer to \<open>unlink\<close>.
\<close>
theorem unmount_uses_dangling_pointer:
  assumes "case_mount i s = Ok s1" and "answers (srv_sys s) = reply t # reply n # as" and "t \<noteq> -1" and "n \<noteq> -1"
    and "answers (srv_sys s2) = reply m # reply 0 # as'" and "m \<noteq> -1"
    and "sess_pipename (sessions s2 i) = sess_pipename (sessions s1 i)"
  shows "sess_tx (sessions s1 i) = t \<and> case_unmount i s2 = Fault Undefined"
proof -
  have "sess_pipename (sessions s1 i) = Dead_local \<and> sess_tx (sessions s1 i) = t"
    using assms(1-4)
    by (auto simp: case_mount_def server_steps syscall_def reply_def outcome_simps field_def split: if_splits)
  then show ?thesis
    using assms(5-7) by (auto simp: case_unmount_def server_steps syscall_def reply_def)
qed

theorem unmount_uses_dangling_pointer_witness:
  "\<exists>s1. case_mount 0 (demo_server fs_static [reply 5, reply 4]) = Ok s1 \<and>
    case_unmount 0 (s1\<lparr>srv_sys := \<lparr>answers = [reply 4, reply 0], errno = 0, trace = []\<rparr>\<rparr>) = Fault Undefined"
proof -
  have "field 0 1 BUFFER_SIZE (demo_server fs_static [reply 5, reply 4]) = Ok (replicate 40 0)"
    by (simp add: field_def demo_server_def buf_get_def BUFFER_SIZE_def MAX_REQUEST_SIZE_def drop_replicate take_replicate)
  then obtain s1 where s1: "case_mount 0 (demo_server fs_static [reply 5, reply 4]) = Ok s1"
    by (simp add: case_mount_def server_steps syscall_def reply_def buf_str_def demo_server_def)
  from unmount_uses_dangling_pointer [OF this, of 5 4 "[]" "s1\<lparr>srv_sys := \<lparr>answers = [reply 4, reply 0], errno = 0, trace = []\<rparr>\<rparr>" 4 "[]"]
  show ?thesis using s1 by simp
qed

text \<open>
  C31: A read request that the file system refuses (result -1) makes the worker send its answer and then
  write as many bytes as -1 denotes in \<open>size_t\<close> from a buffer of the requested length: undefined.
\<close>
theorem refused_read_overruns:
  assumes "woken i (TFS_OP_CODE_READ # int_bytes sid @ int_bytes fhandle @ size_bytes len @ rest) s" and "int_ok fhandle"
    and "\<not> valid_file_handle fhandle" and "single_global_lock (srv_fs s) = Unlocked"
    and "answers (srv_sys s) = reply m # reply k # as" and "0 < m" and "k \<noteq> -1" and "unat len < 18446744073709551615"
  shows "thread_handler ws heap i s = Fault Undefined"
proof -
  have buf: "sess_buffer (sessions s i) = TFS_OP_CODE_READ # int_bytes sid @ int_bytes fhandle @ size_bytes len @ rest"
    using assms(1) by (simp add: woken_def)
  have f1: "field i 5 4 t = Ok (int_bytes fhandle)" and f2: "field i 9 8 t = Ok (size_bytes len)" and f0: "field i 0 1 t = Ok [TFS_OP_CODE_READ]"
    if "sess_buffer (sessions t i) = sess_buffer (sessions s i)" for t
  proof -
    show "field i 5 4 t = Ok (int_bytes fhandle)"
      using buf that by (intro field_at [of t i "TFS_OP_CODE_READ # int_bytes sid" _ "size_bytes len @ rest"]) simp_all
    show "field i 9 8 t = Ok (size_bytes len)"
      using buf that by (intro field_at [of t i "TFS_OP_CODE_READ # int_bytes sid @ int_bytes fhandle" _ rest]) simp_all
    show "field i 0 1 t = Ok [TFS_OP_CODE_READ]"
      using buf that by (intro field_at [of t i "[]" _ "int_bytes sid @ int_bytes fhandle @ size_bytes len @ rest"]) simp_all
  qed
  have "(srv_fs s)\<lparr>single_global_lock := Unlocked\<rparr> = srv_fs s" using assms(4) by (cases "srv_fs s") simp
  then have read: "tfs_read fhandle len (srv_fs s) = Ok ((-1, []), srv_fs s)"
    using assms(3,4) by (simp add: tfs_read_def synchronized_Ok_iff tfs_read_unsynchronized_def get_open_file_entry_def)
  have over: "write_buffer fd (overlay [] (map heap [0..<unat len])) (-1) w = Fault Undefined" for fd w
  proof -
    have "unat (-1 :: size_t) = 18446744073709551615" by (simp add: unsigned_minus_1_eq_mask mask_eq_exp_minus_1)
    moreover from this have "(0 :: size_t) < -1" by (simp add: word_less_nat_alt)
    ultimately show ?thesis
      using assms(8) by (simp add: write_buffer_def write_loop.simps [of fd _ "-1" 0] buf_get_def overlay_def)
  qed
  have "dispatch ws heap TFS_OP_CODE_READ i (working i s) = Fault Undefined"
    using assms(2,5-7) f1 [of s] f2 [of s] read over
    by (simp add: dispatch_def op_codes case_read_def bytes_int_bytes bytes_size_bytes Let_def
        allocate_reply [of _ m "reply k # as"] answer_with_reply [of _ k as])
  moreover have "thread_handler ws heap i s = and_then (dispatch ws heap TFS_OP_CODE_READ i (working i s)) (\<lambda>s.
       let s = put_session i (is_active_update (\<lambda>_. False)) s in
       and_then (buf_put 0 [0] (sess_buffer (sessions s i))) (\<lambda>b.
       let s = put_session i (sess_buffer_update (\<lambda>_. b)) s in
       and_then (on_session i unlock_mutex s) (\<lambda>s. Ok (True, s))))"
    using assms(1) by (simp add: thread_handler_def woken_def working_def server_steps field_def buf_get_def op_codes)
  ultimately show ?thesis by simp
qed

theorem refused_read_overruns_witness:
  "thread_handler [] (\<lambda>_. 0) 0 ((demo_server (booted fs_static) [reply 1, reply 8])\<lparr>shutting_down_lock := Unlocked,
     sessions := \<lambda>i. \<lparr>sess_id = 1, is_active = True, session_lock = Unlocked,
       sess_buffer = TFS_OP_CODE_READ # int_bytes 1 @ int_bytes 99 @ size_bytes 10 @ [], sess_tx = 4, sess_pipename = Null_ptr\<rparr>\<rparr>)
   = Fault Undefined"
  by (rule refused_read_overruns [where i = 0 and sid = 1 and fhandle = 99 and len = 10 and rest = "[]" and m = 1 and k = 8 and as = "[]"])
    (simp_all add: woken_def int_ok_def valid_file_handle_def config booted_def)

text \<open>
  The length field of a write request is not checked against the session's buffer: the main thread
  stores bytes beyond its 2048 as soon as they arrive.
\<close>
theorem long_write_overflows:
  assumes "shutting_down_lock s = Locked" and "idle i s"
    and "answers (srv_sys s) = deliver [TFS_OP_CODE_WRITE] # deliver (int_bytes (int i + 1)) #
      deliver (int_bytes fhandle) # deliver (size_bytes len) # deliver c # as"
    and "MAX_REQUEST_SIZE < 17 + length c" and "length c \<le> unat len"
  shows "main_iteration fd pipename v s = Fault Undefined"
proof -
  let ?buf = "sess_buffer (sessions s i)"
  have i: "i < MAX_CLIENTS" "session_lock (sessions s i) = Unlocked" "length ?buf = 2048"
    using assms(2) by (auto simp: idle_def config)
  have sid: "int_ok (int i + 1)" "session_at (int i + 1) = Ok i" using i(1) by (auto simp: int_ok_def session_at_def config)
  have "0 < len" using assms(4,5) by (auto simp: word_gt_0 config)
  moreover have "buf_put (17 + unat (0 :: size_t)) c b = Fault Undefined" if "length b = 2048" for b
    using that assms(4) by (simp add: buf_put_def config)
  ultimately have r: "read_buffer fd 17 len b w = Fault Undefined" if "length b = 2048" "answers w = deliver c # as" for b w
    using that by (simp add: read_buffer_def read_loop.simps [of fd 17 len 0] syscall_def deliver_def)
  have put: "\<exists>b'. buf_put off bs b = Ok b' \<and> length b' = 2048" if "length b = 2048" "off + length bs \<le> 2048" for off bs b
    using that by (simp add: buf_put_def)
  obtain b1 where b1: "buf_put 0 [TFS_OP_CODE_WRITE] ?buf = Ok b1" "length b1 = 2048" using put [of ?buf 0 "[TFS_OP_CODE_WRITE]"] i(3) by auto
  obtain b2 where b2: "buf_put 1 (int_bytes (int i + 1)) b1 = Ok b2" "length b2 = 2048" using put [of b1 1 "int_bytes (int i + 1)"] b1(2) by auto
  obtain b3 where b3: "buf_put 5 (int_bytes fhandle) b2 = Ok b3" "length b3 = 2048" using put [of b2 5 "int_bytes fhandle"] b2(2) by auto
  obtain b4 where b4: "buf_put 9 (size_bytes len) b3 = Ok b4" "length b4 = 2048" using put [of b3 9 "size_bytes len"] b3(2) by auto
  show ?thesis
    using assms(1,3) i sid b1 b2 b3 b4 r
    by (simp add: main_iteration_def receive_request_def receive_write_def server_steps syscall_def deliver_def
        check_pipe_open_def bytes_int_bytes bytes_size_bytes op_codes)
qed

theorem long_write_overflows_witness:
  "main_iteration 3 [0x70] demo_vars (demo_server fs_static [deliver [5], deliver (int_bytes 1), deliver (int_bytes 0),
     deliver (size_bytes 2040), deliver (replicate 2040 1)]) = Fault Undefined"
  by (rule long_write_overflows [where i = 0 and fhandle = 0 and len = 2040 and c = "replicate 2040 1" and as = "[]"])
    (simp_all add: demo_server_idle op_codes config)

text \<open>
  The name field of an open request has 40 bytes and no room for a terminator: a longer path
  overflows the client's request, and one of exactly 40 bytes is sent but reaches the server without
  an end, so that the file system would be given an unterminated string.
\<close>
theorem open_name_limits:
  assumes "0 \<notin> set name"
  shows "(BUFFER_SIZE < length name \<longrightarrow> client_open name flags junk c = Fault Undefined) \<and>
    (length name = BUFFER_SIZE \<and> sess_buffer (sessions s i) = open_bytes sid name flags @ rest \<longrightarrow>
      case_open i s = Fault Undefined)"
proof (intro conjI impI; (elim conjE)?)
  assume "BUFFER_SIZE < length name"
  then show "client_open name flags junk c = Fault Undefined"
    by (simp add: client_open_def client_rpc_def open_request_eq)
next
  assume name: "length name = BUFFER_SIZE" and buf: "sess_buffer (sessions s i) = open_bytes sid name flags @ rest"
  have "field i 5 4 s = Ok (int_bytes flags)"
    using buf by (intro field_at [of s i "TFS_OP_CODE_OPEN # int_bytes sid" _ "name @ rest"]) (simp_all add: open_bytes_def name)
  moreover have "field i 9 BUFFER_SIZE s = Ok name"
    using buf name
    by (intro field_at [of s i "TFS_OP_CODE_OPEN # int_bytes sid @ int_bytes flags" _ rest]) (simp_all add: open_bytes_def)
  ultimately show "case_open i s = Fault Undefined" using assms by (simp add: case_open_def buf_str_def)
qed

theorem open_name_limits_witness:
  "client_open (replicate 41 0x61) 1 [] (demo_client 0 []) = Fault Undefined"
  using open_name_limits [of "replicate 41 0x61" 1 "[]" "demo_client 0 []"] by (simp add: config)

end
