(* ===== verification/Pipes.thy ===== *)
theory Pipes
  imports Pipe_IO
begin

text \<open>
  The operating system as client and server see it: named pipes, the descriptors of each process, and
  how the system calls of \<open>Sys_Calls\<close> are answered. The pages of the manual this follows are \<open>fifo(7)\<close>
  and \<open>pipe(7)\<close>: bytes come out of a pipe in the order they went in, a read takes what is there up to the
  number asked for and waits while nothing is there and somebody may still write, a write that fits
  in goes in as one piece. A process is driven by answering, one after the other, the calls it waits in.
\<close>

section \<open>State\<close>

datatype proc = Server_proc | Client_proc nat

text \<open>What a descriptor refers to: a pipe, and whether it is open for reading and for writing.\<close>

record pipe_end =
  e_pipe :: nat
  e_reads :: bool
  e_writes :: bool

record os =
  pipe_names :: "cstring \<Rightarrow> nat option"
  pipe_data :: "nat \<Rightarrow> byte list"
  next_pipe :: nat
  descriptors :: "proc \<Rightarrow> int \<Rightarrow> pipe_end option"
  readers :: "nat \<Rightarrow> nat"
  writers :: "nat \<Rightarrow> nat"

definition EBADF :: int where "EBADF = 9"
definition EEXIST :: int where "EEXIST = 17"
definition EMFILE :: int where "EMFILE = 24"
definition PIPE_CAPACITY :: nat where [config]: "PIPE_CAPACITY = 65536"
definition OPEN_MAX :: nat where [config]: "OPEN_MAX = 1024"

section \<open>The calls\<close>

text \<open>The end an access mode opens: \<open>O_RDONLY\<close>, \<open>O_WRONLY\<close> or \<open>O_RDWR\<close>, whatever other bits are set.\<close>

definition open_end :: "nat \<Rightarrow> int \<Rightarrow> pipe_end" where
  "open_end q flags = \<lparr>e_pipe = q, e_reads = (flags mod 4 \<noteq> O_WRONLY), e_writes = (flags mod 4 \<noteq> O_RDONLY)\<rparr>"

text \<open>A new descriptor has the lowest number that is free, behind the three standard ones.\<close>

definition lowest_descriptor :: "proc \<Rightarrow> os \<Rightarrow> nat option" where
  "lowest_descriptor p w = find (\<lambda>k. descriptors w p (int k) = None) [3..<OPEN_MAX]"

definition count_end :: "(nat \<Rightarrow> nat) \<Rightarrow> pipe_end \<Rightarrow> os \<Rightarrow> os" where
  "count_end d e w = w\<lparr>readers := (if e_reads e then (readers w)(e_pipe e := d (readers w (e_pipe e))) else readers w),
     writers := (if e_writes e then (writers w)(e_pipe e := d (writers w (e_pipe e))) else writers w)\<rparr>"

definition put_descriptor :: "proc \<Rightarrow> int \<Rightarrow> pipe_end option \<Rightarrow> os \<Rightarrow> os" where
  "put_descriptor p fd e w = w\<lparr>descriptors := (descriptors w)(p := (descriptors w p)(fd := e))\<rparr>"

text \<open>
  The answer to a call of a process and the state after it; \<open>None\<close> while the call does not return. A
  pipe opened for one direction only waits for the other; memory is always available.
\<close>

fun os_call :: "proc \<Rightarrow> sys_call \<Rightarrow> os \<Rightarrow> (answer \<times> os) option" where
  "os_call p (Sys_read fd n) w = (case descriptors w p fd of
     None \<Rightarrow> Some (failure EBADF, w)
   | Some e \<Rightarrow>
       let q = pipe_data w (e_pipe e) in
       if \<not> e_reads e then Some (failure EBADF, w)
       else if n = 0 then Some (deliver [], w)
       else if q = [] then (if writers w (e_pipe e) = 0 then Some (deliver [], w) else None)
       else Some (deliver (take n q), w\<lparr>pipe_data := (pipe_data w)(e_pipe e := drop n q)\<rparr>))"
| "os_call p (Sys_write fd bs) w = (case descriptors w p fd of
     None \<Rightarrow> Some (failure EBADF, w)
   | Some e \<Rightarrow>
       let q = pipe_data w (e_pipe e) in
       if \<not> e_writes e then Some (failure EBADF, w)
       else if readers w (e_pipe e) = 0 then Some (failure EPIPE, w)
       else if length q + length bs \<le> PIPE_CAPACITY
         then Some (reply (int (length bs)), w\<lparr>pipe_data := (pipe_data w)(e_pipe e := q @ bs)\<rparr>)
       else None)"
| "os_call p (Sys_open path flags) w = (case pipe_names w path of
     None \<Rightarrow> Some (failure ENOENT, w)
   | Some q \<Rightarrow>
       let e = open_end q flags in
       if \<not> e_reads e \<and> readers w q = 0 \<or> \<not> e_writes e \<and> writers w q = 0 then None
       else case lowest_descriptor p w of
         None \<Rightarrow> Some (failure EMFILE, w)
       | Some k \<Rightarrow> Some (reply (int k), count_end Suc e (put_descriptor p (int k) (Some e) w)))"
| "os_call p (Sys_close fd) w = (case descriptors w p fd of
     None \<Rightarrow> Some (failure EBADF, w)
   | Some e \<Rightarrow> Some (reply 0, count_end (\<lambda>k. k - 1) e (put_descriptor p fd None w)))"
| "os_call p (Sys_unlink path) w = (case pipe_names w path of
     None \<Rightarrow> Some (failure ENOENT, w)
   | Some q \<Rightarrow> Some (reply 0, w\<lparr>pipe_names := (pipe_names w)(path := None)\<rparr>))"
| "os_call p (Sys_mkfifo path mode) w = (case pipe_names w path of
     None \<Rightarrow> Some (reply 0, w\<lparr>pipe_names := (pipe_names w)(path \<mapsto> next_pipe w),
       pipe_data := (pipe_data w)(next_pipe w := []), next_pipe := Suc (next_pipe w)\<rparr>)
   | Some q \<Rightarrow> Some (failure EEXIST, w))"
| "os_call p (Sys_malloc n) w = Some (reply 1, w)"

text \<open>A descriptor for reading from a pipe somebody may still write to, and one for writing to a pipe somebody reads.\<close>

definition reads_from :: "os \<Rightarrow> proc \<Rightarrow> int \<Rightarrow> nat \<Rightarrow> bool" where
  "reads_from w p fd q \<longleftrightarrow> (\<exists>e. descriptors w p fd = Some e \<and> e_reads e \<and> e_pipe e = q) \<and> 0 < writers w q"

definition writes_to :: "os \<Rightarrow> proc \<Rightarrow> int \<Rightarrow> nat \<Rightarrow> bool" where
  "writes_to w p fd q \<longleftrightarrow> (\<exists>e. descriptors w p fd = Some e \<and> e_writes e \<and> e_pipe e = q) \<and> 0 < readers w q"

lemma reads_from_data [simp]: "reads_from (w\<lparr>pipe_data := f\<rparr>) p fd q = reads_from w p fd q"
  by (simp add: reads_from_def)

lemma writes_to_data [simp]: "writes_to (w\<lparr>pipe_data := f\<rparr>) p fd q = writes_to w p fd q"
  by (simp add: writes_to_def)

text \<open>Bytes that went into a pipe come out of it; a reader waits for the first one, a writer for room.\<close>

lemma os_reads:
  "reads_from w p fd q \<Longrightarrow> 0 < n \<Longrightarrow> os_call p (Sys_read fd n) w = (if pipe_data w q = [] then None
    else Some (deliver (take n (pipe_data w q)), w\<lparr>pipe_data := (pipe_data w)(q := drop n (pipe_data w q))\<rparr>))"
  by (auto simp: os_call.simps reads_from_def Let_def)

lemma os_writes:
  "writes_to w p fd q \<Longrightarrow> os_call p (Sys_write fd bs) w =
    (if length (pipe_data w q) + length bs \<le> PIPE_CAPACITY
     then Some (reply (int (length bs)), w\<lparr>pipe_data := (pipe_data w)(q := pipe_data w q @ bs)\<rparr>) else None)"
  by (auto simp: os_call.simps writes_to_def Let_def)

declare os_call.simps(1,2) [simp del]

section \<open>Driving a process\<close>

text \<open>
  A computation, as a function of the answers it has received so far, is in one of three situations: it
  returns, it fails, or it waits in its next call. \<open>os_run p f as w x w'\<close>: with the answers \<open>as\<close> given so far
  and the system in state \<open>w\<close>, the process \<open>p\<close> returns \<open>x\<close> and leaves the system in \<open>w'\<close>.
\<close>

inductive os_run :: "proc \<Rightarrow> (answer list \<Rightarrow> 'a outcome) \<Rightarrow> answer list \<Rightarrow> os \<Rightarrow> 'a \<Rightarrow> os \<Rightarrow> bool" for p f where
  returns: "f as = Ok x \<Longrightarrow> os_run p f as w x w"
| asks: "f as = Fault (Waiting c) \<Longrightarrow> os_call p c w = Some (a, w1) \<Longrightarrow> os_run p f (as @ [a]) w1 x w2 \<Longrightarrow>
    os_run p f as w x w2"

text \<open>A computation is deterministic, so its run is determined step by step.\<close>

lemma os_run_Ok: "f as = Ok y \<Longrightarrow> os_run p f as w x w' \<longleftrightarrow> x = y \<and> w' = w"
  by (subst os_run.simps) auto

lemma os_run_Waiting:
  "f as = Fault (Waiting c) \<Longrightarrow> os_call p c w = Some (a, w1) \<Longrightarrow>
    os_run p f as w x w' \<longleftrightarrow> os_run p f (as @ [a]) w1 x w'"
  by (subst os_run.simps) auto

lemma os_run_stuck:
  "f as = Fault (Waiting c) \<Longrightarrow> os_call p c w = None \<Longrightarrow> \<not> os_run p f as w x w'"
  by (subst os_run.simps) auto

lemma os_run_Fault:
  "f as = Fault e \<Longrightarrow> (\<And>c. e \<noteq> Waiting c) \<Longrightarrow> \<not> os_run p f as w x w'"
  by (subst os_run.simps) auto

lemma os_run_unique: "os_run p f as w x w' \<Longrightarrow> os_run p f as w y w'' \<Longrightarrow> x = y \<and> w' = w''"
proof (induction rule: os_run.induct)
  case (returns as x w)
  then show ?case by (simp add: os_run_Ok)
next
  case (asks as c w a w1 x w2)
  then show ?case by (simp add: os_run_Waiting)
qed

end
