(* ===== verification/Server_Threads.thy ===== *)
theory Server_Threads
  imports Protocol
begin

text \<open>
  The server's threads together (\<open>parte-2/fs/tfs_server.c\<close>): the main thread and the 64 workers as one
  step relation. A turn of a thread runs from one point where it waits to the next: the main thread from
  the \<open>read\<close> of an operation code to the next one, a worker from its wait for \<open>session_flag\<close> to the
  next. \<open>shutting_down_lock\<close> is free at these points.
\<close>

section \<open>Which sessions a turn changes\<close>

text \<open>All sessions but \<open>i\<close> are as before.\<close>

definition only :: "nat \<Rightarrow> server \<Rightarrow> server \<Rightarrow> bool" where
  "only i s s' \<longleftrightarrow> (\<forall>j. j \<noteq> i \<longrightarrow> sessions s' j = sessions s j)"

lemma only_refl [simp]: "only i s s"
  by (simp add: only_def)

lemma only_trans [trans]: "only i s s' \<Longrightarrow> only i s' s'' \<Longrightarrow> only i s s''"
  by (simp add: only_def)

lemma only_put [simp]: "only i s (put_session i f s)"
  by (simp add: only_def put_session_def)

lemma only_put_after [simp]: "only i s s' \<Longrightarrow> only i s (put_session i f s')"
  by (simp add: only_def put_session_def)

lemma only_update [simp]:
  "only i s (s'\<lparr>srv_sys := w\<rparr>) = only i s s'" "only i s (s'\<lparr>srv_fs := fs\<rparr>) = only i s s'"
  "only i s (s'\<lparr>next_session_id := k\<rparr>) = only i s s'" "only i s (s'\<lparr>shutdown_called := b\<rparr>) = only i s s'"
  "only i s (s'\<lparr>shutting_down_lock := m\<rparr>) = only i s s'" "only i s (s'\<lparr>shutting_down := b\<rparr>) = only i s s'"
  "only i s (s'\<lparr>next_session_id_lock := m\<rparr>) = only i s s'"
  by (simp_all add: only_def)

named_theorems only_intros \<open>what the server's functions leave alone\<close>

lemma only_srv_call [only_intros]: "srv_call c s = Ok (a, s') \<Longrightarrow> only i s s'"
  by (auto simp: srv_call_def outcome_simps)

lemma only_srv_write [only_intros]: "srv_write fd bs s = Ok (a, s') \<Longrightarrow> only i s s'"
  by (auto simp: srv_write_def outcome_simps dest: only_srv_call)

lemma only_send_failure [only_intros]: "send_failure j s = Ok s' \<Longrightarrow> only i s s'"
  by (auto simp: send_failure_def outcome_simps dest: only_srv_write)

lemma only_on_session [only_intros]: "on_session i op s = Ok s' \<Longrightarrow> only i s s'"
  by (auto simp: on_session_def with_lock_def outcome_simps)

lemma only_on_locks [only_intros]:
  "on_next_id op s = Ok s' \<Longrightarrow> only i s s'" "on_shutting_down op s = Ok s' \<Longrightarrow> only i s s'"
  by (auto simp: with_lock_def outcome_simps only_def)

lemma only_buffer [only_intros]:
  "buffer_put i off bs s = Ok s' \<Longrightarrow> only i s s'"
  "buffer_read fd i off n s = Ok (r, s') \<Longrightarrow> only i s s'"
  by (auto simp: buffer_put_def buffer_read_def outcome_simps only_def put_session_def)

lemma only_answer [only_intros]: "answer_with j bs s = Ok (b, s') \<Longrightarrow> only i s s'"
  by (auto simp: answer_with_def outcome_simps split: if_splits
      dest!: only_srv_write [of _ _ _ _ _ i] only_send_failure [of _ _ _ i] intro: only_trans)

lemma only_allocate [only_intros]: "allocate j n s = Ok s' \<Longrightarrow> only i s s'"
  by (auto simp: allocate_def outcome_simps split: if_splits dest!: only_srv_call [of _ _ _ _ i])

text \<open>The functions of a worker, and those of the main thread.\<close>

lemma only_worker_cases:
  "case_mount i s = Ok s' \<Longrightarrow> only i s s'" "case_unmount i s = Ok s' \<Longrightarrow> only i s s'"
  "case_open i s = Ok s' \<Longrightarrow> only i s s'" "case_close i s = Ok s' \<Longrightarrow> only i s s'"
  "case_write i s = Ok s' \<Longrightarrow> only i s s'" "case_read heap i s = Ok s' \<Longrightarrow> only i s s'"
  "case_shutdown ws i s = Ok s' \<Longrightarrow> only i s s'"
proof -
  note d = only_srv_call [where i = i] only_srv_write [where i = i] only_send_failure [where i = i]
    only_answer [where i = i] only_allocate [where i = i] only_on_locks [where i = i]
  show "case_mount i s = Ok s' \<Longrightarrow> only i s s'"
    by (auto simp: case_mount_def outcome_simps split: if_splits dest!: d intro: only_trans)
  show "case_unmount i s = Ok s' \<Longrightarrow> only i s s'"
    by (auto simp: case_unmount_def outcome_simps split: if_splits pipe_ptr.splits dest!: d intro: only_trans)
      (metis pipe_ptr.exhaust)
  show "case_open i s = Ok s' \<Longrightarrow> only i s s'"
    by (auto simp: case_open_def outcome_simps dest!: d) (auto simp: only_def)
  show "case_close i s = Ok s' \<Longrightarrow> only i s s'"
    by (auto simp: case_close_def outcome_simps dest!: d) (auto simp: only_def)
  show "case_write i s = Ok s' \<Longrightarrow> only i s s'"
    by (auto simp: case_write_def outcome_simps Let_def dest!: d) (auto simp: only_def)
  show "case_read heap i s = Ok s' \<Longrightarrow> only i s s'"
    by (auto simp: case_read_def outcome_simps Let_def split: if_splits dest!: d) (auto simp: only_def)
  show "case_shutdown ws i s = Ok s' \<Longrightarrow> only i s s'"
    by (auto simp: case_shutdown_def outcome_simps Let_def split: if_splits option.splits)
qed

lemma only_thread_handler:
  assumes "thread_handler ws heap i s = Ok (b, s')"
  shows "only i s s'"
proof -
  have dispatch: "dispatch ws heap op_code i t = Ok t' \<Longrightarrow> only i t t'" for op_code t t'
    by (auto simp: dispatch_def split: if_splits dest: only_worker_cases)
  note d = only_on_session [where i = i] only_on_locks [where i = i] only_send_failure [where i = i] dispatch
  show ?thesis
    using assms
    by (auto simp: thread_handler_def outcome_simps Let_def split: if_splits dest!: d) (auto simp: only_def put_session_def)
qed

text \<open>The main thread changes the session whose number it ends the turn with.\<close>

definition others :: "int \<Rightarrow> server \<Rightarrow> server \<Rightarrow> bool" where
  "others sid s s' \<longleftrightarrow> (\<forall>j. int j + 1 \<noteq> sid \<longrightarrow> sessions s' j = sessions s j)"

lemma others_trans [trans]: "others sid s s' \<Longrightarrow> others sid s' s'' \<Longrightarrow> others sid s s''"
  by (simp add: others_def)

lemma others_refl [simp]: "others sid s s"
  by (simp add: others_def)

lemma only_all: "(\<And>i. only i s s') \<Longrightarrow> others sid s s'"
  unfolding others_def only_def by (metis n_not_Suc_n)

lemma session_at_Ok: "session_at sid = Ok i \<longleftrightarrow> 1 \<le> sid \<and> sid \<le> int MAX_CLIENTS \<and> i = nat (sid - 1)"
  by (auto simp: session_at_def)

lemma only_others: "session_at sid = Ok i \<Longrightarrow> only i s s' \<Longrightarrow> others sid s s'"
  by (auto simp: session_at_Ok others_def only_def)

lemma others_calls:
  "srv_call c s = Ok (a, s') \<Longrightarrow> others sid s s'" "on_shutting_down op s = Ok s' \<Longrightarrow> others sid s s'"
  by (auto intro!: only_all dest: only_srv_call only_on_locks(2))

lemma only_refuse: "refuse i v s = Ok (Continue v', s') \<Longrightarrow> only i s s' \<and> v' = v"
  by (auto simp: refuse_def outcome_simps dest!: only_send_failure [where i = i] only_on_session intro: only_trans)

lemma only_hand_over: "hand_over i v s = Ok (Continue v', s') \<Longrightarrow> only i s s' \<and> v' = v"
  by (auto simp: hand_over_def outcome_simps Let_def dest!: only_on_session only_on_locks [where i = i])
     (auto simp: only_def put_session_def)

lemma only_receive_rest: "receive_rest fd n i v s = Ok (Continue v', s') \<Longrightarrow> only i s s' \<and> v' = v"
  by (auto simp: receive_rest_def outcome_simps split: if_splits
      dest!: only_buffer(2) only_refuse only_hand_over intro: only_trans)

lemma only_receive_write:
  "receive_write fd i v s = Ok (Continue v', s') \<Longrightarrow> only i s s' \<and> m_session_id v' = m_session_id v"
  by (auto simp: receive_write_def outcome_simps Let_def split: if_splits
      dest!: only_buffer only_refuse only_hand_over only_srv_call [where i = i]) (auto simp: only_def)

lemma only_too_many: "handle_too_many_clients i s = Ok s' \<Longrightarrow> only i s s'"
  by (auto simp: handle_too_many_clients_def outcome_simps split: if_splits
      dest!: only_on_locks(1) [where i = i] only_srv_call [where i = i] only_srv_write [where i = i]) (auto simp: only_def)

lemma only_mount_tail:
  assumes "(if next_session_id s > 64 then
       and_then (handle_too_many_clients i s) (\<lambda>s.
       and_then (read_buffer fd 0 (of_nat MOUNT_SIZE_SERVER) (replicate MAX_REQUEST_SIZE 0) (srv_sys s)) (\<lambda>((r, _), w).
       let s = s\<lparr>srv_sys := w\<rparr> in
       and_then (if r = -1 then send_failure i s else Ok s) (\<lambda>s.
       and_then (on_session i unlock_mutex s) (\<lambda>s. Ok (Continue v, s)))))
     else
       and_then (buffer_read fd i 1 (of_nat MOUNT_SIZE_SERVER) s) (\<lambda>(r, s).
       if r = -1 then refuse i v s
       else and_then (on_next_id unlock_mutex s) (\<lambda>s. hand_over i v s))) = Ok (Continue v', s')"
  shows "only i s s' \<and> v' = v"
proof (cases "next_session_id s > 64")
  case True
  with assms show ?thesis
    by (auto simp: outcome_simps Let_def split: if_splits
        dest!: only_too_many only_send_failure [where i = i] only_on_session) (auto simp: only_def)
next
  case False
  with assms show ?thesis
    by (auto simp: outcome_simps split: if_splits
        dest!: only_buffer(2) only_refuse only_hand_over only_on_locks(1) [where i = i] intro: only_trans)
qed

lemma only_receive_mount:
  assumes "receive_mount fd v s = Ok (Continue v', s')"
  shows "others (m_session_id v') s s'"
proof -
  from assms obtain s1 where s1: "on_next_id lock_mutex s = Ok s1"
    by (cases "on_next_id lock_mutex s") (simp_all add: receive_mount_def)
  let ?sid = "next_session_id s1" let ?v = "v\<lparr>m_session_id := ?sid\<rparr>"
  let ?s1 = "s1\<lparr>next_session_id := ?sid + 1\<rparr>"
  from assms s1 obtain i where i: "session_at ?sid = Ok i"
    by (cases "session_at ?sid") (simp_all add: receive_mount_def Let_def)
  from assms s1 i obtain s2 where s2: "on_session i lock_mutex ?s1 = Ok s2"
    by (cases "on_session i lock_mutex ?s1") (simp_all add: receive_mount_def Let_def)
  let ?s2 = "put_session i (sess_id_update (\<lambda>_. ?sid)) s2"
  from assms s1 i s2 obtain s3 where s3: "buffer_put i 0 [m_op v] ?s2 = Ok s3"
    by (cases "buffer_put i 0 [m_op v] ?s2") (simp_all add: receive_mount_def Let_def)
  have tail: "only i s3 s' \<and> v' = ?v"
    using assms s1 i s2 s3 by (intro only_mount_tail [where fd = fd]) (simp add: receive_mount_def Let_def)
  have "only i s ?s1" using only_on_locks(1) [OF s1, of i] by simp
  also have "only i ?s1 ?s2" using only_on_session [OF s2] by simp
  also have "only i ?s2 s3" using only_buffer(1) [OF s3] .
  also have "only i s3 s'" using tail by simp
  finally have "only i s s'" .
  then show ?thesis using only_others [OF i] tail by simp
qed

lemma only_receive_request:
  assumes "receive_request fd v s = Ok (Continue v', s')"
  shows "others (m_session_id v') s s'"
proof (cases "srv_call (Sys_read fd 4) s")
  case (Fault e)
  with assms show ?thesis by (simp add: receive_request_def)
next
  case (Ok x)
  obtain a s1 where x: "x = (a, s1)" by (cases x)
  note s1 = others_calls(1) [OF Ok [unfolded x]]
  show ?thesis
  proof (cases "ans_ret a = -1")
    case True
    with assms Ok x s1 [of "m_session_id v"] show ?thesis by (auto simp: receive_request_def)
  next
    case False
    let ?sid = "bytes_int (overlay (ans_data a) (int_bytes (m_session_id v)))"
    let ?v = "v\<lparr>m_session_id := ?sid\<rparr>"
    from assms Ok x False obtain i where i: "session_at ?sid = Ok i"
      by (cases "session_at ?sid") (auto simp: receive_request_def Let_def)
    have "m_session_id v' = ?sid \<and> only i s1 s'"
      using assms Ok x False i
      by (auto simp: receive_request_def outcome_simps Let_def split: if_splits
          dest!: only_buffer only_refuse only_receive_rest only_receive_write only_hand_over only_on_session
          intro: only_trans)
    with only_others [OF i] s1 [of ?sid] show ?thesis by (auto intro: others_trans)
  qed
qed

lemma only_main_iteration:
  assumes "main_iteration fd pipename v s = Ok (Continue v', s')"
  shows "others (m_session_id v') s s'"
proof -
  note d = others_calls [where sid = "m_session_id v'"]
  have check: "check_pipe_open r fd pipename t = Ok (b, t') \<Longrightarrow> others (m_session_id v') t t'" for r t b t'
    by (auto simp: check_pipe_open_def outcome_simps split: if_splits dest!: d intro: others_trans)
  show ?thesis
    using assms
    by (auto simp: main_iteration_def outcome_simps Let_def split: if_splits
        dest!: check only_receive_mount only_receive_request d intro: others_trans)
qed

section \<open>Turns of the threads\<close>

datatype turn = Main int | Worker nat

text \<open>
  The descriptor of the server's pipe and its name do not change, nor does what other threads do during
  a worker's wait for the last close, which the turns themselves provide. A turn of the main thread is
  labelled with the session number it read.
\<close>

inductive server_step :: "int \<Rightarrow> cstring \<Rightarrow> (nat \<Rightarrow> byte) \<Rightarrow> main_vars \<times> server \<Rightarrow> turn \<Rightarrow> main_vars \<times> server \<Rightarrow> bool"
  for fd pipename heap where
  main_turn: "main_iteration fd pipename v (s\<lparr>shutting_down_lock := Locked\<rparr>) = Ok (Continue v', s') \<Longrightarrow>
    shutting_down_lock s' = Locked \<Longrightarrow> \<not> shutting_down s' \<Longrightarrow> shutting_down_lock s = Unlocked \<Longrightarrow>
    server_step fd pipename heap (v, s) (Main (m_session_id v')) (v', s'\<lparr>shutting_down_lock := Unlocked\<rparr>)"
| worker_turn: "i < MAX_CLIENTS \<Longrightarrow> thread_handler [] heap i s = Ok (True, s') \<Longrightarrow>
    server_step fd pipename heap (v, s) (Worker i) (v, s')"

inductive_cases server_stepE: "server_step fd pipename heap (v, s) t (v', s')"

section \<open>Requests that wait\<close>

lemma turns_unchanged:
  assumes "steps (server_step fd pipename heap) (v, s) ts (v', s')"
    and "Worker i \<notin> set ts" and "Main (int i + 1) \<notin> set ts"
  shows "sessions s' i = sessions s i"
  using assms
proof (induction "(v, s)" ts "(v', s')" arbitrary: v' s' rule: steps.induct)
  case none
  then show ?case by simp
next
  case (more ts c t v'' s'')
  obtain v' s' where c: "c = (v', s')" by (cases c)
  have "sessions s'' i = sessions s' i"
    using more.hyps(3) unfolding c
  proof (cases rule: server_step.cases)
    case (main_turn s1)
    with only_main_iteration [of fd pipename v' "s'\<lparr>shutting_down_lock := Locked\<rparr>" v'' s1] more.prems(2)
    show ?thesis by (auto simp: others_def)
  next
    case (worker_turn j)
    with only_thread_handler [of "[]" heap j s' True s''] more.prems(1) show ?thesis by (auto simp: only_def)
  qed
  with more c show ?case by auto
qed

text \<open>
  C22: Sessions are isolated: while a request waits in the buffer of a session, turns of the main thread
  for other clients and turns of other workers, in any number and order and with any outcome, leave the
  session (its buffer, lock, pipe and flag) exactly as it is.
\<close>
theorem turns_isolated:
  assumes "steps (server_step fd pipename heap) (v, s) ts (v', s')"
    and "Worker i \<notin> set ts" and "Main (int i + 1) \<notin> set ts"
  shows "sessions s' i = sessions s i"
  by (rule turns_unchanged [OF assms])

text \<open>Every worker has been woken with a request to close handle 0.\<close>

definition demo_queue :: "answer list \<Rightarrow> server" where
  "demo_queue as = (demo_server demo_written as)\<lparr>shutting_down_lock := Unlocked,
     sessions := (\<lambda>i. \<lparr>sess_id = int i + 1, is_active = True, session_lock = Unlocked,
       sess_buffer = TFS_OP_CODE_CLOSE # int_bytes (int i + 1) @ int_bytes 0 @ replicate 2039 0, sess_tx = 4,
       sess_pipename = Null_ptr\<rparr>)\<rparr>"

lemma demo_queue_woken:
  "woken i (TFS_OP_CODE_CLOSE # int_bytes (int i + 1) @ int_bytes 0 @ replicate 2039 0) (demo_queue as)"
  by (simp add: woken_def demo_queue_def)

lemma demo_queue_turn:
  "\<exists>s'. server_step fd pipename heap (v, demo_queue [reply 4]) (Worker 1) (v, s')"
proof -
  obtain fs where "tfs_close 0 demo_written = Ok (0, fs)"
    using refine_tfs_close [OF demo_written(1), of 0] demo_written(2) by (auto simp: a_close_def)
  moreover have "srv_fs (demo_queue [reply 4]) = demo_written" "answers (srv_sys (demo_queue [reply 4])) = [reply 4]"
    by (simp_all add: demo_queue_def)
  moreover have "int_ok 0" by (simp add: int_ok_def)
  ultimately obtain s' where "thread_handler [] heap 1 (demo_queue [reply 4]) = Ok (True, s')"
    using worker_close [where i = 1 and sid = "int 1 + 1" and s = "demo_queue [reply 4]" and k = 4 and as = "[]" and r = 0 and fs = fs,
      OF demo_queue_woken] by auto
  then show ?thesis by (intro exI [of _ s'] server_step.worker_turn) (simp_all add: config)
qed

theorem turns_isolated_witness:
  "\<exists>s'. server_step 3 [] (\<lambda>_. 0) (demo_vars, demo_queue [reply 4]) (Worker 1) (demo_vars, s') \<and>
    sessions s' 0 = sessions (demo_queue [reply 4]) 0"
proof -
  obtain s' where s': "server_step 3 [] (\<lambda>_. 0) (demo_vars, demo_queue [reply 4]) (Worker 1) (demo_vars, s')"
    using demo_queue_turn by blast
  with turns_isolated [OF steps_one [where step = "server_step 3 [] (\<lambda>_. 0)", OF s'], of 0] show ?thesis by auto
qed

text \<open>
  A request is carried out whenever its worker gets its turn: an open request that waits in a session,
  with any turns of the other threads in between, is then executed by the file system of that moment on
  the client's name and flags, and its result is all that is written to the client's pipe.
\<close>
theorem queued_open_answered:
  assumes "woken i (open_bytes sid name flags @ rest) s" and "i < MAX_CLIENTS"
    and "steps (server_step fd pipename heap) (v, s) ts (v', s')" and "Worker i \<notin> set ts" and "Main (int i + 1) \<notin> set ts"
    and "0 \<notin> set name" and "length name < BUFFER_SIZE" and "int_ok flags" and "shutting_down_lock s' = Unlocked"
    and "tfs_open (Some name) flags (srv_fs s') = Ok (r, fs)" and "answers (srv_sys s') = reply k # as" and "k \<noteq> -1"
  shows "\<exists>s''. server_step fd pipename heap (v', s') (Worker i) (v', s'') \<and> answered i [int_bytes r] fs as s' s''"
proof -
  have "sessions s' i = sessions s i" using turns_unchanged [OF assms(3-5)] .
  then have "woken i (open_bytes sid name flags @ rest) s'" using assms(1,9) by (simp add: woken_def)
  from worker_open [OF this assms(6-8,10-12), of "[]" heap] obtain s'' where
    "thread_handler [] heap i s' = Ok (True, s'')" "answered i [int_bytes r] fs as s' s''" by blast
  then show ?thesis using server_step.worker_turn [OF assms(2)] by blast
qed

text \<open>Worker 1 closes a handle while session 0's request to open \<open>f1\<close> waits.\<close>

definition demo_waiting :: "answer list \<Rightarrow> server" where
  "demo_waiting as = (demo_queue as)\<lparr>sessions := (sessions (demo_queue as))(0 := (sessions (demo_queue as) 0)\<lparr>
     sess_buffer := open_bytes 1 (0x2F # f1) 0 @ replicate 1999 0\<rparr>)\<rparr>"

theorem queued_open_answered_witness:
  "\<exists>s1 s2 fs. server_step 3 [] (\<lambda>_. 0) (demo_vars, demo_waiting [reply 4, reply 4]) (Worker 1) (demo_vars, s1) \<and>
    server_step 3 [] (\<lambda>_. 0) (demo_vars, s1) (Worker 0) (demo_vars, s2) \<and> answered 0 [int_bytes 0] fs [] s1 s2"
proof -
  let ?s = "demo_waiting [reply 4, reply 4]"
  obtain fs where fs: "tfs_close 0 demo_written = Ok (0, fs)" "ready fs" "abs_fs fs = (abs_fs demo_written)\<lparr>a_open := (\<lambda>_. None)\<rparr>"
    using refine_tfs_close [OF demo_written(1), of 0] demo_written(2) by (auto simp: a_close_def fun_upd_idem)
  obtain fs' where fs': "tfs_open (path f1) 0 fs = Ok (0, fs')"
    using refine_tfs_open [OF fs(2) good_f1(1), of 0] fs(3) demo_written(2) by (auto simp: eval_abs)
  have woken1: "woken 1 (TFS_OP_CODE_CLOSE # int_bytes (int 1 + 1) @ int_bytes 0 @ replicate 2039 0) ?s"
    by (simp add: woken_def demo_waiting_def demo_queue_def)
  have woken0: "woken 0 (open_bytes 1 (0x2F # f1) 0 @ replicate 1999 0) ?s"
    by (simp add: woken_def demo_waiting_def demo_queue_def)
  have s: "srv_fs ?s = demo_written" "answers (srv_sys ?s) = [reply 4, reply 4]"
    by (simp_all add: demo_waiting_def demo_queue_def)
  have ok: "int_ok 0" by (simp add: int_ok_def)
  obtain s1 where s1: "thread_handler [] (\<lambda>_. 0) 1 ?s = Ok (True, s1)" "answered 1 [int_bytes 0] fs [reply 4] ?s s1"
    using worker_close [OF woken1 ok, of 0 fs 4 "[reply 4]" "[]" "\<lambda>_. 0"] fs(1) s by auto
  then have free: "shutting_down_lock s1 = Unlocked" by (simp add: answered_def)
  have turn: "server_step 3 [] (\<lambda>_. 0) (demo_vars, ?s) (Worker 1) (demo_vars, s1)"
    using server_step.worker_turn [of 1, OF _ s1(1)] by (simp add: config)
  have "0 \<notin> set (0x2F # f1)" "length (0x2F # f1) < BUFFER_SIZE" "0 < MAX_CLIENTS" by (simp_all add: f1_def config)
  from queued_open_answered [OF woken0 this(3) steps_one [where step = "server_step 3 [] (\<lambda>_. 0)", OF turn] _ _ this(1,2) ok,
      of 0 fs' 4 "[]"] s1 free fs' turn
  show ?thesis by (auto simp: answered_def path_def)
qed

text \<open>
  C37: The main thread does not look whether a session still has a request waiting: of two requests for
  the same session that arrive before its worker's turn only the second one is carried out and answered;
  the first is overwritten. A client must wait for each answer.
\<close>
theorem second_request_overwrites:
  assumes "shutting_down_lock s = Locked" and "idle i s" and "int_ok h2" and "k \<noteq> -1"
    and "answers (srv_sys s) = deliver [TFS_OP_CODE_CLOSE] # deliver (int_bytes (int i + 1)) # deliver (int_bytes h1) #
      deliver [TFS_OP_CODE_CLOSE] # deliver (int_bytes (int i + 1)) # deliver (int_bytes h2) # reply k # as"
    and "tfs_close h2 (srv_fs s) = Ok (r, fs)"
  shows "\<exists>v1 s1 v2 s2 s3. main_iteration fd pipename v s = Ok (Continue v1, s1) \<and>
    main_iteration fd pipename v1 s1 = Ok (Continue v2, s2) \<and>
    thread_handler ws heap i (s2\<lparr>shutting_down_lock := Unlocked\<rparr>) = Ok (True, s3) \<and>
    answered i [int_bytes r] fs as s s3"
proof -
  let ?req = "\<lambda>h. TFS_OP_CODE_CLOSE # int_bytes (int i + 1) @ int_bytes h"
  have ne: "int_bytes h \<noteq> []" for h using length_int_bytes [of h] by (metis list.size(3) zero_neq_numeral)
  have len: "length (concat [int_bytes h]) = CLOSE_SIZE_SERVER" for h by (simp add: config)
  let ?as1 = "deliver [TFS_OP_CODE_CLOSE] # deliver (int_bytes (int i + 1)) # deliver (int_bytes h2) # reply k # as"
  obtain v1 s1 where s1: "main_iteration fd pipename v s = Ok (Continue v1, s1)" "received i (?req h1) ?as1 s s1"
    using main_receives [OF assms(1,2), of TFS_OP_CODE_CLOSE "[int_bytes h1]" ?as1 CLOSE_SIZE_SERVER fd pipename v]
      assms(5) ne len [of h1] by auto
  have s1': "shutting_down_lock s1 = Locked" "idle i s1" "answers (srv_sys s1) = ?as1" "srv_fs s1 = srv_fs s"
    using s1(2) assms(2) by (simp_all add: received_def idle_def config)
  obtain v2 s2 where s2: "main_iteration fd pipename v1 s1 = Ok (Continue v2, s2)" "received i (?req h2) (reply k # as) s1 s2"
    using main_receives [OF s1'(1,2), of TFS_OP_CODE_CLOSE "[int_bytes h2]" "reply k # as" CLOSE_SIZE_SERVER fd pipename v1]
      s1'(3) ne len [of h2] by auto
  have w: "woken i (TFS_OP_CODE_CLOSE # int_bytes (int i + 1) @ int_bytes h2 @ drop (length (?req h2)) (sess_buffer (sessions s1 i)))
      (s2\<lparr>shutting_down_lock := Unlocked\<rparr>)"
    using received_woken [OF s2(2) s1'(2)] by simp
  have t: "answers (srv_sys (s2\<lparr>shutting_down_lock := Unlocked\<rparr>)) = reply k # as"
    "srv_fs (s2\<lparr>shutting_down_lock := Unlocked\<rparr>) = srv_fs s"
    using s2(2) s1'(4) by (simp_all add: received_def)
  obtain s3 where s3: "thread_handler ws heap i (s2\<lparr>shutting_down_lock := Unlocked\<rparr>) = Ok (True, s3)"
    "answered i [int_bytes r] fs as (s2\<lparr>shutting_down_lock := Unlocked\<rparr>) s3"
    using worker_close [OF w assms(3) _ t(1) assms(4)] assms(6) t(2) by metis
  have "answered i [int_bytes r] fs as s1 s3"
    using received_answered [OF s2(2) s3(2)] s1'(2) by (simp add: idle_def config)
  moreover have "sess_tx (sessions s1 i) = sess_tx (sessions s i)" "length (sess_buffer (sessions s1 i)) = length (sess_buffer (sessions s i))"
    "sent fd' (trace (srv_sys s1)) = sent fd' (trace (srv_sys s))" "shutting_down s1 = shutting_down s" for fd'
    using s1(2) assms(2) by (simp_all add: received_def idle_def config)
  ultimately have "answered i [int_bytes r] fs as s s3" by (simp add: answered_def)
  with s1(1) s2(1) s3(1) show ?thesis by blast
qed

definition demo_twice :: server where
  "demo_twice = demo_server demo_written (delivery (TFS_OP_CODE_CLOSE # int_bytes 1 @ int_bytes 0) @
     delivery (TFS_OP_CODE_CLOSE # int_bytes 1 @ int_bytes 7) @ [reply 4])"

theorem second_request_overwrites_witness:
  "\<exists>v1 s1 v2 s2 s3 fs. main_iteration 3 [] demo_vars demo_twice = Ok (Continue v1, s1) \<and>
    main_iteration 3 [] v1 s1 = Ok (Continue v2, s2) \<and>
    thread_handler [] (\<lambda>_. 0) 0 (s2\<lparr>shutting_down_lock := Unlocked\<rparr>) = Ok (True, s3) \<and>
    answered 0 [int_bytes (-1)] fs [] demo_twice s3"
proof -
  have ok: "int_ok 7" "idle 0 demo_twice" by (simp_all add: int_ok_def demo_twice_def demo_server_idle config)
  have as: "answers (srv_sys demo_twice) = deliver [TFS_OP_CODE_CLOSE] # deliver (int_bytes (int 0 + 1)) # deliver (int_bytes 0) #
      deliver [TFS_OP_CODE_CLOSE] # deliver (int_bytes (int 0 + 1)) # deliver (int_bytes 7) # reply 4 # []"
    by (simp add: demo_twice_def delivery_def drop_Cons')
  obtain fs where fs: "tfs_close 7 demo_written = Ok (-1, fs)"
    using refine_tfs_close [OF demo_written(1), of 7] demo_written(2) by (auto simp: a_close_def)
  have "shutting_down_lock demo_twice = Locked" "srv_fs demo_twice = demo_written" by (simp_all add: demo_twice_def)
  from second_request_overwrites [OF this(1) ok(2,1) _ as, of "-1" fs 3 "[]" demo_vars "[]" "\<lambda>_. 0"] this(2) fs
  obtain v1 s1 v2 s2 s3 where "main_iteration 3 [] demo_vars demo_twice = Ok (Continue v1, s1)"
    "main_iteration 3 [] v1 s1 = Ok (Continue v2, s2)"
    "thread_handler [] (\<lambda>_. 0) 0 (s2\<lparr>shutting_down_lock := Unlocked\<rparr>) = Ok (True, s3)"
    "answered 0 [int_bytes (-1)] fs [] demo_twice s3" by auto
  then show ?thesis by blast
qed

end
