(* ===== verification/System.thy ===== *)
theory System
  imports Pipes Server_Threads
begin

text \<open>
  Clients and server as one system (\<open>parte-2/client/tecnicofs_client_api.c\<close>, \<open>parte-2/fs/tfs_server.c\<close>): the
  processes run side by side and meet only in the operating system's pipes. A step is one system call of a
  client, or a turn of one of the server's threads with all the calls it makes. The specification is one
  atomic object: a call takes effect at one moment between the call and its return.
\<close>

section \<open>The calls of a client\<close>

text \<open>
  The calls of the client library, with their arguments: mounting, with the names of the client's and the server's
  pipe, shutting the server down, and the operations on files. Unmounting is not among them: the server answers it
  and then uses a dead pointer.
\<close>

datatype call =
    Call_mount cstring cstring
  | Call_shutdown
  | Call_open cstring int
  | Call_close nat
  | Call_write nat "byte list"
  | Call_read nat nat

text \<open>
  The library function a client runs; \<open>junk\<close> is what its local variables and its buffer hold before, which
  \<open>tfs_read\<close> overwrites up to the number of bytes it returns.
\<close>

fun client_call :: "(nat \<Rightarrow> byte) \<Rightarrow> call \<Rightarrow> client \<Rightarrow> (fs_res \<times> client) outcome" where
  "client_call junk (Call_mount client_pipe server_pipe) c = no_bytes (client_mount client_pipe server_pipe c)"
| "client_call junk Call_shutdown c = no_bytes (client_shutdown_after_all_closed (map junk [0..<4]) c)"
| "client_call junk (Call_open n flags) c = no_bytes (client_open (0x2F # n) flags (map junk [0..<4]) c)"
| "client_call junk (Call_close f) c = no_bytes (client_close (int f) (map junk [0..<4]) c)"
| "client_call junk (Call_write f data) c =
     no_bytes (client_write (int f) data (of_nat (length data)) (map junk [0..<8]) c)"
| "client_call junk (Call_read f len) c =
     and_then (client_read (int f) (map junk [0..<len]) (of_nat len) (map junk [0..<8]) c) (\<lambda>((r, buf), c).
     Ok ((r, take (nat r) buf), c))"

text \<open>The operation a call on files stands for.\<close>

fun fs_op_of :: "call \<Rightarrow> fs_op" where
  "fs_op_of (Call_open n flags) = Op_open n flags"
| "fs_op_of (Call_close f) = Op_close f"
| "fs_op_of (Call_write f data) = Op_write f data"
| "fs_op_of (Call_read f len) = Op_read f len"

section \<open>The system\<close>

text \<open>
  A client between two calls has no entry in \<open>sys_calls\<close>; one inside a call has the call and the answers
  its system calls got so far, from which the library function is run again to find its next step.
\<close>

record system =
  sys_os :: os
  sys_vars :: main_vars
  sys_server :: server
  sys_clients :: "nat \<Rightarrow> client"
  sys_calls :: "nat \<Rightarrow> (call \<times> answer list) option"

definition server_with :: "server \<Rightarrow> answer list \<Rightarrow> server" where
  "server_with s as = s\<lparr>srv_sys := (srv_sys s)\<lparr>answers := as\<rparr>\<rparr>"

definition client_with :: "client \<Rightarrow> answer list \<Rightarrow> client" where
  "client_with c as = c\<lparr>c_sys := (c_sys c)\<lparr>answers := as\<rparr>\<rparr>"

datatype event = Call nat call | Answered nat | Main_turn | Worker_turn nat | Returned nat fs_res

inductive system_step :: "int \<Rightarrow> cstring \<Rightarrow> (nat \<Rightarrow> byte) \<Rightarrow> (nat \<Rightarrow> byte) \<Rightarrow> system \<Rightarrow> event \<Rightarrow> system \<Rightarrow> bool"
  for fd pipename heap junk where
  call: "sys_calls S i = None \<Longrightarrow>
    system_step fd pipename heap junk S (Call i x) (S\<lparr>sys_calls := (sys_calls S)(i \<mapsto> (x, []))\<rparr>)"
| answered: "sys_calls S i = Some (x, as) \<Longrightarrow>
    client_call junk x (client_with (sys_clients S i) as) = Fault (Waiting c) \<Longrightarrow>
    os_call (Client_proc i) c (sys_os S) = Some (a, w) \<Longrightarrow>
    system_step fd pipename heap junk S (Answered i) (S\<lparr>sys_os := w, sys_calls := (sys_calls S)(i \<mapsto> (x, as @ [a]))\<rparr>)"
| return: "sys_calls S i = Some (x, as) \<Longrightarrow>
    client_call junk x (client_with (sys_clients S i) as) = Ok (r, c) \<Longrightarrow>
    system_step fd pipename heap junk S (Returned i r)
      (S\<lparr>sys_clients := (sys_clients S)(i := c), sys_calls := (sys_calls S)(i := None)\<rparr>)"
| main: "shutting_down_lock (sys_server S) = Unlocked \<Longrightarrow>
    os_run Server_proc (\<lambda>as. main_iteration fd pipename (sys_vars S) ((server_with (sys_server S) as)\<lparr>shutting_down_lock := Locked\<rparr>))
      [] (sys_os S) (Continue v, s) w \<Longrightarrow> shutting_down_lock s = Locked \<Longrightarrow> \<not> shutting_down s \<Longrightarrow>
    system_step fd pipename heap junk S Main_turn
      (S\<lparr>sys_os := w, sys_vars := v, sys_server := s\<lparr>shutting_down_lock := Unlocked\<rparr>\<rparr>)"
| worker: "i < MAX_CLIENTS \<Longrightarrow>
    os_run Server_proc (\<lambda>as. thread_handler [] heap i (server_with (sys_server S) as)) [] (sys_os S) (True, s) w \<Longrightarrow>
    system_step fd pipename heap junk S (Worker_turn i) (S\<lparr>sys_os := w, sys_server := s\<rparr>)"

inductive_cases system_stepE: "system_step fd pipename heap junk S e S'"

section \<open>The atomic object\<close>

text \<open>
  For each client: between calls, in a call that has not taken effect, or in one that has taken effect
  with its result; and the abstract file system. A call takes effect in the turn of the client's worker.
\<close>

datatype progress = No_call | Pending call | Done fs_res

type_synonym atomic = "(nat \<Rightarrow> progress) \<times> afs"

fun atomic_next :: "event \<Rightarrow> atomic \<Rightarrow> atomic option" where
  "atomic_next (Call i x) (p, a) = (if p i = No_call then Some (p(i := Pending x), a) else None)"
| "atomic_next (Worker_turn i) (p, a) = (case p i of
     Pending x \<Rightarrow> (case a_step (fs_op_of x) a of (r, a) \<Rightarrow> Some (p(i := Done r), a))
   | _ \<Rightarrow> None)"
| "atomic_next (Returned i r) (p, a) = (if p i = Done r then Some (p(i := No_call), a) else None)"
| "atomic_next (Answered i) (p, a) = Some (p, a)"
| "atomic_next Main_turn (p, a) = Some (p, a)"

fun atomic_run :: "event list \<Rightarrow> atomic \<Rightarrow> atomic option" where
  "atomic_run [] A = Some A"
| "atomic_run (e # es) A = (case atomic_next e A of None \<Rightarrow> None | Some A \<Rightarrow> atomic_run es A)"

text \<open>
  What well-behaved clients respect once they have mounted. When calling: no second mount and no shutdown, a name that fits the
  request, arguments of their C types, a write that fits the session's buffer, a read of at least one byte. When the call
  takes effect: what the file system asks for (\<open>allowed\<close>: a proper name, no truncation of a file open elsewhere, reads
  and writes only through open handles).
\<close>

fun call_ok :: "call \<Rightarrow> bool" where
  "call_ok (Call_mount client_pipe server_pipe) \<longleftrightarrow> False"
| "call_ok Call_shutdown \<longleftrightarrow> False"
| "call_ok (Call_open n flags) \<longleftrightarrow> 0 \<notin> set n \<and> length (0x2F # n) < BUFFER_SIZE \<and> int_ok flags"
| "call_ok (Call_close f) \<longleftrightarrow> int_ok (int f)"
| "call_ok (Call_write f data) \<longleftrightarrow> int_ok (int f) \<and> 17 + length data \<le> MAX_REQUEST_SIZE"
| "call_ok (Call_read f len) \<longleftrightarrow> int_ok (int f) \<and> 0 < len \<and> len < 18446744073709551616"

definition effect_ok :: "call \<Rightarrow> afs \<Rightarrow> bool" where
  "effect_ok x a \<longleftrightarrow> allowed (fs_op_of x) a"

text \<open>\<open>k\<close> is the number of clients.\<close>

fun event_ok :: "nat \<Rightarrow> event \<Rightarrow> atomic \<Rightarrow> bool" where
  "event_ok k (Call i x) (p, a) \<longleftrightarrow> i < k \<and> call_ok x"
| "event_ok k (Worker_turn i) (p, a) \<longleftrightarrow> (case p i of Pending x \<Rightarrow> effect_ok x a | _ \<Rightarrow> True)"
| "event_ok k _ _ \<longleftrightarrow> True"

fun behaved :: "nat \<Rightarrow> event list \<Rightarrow> atomic \<Rightarrow> bool" where
  "behaved k [] A \<longleftrightarrow> True"
| "behaved k (e # es) A \<longleftrightarrow> event_ok k e A \<and> (case atomic_next e A of None \<Rightarrow> True | Some A \<Rightarrow> behaved k es A)"

lemma atomic_run_append:
  "atomic_run (es @ es') A = (case atomic_run es A of None \<Rightarrow> None | Some A \<Rightarrow> atomic_run es' A)"
  by (induction es arbitrary: A) (auto split: option.splits)

lemma behaved_append:
  "behaved k (es @ es') A \<longleftrightarrow> behaved k es A \<and> (case atomic_run es A of None \<Rightarrow> True | Some A \<Rightarrow> behaved k es' A)"
  by (induction es arbitrary: A) (auto split: option.splits)

end
