(* ===== verification/System_Calls.thy ===== *)
theory System_Calls
  imports System
begin

text \<open>
  The parties of the system one by one: which system call a client, the main thread or a worker waits in
  after each answer, and what it has done when it returns.
\<close>

section \<open>Requests and replies\<close>

fun request_bytes :: "nat \<Rightarrow> call \<Rightarrow> byte list" where
  "request_bytes i (Call_mount client_pipe server_pipe) = TFS_OP_CODE_MOUNT # client_pipe @ replicate (BUFFER_SIZE - length client_pipe) 0"
| "request_bytes i Call_shutdown = TFS_OP_CODE_SHUTDOWN # int_bytes (int i + 1)"
| "request_bytes i (Call_open n flags) = open_bytes (int i + 1) (0x2F # n) flags"
| "request_bytes i (Call_close f) = TFS_OP_CODE_CLOSE # int_bytes (int i + 1) @ int_bytes (int f)"
| "request_bytes i (Call_write f data) =
     TFS_OP_CODE_WRITE # int_bytes (int i + 1) @ int_bytes (int f) @ size_bytes (of_nat (length data)) @ data"
| "request_bytes i (Call_read f len) =
     TFS_OP_CODE_READ # int_bytes (int i + 1) @ int_bytes (int f) @ size_bytes (of_nat len)"

text \<open>What the worker writes to the client's pipe, piece by piece, and the bytes each read of the client asks for.\<close>

fun reply_chunks :: "call \<Rightarrow> fs_res \<Rightarrow> byte list list" where
  "reply_chunks (Call_mount client_pipe server_pipe) (r, bs) = [int_bytes r]"
| "reply_chunks Call_shutdown (r, bs) = [int_bytes r]"
| "reply_chunks (Call_open n flags) (r, bs) = [int_bytes r]"
| "reply_chunks (Call_close f) (r, bs) = [int_bytes r]"
| "reply_chunks (Call_write f data) (r, bs) = [ssize_bytes r]"
| "reply_chunks (Call_read f len) (r, bs) = [ssize_bytes r, bs]"

fun chunk_sizes :: "call \<Rightarrow> nat list" where
  "chunk_sizes (Call_mount client_pipe server_pipe) = [4]"
| "chunk_sizes Call_shutdown = [4]"
| "chunk_sizes (Call_open n flags) = [4]"
| "chunk_sizes (Call_close f) = [4]"
| "chunk_sizes (Call_write f data) = [8]"
| "chunk_sizes (Call_read f len) = [8, len]"

definition result_ok :: "call \<Rightarrow> fs_res \<Rightarrow> bool" where
  "result_ok x res \<longleftrightarrow> (case res of (r, bs) \<Rightarrow> int_ok r \<and>
     (case x of Call_read f len \<Rightarrow> r = int (length bs) \<and> length bs \<le> len \<and> length bs \<le> BLOCK_SIZE
      | _ \<Rightarrow> bs = []))"

lemma length_chunk_sizes [simp]: "length (chunk_sizes x) = length (reply_chunks x res)"
  by (cases x; cases res) auto

lemma length_reply_chunks: "0 < length (reply_chunks x res) \<and> length (reply_chunks x res) \<le> 2"
  by (cases x; cases res) auto

lemma bytes_ssize_ssize_bytes: "int_ok r \<Longrightarrow> bytes_ssize (ssize_bytes r) = r"
proof -
  assume "int_ok r"
  then have "signed_take_bit 63 r = r" by (intro signed_take_bit_int_eq_self) (auto simp: int_ok_def)
  then have "sint (of_int r :: size_t) = r" by (simp add: sint_sbintrunc')
  then show ?thesis by (simp add: bytes_ssize_def ssize_bytes_def bytes_size_bytes)
qed

lemma length_ssize_bytes [simp]: "length (ssize_bytes r) = 8"
  by (simp add: ssize_bytes_def)

section \<open>The client\<close>

lemma client_with_sel [simp]:
  "rx (client_with c as) = rx c" "tx (client_with c as) = tx c" "session_id (client_with c as) = session_id c"
  "answers (c_sys (client_with c as)) = as" "errno (c_sys (client_with c as)) = errno (c_sys c)"
  "(client_with c as)\<lparr>c_sys := w\<rparr> = c\<lparr>c_sys := w\<rparr>"
  by (simp_all add: client_with_def)

lemma request_length: "call_ok x \<Longrightarrow> 0 < length (request_bytes i x) \<and> length (request_bytes i x) \<le> 2048"
  by (cases x) (auto simp: open_bytes_def config)

text \<open>The call that sends a request, as a whole.\<close>

lemma send_waits:
  assumes "answers (c_sys c) = []" and "req \<noteq> []" and "length req \<le> 2048"
  shows "send_request req c = Fault (Waiting (Sys_write (tx c) req))"
proof -
  have "(0 :: size_t) < of_nat (length req)"
    using assms(2,3) unat_of_nat_small [of "length req"] by (simp add: word_less_nat_alt)
  then show ?thesis using assms unat_of_nat_small [of "length req"]
    by (simp add: send_request_def client_write_buffer_def write_loop.simps [of _ _ _ 0] buf_get_def syscall_def)
qed

lemma send_done:
  assumes "answers (c_sys c) = reply (int (length req)) # as" and "req \<noteq> []" and "length req \<le> 2048"
    and "errno (c_sys c) \<noteq> EPIPE"
  shows "\<exists>w. send_request req c = Ok (True, c\<lparr>c_sys := w\<rparr>) \<and> answers w = as \<and> errno w = errno (c_sys c)"
proof -
  have "(0 :: size_t) < of_nat (length req)"
    using assms(2,3) unat_of_nat_small [of "length req"] by (simp add: word_less_nat_alt)
  then show ?thesis using assms unat_of_nat_small [of "length req"]
    by (intro exI [of _ "(c_sys c)\<lparr>answers := as, trace := trace (c_sys c) @ [Sys_write (tx c) req]\<rparr>"])
       (simp add: send_request_def client_write_buffer_def write_loop.simps [of _ _ _ 0] buf_get_def syscall_def reply_def
        write_loop.simps [of _ _ "of_nat (length req)" "of_nat (length req)"])
qed

lemma receive_waits: "answers (c_sys c) = [] \<Longrightarrow> receive junk c = Fault (Waiting (Sys_read (rx c) (length junk)))"
  by (simp add: receive_def do_call_def syscall_def)

lemma receive_done:
  assumes "answers (c_sys c) = deliver bs # as" and "length bs = length junk" and "errno (c_sys c) \<noteq> EPIPE"
  shows "\<exists>w. receive junk c = Ok (Some bs, c\<lparr>c_sys := w\<rparr>) \<and> answers w = as \<and> errno w = errno (c_sys c)"
  using assms
  by (intro exI [of _ "(c_sys c)\<lparr>answers := as, trace := trace (c_sys c) @ [Sys_read (rx c) (length junk)]\<rparr>"])
     (simp add: receive_def do_call_def syscall_def deliver_def)

text \<open>The three calls that are one round trip.\<close>

lemma rpc_waits_to_send:
  "answers (c_sys c) = [] \<Longrightarrow> req \<noteq> [] \<Longrightarrow> length req \<le> 2048 \<Longrightarrow>
    client_rpc (Ok req) junk decode c = Fault (Waiting (Sys_write (tx c) req))"
  by (simp add: client_rpc_def send_waits)

lemma rpc_waits_for_answer:
  assumes "answers (c_sys c) = [reply (int (length req))]" and "req \<noteq> []" and "length req \<le> 2048"
    and "errno (c_sys c) \<noteq> EPIPE"
  shows "client_rpc (Ok req) junk decode c = Fault (Waiting (Sys_read (rx c) (length junk)))"
  using send_done [OF assms] by (auto simp: client_rpc_def receive_waits)

lemma rpc_returns:
  assumes "answers (c_sys c) = [reply (int (length req)), deliver bs]" and "req \<noteq> []" and "length req \<le> 2048"
    and "errno (c_sys c) \<noteq> EPIPE" and "length bs = length junk"
  shows "\<exists>w. client_rpc (Ok req) junk decode c = Ok (decode bs, c\<lparr>c_sys := w\<rparr>) \<and> errno w = errno (c_sys c)"
proof -
  obtain w where w: "send_request req c = Ok (True, c\<lparr>c_sys := w\<rparr>)" "answers w = [deliver bs]" "errno w = errno (c_sys c)"
    using send_done [OF assms(1-4)] by auto
  with receive_done [of "c\<lparr>c_sys := w\<rparr>" bs "[]" junk] assms(4,5) show ?thesis by (auto simp: client_rpc_def)
qed

text \<open>A client before its request is sent, while it waits for the answer, and at its return.\<close>

lemma client_sends:
  assumes "call_ok x" and "session_id c = int i + 1"
  shows "client_call junk x (client_with c []) = Fault (Waiting (Sys_write (tx c) (request_bytes i x)))"
proof -
  have "request_bytes i x \<noteq> []" "length (request_bytes i x) \<le> 2048" using request_length [OF assms(1), of i] by auto
  then show ?thesis using assms
    by (cases x) (simp_all add: no_bytes_def client_open_def client_close_def client_write_def client_read_def
        open_request_eq close_request_eq write_request_eq read_request_eq rpc_waits_to_send send_waits unat_of_nat_small config)
qed

lemma client_waits:
  assumes "call_ok x" and "session_id c = int i + 1" and "errno (c_sys c) \<noteq> EPIPE" and "j < length (reply_chunks x res)"
  shows "client_call junk x (client_with c (reply (int (length (request_bytes i x))) # map deliver (take j (reply_chunks x res)))) =
    Fault (Waiting (Sys_read (rx c) (chunk_sizes x ! j)))"
proof -
  obtain r bs where res: "res = (r, bs)" by (cases res)
  have req: "request_bytes i x \<noteq> []" "length (request_bytes i x) \<le> 2048" using request_length [OF assms(1), of i] by auto
  show ?thesis
  proof (cases x)
    case (Call_read f len)
    let ?c = "client_with c (reply (int (length (request_bytes i x))) # map deliver (take j (reply_chunks x res)))"
    obtain w where w: "send_request (request_bytes i x) ?c = Ok (True, ?c\<lparr>c_sys := w\<rparr>)"
      "answers w = map deliver (take j (reply_chunks x res))" "errno w = errno (c_sys c)"
      using send_done [of ?c "request_bytes i x" "map deliver (take j (reply_chunks x res))"] req assms(3) by auto
    have len: "unat (of_nat len :: size_t) = len" using assms(1) Call_read by (simp add: unat_of_nat_small)
    consider "j = 0" | "j = 1" using assms(4) Call_read res by fastforce
    then show ?thesis
    proof cases
      case 1
      then have "client_call junk x ?c = Fault (Waiting (Sys_read (rx c) 8))"
        using w Call_read assms(2) receive_waits [of "?c\<lparr>c_sys := w\<rparr>" "map junk [0..<8]"]
        by (simp add: client_read_def read_request_eq)
      with 1 Call_read show ?thesis by simp
    next
      case 2
      then have as: "answers w = [deliver (ssize_bytes r)]" using w(2) Call_read res by simp
      obtain w' where w': "receive (map junk [0..<8]) (?c\<lparr>c_sys := w\<rparr>) = Ok (Some (ssize_bytes r), ?c\<lparr>c_sys := w'\<rparr>)" "answers w' = []"
        using receive_done [of "?c\<lparr>c_sys := w\<rparr>" "ssize_bytes r" "[]" "map junk [0..<8]"] as w(3) assms(3) by auto
      have "client_call junk x ?c = Fault (Waiting (Sys_read (rx c) len))"
        using w(1) w' Call_read assms(2) len by (simp add: client_read_def read_request_eq do_call_def syscall_def)
      with 2 Call_read show ?thesis by simp
    qed
  qed (use req assms in \<open>simp_all add: res no_bytes_def client_open_def client_close_def client_write_def
      open_request_eq close_request_eq write_request_eq rpc_waits_for_answer unat_of_nat_small config\<close>)
qed

lemma client_returns:
  assumes "call_ok x" and "session_id c = int i + 1" and "errno (c_sys c) \<noteq> EPIPE" and "result_ok x res"
  shows "\<exists>w. client_call junk x (client_with c (reply (int (length (request_bytes i x))) # map deliver (reply_chunks x res))) =
    Ok (res, c\<lparr>c_sys := w\<rparr>) \<and> errno w = errno (c_sys c)"
proof -
  obtain r bs where res: "res = (r, bs)" by (cases res)
  have req: "request_bytes i x \<noteq> []" "length (request_bytes i x) \<le> 2048" using request_length [OF assms(1), of i] by auto
  have r: "bytes_int (int_bytes r) = r" "bytes_ssize (ssize_bytes r) = r"
    using assms(4) by (auto simp: result_ok_def res bytes_int_bytes bytes_ssize_ssize_bytes)
  let ?c = "client_with c (reply (int (length (request_bytes i x))) # map deliver (reply_chunks x res))"
  show ?thesis
  proof (cases x)
    case (Call_read f len)
    have len: "unat (of_nat len :: size_t) = len" using assms(1) Call_read by (simp add: unat_of_nat_small)
    have bs: "r = int (length bs)" "length bs \<le> len" using assms(4) Call_read by (simp_all add: result_ok_def res)
    obtain w where w: "send_request (request_bytes i x) ?c = Ok (True, ?c\<lparr>c_sys := w\<rparr>)"
      "answers w = [deliver (ssize_bytes r), deliver bs]" "errno w = errno (c_sys c)"
      using send_done [of ?c "request_bytes i x" "map deliver (reply_chunks x res)"] req assms(3) Call_read res by auto
    obtain w' where w': "receive (map junk [0..<8]) (?c\<lparr>c_sys := w\<rparr>) = Ok (Some (ssize_bytes r), ?c\<lparr>c_sys := w'\<rparr>)"
      "answers w' = [deliver bs]" "errno w' = errno (c_sys c)"
      using receive_done [of "?c\<lparr>c_sys := w\<rparr>" "ssize_bytes r" "[deliver bs]" "map junk [0..<8]"] w(2,3) assms(3) by auto
    show ?thesis
      using w(1) w' Call_read assms(2,3) len bs r(2)
      by (intro exI [of _ "w'\<lparr>answers := [], trace := trace w' @ [Sys_read (rx c) len]\<rparr>"])
         (simp add: client_read_def read_request_eq do_call_def syscall_def deliver_def buf_put_def res)
  next
    case (Call_open n flags)
    with rpc_returns [of ?c "request_bytes i x" "int_bytes r" "map junk [0..<4]" bytes_int] req assms r show ?thesis
      by (auto simp: no_bytes_def client_open_def open_request_eq res result_ok_def config)
  next
    case (Call_close f)
    with rpc_returns [of ?c "request_bytes i x" "int_bytes r" "map junk [0..<4]" bytes_int] req assms r show ?thesis
      by (auto simp: no_bytes_def client_close_def close_request_eq res result_ok_def)
  next
    case (Call_write f data)
    with rpc_returns [of ?c "request_bytes i x" "ssize_bytes r" "map junk [0..<8]" bytes_ssize] req assms r show ?thesis
      by (auto simp: no_bytes_def client_write_def write_request_eq unat_of_nat_small res result_ok_def config)
  qed (use assms(1) in simp_all)
qed

section \<open>The main thread\<close>

lemma server_with_sel [simp]:
  "sessions (server_with s as) = sessions s" "srv_fs (server_with s as) = srv_fs s"
  "shutting_down_lock (server_with s as) = shutting_down_lock s" "shutting_down (server_with s as) = shutting_down s"
  "answers (srv_sys (server_with s as)) = as"
  by (simp_all add: server_with_def)

text \<open>The calls it waits in, request by request.\<close>

lemma main_waits:
  assumes "shutting_down_lock s = Locked"
  shows "answers (srv_sys s) = [] \<Longrightarrow> main_iteration fd pipename v s = Fault (Waiting (Sys_read fd 1))"
    and "answers (srv_sys s) = [deliver [op_code]] \<Longrightarrow> op_code \<noteq> TFS_OP_CODE_MOUNT \<Longrightarrow>
      main_iteration fd pipename v s = Fault (Waiting (Sys_read fd 4))"
  using assms by (simp_all add: main_iteration_def receive_request_def server_steps syscall_def deliver_def check_pipe_open_def)

lemma main_waits_body:
  assumes "shutting_down_lock s = Locked" and "idle i s"
    and "answers (srv_sys s) = deliver [op_code] # deliver (int_bytes (int i + 1)) # as"
  shows "as = [] \<Longrightarrow> (op_code, n) \<in> {(TFS_OP_CODE_OPEN, OPEN_SIZE_SERVER), (TFS_OP_CODE_CLOSE, CLOSE_SIZE_SERVER),
      (TFS_OP_CODE_READ, READ_SIZE_SERVER), (TFS_OP_CODE_WRITE, 4)} \<Longrightarrow>
      main_iteration fd pipename v s = Fault (Waiting (Sys_read fd n))"
    and "as = [deliver bs] \<Longrightarrow> length bs = 4 \<Longrightarrow> op_code = TFS_OP_CODE_WRITE \<Longrightarrow>
      main_iteration fd pipename v s = Fault (Waiting (Sys_read fd 8))"
    and "as = [deliver bs, deliver (size_bytes len)] \<Longrightarrow> length bs = 4 \<Longrightarrow> op_code = TFS_OP_CODE_WRITE \<Longrightarrow>
      0 < len \<Longrightarrow> main_iteration fd pipename v s = Fault (Waiting (Sys_read fd (unat len)))"
proof -
  let ?buf = "sess_buffer (sessions s i)"
  have i: "i < MAX_CLIENTS" "session_lock (sessions s i) = Unlocked" "length ?buf = 2048"
    using assms(2) by (auto simp: idle_def config)
  have sid: "int_ok (int i + 1)" "session_at (int i + 1) = Ok i" using i(1) by (auto simp: int_ok_def session_at_def config)
  note eval = main_iteration_def receive_request_def receive_rest_def receive_write_def server_steps syscall_def deliver_def
    check_pipe_open_def bytes_int_bytes bytes_size_bytes op_codes buf_put_def config read_buffer_def read_loop.simps [of fd _ _ 0]
  show "as = [] \<Longrightarrow> (op_code, n) \<in> {(TFS_OP_CODE_OPEN, OPEN_SIZE_SERVER), (TFS_OP_CODE_CLOSE, CLOSE_SIZE_SERVER),
      (TFS_OP_CODE_READ, READ_SIZE_SERVER), (TFS_OP_CODE_WRITE, 4)} \<Longrightarrow>
      main_iteration fd pipename v s = Fault (Waiting (Sys_read fd n))"
    using assms i sid by (auto simp: eval)
  show "as = [deliver bs] \<Longrightarrow> length bs = 4 \<Longrightarrow> op_code = TFS_OP_CODE_WRITE \<Longrightarrow>
      main_iteration fd pipename v s = Fault (Waiting (Sys_read fd 8))"
    using assms i sid by (simp add: eval)
  show "as = [deliver bs, deliver (size_bytes len)] \<Longrightarrow> length bs = 4 \<Longrightarrow> op_code = TFS_OP_CODE_WRITE \<Longrightarrow>
      0 < len \<Longrightarrow> main_iteration fd pipename v s = Fault (Waiting (Sys_read fd (unat len)))"
    using assms i sid by (simp add: eval)
qed

text \<open>
  With a request at the front of the pipe the turn is determined: it takes exactly the request out, and the
  session has it.
\<close>

lemma read_run:
  assumes "f as = Fault (Waiting (Sys_read fd (length bs)))" and "reads_from w p fd q"
    and "pipe_data w q = bs @ rest" and "bs \<noteq> []"
  shows "os_run p f as w y w' \<longleftrightarrow> os_run p f (as @ [deliver bs]) (w\<lparr>pipe_data := (pipe_data w)(q := rest)\<rparr>) y w'"
  using os_reads [OF assms(2), of "length bs"] assms(3,4) by (subst os_run_Waiting [of f as, OF assms(1)]) simp_all

abbreviation main_with :: "int \<Rightarrow> cstring \<Rightarrow> main_vars \<Rightarrow> server \<Rightarrow> answer list \<Rightarrow> (main_next \<times> server) outcome" where
  "main_with fd pipename v s as \<equiv> main_iteration fd pipename v ((server_with s as)\<lparr>shutting_down_lock := Locked\<rparr>)"

lemma int_bytes_not_Nil [simp]: "int_bytes v \<noteq> []" "[] \<noteq> int_bytes v"
  using length_int_bytes [of v] by (metis list.size(3) zero_neq_numeral)+

lemma size_bytes_not_Nil [simp]: "size_bytes v \<noteq> []"
  using length_size_bytes [of v] by (metis list.size(3) zero_neq_numeral)

lemma main_run_head:
  assumes "idle i s" and "reads_from w Server_proc fd q"
    and "pipe_data w q = op_code # int_bytes (int i + 1) @ rest" and "op_code \<noteq> TFS_OP_CODE_MOUNT"
  shows "os_run Server_proc (main_with fd pipename v s) [] w y w' \<longleftrightarrow>
    os_run Server_proc (main_with fd pipename v s) [deliver [op_code], deliver (int_bytes (int i + 1))]
      (w\<lparr>pipe_data := (pipe_data w)(q := rest)\<rparr>) y w'"
proof -
  let ?f = "main_with fd pipename v s" and ?w = "\<lambda>b. w\<lparr>pipe_data := (pipe_data w)(q := b)\<rparr>"
  have "os_run Server_proc ?f [] w y w' \<longleftrightarrow> os_run Server_proc ?f [deliver [op_code]] (?w (int_bytes (int i + 1) @ rest)) y w'"
    using read_run [of ?f "[]" fd "[op_code]" w Server_proc q "int_bytes (int i + 1) @ rest"] assms by (simp add: main_waits)
  also have "\<dots> \<longleftrightarrow> os_run Server_proc ?f [deliver [op_code], deliver (int_bytes (int i + 1))] (?w rest) y w'"
    using read_run [of ?f "[deliver [op_code]]" fd "int_bytes (int i + 1)" "?w (int_bytes (int i + 1) @ rest)" Server_proc q rest] assms
    by (simp add: main_waits)
  finally show ?thesis .
qed

text \<open>A request whose rest is read in one piece, and a write.\<close>

lemma main_takes_rest:
  assumes "idle i s" and "reads_from w Server_proc fd q"
    and "pipe_data w q = op_code # int_bytes (int i + 1) @ body @ rest"
    and "(op_code, length body) \<in> {(TFS_OP_CODE_OPEN, OPEN_SIZE_SERVER), (TFS_OP_CODE_CLOSE, CLOSE_SIZE_SERVER),
      (TFS_OP_CODE_READ, READ_SIZE_SERVER)}"
  shows "\<exists>v' s'. received i (op_code # int_bytes (int i + 1) @ body) [] s s' \<and>
    (\<forall>y w'. os_run Server_proc (main_with fd pipename v s) [] w y w' \<longleftrightarrow>
      y = (Continue v', s') \<and> w' = w\<lparr>pipe_data := (pipe_data w)(q := rest)\<rparr>)"
proof -
  let ?f = "main_with fd pipename v s" and ?as = "[deliver [op_code], deliver (int_bytes (int i + 1))]"
  let ?s = "\<lambda>as. (server_with s as)\<lparr>shutting_down_lock := Locked\<rparr>" and ?w = "\<lambda>b. w\<lparr>pipe_data := (pipe_data w)(q := b)\<rparr>"
  have idle: "idle i (?s as)" for as using assms(1) by (simp add: idle_def)
  have ne: "body \<noteq> []" "op_code \<noteq> TFS_OP_CODE_MOUNT" using assms(4) by (auto simp: config op_codes)
  obtain v' s' where s': "?f (?as @ [deliver body]) = Ok (Continue v', s')"
    "received i (op_code # int_bytes (int i + 1) @ body) [] (?s (?as @ [deliver body])) s'"
    using main_receives [of "?s (?as @ [deliver body])" i op_code "[body]" "[]" "length body" fd pipename v] idle ne assms(4) by auto
  have wait: "?f ?as = Fault (Waiting (Sys_read fd (length body)))"
    using main_waits_body(1) [of "?s ?as" i op_code "[]" "length body" fd pipename v] idle assms(4) by auto
  have "os_run Server_proc ?f [] w y w' \<longleftrightarrow> y = (Continue v', s') \<and> w' = ?w rest" for y w'
    using main_run_head [OF assms(1,2), of op_code "body @ rest" pipename v y w'] assms(2,3) ne s'(1)
      read_run [of ?f ?as fd body "?w (body @ rest)" Server_proc q rest y w', OF wait]
    by (simp add: os_run_Ok)
  moreover have "received i (op_code # int_bytes (int i + 1) @ body) [] s s'"
    using s'(2) by (simp add: received_def server_with_def)
  ultimately show ?thesis by blast
qed

lemma main_takes_write:
  assumes "idle i s" and "reads_from w Server_proc fd q"
    and "pipe_data w q = TFS_OP_CODE_WRITE # int_bytes (int i + 1) @ int_bytes h @ size_bytes len @ data @ rest"
    and "length data = unat len" and "17 + unat len \<le> MAX_REQUEST_SIZE"
  shows "\<exists>v' s'. received i (TFS_OP_CODE_WRITE # int_bytes (int i + 1) @ int_bytes h @ size_bytes len @ data) [] s s' \<and>
    (\<forall>y w'. os_run Server_proc (main_with fd pipename v s) [] w y w' \<longleftrightarrow>
      y = (Continue v', s') \<and> w' = w\<lparr>pipe_data := (pipe_data w)(q := rest)\<rparr>)"
proof -
  let ?f = "main_with fd pipename v s"
  let ?as = "[deliver [TFS_OP_CODE_WRITE], deliver (int_bytes (int i + 1))]"
  let ?head = "[deliver (int_bytes h), deliver (size_bytes len)]"
  let ?s = "\<lambda>as. (server_with s as)\<lparr>shutting_down_lock := Locked\<rparr>" and ?w = "\<lambda>b. w\<lparr>pipe_data := (pipe_data w)(q := b)\<rparr>"
  have idle: "idle i (?s as)" for as using assms(1) by (simp add: idle_def)
  define cs where "cs = (if data = [] then [] else [data])"
  have cs: "concat cs = data" "\<forall>c \<in> set cs. c \<noteq> []" by (simp_all add: cs_def)
  obtain v' s' where s': "?f (?as @ ?head @ map deliver cs) = Ok (Continue v', s')"
    "received i (TFS_OP_CODE_WRITE # int_bytes (int i + 1) @ int_bytes h @ size_bytes len @ data) [] (?s (?as @ ?head @ map deliver cs)) s'"
    using main_receives_write [OF _ idle _ cs(2), of "?as @ ?head @ map deliver cs" h len "[]" fd pipename v] cs(1) assms(4,5)
    by auto
  have op: "TFS_OP_CODE_WRITE \<noteq> TFS_OP_CODE_MOUNT" by (simp add: op_codes)
  note body = main_waits_body [of "?s as" i TFS_OP_CODE_WRITE for as]
  have w1: "?f ?as = Fault (Waiting (Sys_read fd 4))"
    using body(1) [of ?as "[]" 4 fd pipename v] idle by simp
  have w2: "?f (?as @ [deliver (int_bytes h)]) = Fault (Waiting (Sys_read fd 8))"
    using body(2) [of "?as @ [deliver (int_bytes h)]" "[deliver (int_bytes h)]" "int_bytes h" fd pipename v] idle by simp
  have w3: "?f (?as @ ?head) = Fault (Waiting (Sys_read fd (length data)))" if "data \<noteq> []"
    using body(3) [of "?as @ ?head" ?head "int_bytes h" len fd pipename v] idle assms(4) that
    by (auto simp: word_less_nat_alt simp flip: length_greater_0_conv)
  note wait = w1 w2 w3
  have "os_run Server_proc ?f [] w y w' \<longleftrightarrow>
      os_run Server_proc ?f (?as @ ?head) (?w (data @ rest)) y w'" for y w'
    using main_run_head [OF assms(1-3) op, of pipename v y w'] assms(2) wait
      read_run [of ?f ?as fd "int_bytes h" "?w (int_bytes h @ size_bytes len @ data @ rest)" Server_proc q "size_bytes len @ data @ rest" y w']
      read_run [of ?f "?as @ [deliver (int_bytes h)]" fd "size_bytes len" "?w (size_bytes len @ data @ rest)" Server_proc q "data @ rest" y w']
    by simp
  moreover have "os_run Server_proc ?f (?as @ ?head) (?w (data @ rest)) y w' \<longleftrightarrow> y = (Continue v', s') \<and> w' = ?w rest" for y w'
    using assms(2) wait(3) s'(1) read_run [of ?f "?as @ ?head" fd data "?w (data @ rest)" Server_proc q rest y w']
    by (cases "data = []") (simp_all add: os_run_Ok cs_def)
  moreover have "received i (TFS_OP_CODE_WRITE # int_bytes (int i + 1) @ int_bytes h @ size_bytes len @ data) [] s s'"
    using s'(2) by (simp add: received_def server_with_def)
  ultimately show ?thesis by blast
qed

lemma main_takes:
  assumes "idle i s" and "reads_from w Server_proc fd q"
    and "pipe_data w q = request_bytes i x @ rest" and "call_ok x"
  shows "\<exists>v' s'. received i (request_bytes i x) [] s s' \<and>
    (\<forall>y w'. os_run Server_proc (main_with fd pipename v s) [] w y w' \<longleftrightarrow>
      y = (Continue v', s') \<and> w' = w\<lparr>pipe_data := (pipe_data w)(q := rest)\<rparr>)"
proof (cases x)
  case (Call_open n flags)
  let ?body = "int_bytes flags @ (0x2F # n) @ replicate (BUFFER_SIZE - length (0x2F # n)) 0"
  have "request_bytes i x = TFS_OP_CODE_OPEN # int_bytes (int i + 1) @ ?body" "length ?body = OPEN_SIZE_SERVER"
    using Call_open assms(4) by (simp_all add: open_bytes_def config)
  with main_takes_rest [OF assms(1,2), of TFS_OP_CODE_OPEN ?body rest pipename v] assms(3) show ?thesis by simp
next
  case (Call_close f)
  with main_takes_rest [OF assms(1,2), of TFS_OP_CODE_CLOSE "int_bytes (int f)" rest pipename v] assms(3)
  show ?thesis by (simp add: config)
next
  case (Call_write f data)
  with main_takes_write [OF assms(1,2), of "int f" "of_nat (length data)" data rest pipename v] assms(3,4)
  show ?thesis by (simp add: unat_of_nat_small config)
next
  case (Call_read f len)
  with main_takes_rest [OF assms(1,2), of TFS_OP_CODE_READ "int_bytes (int f) @ size_bytes (of_nat len)" rest pipename v] assms(3)
  show ?thesis by (simp add: config)
qed (use assms(4) in simp_all)

section \<open>The worker\<close>

lemma worker_fault:
  assumes "woken i (op_code # rest) s" and "op_code \<noteq> TFS_OP_CODE_SHUTDOWN"
    and "dispatch ws heap op_code i (working i s) = Fault e"
  shows "thread_handler ws heap i s = Fault e"
  using assms by (simp add: thread_handler_def woken_def working_def server_steps field_def buf_get_def)

lemma answer_with_waits:
  "answers (srv_sys s) = [] \<Longrightarrow> answer_with i bs s = Fault (Waiting (Sys_write (sess_tx (sessions s i)) bs))"
  by (simp add: answer_with_def srv_write_def srv_call_def syscall_def)

lemma allocate_waits: "answers (srv_sys s) = [] \<Longrightarrow> allocate i n s = Fault (Waiting (Sys_malloc n))"
  by (simp add: allocate_def srv_call_def syscall_def)

lemma woken_with [simp]: "woken i buf (server_with s as) = woken i buf s"
  by (simp add: woken_def)

text \<open>The reads of the client, which ask for at least one byte; a piece that is there is taken by its read.\<close>

lemma chunk_sizes_pos: "call_ok x \<Longrightarrow> j < length (reply_chunks x res) \<Longrightarrow> 0 < chunk_sizes x ! j"
  by (cases x; cases res) (auto simp: less_Suc_eq)

lemma first_chunk: "reply_chunks x res ! 0 \<noteq> []"
proof -
  have "ssize_bytes r \<noteq> []" for r using length_ssize_bytes [of r] by (metis list.size(3) zero_neq_numeral)
  then show ?thesis by (cases x; cases res) auto
qed

lemma reply_chunk_taken:
  assumes "result_ok x res" and "j < length (reply_chunks x res)" and "reply_chunks x res ! j \<noteq> []"
  shows "take (chunk_sizes x ! j) (concat (drop j (reply_chunks x res))) = reply_chunks x res ! j \<and>
    drop (chunk_sizes x ! j) (concat (drop j (reply_chunks x res))) = concat (drop (Suc j) (reply_chunks x res)) \<and>
    concat (drop j (reply_chunks x res)) \<noteq> [] \<and> 0 < chunk_sizes x ! j"
proof -
  obtain r bs where res: "res = (r, bs)" by (cases res)
  have ne: "ssize_bytes r \<noteq> []" using length_ssize_bytes [of r] by (metis list.size(3) zero_neq_numeral)
  show ?thesis
  proof (cases x)
    case (Call_read f len)
    have bs: "length bs \<le> len" using assms(1) Call_read by (simp add: result_ok_def res)
    have len: "0 < len" if "bs \<noteq> []" using that bs by (cases bs) auto
    consider "j = 0" | "j = 1" using assms(2) Call_read res by fastforce
    then show ?thesis using ne bs len assms(3) Call_read by cases (auto simp: res)
  qed (use assms(2) ne in \<open>simp_all add: res\<close>)
qed

text \<open>The calls in which the worker waits while it carries a request out: what it allocates and what it writes.\<close>

fun worker_calls :: "int \<Rightarrow> call \<Rightarrow> fs_res \<Rightarrow> sys_call list" where
  "worker_calls fd (Call_open n flags) (r, bs) = [Sys_write fd (int_bytes r)]"
| "worker_calls fd (Call_close f) (r, bs) = [Sys_write fd (int_bytes r)]"
| "worker_calls fd (Call_write f data) (r, bs) = [Sys_malloc (length data), Sys_write fd (ssize_bytes r)]"
| "worker_calls fd (Call_read f len) (r, bs) = 
     [Sys_malloc len, Sys_write fd (ssize_bytes r)] @ (if bs = [] then [] else [Sys_write fd bs])"

fun call_answer :: "sys_call \<Rightarrow> answer" where
  "call_answer (Sys_write fd bs) = reply (int (length bs))"
| "call_answer c = reply 1"

text \<open>The operation of each request, as the worker calls it.\<close>

lemma fs_step_cases:
  assumes "fs_step (fs_op_of x) s = Ok ((r, bs), fs)"
  shows "x = Call_open n flags \<Longrightarrow> tfs_open (Some (0x2F # n)) flags s = Ok (r, fs)"
    and "x = Call_close f \<Longrightarrow> tfs_close (int f) s = Ok (r, fs)"
    and "x = Call_write f data \<Longrightarrow> tfs_write (int f) data (of_nat (length data)) s = Ok (r, fs)"
    and "x = Call_read f len \<Longrightarrow> tfs_read (int f) (of_nat len) s = Ok ((r, bs), fs)"
  using assms by (auto simp: no_bytes_def outcome_simps path_def)

lemma write_buffer_waits:
  assumes "answers w = []" and "0 < n" and "unat n \<le> length buf"
  shows "write_buffer fd buf n w = Fault (Waiting (Sys_write fd (take (unat n) buf)))"
  using assms by (simp add: write_buffer_def write_loop.simps [of fd buf n 0] buf_get_def syscall_def)

lemma worker_waits:
  assumes "woken i (request_bytes i x @ rest) s" and "call_ok x" and "fs_step (fs_op_of x) (srv_fs s) = Ok (res, fs)"
    and "result_ok x res" and "j < length (worker_calls (sess_tx (sessions s i)) x res)"
  shows "thread_handler [] heap i (server_with s (map call_answer (take j (worker_calls (sess_tx (sessions s i)) x res)))) =
    Fault (Waiting (worker_calls (sess_tx (sessions s i)) x res ! j))"
proof -
  obtain r bs where res: "res = (r, bs)" by (cases res)
  note step = fs_step_cases [OF assms(3) [unfolded res]]
  let ?s = "server_with s (map call_answer (take j (worker_calls (sess_tx (sessions s i)) x res)))"
  have woken: "woken i (request_bytes i x @ rest) ?s" using assms(1) by simp
  have tx: "sess_tx (sessions ?s i) = sess_tx (sessions s i)" by simp
  show ?thesis
  proof (cases x)
    case (Call_open n flags)
    then have "j = 0" using assms(5) res by simp
    with dispatch_open [of i "int i + 1" "0x2F # n" flags rest ?s r fs "[]" heap] woken step(1) assms(2) Call_open
    have "dispatch [] heap TFS_OP_CODE_OPEN i (working i ?s) = Fault (Waiting (Sys_write (sess_tx (sessions s i)) (int_bytes r)))"
      by (simp add: answer_with_waits res)
    from worker_fault [OF _ _ this] woken Call_open \<open>j = 0\<close> show ?thesis
      by (simp add: res open_bytes_def op_codes)
  next
    case (Call_close f)
    then have "j = 0" using assms(5) res by simp
    with dispatch_close [of i "int i + 1" "int f" rest ?s r fs "[]" heap] woken step(2) assms(2) Call_close
    have "dispatch [] heap TFS_OP_CODE_CLOSE i (working i ?s) = Fault (Waiting (Sys_write (sess_tx (sessions s i)) (int_bytes r)))"
      by (simp add: answer_with_waits res)
    from worker_fault [OF _ _ this] woken Call_close \<open>j = 0\<close> show ?thesis
      by (simp add: res op_codes)
  next
    case (Call_write f data)
    have len: "unat (of_nat (length data) :: size_t) = length data"
      using assms(2) Call_write by (simp add: unat_of_nat_small config)
    consider "j = 0" | "j = 1" using assms(5) Call_write res by fastforce
    then have "dispatch [] heap TFS_OP_CODE_WRITE i (working i ?s) = Fault (Waiting (worker_calls (sess_tx (sessions s i)) x res ! j))"
      using dispatch_write [of i "int i + 1" "int f" "of_nat (length data)" data rest ?s r fs "[]" heap] woken step(3) assms(2) Call_write len
      by cases (simp_all add: answer_with_waits allocate_waits allocate_reply [of _ 1 "[]"] res)
    from worker_fault [OF _ _ this] woken Call_write show ?thesis
      by (simp add: op_codes)
  next
    case (Call_read f len)
    have len: "unat (of_nat len :: size_t) = len"
      using assms(2) Call_read by (simp add: unat_of_nat_small)
    have bs: "r = int (length bs)" "length bs \<le> len"
      using assms(4) Call_read by (simp_all add: result_ok_def res)
    have n: "unat (of_nat (length bs) :: size_t) = length bs"
      using bs(2) assms(2) Call_read by (simp add: unat_of_nat_small)
    then have pos: "(0 :: size_t) < of_nat (length bs)" if "bs \<noteq> []" using that by (simp add: word_less_nat_alt)
    have buf: "take (length bs) (overlay bs (map heap [0..<len])) = bs" "length (overlay bs (map heap [0..<len])) = len"
      using bs(2) by (auto simp: overlay_def)
    note d = dispatch_read [of i "int i + 1" "int f" "of_nat len" rest ?s r bs fs "[]" heap]
    consider "j = 0" | "j = 1" | "j = 2" "bs \<noteq> []" using assms(5) Call_read res by (fastforce split: if_splits)
    then have "dispatch [] heap TFS_OP_CODE_READ i (working i ?s) = Fault (Waiting (worker_calls (sess_tx (sessions s i)) x res ! j))"
    proof cases
      case 3
      with d woken step(4) assms(2) Call_read len bs(1,2) n buf show ?thesis
        by (simp add: allocate_reply [of _ 1 "[reply 8]"] answer_with_reply [of _ 8 "[]"] res
            write_buffer_waits [OF _ pos [OF 3(2)]] Let_def)
    qed (use d woken step(4) assms(2) Call_read len in \<open>simp_all add: answer_with_waits allocate_waits allocate_reply [of _ 1 "[]"] res\<close>)
    from worker_fault [OF _ _ this] woken Call_read show ?thesis
      by (simp add: op_codes)
  qed (use assms(2) in simp_all)
qed

lemma worker_serves:
  assumes "woken i (request_bytes i x @ rest) s" and "call_ok x" and "fs_step (fs_op_of x) (srv_fs s) = Ok (res, fs)"
    and "result_ok x res"
  shows "\<exists>s'. thread_handler [] heap i (server_with s (map call_answer (worker_calls (sess_tx (sessions s i)) x res))) = Ok (True, s') \<and>
    (\<exists>bss. answered i bss fs [] s s')"
proof -
  obtain r bs where res: "res = (r, bs)" by (cases res)
  note step = fs_step_cases [OF assms(3) [unfolded res]]
  let ?s = "server_with s (map call_answer (worker_calls (sess_tx (sessions s i)) x res))"
  have woken: "woken i (request_bytes i x @ rest) ?s" using assms(1) by simp
  have "\<exists>s'. thread_handler [] heap i ?s = Ok (True, s') \<and> (\<exists>bss. answered i bss fs [] ?s s')"
  proof (cases x)
    case (Call_open n flags)
    then show ?thesis
      using worker_open [of i "int i + 1" "0x2F # n" flags rest ?s r fs 4 "[]" "[]" heap] woken step(1) assms(2) by (simp add: res) blast
  next
    case (Call_close f)
    then show ?thesis
      using worker_close [of i "int i + 1" "int f" rest ?s r fs 4 "[]" "[]" heap] woken step(2) assms(2) by (simp add: res) blast
  next
    case (Call_write f data)
    then show ?thesis
      using worker_write [of i "int i + 1" "int f" "of_nat (length data)" data rest ?s r fs 1 8 "[]" "[]" heap] woken step(3) assms(2)
      by (simp add: res unat_of_nat_small config) blast
  next
    case (Call_read f len)
    have bs: "r = int (length bs)" "length bs \<le> len"
      using assms(4) Call_read by (simp_all add: result_ok_def res)
    let ?ks = "if bs = [] then [] else [length bs]"
    have len: "unat (of_nat len :: size_t) = len" "int_ok (int f)" using assms(2) Call_read by (simp_all add: unat_of_nat_small)
    have ks: "\<forall>j \<in> set ?ks. 0 < j" "sum_list ?ks = length bs" by simp_all
    have as: "answers (srv_sys ?s) = reply 1 # reply 8 # map (\<lambda>j. reply (int j)) ?ks @ []" using Call_read res by simp
    have req: "woken i (TFS_OP_CODE_READ # int_bytes (int i + 1) @ int_bytes (int f) @ size_bytes (of_nat len) @ rest) ?s"
      using woken Call_read by simp
    have "tfs_read (int f) (of_nat len) (srv_fs ?s) = Ok ((int (length bs), bs), fs)" using step(4) [OF Call_read] bs(1) by simp
    from worker_read [OF req len(2) this _ as _ _ ks, where ws = "[]" and heap = heap] bs(2) len(1)
    have "\<exists>s' bss. thread_handler [] heap i ?s = Ok (True, s') \<and> answered i (ssize_bytes (int (length bs)) # bss) fs [] ?s s'" by simp blast
    then show ?thesis by blast
  qed (use assms(2) in simp_all)
  then show ?thesis by (simp add: answered_def server_with_def)
qed

text \<open>A process that writes its answers to one pipe, in which there is room, is never held up.\<close>

fun written :: "sys_call list \<Rightarrow> byte list" where
  "written [] = []"
| "written (Sys_write fd bs # cs) = bs @ written cs"
| "written (c # cs) = written cs"

lemma run_calls:
  assumes "\<And>j. j < length cs \<Longrightarrow> f (as @ map call_answer (take j cs)) = Fault (Waiting (cs ! j))"
    and "f (as @ map call_answer cs) = Ok x" and "\<And>c. c \<in> set cs \<Longrightarrow> (\<exists>n. c = Sys_malloc n) \<or> (\<exists>bs. c = Sys_write fd bs)"
    and "writes_to w p fd q" and "length (pipe_data w q) + length (written cs) \<le> PIPE_CAPACITY"
  shows "os_run p f as w y w' \<longleftrightarrow>
    y = x \<and> w' = w\<lparr>pipe_data := (pipe_data w)(q := pipe_data w q @ written cs)\<rparr>"
  using assms
proof (induction cs arbitrary: as w)
  case Nil
  then show ?case by (simp add: os_run_Ok)
next
  case (Cons c cs)
  have wait: "f as = Fault (Waiting c)" using Cons.prems(1) [of 0] by simp
  have later: "f ((as @ [call_answer c]) @ map call_answer (take j cs)) = Fault (Waiting (cs ! j))" if "j < length cs" for j
    using Cons.prems(1) [of "Suc j"] that by simp
  have last: "f ((as @ [call_answer c]) @ map call_answer cs) = Ok x" using Cons.prems(2) by simp
  have only: "(\<exists>n. c' = Sys_malloc n) \<or> (\<exists>bs. c' = Sys_write fd bs)" if "c' \<in> set cs" for c'
    using Cons.prems(3) [of c'] that by simp
  consider n where "c = Sys_malloc n" | bs where "c = Sys_write fd bs" using Cons.prems(3) [of c] by auto
  then show ?case
  proof cases
    case 1
    with Cons.IH [OF later last only, of w] Cons.prems(4,5) show ?thesis
      by (simp add: os_run_Waiting [where f = f and as = as, OF wait])
  next
    case 2
    let ?w = "w\<lparr>pipe_data := (pipe_data w)(q := pipe_data w q @ bs)\<rparr>"
    have "os_call p c w = Some (call_answer c, ?w)"
      using os_writes [of w p fd q bs] Cons.prems(4,5) 2 by simp
    then have "os_run p f as w y w' \<longleftrightarrow> os_run p f (as @ [call_answer c]) ?w y w'"
      by (rule os_run_Waiting [where f = f and as = as, OF wait])
    with Cons.IH [OF later last only, of ?w] Cons.prems(4,5) 2 show ?thesis
      by (simp del: fun_upd_apply add: fun_upd_same)
  qed
qed

lemma worker_calls_written:
  shows "call_ok x \<Longrightarrow> written (worker_calls fd x res) = concat (reply_chunks x res)"
    and "call_ok x \<Longrightarrow> c \<in> set (worker_calls fd x res) \<Longrightarrow> (\<exists>n. c = Sys_malloc n) \<or> (\<exists>bs. c = Sys_write fd bs)"
proof -
  show "call_ok x \<Longrightarrow> written (worker_calls fd x res) = concat (reply_chunks x res)"
    by (cases x; cases res) simp_all
  show "call_ok x \<Longrightarrow> c \<in> set (worker_calls fd x res) \<Longrightarrow> (\<exists>n. c = Sys_malloc n) \<or> (\<exists>bs. c = Sys_write fd bs)"
    by (cases x; cases res) (auto split: if_splits)
qed

lemma length_reply: "result_ok x res \<Longrightarrow> length (concat (reply_chunks x res)) \<le> 1032"
  by (cases x; cases res) (auto simp: result_ok_def config)

lemma worker_runs:
  assumes "woken i (request_bytes i x @ rest) s" and "call_ok x" and "fs_step (fs_op_of x) (srv_fs s) = Ok (res, fs)"
    and "result_ok x res" and "writes_to w Server_proc (sess_tx (sessions s i)) q" and "pipe_data w q = []"
  shows "\<exists>s' bss. answered i bss fs [] s s' \<and> only i s s' \<and>
    (\<forall>y w'. os_run Server_proc (\<lambda>as. thread_handler [] heap i (server_with s as)) [] w y w' \<longleftrightarrow>
      y = (True, s') \<and> w' = w\<lparr>pipe_data := (pipe_data w)(q := concat (reply_chunks x res))\<rparr>)"
proof -
  let ?cs = "worker_calls (sess_tx (sessions s i)) x res"
  obtain s' bss where s': "thread_handler [] heap i (server_with s (map call_answer ?cs)) = Ok (True, s')" "answered i bss fs [] s s'"
    using worker_serves [OF assms(1-4), of heap] by blast
  have "only i s s'" using only_thread_handler [OF s'(1)] by (simp add: only_def)
  moreover have "os_run Server_proc (\<lambda>as. thread_handler [] heap i (server_with s as)) [] w y w' \<longleftrightarrow>
      y = (True, s') \<and> w' = w\<lparr>pipe_data := (pipe_data w)(q := concat (reply_chunks x res))\<rparr>" for y w'
    using run_calls [of ?cs "\<lambda>as. thread_handler [] heap i (server_with s as)" "[]" "(True, s')" "sess_tx (sessions s i)" w Server_proc q]
      worker_waits [OF assms(1-4), of _ heap] s'(1) worker_calls_written(1) [OF assms(2), of "sess_tx (sessions s i)" res]
      worker_calls_written(2) [OF assms(2), of _ "sess_tx (sessions s i)" res] assms(5,6)
      length_reply [OF assms(4)] by (simp add: config)
  ultimately show ?thesis using s'(2) by blast
qed

end
