(* ===== verification/System_Inv.thy ===== *)
theory System_Inv
  imports System_Calls
begin

text \<open>
  The invariant of the system: for every client the phase its call is in, which fixes what its system calls
  were answered, what is in its pipe and what its session holds; the server's pipe holds the requests of the
  clients that are queued, in the order they were sent.
\<close>

section \<open>Phases of a call\<close>

datatype phase = Resting | Calling call | Queued call | Held call | Replied call fs_res nat

abbreviation sent_answer :: "nat \<Rightarrow> call \<Rightarrow> answer" where
  "sent_answer i x \<equiv> reply (int (length (request_bytes i x)))"

text \<open>
  \<open>phase_fits i ph entry inbox s\<close>: the client's entry in \<open>sys_calls\<close>, the contents of its pipe and its session
  are those of a call in phase \<open>ph\<close>. In \<open>Replied x res j\<close> the client has read \<open>j\<close> pieces of the reply, none of them empty:
  a client whose read has found no bytes stays with \<open>j = 1\<close>.
\<close>

fun phase_fits :: "nat \<Rightarrow> phase \<Rightarrow> (call \<times> answer list) option \<Rightarrow> byte list \<Rightarrow> session \<Rightarrow> bool" where
  "phase_fits i Resting entry inbox s \<longleftrightarrow> entry = None \<and> inbox = [] \<and> \<not> is_active s"
| "phase_fits i (Calling x) entry inbox s \<longleftrightarrow> entry = Some (x, []) \<and> inbox = [] \<and> \<not> is_active s \<and> call_ok x"
| "phase_fits i (Queued x) entry inbox s \<longleftrightarrow> entry = Some (x, [sent_answer i x]) \<and> inbox = [] \<and> \<not> is_active s \<and> call_ok x"
| "phase_fits i (Held x) entry inbox s \<longleftrightarrow> entry = Some (x, [sent_answer i x]) \<and> inbox = [] \<and> is_active s \<and> call_ok x \<and>
     (\<exists>rest. sess_buffer s = request_bytes i x @ rest)"
| "phase_fits i (Replied x res j) entry inbox s \<longleftrightarrow>
     entry = Some (x, sent_answer i x # map deliver (take j (reply_chunks x res))) \<and> j \<le> length (reply_chunks x res) \<and>
     inbox = concat (drop j (reply_chunks x res)) \<and> \<not> is_active s \<and> call_ok x \<and> result_ok x res \<and>
     [] \<notin> set (take j (reply_chunks x res))"

fun progress_of :: "phase \<Rightarrow> progress" where
  "progress_of Resting = No_call"
| "progress_of (Calling x) = Pending x"
| "progress_of (Queued x) = Pending x"
| "progress_of (Held x) = Pending x"
| "progress_of (Replied x res j) = Done res"

fun queued :: "phase \<Rightarrow> call option" where
  "queued (Queued x) = Some x"
| "queued ph = None"

section \<open>Connections\<close>

text \<open>
  \<open>k\<close> clients are connected: the server reads requests from the pipe \<open>rq\<close>, client \<open>i\<close> writes to it and reads
  from its own pipe \<open>ib i\<close>, to which its session writes; the client has opened its own pipe for both directions.
\<close>

definition client_joined :: "(nat \<Rightarrow> nat) \<Rightarrow> nat \<Rightarrow> system \<Rightarrow> nat \<Rightarrow> bool" where
  "client_joined ib rq S i \<longleftrightarrow>
     writes_to (sys_os S) (Client_proc i) (tx (sys_clients S i)) rq \<and>
     reads_from (sys_os S) (Client_proc i) (rx (sys_clients S i)) (ib i) \<and>
     writes_to (sys_os S) (Client_proc i) (rx (sys_clients S i)) (ib i) \<and>
     writes_to (sys_os S) Server_proc (sess_tx (sessions (sys_server S) i)) (ib i) \<and>
     session_id (sys_clients S i) = int i + 1 \<and> errno (c_sys (sys_clients S i)) \<noteq> EPIPE \<and> idle i (sys_server S)"

definition joined :: "int \<Rightarrow> nat \<Rightarrow> (nat \<Rightarrow> nat) \<Rightarrow> nat \<Rightarrow> system \<Rightarrow> bool" where
  "joined fd k ib rq S \<longleftrightarrow> k \<le> MAX_CLIENTS \<and> inj_on ib {..<k} \<and> rq \<notin> ib ` {..<k} \<and>
     reads_from (sys_os S) Server_proc fd rq \<and> (\<forall>i<k. client_joined ib rq S i) \<and>
     shutting_down_lock (sys_server S) = Unlocked \<and> \<not> shutting_down (sys_server S) \<and> ready (srv_fs (sys_server S)) \<and>
     (\<forall>i\<ge>k. sys_calls S i = None \<and> \<not> is_active (sessions (sys_server S) i))"

section \<open>The invariant\<close>

text \<open>The requests of the clients in the queue, one after the other.\<close>

primrec requests :: "(nat \<Rightarrow> phase) \<Rightarrow> nat list \<Rightarrow> byte list" where
  "requests ph [] = []"
| "requests ph (i # order) = request_bytes i (the (queued (ph i))) @ requests ph order"

lemma requests_append [simp]: "requests ph (is @ js) = requests ph is @ requests ph js"
  by (induction "is") simp_all

lemma requests_other [simp]: "i \<notin> set order \<Longrightarrow> requests (ph(i := h)) order = requests ph order"
  by (induction order) auto

definition queue_fits :: "nat \<Rightarrow> (nat \<Rightarrow> phase) \<Rightarrow> nat list \<Rightarrow> byte list \<Rightarrow> bool" where
  "queue_fits k ph order q \<longleftrightarrow> distinct order \<and> q = requests ph order \<and>
     (\<forall>i. i \<in> set order \<longleftrightarrow> i < k \<and> queued (ph i) \<noteq> None)"

definition linked :: "int \<Rightarrow> nat \<Rightarrow> (nat \<Rightarrow> nat) \<Rightarrow> nat \<Rightarrow> system \<Rightarrow> atomic \<Rightarrow> (nat \<Rightarrow> phase) \<Rightarrow> nat list \<Rightarrow> bool" where
  "linked fd k ib rq S A ph order \<longleftrightarrow> joined fd k ib rq S \<and>
     (\<forall>i<k. phase_fits i (ph i) (sys_calls S i) (pipe_data (sys_os S) (ib i)) (sessions (sys_server S) i)) \<and>
     (\<forall>i\<ge>k. ph i = Resting) \<and> fst A = progress_of \<circ> ph \<and> snd A = abs_fs (srv_fs (sys_server S)) \<and>
     queue_fits k ph order (pipe_data (sys_os S) rq)"

lemma joined_calls: "(\<And>i. k \<le> i \<Longrightarrow> f i = None) \<Longrightarrow> joined fd k ib rq S \<Longrightarrow> joined fd k ib rq (S\<lparr>sys_calls := f\<rparr>)"
  by (auto simp: joined_def client_joined_def)

text \<open>The client's phase, and its phase determined by what is seen of it.\<close>

lemma linked_phase:
  assumes "linked fd k ib rq S A ph order"
  shows "phase_fits i (ph i) (sys_calls S i) (if i < k then pipe_data (sys_os S) (ib i) else [])
    (sessions (sys_server S) i)"
  using assms by (cases "i < k") (auto simp: linked_def joined_def)

text \<open>
  A step that moves one client from phase to phase: the others' share of the state is the same, and the
  queue of requests fits the new phases.
\<close>

lemma queue_fits_same:
  "queue_fits k ph order q \<Longrightarrow> queued (ph i) = None \<Longrightarrow> queued h = None \<Longrightarrow> queue_fits k (ph(i := h)) order q"
  by (simp add: queue_fits_def)

lemma queue_fits_enter:
  "queue_fits k ph order q \<Longrightarrow> queued (ph i) = None \<Longrightarrow> queued h = Some x \<Longrightarrow> i < k \<Longrightarrow>
    queue_fits k (ph(i := h)) (order @ [i]) (q @ request_bytes i x)"
  by (simp add: queue_fits_def)

lemma queue_fits_leave:
  "queue_fits k ph (i # order) q \<Longrightarrow>
    \<exists>x rest. i < k \<and> queued (ph i) = Some x \<and> q = request_bytes i x @ rest \<and>
      (\<forall>h. queued h = None \<longrightarrow> queue_fits k (ph(i := h)) order rest)"
  by (simp add: queue_fits_def) (metis option.sel)

lemma queued_Some: "queued h = Some x \<longleftrightarrow> h = Queued x"
  by (cases h) auto

lemma linked_queue: "linked fd k ib rq S A ph order \<Longrightarrow> queue_fits k ph order (pipe_data (sys_os S) rq)"
  by (simp add: linked_def)

lemma linked_update:
  assumes "linked fd k ib rq S (p, a) ph order" and "i < k" and "joined fd k ib rq S'"
    and "\<And>j. j < k \<Longrightarrow> j \<noteq> i \<Longrightarrow> sys_calls S' j = sys_calls S j \<and> pipe_data (sys_os S') (ib j) = pipe_data (sys_os S) (ib j) \<and>
      sessions (sys_server S') j = sessions (sys_server S) j"
    and "phase_fits i h (sys_calls S' i) (pipe_data (sys_os S') (ib i)) (sessions (sys_server S') i)"
    and "queue_fits k (ph(i := h)) order' (pipe_data (sys_os S') rq)"
  shows "linked fd k ib rq S' (p(i := progress_of h), abs_fs (srv_fs (sys_server S'))) (ph(i := h)) order'"
  using assms by (auto simp: linked_def fun_upd_comp)

section \<open>The steps of the clients\<close>

lemma linked_call:
  assumes "linked fd k ib rq S (p, a) ph order" and "sys_calls S i = None" and "i < k" and "call_ok x"
  shows "\<exists>A'. atomic_next (Call i x) (p, a) = Some A' \<and>
    linked fd k ib rq (S\<lparr>sys_calls := (sys_calls S)(i \<mapsto> (x, []))\<rparr>) A' (ph(i := Calling x)) order"
proof -
  let ?S = "S\<lparr>sys_calls := (sys_calls S)(i \<mapsto> (x, []))\<rparr>"
  have ph: "ph i = Resting" "pipe_data (sys_os S) (ib i) = []" "\<not> is_active (sessions (sys_server S) i)"
    using linked_phase [OF assms(1), of i] assms(2,3) by (cases "ph i"; simp)+
  have "joined fd k ib rq ?S"
    using assms(1,3) by (intro joined_calls) (auto simp: linked_def joined_def)
  from linked_update [OF assms(1,3) this, of "Calling x" order] ph assms(4)
    queue_fits_same [OF linked_queue [OF assms(1)], of i "Calling x"]
  have "linked fd k ib rq ?S (p(i := Pending x), abs_fs (srv_fs (sys_server S))) (ph(i := Calling x)) order" by simp
  moreover have "p i = No_call" "a = abs_fs (srv_fs (sys_server S))" using assms(1) ph(1) by (auto simp: linked_def)
  ultimately show ?thesis by simp
qed

lemma joined_pipes [simp]:
  "joined fd k ib rq (S\<lparr>sys_os := (sys_os S)\<lparr>pipe_data := f\<rparr>, sys_calls := g\<rparr>) = joined fd k ib rq (S\<lparr>sys_calls := g\<rparr>)"
  by (simp add: joined_def client_joined_def)

lemma joined_pipe_distinct:
  assumes "joined fd k ib rq S" and "i < k"
  shows "ib i \<noteq> rq" and "j < k \<Longrightarrow> ib j = ib i \<longleftrightarrow> j = i"
  using assms by (auto simp: joined_def inj_on_def)

lemma joined_client: "joined fd k ib rq S \<Longrightarrow> i < k \<Longrightarrow> client_joined ib rq S i"
  by (simp add: joined_def)

text \<open>A client inside a call is one of the \<open>k\<close>.\<close>

lemma linked_caller: "linked fd k ib rq S A ph order \<Longrightarrow> sys_calls S i = Some e \<Longrightarrow> i < k"
  by (metis joined_def leI linked_def option.distinct(1))

text \<open>The request goes into the server's pipe.\<close>

lemma linked_sends:
  assumes "linked fd k ib rq S (p, a) ph order" and "sys_calls S i = Some (x, [])" and "i < k" and "ph i = Calling x"
    and "os_call (Client_proc i) (Sys_write (tx (sys_clients S i)) (request_bytes i x)) (sys_os S) = Some (ans, w)"
  shows "linked fd k ib rq (S\<lparr>sys_os := w, sys_calls := (sys_calls S)(i \<mapsto> (x, [ans]))\<rparr>) (p, a) (ph(i := Queued x)) (order @ [i])"
proof -
  let ?f = "(pipe_data (sys_os S))(rq := pipe_data (sys_os S) rq @ request_bytes i x)"
  have j: "joined fd k ib rq S" using assms(1) by (simp add: linked_def)
  note pipes = joined_pipe_distinct [OF j]
  have w: "ans = sent_answer i x" "w = (sys_os S)\<lparr>pipe_data := ?f\<rparr>"
    using assms(5) joined_client [OF j assms(3)]
    by (auto simp: client_joined_def os_writes split: if_splits)
  let ?S = "S\<lparr>sys_os := w, sys_calls := (sys_calls S)(i \<mapsto> (x, [ans]))\<rparr>"
  have "joined fd k ib rq ?S"
    using j assms(3) unfolding w(2) joined_pipes by (intro joined_calls) (auto simp: joined_def)
  moreover have "phase_fits i (Queued x) (sys_calls ?S i) (pipe_data (sys_os ?S) (ib i)) (sessions (sys_server ?S) i)"
    using linked_phase [OF assms(1), of i] assms(3,4) pipes(1) [of i] by (simp add: w)
  moreover have "queue_fits k (ph(i := Queued x)) (order @ [i]) (pipe_data (sys_os ?S) rq)"
    using queue_fits_enter [OF linked_queue [OF assms(1)], of i "Queued x" x] assms(3,4) by (simp add: w)
  moreover have "sys_calls ?S j = sys_calls S j \<and> pipe_data (sys_os ?S) (ib j) = pipe_data (sys_os S) (ib j) \<and>
      sessions (sys_server ?S) j = sessions (sys_server S) j" if "j < k" "j \<noteq> i" for j
    using that pipes(1) [of j] by (simp add: w)
  ultimately have "linked fd k ib rq ?S (p(i := Pending x), abs_fs (srv_fs (sys_server S))) (ph(i := Queued x)) (order @ [i])"
    using linked_update [OF assms(1,3), of ?S "Queued x" "order @ [i]"] by simp
  moreover have "p(i := Pending x) = p" "a = abs_fs (srv_fs (sys_server S))"
    using assms(1,4) by (auto simp: linked_def fun_eq_iff)
  ultimately show ?thesis by simp
qed

text \<open>A piece of the reply comes out of the client's pipe.\<close>

lemma linked_reads:
  assumes "linked fd k ib rq S (p, a) ph order" and "sys_calls S i = Some (x, as)" and "i < k"
    and "ph i = Replied x res j" and "j < length (reply_chunks x res)"
    and "os_call (Client_proc i) (Sys_read (rx (sys_clients S i)) (chunk_sizes x ! j)) (sys_os S) = Some (ans, w)"
  shows "linked fd k ib rq (S\<lparr>sys_os := w, sys_calls := (sys_calls S)(i \<mapsto> (x, as @ [ans]))\<rparr>) (p, a) (ph(i := Replied x res (Suc j))) order"
proof -
  let ?f = "(pipe_data (sys_os S))(ib i := concat (drop (Suc j) (reply_chunks x res)))"
  have j: "joined fd k ib rq S" using assms(1) by (simp add: linked_def)
  note pipes = joined_pipe_distinct [OF j]
  have ph: "as = sent_answer i x # map deliver (take j (reply_chunks x res))"
    "pipe_data (sys_os S) (ib i) = concat (drop j (reply_chunks x res))" "result_ok x res" "call_ok x"
    using linked_phase [OF assms(1), of i] assms(2-4) by auto
  have reads: "reads_from (sys_os S) (Client_proc i) (rx (sys_clients S i)) (ib i)"
    using joined_client [OF j assms(3)] by (simp add: client_joined_def)
  have there: "reply_chunks x res ! j \<noteq> []"
  proof
    assume empty: "reply_chunks x res ! j = []"
    with first_chunk [of x res] have "0 < j" by (cases j) auto
    with assms(5) length_reply_chunks [of x res] have "length (reply_chunks x res) = Suc j" by linarith
    with empty ph(2) have "pipe_data (sys_os S) (ib i) = []" by (simp add: Cons_nth_drop_Suc [OF assms(5), symmetric])
    with os_reads [OF reads chunk_sizes_pos [OF ph(4) assms(5)]] assms(6) show False by simp
  qed
  have w: "ans = deliver (reply_chunks x res ! j)" "w = (sys_os S)\<lparr>pipe_data := ?f\<rparr>"
  proof -
    have "os_call (Client_proc i) (Sys_read (rx (sys_clients S i)) (chunk_sizes x ! j)) (sys_os S) =
        Some (deliver (reply_chunks x res ! j), (sys_os S)\<lparr>pipe_data := ?f\<rparr>)"
      using reply_chunk_taken [OF ph(3) assms(5) there] reads by (simp only: os_reads ph(2) if_False)
    with assms(6) show "ans = deliver (reply_chunks x res ! j)" "w = (sys_os S)\<lparr>pipe_data := ?f\<rparr>" by auto
  qed
  let ?S = "S\<lparr>sys_os := w, sys_calls := (sys_calls S)(i \<mapsto> (x, as @ [ans]))\<rparr>" and ?h = "Replied x res (Suc j)"
  have "joined fd k ib rq ?S"
    using j assms(3) unfolding w(2) joined_pipes by (intro joined_calls) (auto simp: joined_def)
  moreover have "phase_fits i ?h (sys_calls ?S i) (pipe_data (sys_os ?S) (ib i)) (sessions (sys_server ?S) i)"
    using linked_phase [OF assms(1), of i] assms(3-5) ph(1) there by (simp add: w take_Suc_conv_app_nth)
  moreover have "queue_fits k (ph(i := ?h)) order (pipe_data (sys_os ?S) rq)"
    using queue_fits_same [OF linked_queue [OF assms(1)], of i ?h] assms(4) pipes(1) [OF assms(3)] by (simp add: w)
  moreover have "sys_calls ?S l = sys_calls S l \<and> pipe_data (sys_os ?S) (ib l) = pipe_data (sys_os S) (ib l) \<and>
      sessions (sys_server ?S) l = sessions (sys_server S) l" if "l < k" "l \<noteq> i" for l
    using that pipes(2) [OF assms(3), of l] by (simp add: w)
  ultimately have "linked fd k ib rq ?S (p(i := Done res), abs_fs (srv_fs (sys_server S))) (ph(i := ?h)) order"
    using linked_update [OF assms(1,3), of ?S ?h order] by simp
  moreover have "p(i := Done res) = p" "a = abs_fs (srv_fs (sys_server S))"
    using assms(1,4) by (auto simp: linked_def fun_eq_iff)
  ultimately show ?thesis by simp
qed

text \<open>Any system call of a client that returns: it sends its request, or it takes a piece of the reply.\<close>

lemma linked_answered:
  assumes "linked fd k ib rq S (p, a) ph order" and "sys_calls S i = Some (x, as)"
    and "client_call junk x (client_with (sys_clients S i) as) = Fault (Waiting c)"
    and "os_call (Client_proc i) c (sys_os S) = Some (ans, w)"
  shows "\<exists>h order'. linked fd k ib rq (S\<lparr>sys_os := w, sys_calls := (sys_calls S)(i \<mapsto> (x, as @ [ans]))\<rparr>) (p, a) (ph(i := h)) order' \<and>
    (ph i = Calling x \<and> h = Queued x \<or> (\<exists>res j. ph i = Replied x res j \<and> j < length (reply_chunks x res) \<and> h = Replied x res (Suc j)))"
proof -
  note i = linked_caller [OF assms(1,2)]
  have j: "joined fd k ib rq S" using assms(1) by (simp add: linked_def)
  have c: "session_id (sys_clients S i) = int i + 1" "errno (c_sys (sys_clients S i)) \<noteq> EPIPE"
    "reads_from (sys_os S) (Client_proc i) (rx (sys_clients S i)) (ib i)"
    using joined_client [OF j i] by (simp_all add: client_joined_def)
  note fits = linked_phase [OF assms(1), of i]
  have waiting: False if "as = [sent_answer i x]" "pipe_data (sys_os S) (ib i) = []" "call_ok x"
  proof -
    have n: "0 < length (reply_chunks x (0, []))" "0 < chunk_sizes x ! 0" by (cases x; simp)+
    have "c = Sys_read (rx (sys_clients S i)) (chunk_sizes x ! 0)"
      using client_waits [OF that(3) c(1,2) n(1), of junk] that(1) assms(3) by simp
    then show False using os_reads [OF c(3) n(2)] that(2) assms(4) by simp
  qed
  show ?thesis
  proof (cases "ph i")
    case (Calling x')
    with fits i assms(2) have x: "x' = x" "as = []" "call_ok x" by auto
    then have "c = Sys_write (tx (sys_clients S i)) (request_bytes i x)"
      using client_sends [OF x(3) c(1), of junk] assms(3) by simp
    with linked_sends [OF assms(1) _ i, of x ans w] assms(2,4) x(1,2) Calling show ?thesis by auto
  next
    case (Replied x' res l)
    with fits i assms(2) have x: "x' = x" "as = sent_answer i x # map deliver (take l (reply_chunks x res))"
      "l \<le> length (reply_chunks x res)" "call_ok x" "result_ok x res" by auto
    show ?thesis
    proof (cases "l = length (reply_chunks x res)")
      case True
      with client_returns [OF x(4) c(1,2) x(5), of junk] x(2) assms(3) show ?thesis by auto
    next
      case False
      then have l: "l < length (reply_chunks x res)" using x(3) by simp
      have "c = Sys_read (rx (sys_clients S i)) (chunk_sizes x ! l)"
        using client_waits [OF x(4) c(1,2) l, of junk] x(2) assms(3) by simp
      with linked_reads [OF assms(1,2) i _ l, of ans w] assms(4) x(1) Replied l show ?thesis by blast
    qed
  qed (use fits i assms(2) waiting in auto)
qed

lemma linked_returned:
  assumes "linked fd k ib rq S (p, a) ph order" and "sys_calls S i = Some (x, as)"
    and "client_call junk x (client_with (sys_clients S i) as) = Ok (r, c)"
  shows "atomic_next (Returned i r) (p, a) = Some (p(i := No_call), a) \<and> (\<exists>j. ph i = Replied x r j) \<and>
    linked fd k ib rq (S\<lparr>sys_clients := (sys_clients S)(i := c), sys_calls := (sys_calls S)(i := None)\<rparr>)
      (p(i := No_call), a) (ph(i := Resting)) order"
proof -
  note i = linked_caller [OF assms(1,2)]
  have j: "joined fd k ib rq S" using assms(1) by (simp add: linked_def)
  have cl: "session_id (sys_clients S i) = int i + 1" "errno (c_sys (sys_clients S i)) \<noteq> EPIPE"
    using joined_client [OF j i] by (simp_all add: client_joined_def)
  note fits = linked_phase [OF assms(1), of i]
  have first: False if "as = [sent_answer i x]" "call_ok x"
  proof -
    have "0 < length (reply_chunks x (0, []))" by (cases x; simp)
    from client_waits [OF that(2) cl this, of junk] that(1) assms(3) show False by simp
  qed
  obtain res l where ph: "ph i = Replied x res l"
    using fits i assms(2,3) client_sends [OF _ cl(1), of x junk] first by (cases "ph i") auto
  with fits i assms(2) have x: "as = sent_answer i x # map deliver (take l (reply_chunks x res))"
    "l \<le> length (reply_chunks x res)" "call_ok x" "result_ok x res"
    "pipe_data (sys_os S) (ib i) = concat (drop l (reply_chunks x res))" "\<not> is_active (sessions (sys_server S) i)" by auto
  have l: "l = length (reply_chunks x res)"
    using client_waits [OF x(3) cl, of l res junk] x(1,2) assms(3) by (cases "l < length (reply_chunks x res)") auto
  then obtain w where w: "r = res" "c = (sys_clients S i)\<lparr>c_sys := w\<rparr>" "errno w = errno (c_sys (sys_clients S i))"
    using client_returns [OF x(3) cl x(4), of junk] x(1) assms(3) by auto
  let ?S = "S\<lparr>sys_clients := (sys_clients S)(i := c), sys_calls := (sys_calls S)(i := None)\<rparr>"
  have "joined fd k ib rq ?S"
    using j w(3) unfolding w(2) by (auto simp: joined_def client_joined_def)
  moreover have "phase_fits i Resting (sys_calls ?S i) (pipe_data (sys_os ?S) (ib i)) (sessions (sys_server ?S) i)"
    using x(5,6) l by simp
  moreover have "queue_fits k (ph(i := Resting)) order (pipe_data (sys_os ?S) rq)"
    using queue_fits_same [OF linked_queue [OF assms(1)], of i Resting] ph by simp
  ultimately have "linked fd k ib rq ?S (p(i := No_call), abs_fs (srv_fs (sys_server S))) (ph(i := Resting)) order"
    using linked_update [OF assms(1) i, of ?S Resting order] by simp
  moreover have "p i = Done r" "a = abs_fs (srv_fs (sys_server S))"
    using assms(1) ph w(1) by (auto simp: linked_def)
  ultimately show ?thesis using ph w(1) by simp
qed

section \<open>The turns of the server\<close>

lemma linked_main:
  assumes "linked fd k ib rq S (p, a) ph order"
    and "os_run Server_proc (main_with fd pipename (sys_vars S) (sys_server S)) [] (sys_os S) (Continue v, s) w"
  shows "\<exists>i x order'. order = i # order' \<and> i < k \<and> ph i = Queued x \<and>
    linked fd k ib rq (S\<lparr>sys_os := w, sys_vars := v, sys_server := s\<lparr>shutting_down_lock := Unlocked\<rparr>\<rparr>) (p, a) (ph(i := Held x)) order'"
proof (cases order)
  case Nil
  have "pipe_data (sys_os S) rq = []" using linked_queue [OF assms(1)] Nil by (simp add: queue_fits_def)
  moreover have "reads_from (sys_os S) Server_proc fd rq" using assms(1) by (simp add: linked_def joined_def)
  ultimately have "os_call Server_proc (Sys_read fd 1) (sys_os S) = None" by (simp add: os_reads)
  moreover have "main_with fd pipename (sys_vars S) (sys_server S) [] = Fault (Waiting (Sys_read fd 1))"
    by (simp add: main_waits)
  ultimately show ?thesis using os_run_stuck [of "main_with fd pipename (sys_vars S) (sys_server S)"] assms(2) by blast
next
  case (Cons i order')
  have j: "joined fd k ib rq S" using assms(1) by (simp add: linked_def)
  obtain x rest where q: "i < k" "ph i = Queued x" "pipe_data (sys_os S) rq = request_bytes i x @ rest"
    "queue_fits k (ph(i := Held x)) order' rest"
    using queue_fits_leave [OF linked_queue [OF assms(1), unfolded Cons]] by (auto simp: queued_Some)
  have fits: "sys_calls S i = Some (x, [sent_answer i x])" "pipe_data (sys_os S) (ib i) = []" "call_ok x"
    using linked_phase [OF assms(1), of i] q(1,2) by simp_all
  have c: "reads_from (sys_os S) Server_proc fd rq" "idle i (sys_server S)"
    using j joined_client [OF j q(1)] by (simp_all add: joined_def client_joined_def)
  from main_takes [OF c(2,1) q(3) fits(3), of pipename "sys_vars S"] assms(2)
  have s: "received i (request_bytes i x) [] (sys_server S) s"
    "w = (sys_os S)\<lparr>pipe_data := (pipe_data (sys_os S))(rq := rest)\<rparr>" by auto
  let ?S = "S\<lparr>sys_os := w, sys_vars := v, sys_server := s\<lparr>shutting_down_lock := Unlocked\<rparr>\<rparr>"
  have len: "length (request_bytes i x) \<le> MAX_REQUEST_SIZE" using request_length [OF fits(3), of i] by (simp add: config)
  have "joined fd k ib rq ?S"
    using j s len q(1) by (auto simp: joined_def client_joined_def received_def idle_def)
  moreover have "phase_fits i (Held x) (sys_calls ?S i) (pipe_data (sys_os ?S) (ib i)) (sessions (sys_server ?S) i)"
    using fits s joined_pipe_distinct(1) [OF j q(1)] by (simp add: received_def)
  moreover have "sys_calls ?S l = sys_calls S l \<and> pipe_data (sys_os ?S) (ib l) = pipe_data (sys_os S) (ib l) \<and>
      sessions (sys_server ?S) l = sessions (sys_server S) l" if "l < k" "l \<noteq> i" for l
    using that s joined_pipe_distinct(1) [OF j, of l] by (simp add: received_def)
  ultimately have "linked fd k ib rq ?S (p(i := Pending x), abs_fs (srv_fs s)) (ph(i := Held x)) order'"
    using linked_update [OF assms(1) q(1), of ?S "Held x" order'] q(4) s(2) by simp
  moreover have "p(i := Pending x) = p" "a = abs_fs (srv_fs s)"
    using assms(1) q(2) s(1) by (auto simp: linked_def received_def fun_eq_iff)
  ultimately show ?thesis using Cons q(1,2) by simp
qed

text \<open>The results the abstract file system gives fit the answers they travel in.\<close>

lemma a_add_handle_range: "fst (a_add_handle i off a) = -1 \<or> (\<exists>f<MAX_OPEN_FILES. fst (a_add_handle i off a) = int f)"
proof (cases "first_free (\<lambda>f. if a_open a f = None then FREE else TAKEN) 0 MAX_OPEN_FILES")
  case None
  then show ?thesis by (simp add: a_add_handle_def)
next
  case (Some f)
  from first_free_Some [OF this] Some show ?thesis by (simp add: a_add_handle_def)
qed

lemma a_open_file_range: "fst (a_open_file n c t e a) = -1 \<or> (\<exists>f<MAX_OPEN_FILES. fst (a_open_file n c t e a) = int f)"
proof (cases "a_dir a n")
  case (Some i)
  then show ?thesis by (simp add: a_open_file_def Let_def a_add_handle_range)
next
  case None
  then show ?thesis
    by (cases "c \<and> card (dom (a_files a)) \<noteq> MAX_DIR_ENTRIES")
       (simp_all only: a_open_file_def Let_def option.case if_True if_False a_add_handle_range fst_conv simp_thms)
qed

lemma effect_result:
  assumes "ready s" and "call_ok x" and "effect_ok x (abs_fs s)"
  shows "result_ok x (fst (a_step (fs_op_of x) (abs_fs s)))"
proof (cases x)
  case (Call_open n flags)
  obtain r a where ra: "a_open_file n (flag_creat flags) (flag_trunc flags) (flag_append flags) (abs_fs s) = (r, a)" by fastforce
  then have "r = -1 \<or> (\<exists>f<MAX_OPEN_FILES. r = int f)" using a_open_file_range by (metis fst_conv)
  then show ?thesis using Call_open ra by (auto simp: result_ok_def int_ok_def config)
next
  case (Call_close f)
  then show ?thesis by (simp add: result_ok_def a_close_def int_ok_def)
next
  case (Call_write f data)
  then show ?thesis by (auto simp: result_ok_def a_write_def int_ok_def config Let_def split: option.splits)
next
  case (Call_read f len)
  with assms(3) obtain i off where o: "abs_open s f = Some (i, off)" by (auto simp: effect_ok_def)
  have "is_file s i" using abs_open_Some(3) [OF _ o] assms(1) by (simp add: ready_def fs_ok_def)
  then have "abs_files s i = Some (content s i)" "length (content s i) \<le> BLOCK_SIZE"
    using length_content_le [of s i] assms(1) by (simp_all add: abs_files_def ready_def fs_ok_def)
  with assms(3) o Call_read show ?thesis
    by (auto simp: result_ok_def a_read_def int_ok_def config Let_def)
qed (use assms(2) in simp_all)

lemma linked_worker:
  assumes "linked fd k ib rq S (p, a) ph order" and "event_ok k (Worker_turn i) (p, a)"
    and "os_run Server_proc (\<lambda>as. thread_handler [] heap i (server_with (sys_server S) as)) [] (sys_os S) (True, s) w"
  shows "\<exists>x. i < k \<and> ph i = Held x \<and> atomic_next (Worker_turn i) (p, a) =
      Some (p(i := Done (fst (a_step (fs_op_of x) a))), snd (a_step (fs_op_of x) a)) \<and>
    linked fd k ib rq (S\<lparr>sys_os := w, sys_server := s\<rparr>)
      (p(i := Done (fst (a_step (fs_op_of x) a))), snd (a_step (fs_op_of x) a)) (ph(i := Replied x (fst (a_step (fs_op_of x) a)) 0)) order"
proof -
  have j: "joined fd k ib rq S" using assms(1) by (simp add: linked_def)
  note fits = linked_phase [OF assms(1), of i]
  have "is_active (sessions (sys_server S) i)"
  proof (rule ccontr)
    assume "\<not> is_active (sessions (sys_server S) i)"
    then have "\<exists>e. thread_handler [] heap i (server_with (sys_server S) []) = Fault e \<and> (\<forall>c. e \<noteq> Waiting c)"
      by (cases "session_lock (sessions (sys_server S) i)")
         (simp_all add: thread_handler_def server_steps lock_mutex_def)
    then show False using os_run_Fault [of "\<lambda>as. thread_handler [] heap i (server_with (sys_server S) as)" "[]"] assms(3) by blast
  qed
  then obtain x where ph: "ph i = Held x" using fits by (cases "ph i") auto
  then have i: "i < k" using assms(1) by (metis linked_def not_le phase.distinct(5))
  obtain rest where h: "sys_calls S i = Some (x, [sent_answer i x])" "pipe_data (sys_os S) (ib i) = []" "call_ok x"
    "sess_buffer (sessions (sys_server S) i) = request_bytes i x @ rest" "is_active (sessions (sys_server S) i)"
    using fits ph i by auto
  have a: "a = abs_fs (srv_fs (sys_server S))" "p i = Pending x" "ready (srv_fs (sys_server S))"
    using assms(1) ph by (auto simp: linked_def joined_def)
  have effect: "effect_ok x (abs_fs (srv_fs (sys_server S)))" using assms(2) a by simp
  let ?res = "fst (a_step (fs_op_of x) a)"
  obtain fs where fs: "fs_step (fs_op_of x) (srv_fs (sys_server S)) = Ok (?res, fs)"
    "abs_fs fs = snd (a_step (fs_op_of x) a)" "ready fs"
    using tfs.step_law [OF a(3), of "fs_op_of x"] effect a(1) by (auto simp: effect_ok_def)
  have res: "result_ok x ?res" using effect_result [OF a(3) h(3) effect] a(1) by simp
  have c: "writes_to (sys_os S) Server_proc (sess_tx (sessions (sys_server S) i)) (ib i)" "idle i (sys_server S)"
    using joined_client [OF j i] by (simp_all add: client_joined_def)
  have woken: "woken i (request_bytes i x @ rest) (sys_server S)"
    using j h c(2) by (simp add: woken_def joined_def idle_def)
  from worker_runs [OF woken h(3) fs(1) res c(1) h(2), of heap] assms(3) obtain bss where
    s: "answered i bss fs [] (sys_server S) s" "only i (sys_server S) s"
    "w = (sys_os S)\<lparr>pipe_data := (pipe_data (sys_os S))(ib i := concat (reply_chunks x ?res))\<rparr>" by auto
  let ?S = "S\<lparr>sys_os := w, sys_server := s\<rparr>" and ?h = "Replied x ?res 0"
  note pipes = joined_pipe_distinct [OF j]
  have "joined fd k ib rq ?S"
    unfolding joined_def
  proof (intro conjI allI impI)
    fix l assume l: "l < k"
    then show "client_joined ib rq ?S l"
      using joined_client [OF j l] s by (cases "l = i") (auto simp: client_joined_def answered_def only_def idle_def)
  next
    fix l assume "k \<le> l"
    then show "sys_calls ?S l = None" "\<not> is_active (sessions (sys_server ?S) l)"
      using j i s(2) by (auto simp: joined_def only_def)
  qed (use j s fs(3) in \<open>auto simp: joined_def answered_def\<close>)
  moreover have "phase_fits i ?h (sys_calls ?S i) (pipe_data (sys_os ?S) (ib i)) (sessions (sys_server ?S) i)"
    using h s res by (simp add: answered_def)
  moreover have "sys_calls ?S l = sys_calls S l \<and> pipe_data (sys_os ?S) (ib l) = pipe_data (sys_os S) (ib l) \<and>
      sessions (sys_server ?S) l = sessions (sys_server S) l" if "l < k" "l \<noteq> i" for l
    using that s(2,3) pipes(2) [OF i, of l] by (simp add: only_def)
  moreover have "queue_fits k (ph(i := ?h)) order (pipe_data (sys_os ?S) rq)"
    using queue_fits_same [OF linked_queue [OF assms(1)], of i ?h] ph pipes(1) [OF i] by (simp add: s(3))
  ultimately have "linked fd k ib rq ?S (p(i := Done ?res), abs_fs (srv_fs s)) (ph(i := ?h)) order"
    using linked_update [OF assms(1) i, of ?S ?h order] by simp
  moreover have "abs_fs (srv_fs s) = snd (a_step (fs_op_of x) a)" using s(1) fs(2) by (simp add: answered_def)
  ultimately show ?thesis using ph i a(2) by (simp add: case_prod_beta)
qed

end
