(* ===== verification/System_Run.thy ===== *)
theory System_Run
  imports System_Inv
begin

text \<open>
  Runs of the system: every step follows the atomic object and, unless it starts a call, brings some call nearer
  to its return; and while a call is under way some party has a step to take, unless the call is a read that found no
  bytes at the end of its file.
\<close>

section \<open>One step\<close>

text \<open>How many steps a call in each phase may still take before the client is at rest.\<close>

fun steps_left :: "phase \<Rightarrow> nat" where
  "steps_left Resting = 0"
| "steps_left (Calling x) = 6"
| "steps_left (Queued x) = 5"
| "steps_left (Held x) = 4"
| "steps_left (Replied x res j) = 3 - j"

definition all_steps_left :: "nat \<Rightarrow> (nat \<Rightarrow> phase) \<Rightarrow> nat" where
  "all_steps_left k ph = (\<Sum>i<k. steps_left (ph i))"

lemma all_steps_left_less:
  "i < k \<Longrightarrow> steps_left h < steps_left (ph i) \<Longrightarrow> all_steps_left k (ph(i := h)) < all_steps_left k ph"
  unfolding all_steps_left_def by (rule sum_strict_mono_ex1) auto

lemma all_steps_left_call:
  assumes "ph i = Resting" and "i < k"
  shows "all_steps_left k (ph(i := Calling x)) = all_steps_left k ph + 6"
  using assms by (simp add: all_steps_left_def sum.remove [of "{..<k}" i])

fun is_call :: "event \<Rightarrow> bool" where
  "is_call (Call i x) = True"
| "is_call _ = False"

lemma linked_step:
  assumes "system_step fd pipename heap junk S e S'" and "linked fd k ib rq S A ph order" and "event_ok k e A"
  shows "\<exists>A' ph' order'. atomic_next e A = Some A' \<and> linked fd k ib rq S' A' ph' order' \<and>
    all_steps_left k ph' < all_steps_left k ph + (if is_call e then 7 else 0)"
proof -
  obtain p a where A: "A = (p, a)" by (cases A)
  note linked = assms(2) [unfolded A]
  have moved: ?thesis if "\<not> is_call e" "atomic_next e A = Some A'" "linked fd k ib rq S' A' (ph(i := h)) order'" "i < k"
    "steps_left h < steps_left (ph i)" for A' i h order'
    using that all_steps_left_less [of i k h ph] by auto
  show ?thesis
    using assms(1)
  proof (cases rule: system_step.cases)
    case (call i x)
    have e: "is_call e" "i < k" "call_ok x" using assms(3) by (simp_all add: call(1) A)
    have "ph i = Resting" using linked_phase [OF linked, of i] call(3) by (cases "ph i") simp_all
    from all_steps_left_call [of ph i, OF this e(2)] e(1)
    have less: "all_steps_left k (ph(i := Calling x)) < all_steps_left k ph + (if is_call e then 7 else 0)" by simp
    from linked_call [OF linked call(3) e(2,3)] obtain A' where "atomic_next e A = Some A'"
      "linked fd k ib rq S' A' (ph(i := Calling x)) order" unfolding call(1,2) A by blast
    with less show ?thesis by blast
  next
    case (answered i x as c ans w)
    from linked_answered [OF linked answered(3-5)] obtain h order' where
      h: "linked fd k ib rq S' (p, a) (ph(i := h)) order'"
      "ph i = Calling x \<and> h = Queued x \<or> (\<exists>res j. ph i = Replied x res j \<and> j < length (reply_chunks x res) \<and> h = Replied x res (Suc j))"
      unfolding answered(2) by blast
    have "steps_left h < steps_left (ph i)"
      using h(2)
    proof (elim disjE exE conjE)
      fix res j assume j: "ph i = Replied x res j" "j < length (reply_chunks x res)" "h = Replied x res (Suc j)"
      then have "j < 2" using length_reply_chunks [of x res] by linarith
      with j show ?thesis by simp
    qed simp
    with moved [OF _ _ h(1)] linked_caller [OF linked answered(3)] show ?thesis by (simp add: answered(1) A)
  next
    case (return i x as r c)
    from linked_returned [OF linked return(3,4)] obtain j where
      r: "atomic_next (Returned i r) (p, a) = Some (p(i := No_call), a)" "ph i = Replied x r j"
      "linked fd k ib rq S' (p(i := No_call), a) (ph(i := Resting)) order" unfolding return(2) by blast
    note i = linked_caller [OF linked return(3)]
    have "j \<le> 2" using linked_phase [OF linked, of i] i r(2) length_reply_chunks [of x r] by simp
    then show ?thesis using moved [OF _ _ r(3) i] r(1,2) by (simp add: return(1) A del: atomic_next.simps)
  next
    case (main v s w)
    from linked_main [OF linked main(4)] obtain i x order' where
      m: "i < k" "ph i = Queued x" "linked fd k ib rq S' (p, a) (ph(i := Held x)) order'" unfolding main(2) by blast
    then show ?thesis using moved [OF _ _ m(3,1)] by (simp add: main(1) A)
  next
    case (worker i s w)
    let ?r = "\<lambda>x. a_step (fs_op_of x) a"
    from linked_worker [OF linked _ worker(4)] assms(3) obtain x where
      w: "i < k" "ph i = Held x" "atomic_next (Worker_turn i) (p, a) = Some (p(i := Done (fst (?r x))), snd (?r x))"
      "linked fd k ib rq S' (p(i := Done (fst (?r x))), snd (?r x)) (ph(i := Replied x (fst (?r x)) 0)) order"
      unfolding worker(1,2) A by blast
    then show ?thesis using moved [OF _ _ w(4,1)] by (simp add: worker(1) A del: atomic_next.simps)
  qed
qed

section \<open>Runs\<close>

lemma linked_steps:
  assumes "steps (system_step fd pipename heap junk) S es S'" and "linked fd k ib rq S A ph order" and "behaved k es A"
  shows "\<exists>A' ph' order'. atomic_run es A = Some A' \<and> linked fd k ib rq S' A' ph' order' \<and>
    length es + all_steps_left k ph' \<le> all_steps_left k ph + 7 * length (filter is_call es)"
  using assms
proof (induction rule: steps.induct)
  case (none S)
  then show ?case by auto
next
  case (more S es S1 e S2)
  have es: "behaved k es A" using more.prems(2) by (simp add: behaved_append)
  from more.IH [OF more.prems(1) es] obtain A1 ph1 order1 where A1: "atomic_run es A = Some A1" "linked fd k ib rq S1 A1 ph1 order1"
    "length es + all_steps_left k ph1 \<le> all_steps_left k ph + 7 * length (filter is_call es)" by blast
  with more.prems(2) have "event_ok k e A1" by (simp add: behaved_append)
  from linked_step [OF more.hyps(2) A1(2) this] obtain A2 ph2 order2 where
    A2: "atomic_next e A1 = Some A2" "linked fd k ib rq S2 A2 ph2 order2"
    "all_steps_left k ph2 < all_steps_left k ph1 + (if is_call e then 7 else 0)" by blast
  have "atomic_run (es @ [e]) A = Some A2" by (simp add: atomic_run_append A1(1) A2(1))
  moreover have "length (es @ [e]) + all_steps_left k ph2 \<le> all_steps_left k ph + 7 * length (filter is_call (es @ [e]))"
    using A1(3) A2(3) by (cases "is_call e") simp_all
  ultimately show ?case using A2(2) by blast
qed

text \<open>
  The start: \<open>k\<close> clients have mounted and are between calls, their pipes are empty and their sessions wait.
\<close>

definition at_start :: "int \<Rightarrow> nat \<Rightarrow> (nat \<Rightarrow> nat) \<Rightarrow> nat \<Rightarrow> system \<Rightarrow> bool" where
  "at_start fd k ib rq S \<longleftrightarrow> joined fd k ib rq S \<and> pipe_data (sys_os S) rq = [] \<and>
     (\<forall>i<k. sys_calls S i = None \<and> pipe_data (sys_os S) (ib i) = [] \<and> \<not> is_active (sessions (sys_server S) i))"

abbreviation no_calls :: "system \<Rightarrow> atomic" where
  "no_calls S \<equiv> (\<lambda>_. No_call, abs_fs (srv_fs (sys_server S)))"

lemma linked_start: "at_start fd k ib rq S \<Longrightarrow> linked fd k ib rq S (no_calls S) (\<lambda>_. Resting) []"
  by (auto simp: at_start_def linked_def queue_fits_def)

section \<open>No client is stuck\<close>

text \<open>The exception: a client whose \<open>tfs_read\<close> has taken effect at the end of its file.\<close>

definition starved :: "system \<Rightarrow> atomic \<Rightarrow> nat \<Rightarrow> bool" where
  "starved S A i \<longleftrightarrow> (\<exists>f len as. sys_calls S i = Some (Call_read f len, as)) \<and> fst A i = Done (0, [])"

lemma empty_chunk:
  assumes "result_ok x res" and "j < length (reply_chunks x res)" and "reply_chunks x res ! j = []"
  shows "(\<exists>f len. x = Call_read f len) \<and> res = (0, []) \<and> j = 1"
proof -
  have j: "j = 1" using assms(2,3) first_chunk [of x res] length_reply_chunks [of x res] by (cases j) auto
  with assms show ?thesis by (cases x; cases res) (auto simp: result_ok_def)
qed

text \<open>A queued request can be taken, a held one can be carried out, a reply can be read, a call can return.\<close>

lemma main_enabled:
  assumes "linked fd k ib rq S A ph order" and "order \<noteq> []"
  shows "\<exists>S'. system_step fd pipename heap junk S Main_turn S'"
proof -
  obtain i order' where order: "order = i # order'" using assms(2) by (cases order) auto
  have j: "joined fd k ib rq S" using assms(1) by (simp add: linked_def)
  obtain x rest where q: "i < k" "ph i = Queued x" "pipe_data (sys_os S) rq = request_bytes i x @ rest"
    using queue_fits_leave [OF linked_queue [OF assms(1), unfolded order]] by (auto simp: queued_Some)
  have "reads_from (sys_os S) Server_proc fd rq" "idle i (sys_server S)" "call_ok x"
    using j joined_client [OF j q(1)] linked_phase [OF assms(1), of i] q(1,2) by (simp_all add: joined_def client_joined_def)
  from main_takes [OF this(2,1) q(3) this(3), of pipename "sys_vars S"] obtain v s where
    s: "received i (request_bytes i x) [] (sys_server S) s"
    "os_run Server_proc (main_with fd pipename (sys_vars S) (sys_server S)) [] (sys_os S) (Continue v, s)
      ((sys_os S)\<lparr>pipe_data := (pipe_data (sys_os S))(rq := rest)\<rparr>)" by blast
  have "shutting_down_lock s = Locked" "\<not> shutting_down s" "shutting_down_lock (sys_server S) = Unlocked"
    using s(1) j by (auto simp: received_def joined_def)
  with system_step.main [OF _ s(2)] show ?thesis by blast
qed

lemma worker_enabled:
  assumes "linked fd k ib rq S A ph order" and "i < k" and "ph i = Held x" and "event_ok k (Worker_turn i) A"
  shows "\<exists>S'. system_step fd pipename heap junk S (Worker_turn i) S'"
proof -
  have j: "joined fd k ib rq S" using assms(1) by (simp add: linked_def)
  obtain rest where h: "pipe_data (sys_os S) (ib i) = []" "call_ok x"
    "sess_buffer (sessions (sys_server S) i) = request_bytes i x @ rest" "is_active (sessions (sys_server S) i)"
    using linked_phase [OF assms(1), of i] assms(2,3) by auto
  have a: "ready (srv_fs (sys_server S))" "effect_ok x (abs_fs (srv_fs (sys_server S)))"
    using assms(1,3,4) by (cases A, auto simp: linked_def joined_def)+
  obtain fs where fs: "fs_step (fs_op_of x) (srv_fs (sys_server S)) =
      Ok (fst (a_step (fs_op_of x) (abs_fs (srv_fs (sys_server S)))), fs)"
    using tfs.step_law [OF a(1), of "fs_op_of x"] a(2) by (auto simp: effect_ok_def)
  have c: "writes_to (sys_os S) Server_proc (sess_tx (sessions (sys_server S) i)) (ib i)" "idle i (sys_server S)"
    using joined_client [OF j assms(2)] by (simp_all add: client_joined_def)
  have woken: "woken i (request_bytes i x @ rest) (sys_server S)"
    using j h c(2) by (simp add: woken_def joined_def idle_def)
  from worker_runs [OF woken h(2) fs effect_result [OF a(1) h(2) a(2)] c(1) h(1), of heap]
  obtain s w where "os_run Server_proc (\<lambda>as. thread_handler [] heap i (server_with (sys_server S) as)) [] (sys_os S) (True, s) w"
    by blast
  with system_step.worker [OF _ this] c(2) show ?thesis by (auto simp: idle_def)
qed

lemma call_sends:
  assumes "linked fd k ib rq S (p, a) ph order" and "i < k" and "ph i = Calling x"
    and "length (pipe_data (sys_os S) rq) + length (request_bytes i x) \<le> PIPE_CAPACITY"
  shows "\<exists>S'. system_step fd pipename heap junk S (Answered i) S' \<and> linked fd k ib rq S' (p, a) (ph(i := Queued x)) (order @ [i])"
proof -
  have j: "joined fd k ib rq S" using assms(1) by (simp add: linked_def)
  have c: "session_id (sys_clients S i) = int i + 1" "writes_to (sys_os S) (Client_proc i) (tx (sys_clients S i)) rq"
    using joined_client [OF j assms(2)] by (simp_all add: client_joined_def)
  have x: "sys_calls S i = Some (x, [])" "call_ok x" using linked_phase [OF assms(1), of i] assms(2,3) by simp_all
  obtain ans w where w: "os_call (Client_proc i) (Sys_write (tx (sys_clients S i)) (request_bytes i x)) (sys_os S) = Some (ans, w)"
    using os_writes [OF c(2)] assms(4) by simp
  from linked_sends [OF assms(1) x(1) assms(2,3) w] system_step.answered [OF x(1) client_sends [OF x(2) c(1)] w]
  show ?thesis by fastforce
qed

lemma call_read:
  assumes "linked fd k ib rq S (p, a) ph order" and "i < k" and "ph i = Replied x res l" and "l < length (reply_chunks x res)"
    and "reply_chunks x res ! l \<noteq> []"
  shows "\<exists>S'. system_step fd pipename heap junk S (Answered i) S' \<and> linked fd k ib rq S' (p, a) (ph(i := Replied x res (Suc l))) order"
proof -
  have j: "joined fd k ib rq S" using assms(1) by (simp add: linked_def)
  have c: "session_id (sys_clients S i) = int i + 1" "errno (c_sys (sys_clients S i)) \<noteq> EPIPE"
    "reads_from (sys_os S) (Client_proc i) (rx (sys_clients S i)) (ib i)"
    using joined_client [OF j assms(2)] by (simp_all add: client_joined_def)
  have x: "sys_calls S i = Some (x, sent_answer i x # map deliver (take l (reply_chunks x res)))" "call_ok x" "result_ok x res"
    "pipe_data (sys_os S) (ib i) = concat (drop l (reply_chunks x res))"
    using linked_phase [OF assms(1), of i] assms(2,3) by simp_all
  obtain ans w where w: "os_call (Client_proc i) (Sys_read (rx (sys_clients S i)) (chunk_sizes x ! l)) (sys_os S) = Some (ans, w)"
    using os_reads [OF c(3), of "chunk_sizes x ! l"] reply_chunk_taken [OF x(3) assms(4,5)] chunk_sizes_pos [OF x(2) assms(4)] x(4) by (metis (no_types, lifting))
  from linked_reads [OF assms(1) x(1) assms(2-4) w] system_step.answered [OF x(1) client_waits [OF x(2) c(1,2) assms(4)] w]
  show ?thesis by blast
qed

lemma call_returned:
  assumes "linked fd k ib rq S (p, a) ph order" and "i < k" and "ph i = Replied x res (length (reply_chunks x res))"
  shows "\<exists>S'. system_step fd pipename heap junk S (Returned i res) S' \<and> linked fd k ib rq S' (p(i := No_call), a) (ph(i := Resting)) order"
proof -
  have j: "joined fd k ib rq S" using assms(1) by (simp add: linked_def)
  have c: "session_id (sys_clients S i) = int i + 1" "errno (c_sys (sys_clients S i)) \<noteq> EPIPE"
    using joined_client [OF j assms(2)] by (simp_all add: client_joined_def)
  have x: "sys_calls S i = Some (x, sent_answer i x # map deliver (reply_chunks x res))" "call_ok x" "result_ok x res"
    using linked_phase [OF assms(1), of i] assms(2,3) by simp_all
  obtain w where w: "client_call junk x (client_with (sys_clients S i) (sent_answer i x # map deliver (reply_chunks x res))) =
      Ok (res, (sys_clients S i)\<lparr>c_sys := w\<rparr>)"
    using client_returns [OF x(2) c x(3), of junk] by auto
  from linked_returned [OF assms(1) x(1) w] system_step.return [OF x(1) w] show ?thesis by blast
qed

lemma client_enabled:
  assumes "linked fd k ib rq S (p, a) ph order" and "i < k" and "ph i = Replied x res l" and "\<not> starved S (p, a) i"
  shows "\<exists>e S'. \<not> is_call e \<and> system_step fd pipename heap junk S e S'"
proof (cases "l = length (reply_chunks x res)")
  case True
  with call_returned [OF assms(1,2)] assms(3) show ?thesis by (metis is_call.simps(5))
next
  case False
  have x: "result_ok x res" "sys_calls S i = Some (x, sent_answer i x # map deliver (take l (reply_chunks x res)))" "p i = Done res"
    using linked_phase [OF assms(1), of i] assms(1-3) by (auto simp: linked_def)
  have l: "l < length (reply_chunks x res)" using False linked_phase [OF assms(1), of i] assms(2,3) by simp
  have "reply_chunks x res ! l \<noteq> []"
    using empty_chunk [OF x(1) l] assms(4) x(2,3) by (auto simp: starved_def)
  with call_read [OF assms(1-3) l] show ?thesis by (metis is_call.simps(2))
qed

lemma linked_progress:
  assumes "linked fd k ib rq S A ph order" and "sys_calls S i \<noteq> None" and "\<not> starved S A i" and "event_ok k (Worker_turn i) A"
  shows "\<exists>e S'. \<not> is_call e \<and> system_step fd pipename heap junk S e S'"
proof (cases "order = []")
  case False
  with main_enabled [OF assms(1)] show ?thesis by (metis is_call.simps(3))
next
  case True
  obtain p a where A: "A = (p, a)" by (cases A)
  have i: "i < k" using assms(2) linked_caller [OF assms(1)] by blast
  have q: "queue_fits k ph [] (pipe_data (sys_os S) rq)" using linked_queue [OF assms(1)] True by simp
  show ?thesis
  proof (cases "ph i")
    case Resting
    with linked_phase [OF assms(1), of i] assms(2) show ?thesis by simp
  next
    case (Calling x)
    have "length (request_bytes i x) \<le> 2048"
      using linked_phase [OF assms(1), of i] i Calling request_length [of x i] by simp
    with q have "length (pipe_data (sys_os S) rq) + length (request_bytes i x) \<le> PIPE_CAPACITY"
      by (simp add: queue_fits_def config)
    from call_sends [OF assms(1) [unfolded A] i Calling this] show ?thesis by (metis is_call.simps(2))
  next
    case (Queued x)
    with q i show ?thesis by (auto simp: queue_fits_def)
  next
    case (Held x)
    from worker_enabled [OF assms(1) i Held assms(4)] show ?thesis by (metis is_call.simps(4))
  next
    case (Replied x res l)
    from client_enabled [OF assms(1) [unfolded A] i Replied] assms(3) show ?thesis by (simp add: A)
  qed
qed

section \<open>A read at the end of its file\<close>

text \<open>The client has sent its request and read at most the count of bytes, which is 0; it waits for a byte.\<close>

lemma starved_phase:
  assumes "linked fd k ib rq S (p, a) ph order" and "starved S (p, a) i"
  obtains f len l where "i < k" and "ph i = Replied (Call_read f len) (0, []) l" and "l \<le> 1"
    and "sys_calls S i = Some (Call_read f len, sent_answer i (Call_read f len) # map deliver (take l [ssize_bytes 0]))"
    and "pipe_data (sys_os S) (ib i) = concat (drop l [ssize_bytes 0])" and "0 < len"
proof -
  obtain f len as where s: "sys_calls S i = Some (Call_read f len, as)" "p i = Done (0, [])"
    using assms(2) by (auto simp: starved_def)
  note i = linked_caller [OF assms(1) s(1)]
  have "progress_of (ph i) = Done (0, [])" using assms(1) s(2) by (auto simp: linked_def)
  then obtain x l where ph: "ph i = Replied x (0, []) l" by (cases "ph i") auto
  then have fits: "x = Call_read f len" "as = sent_answer i x # map deliver (take l (reply_chunks x (0, [])))" "l \<le> 2"
    "pipe_data (sys_os S) (ib i) = concat (drop l (reply_chunks x (0, [])))" "call_ok x" "[] \<notin> set (take l (reply_chunks x (0, [])))"
    using linked_phase [OF assms(1), of i] i s(1) by auto
  have l: "l \<le> 1"
  proof (rule ccontr)
    assume "\<not> l \<le> 1"
    with fits(3) have "l = 2" by simp
    with fits(1,6) show False by simp
  qed
  with fits have "take l (reply_chunks x (0, [])) = take l [ssize_bytes 0]"
    "concat (drop l (reply_chunks x (0, []))) = concat (drop l [ssize_bytes 0])" by (cases l; simp)+
  with that [OF i, of f len l] ph fits l s(1) show ?thesis by simp
qed

lemma starved_step:
  assumes "system_step fd pipename heap junk S e S'" and "linked fd k ib rq S (p, a) ph order" and "starved S (p, a) i"
    and "event_ok k e (p, a)" and "atomic_next e (p, a) = Some A'"
  shows "starved S' A' i \<and> fst (the (sys_calls S' i)) = fst (the (sys_calls S i)) \<and> (\<forall>r. e \<noteq> Returned i r)"
proof -
  obtain f len l where i: "i < k" "ph i = Replied (Call_read f len) (0, []) l" "l \<le> 1"
    "sys_calls S i = Some (Call_read f len, sent_answer i (Call_read f len) # map deliver (take l [ssize_bytes 0]))"
    using starved_phase [OF assms(2,3)] .
  have p: "p i = Done (0, [])" using assms(3) by (simp add: starved_def)
  from assms(1) show ?thesis
  proof (cases rule: system_step.cases)
    case (call j x)
    with i(4) have "j \<noteq> i" by auto
    with assms(3,5) show ?thesis by (auto simp: call(1,2) starved_def split: if_splits)
  next
    case (answered j x as c ans w)
    with assms(3,5) show ?thesis by (cases "j = i") (auto simp: starved_def)
  next
    case (return j x as r c)
    have "j \<noteq> i"
    proof
      assume ji: "j = i"
      from linked_returned [OF assms(2) return(3,4)] i(2) ji have "r = (0, [])" "x = Call_read f len" by auto
      have cl: "session_id (sys_clients S i) = int i + 1" "errno (c_sys (sys_clients S i)) \<noteq> EPIPE" "call_ok x"
        using joined_client [of fd k ib rq S i] linked_phase [OF assms(2), of i] assms(2) i(1,2) \<open>x = _\<close>
        by (auto simp: client_joined_def linked_def)
      have "l < length (reply_chunks x (0, []))" "take l [ssize_bytes 0] = take l (reply_chunks x (0, []))"
        using i(3) \<open>x = _\<close> by (cases l; simp)+
      moreover have "as = sent_answer i x # map deliver (take l [ssize_bytes 0])"
        using i(4) return(3) ji \<open>x = _\<close> by simp
      ultimately have "client_call junk x (client_with (sys_clients S i) as) = Fault (Waiting (Sys_read (rx (sys_clients S i)) (chunk_sizes x ! l)))"
        using client_waits [OF cl(3,1,2), of l "(0, [])" junk] by simp
      with return(4) ji show False by simp
    qed
    with assms(3,5) show ?thesis by (auto simp: return(1,2) starved_def split: if_splits)
  next
    case (main v s w)
    with assms(3,5) show ?thesis by (auto simp: starved_def)
  next
    case (worker j s w)
    from linked_worker [OF assms(2) _ worker(4)] assms(4) worker(1) obtain x where "ph j = Held x"
      "atomic_next (Worker_turn j) (p, a) = Some (p(j := Done (fst (a_step (fs_op_of x) a))), snd (a_step (fs_op_of x) a))" by blast
    with assms(3,5) i(2) show ?thesis by (auto simp: worker(1,2) starved_def simp del: atomic_next.simps)
  qed
qed

end
