(* ===== verification/System_Mount.thy ===== *)
theory System_Mount
  imports System_Run
begin

text \<open>
  How clients come into the system: a mount goes through the client library, the main thread and a worker,
  and makes the connection the other calls use. From a server that has just been started any number of clients
  up to 63 can mount one after the other; afterwards the properties of \<open>System_Props\<close> apply.
\<close>

section \<open>The parties of a mount\<close>

abbreviation mount_bytes :: "cstring \<Rightarrow> byte list" where
  "mount_bytes client_pipe \<equiv> TFS_OP_CODE_MOUNT # client_pipe @ replicate (BUFFER_SIZE - length client_pipe) 0"

lemma mount_request_eq: "length client_pipe \<le> BUFFER_SIZE \<Longrightarrow> mount_request client_pipe = Ok (mount_bytes client_pipe)"
  by (simp add: mount_request_def buf_put_def config take_Cons' drop_Cons')

text \<open>The client: the calls it waits in, given the answers \<open>u\<close> to \<open>unlink\<close> and the two descriptors.\<close>

abbreviation mount_answer :: "client \<Rightarrow> (int \<times> client) outcome" where
  "mount_answer c \<equiv> and_then (receive (int_bytes (session_id c)) c) (\<lambda>(v, c). case v of
       None \<Rightarrow> Ok (-1, c)
     | Some bs \<Rightarrow> let c = c\<lparr>session_id := bytes_int bs\<rparr> in if session_id c = -1 then Ok (-1, c) else Ok (0, c))"

definition unlinked :: "answer \<Rightarrow> bool" where
  "unlinked u \<longleftrightarrow> ans_ret u = 0 \<or> ans_ret u = -1 \<and> ans_errno u = ENOENT"

lemma mount_opened:
  assumes "length client_pipe < BUFFER_SIZE" and "unlinked u" and "errno (c_sys c) \<noteq> EPIPE" and "d1 \<noteq> -1" and "d2 \<noteq> -1"
  shows "\<exists>w. client_mount client_pipe server_pipe (client_with c (u # reply 0 # reply d1 # reply d2 # as)) =
      and_then (send_request (mount_bytes client_pipe) (c\<lparr>rx := d1, tx := d2, c_sys := w\<rparr>)) (\<lambda>(ok, c).
      if \<not> ok then Ok (-1, c) else
      mount_answer c) \<and>
    answers w = as \<and> errno w \<noteq> EPIPE"
  using assms mount_request_eq [of client_pipe]
  by (cases c) (auto simp: client_mount_def do_call_def syscall_def Let_def reply_def unlinked_def client_with_def ENOENT_def EPIPE_def
      intro!: exI [of _ "(c_sys c)\<lparr>answers := as, errno := (if ans_ret u = -1 then ans_errno u else errno (c_sys c)),
        trace := trace (c_sys c) @ [Sys_unlink client_pipe, Sys_mkfifo client_pipe 416, Sys_open client_pipe O_RDWR,
          Sys_open server_pipe O_WRONLY]\<rparr>"])

lemma mount_waits:
  fixes junk :: "nat \<Rightarrow> byte" and server_pipe :: cstring
  assumes "length client_pipe < BUFFER_SIZE" and "unlinked u" and "errno (c_sys c) \<noteq> EPIPE" and "d1 \<noteq> -1" and "d2 \<noteq> -1"
  defines "call \<equiv> \<lambda>as. client_call junk (Call_mount client_pipe server_pipe) (client_with c as)"
  shows "call [] = Fault (Waiting (Sys_unlink client_pipe))"
    and "call [u] = Fault (Waiting (Sys_mkfifo client_pipe 416))"
    and "call [u, reply 0] = Fault (Waiting (Sys_open client_pipe O_RDWR))"
    and "call [u, reply 0, reply d1] = Fault (Waiting (Sys_open server_pipe O_WRONLY))"
    and "call [u, reply 0, reply d1, reply d2] = Fault (Waiting (Sys_write d2 (mount_bytes client_pipe)))"
    and "call [u, reply 0, reply d1, reply d2, reply 41] = Fault (Waiting (Sys_read d1 4))"
    and "int_ok sid \<Longrightarrow> sid \<noteq> -1 \<Longrightarrow> \<exists>w. call [u, reply 0, reply d1, reply d2, reply 41, deliver (int_bytes sid)] =
      Ok ((0, []), c\<lparr>rx := d1, tx := d2, session_id := sid, c_sys := w\<rparr>) \<and> errno w \<noteq> EPIPE"
proof -
  note eval = call_def no_bytes_def client_mount_def do_call_def syscall_def Let_def reply_def
  show "call [] = Fault (Waiting (Sys_unlink client_pipe))" by (simp add: eval)
  show "call [u] = Fault (Waiting (Sys_mkfifo client_pipe 416))" using assms(2) by (auto simp: eval unlinked_def)
  show "call [u, reply 0] = Fault (Waiting (Sys_open client_pipe O_RDWR))" using assms(2) by (auto simp: eval unlinked_def)
  show "call [u, reply 0, reply d1] = Fault (Waiting (Sys_open server_pipe O_WRONLY))"
    using assms(2,4) by (auto simp: eval unlinked_def)
  have req: "mount_bytes client_pipe \<noteq> []" "length (mount_bytes client_pipe) = 41" using assms(1) by (simp_all add: config)
  note opened = mount_opened [OF assms(1-5), of server_pipe]
  show "call [u, reply 0, reply d1, reply d2] = Fault (Waiting (Sys_write d2 (mount_bytes client_pipe)))"
    using opened [of "[]"] req by (auto simp: call_def no_bytes_def send_waits)
  have sent: "\<exists>w. call (u # reply 0 # reply d1 # reply d2 # reply 41 # as) =
      no_bytes (mount_answer (c\<lparr>rx := d1, tx := d2, c_sys := w\<rparr>)) \<and>
    answers w = as \<and> errno w \<noteq> EPIPE" for as
  proof -
    obtain w where w: "client_mount client_pipe server_pipe (client_with c (u # reply 0 # reply d1 # reply d2 # reply 41 # as)) =
      and_then (send_request (mount_bytes client_pipe) (c\<lparr>rx := d1, tx := d2, c_sys := w\<rparr>)) (\<lambda>(ok, c).
      if \<not> ok then Ok (-1, c) else
      mount_answer c)"
      "answers w = reply 41 # as" "errno w \<noteq> EPIPE"
      using opened [of "reply 41 # as"] by blast
    obtain w' where "send_request (mount_bytes client_pipe) (c\<lparr>rx := d1, tx := d2, c_sys := w\<rparr>) =
        Ok (True, c\<lparr>rx := d1, tx := d2, c_sys := w'\<rparr>)" "answers w' = as" "errno w' = errno w"
      using send_done [of "c\<lparr>rx := d1, tx := d2, c_sys := w\<rparr>" "mount_bytes client_pipe" as] w(2,3) req
      unfolding req(2) by auto
    with w show ?thesis by (intro exI [of _ w']) (simp add: call_def)
  qed
  show "call [u, reply 0, reply d1, reply d2, reply 41] = Fault (Waiting (Sys_read d1 4))"
    using sent [of "[]"] by (auto simp: receive_waits no_bytes_def)
  show "\<exists>w. call [u, reply 0, reply d1, reply d2, reply 41, deliver (int_bytes sid)] =
      Ok ((0, []), c\<lparr>rx := d1, tx := d2, session_id := sid, c_sys := w\<rparr>) \<and> errno w \<noteq> EPIPE" if "int_ok sid" "sid \<noteq> -1"
  proof -
    obtain w where w: "call [u, reply 0, reply d1, reply d2, reply 41, deliver (int_bytes sid)] =
      no_bytes (mount_answer (c\<lparr>rx := d1, tx := d2, c_sys := w\<rparr>))"
      "answers w = [deliver (int_bytes sid)]" "errno w \<noteq> EPIPE" using sent [of "[deliver (int_bytes sid)]"] by blast
    obtain w' where "receive (int_bytes (session_id c)) (c\<lparr>rx := d1, tx := d2, c_sys := w\<rparr>) =
        Ok (Some (int_bytes sid), c\<lparr>rx := d1, tx := d2, c_sys := w'\<rparr>)" "errno w' = errno w"
      using receive_done [of "c\<lparr>rx := d1, tx := d2, c_sys := w\<rparr>" "int_bytes sid" "[]" "int_bytes (session_id c)"] w(2,3) by auto
    with w that show ?thesis by (intro exI [of _ w']) (simp add: no_bytes_def bytes_int_bytes)
  qed
qed

text \<open>The main thread: the session it gives to the client.\<close>

definition admitted :: "nat \<Rightarrow> cstring \<Rightarrow> server \<Rightarrow> server \<Rightarrow> bool" where
  "admitted i client_pipe s s' \<longleftrightarrow>
     sessions s' = (sessions s)(i := (sessions s i)\<lparr>sess_id := int i + 1, is_active := True,
       sess_buffer := mount_bytes client_pipe @ drop 41 (sess_buffer (sessions s i))\<rparr>) \<and>
     next_session_id s' = int i + 2 \<and> next_session_id_lock s' = Unlocked \<and> shutting_down_lock s' = Locked \<and>
     shutting_down s' = shutting_down s \<and> shutdown_called s' = shutdown_called s \<and> srv_fs s' = srv_fs s"

lemma main_mounts:
  assumes "idle i s" and "next_session_id s = int i + 1" and "i < 63" and "next_session_id_lock s = Unlocked"
    and "length client_pipe < BUFFER_SIZE"
  shows "main_with fd pipename v s [deliver [TFS_OP_CODE_MOUNT]] = Fault (Waiting (Sys_read fd 40))"
    and "\<exists>v' s'. main_with fd pipename v s [deliver [TFS_OP_CODE_MOUNT], deliver (drop 1 (mount_bytes client_pipe))] = Ok (Continue v', s') \<and>
      admitted i client_pipe s s'"
proof -
  let ?buf = "sess_buffer (sessions s i)" and ?body = "client_pipe @ replicate (BUFFER_SIZE - length client_pipe) 0"
  have i: "session_lock (sessions s i) = Unlocked" "length ?buf = 2048" using assms(1) by (auto simp: idle_def config)
  have sid: "session_at (int i + 1) = Ok i" using assms(3) by (simp add: session_at_def config)
  have len: "length ?body = 40" using assms(5) by (simp add: config)
  note eval = main_iteration_def receive_mount_def server_steps syscall_def deliver_def check_pipe_open_def buf_put_def
    hand_over_def read_buffer_def read_loop.simps [of fd _ _ 0] read_loop.simps [of fd _ 40 40]
  show "main_with fd pipename v s [deliver [TFS_OP_CODE_MOUNT]] = Fault (Waiting (Sys_read fd 40))"
    using assms i sid by (simp add: eval server_with_def MOUNT_SIZE_SERVER_def BUFFER_SIZE_def)
  show "\<exists>v' s'. main_with fd pipename v s [deliver [TFS_OP_CODE_MOUNT], deliver (drop 1 (mount_bytes client_pipe))] = Ok (Continue v', s') \<and>
      admitted i client_pipe s s'"
    using assms(1-4) i sid len
    by (cases "sessions s i") (simp add: eval server_with_def MOUNT_SIZE_SERVER_def BUFFER_SIZE_def admitted_def)
qed

text \<open>The worker: it opens the client's pipe and tells the session's number.\<close>

lemma worker_mounts:
  fixes heap :: "nat \<Rightarrow> byte"
  assumes "woken i (mount_bytes client_pipe @ rest) s" and "0 \<notin> set client_pipe" and "length client_pipe < BUFFER_SIZE" and "d \<noteq> -1"
  defines "turn \<equiv> \<lambda>as. thread_handler [] heap i (server_with s as)"
  shows "turn [] = Fault (Waiting (Sys_open client_pipe O_WRONLY))"
    and "turn [reply d] = Fault (Waiting (Sys_write d (int_bytes (sess_id (sessions s i)))))"
    and "\<exists>s'. turn [reply d, reply 4] = Ok (True, s') \<and>
      sessions s' = (sessions s)(i := (sessions s i)\<lparr>is_active := False, sess_tx := d, sess_pipename := Dead_local,
        sess_buffer := 0 # drop 1 (mount_bytes client_pipe @ rest)\<rparr>) \<and>
      srv_fs s' = srv_fs s \<and> shutting_down_lock s' = Unlocked \<and> shutting_down s' = shutting_down s \<and> shutdown_called s' = shutdown_called s \<and>
      next_session_id s' = next_session_id s \<and> next_session_id_lock s' = next_session_id_lock s"
proof -
  let ?arr = "client_pipe @ replicate (BUFFER_SIZE - length client_pipe) 0"
  have woken: "woken i (mount_bytes client_pipe @ rest) (server_with s as)" for as using assms(1) by simp
  have buf: "sess_buffer (sessions s i) = [TFS_OP_CODE_MOUNT] @ ?arr @ rest" using assms(1) by (simp add: woken_def)
  have "field i 1 BUFFER_SIZE (server_with s as) = Ok ?arr" for as
    using buf assms(3) by (intro field_at [of _ i "[TFS_OP_CODE_MOUNT]" _ rest]) simp_all
  moreover have "buf_str ?arr = Ok client_pipe"
  proof -
    obtain m where "BUFFER_SIZE - length client_pipe = Suc m" using assms(3) by (metis Suc_diff_Suc)
    then show ?thesis using assms(2) by (simp add: buf_str_def c_str_id)
  qed
  ultimately have d: "dispatch [] heap TFS_OP_CODE_MOUNT i (working i (server_with s as)) =
    and_then (srv_call (Sys_open client_pipe O_WRONLY) (working i (server_with s as))) (\<lambda>(a, s).
    if ans_ret a = -1 then and_then (send_failure i s) (\<lambda>s. Fault (Exit EXIT_FAILURE))
    else and_then (srv_write (ans_ret a) (int_bytes (sess_id (sessions s i))) s) (\<lambda>(r, s).
      if r = -1 then send_failure i s
      else Ok (put_session i (\<lambda>x. x\<lparr>sess_tx := ans_ret a, sess_pipename := Dead_local\<rparr>) s)))" for as
    by (simp add: dispatch_def op_codes case_mount_def)
  note fault = worker_fault [where op_code = TFS_OP_CODE_MOUNT and rest = "?arr @ rest" and heap = heap, OF woken [unfolded append_Cons]]
  have op: "TFS_OP_CODE_MOUNT \<noteq> TFS_OP_CODE_SHUTDOWN" by (simp add: op_codes)
  show "turn [] = Fault (Waiting (Sys_open client_pipe O_WRONLY))" unfolding turn_def
    by (intro fault [OF op]) (simp add: d srv_call_def syscall_def)
  show "turn [reply d] = Fault (Waiting (Sys_write d (int_bytes (sess_id (sessions s i)))))" unfolding turn_def
    using assms(4) by (intro fault [OF op], unfold d) (simp add: srv_write_def srv_call_def syscall_def reply_def working_def)
  show "\<exists>s'. turn [reply d, reply 4] = Ok (True, s') \<and>
      sessions s' = (sessions s)(i := (sessions s i)\<lparr>is_active := False, sess_tx := d, sess_pipename := Dead_local,
        sess_buffer := 0 # drop 1 (mount_bytes client_pipe @ rest)\<rparr>) \<and>
      srv_fs s' = srv_fs s \<and> shutting_down_lock s' = Unlocked \<and> shutting_down s' = shutting_down s \<and> shutdown_called s' = shutdown_called s \<and>
      next_session_id s' = next_session_id s \<and> next_session_id_lock s' = next_session_id_lock s"
  proof -
    have "\<exists>w. dispatch [] heap TFS_OP_CODE_MOUNT i (working i (server_with s [reply d, reply 4])) =
        Ok (put_session i (\<lambda>x. x\<lparr>sess_tx := d, sess_pipename := Dead_local\<rparr>) ((working i s)\<lparr>srv_sys := w\<rparr>))"
      using assms(4) unfolding d
      by (auto simp: srv_write_def srv_call_def syscall_def reply_def working_def server_with_def put_session_def)
    then show ?thesis using assms(1) op unfolding turn_def
      by (cases "sessions s i") (auto simp: thread_handler_def woken_def working_def server_steps field_def buf_get_def
          server_with_def buf_put_def)
  qed
qed

section \<open>The pipes of a mount\<close>

lemma find_upt_free:
  "m \<le> n \<Longrightarrow> n < l \<Longrightarrow> P n \<Longrightarrow> \<exists>d. find P [m..<l] = Some d \<and> m \<le> d \<and> d \<le> n \<and> P d"
proof (induction "l - m" arbitrary: m)
  case (Suc k)
  then have m: "[m..<l] = m # [Suc m..<l]" by (simp add: upt_conv_Cons)
  show ?case
  proof (cases "P m")
    case False
    with Suc.prems have "Suc m \<le> n" by (metis Suc_leI le_neq_implies_less)
    with Suc.hyps(1) [of "Suc m"] Suc.hyps(2) Suc.prems(2,3) False m show ?thesis by fastforce
  qed (use Suc.prems m in auto)
qed simp

lemma lowest_descriptor_free:
  "3 \<le> n \<Longrightarrow> n < OPEN_MAX \<Longrightarrow> descriptors w p (int n) = None \<Longrightarrow>
    \<exists>d. lowest_descriptor p w = Some d \<and> d \<le> n \<and> descriptors w p (int d) = None"
  using find_upt_free [of 3 n OPEN_MAX "\<lambda>k. descriptors w p (int k) = None"] by (auto simp: lowest_descriptor_def)

lemma os_unlinks: "\<exists>u. os_call p (Sys_unlink name) w = Some (u, w\<lparr>pipe_names := (pipe_names w)(name := None)\<rparr>) \<and> unlinked u"
  by (cases "pipe_names w name") (auto simp: unlinked_def failure_def reply_def fun_upd_idem)

text \<open>
  The client makes its pipe and opens both: it has descriptors 3 and 4 for reading from its own pipe and for
  writing to the server's.
\<close>

definition pipe_made :: "cstring \<Rightarrow> os \<Rightarrow> os" where
  "pipe_made client_pipe w = w\<lparr>pipe_names := (pipe_names w)(client_pipe \<mapsto> next_pipe w),
     pipe_data := (pipe_data w)(next_pipe w := []), next_pipe := Suc (next_pipe w)\<rparr>"

definition opened :: "proc \<Rightarrow> int \<Rightarrow> pipe_end \<Rightarrow> os \<Rightarrow> os" where
  "opened p d e w = count_end Suc e (put_descriptor p d (Some e) w)"

lemma os_makes:
  "os_call p (Sys_mkfifo client_pipe mode) (w\<lparr>pipe_names := (pipe_names w)(client_pipe := None)\<rparr>) =
    Some (reply 0, pipe_made client_pipe w)"
  by (simp add: pipe_made_def)

lemma os_opens:
  assumes "pipe_names w name = Some q" and "flags mod 4 = O_RDWR \<or> flags mod 4 = O_WRONLY \<and> 0 < readers w q"
    and "lowest_descriptor p w = Some d"
  shows "os_call p (Sys_open name flags) w = Some (reply (int d), opened p (int d) (open_end q flags) w)"
  using assms by (auto simp: opened_def open_end_def O_RDONLY_def O_WRONLY_def O_RDWR_def Let_def)

section \<open>Mounting\<close>

text \<open>
  The server runs with \<open>k\<close> clients mounted and nothing under way: the pipes are empty, every session waits.
\<close>

definition sessions_free :: "nat \<Rightarrow> server \<Rightarrow> bool" where
  "sessions_free k s \<longleftrightarrow> (\<forall>i. \<not> is_active (sessions s i)) \<and> (\<forall>i<MAX_CLIENTS. idle i s) \<and> next_session_id s = int k + 1 \<and>
     next_session_id_lock s = Unlocked \<and> shutting_down_lock s = Unlocked \<and> \<not> shutting_down s \<and> \<not> shutdown_called s \<and> ready (srv_fs s)"

definition serving :: "int \<Rightarrow> cstring \<Rightarrow> nat \<Rightarrow> (nat \<Rightarrow> nat) \<Rightarrow> nat \<Rightarrow> system \<Rightarrow> bool" where
  "serving fd server_pipe k ib rq S \<longleftrightarrow> k < MAX_CLIENTS \<and> inj_on ib {..<k} \<and> sessions_free k (sys_server S) \<and> (\<forall>i. sys_calls S i = None) \<and>
     (\<forall>i<k. ib i \<noteq> rq \<and> ib i < next_pipe (sys_os S) \<and> pipe_data (sys_os S) (ib i) = [] \<and> client_joined ib rq S i) \<and>
     (\<forall>i\<ge>k. descriptors (sys_os S) (Client_proc i) = (\<lambda>_. None) \<and> errno (c_sys (sys_clients S i)) \<noteq> EPIPE) \<and>
     (\<forall>j\<ge>4 + k. descriptors (sys_os S) Server_proc (int j) = None) \<and>
     (\<exists>e. descriptors (sys_os S) Server_proc fd = Some e \<and> e_reads e \<and> e_pipe e = rq) \<and>
     pipe_names (sys_os S) server_pipe = Some rq \<and> rq < next_pipe (sys_os S) \<and> pipe_data (sys_os S) rq = [] \<and>
     0 < readers (sys_os S) rq \<and> (0 < k \<longrightarrow> 0 < writers (sys_os S) rq)"

lemma serving_at_start: "serving fd server_pipe k ib rq S \<Longrightarrow> 0 < k \<Longrightarrow> at_start fd k ib rq S"
  by (auto simp: serving_def at_start_def joined_def sessions_free_def reads_from_def)

text \<open>The parts of the system during the call of client \<open>i\<close>.\<close>

definition during :: "nat \<Rightarrow> call \<Rightarrow> answer list \<Rightarrow> os \<Rightarrow> main_vars \<Rightarrow> server \<Rightarrow> system \<Rightarrow> system" where
  "during i x as w v s S = S\<lparr>sys_os := w, sys_vars := v, sys_server := s, sys_calls := (sys_calls S)(i \<mapsto> (x, as))\<rparr>"

lemma during_sel [simp]:
  "sys_os (during i x as w v s S) = w" "sys_vars (during i x as w v s S) = v" "sys_server (during i x as w v s S) = s"
  "sys_clients (during i x as w v s S) = sys_clients S" "sys_calls (during i x as w v s S) = (sys_calls S)(i \<mapsto> (x, as))"
  by (simp_all add: during_def)

lemma during_update [simp]:
  "(during i x as w v s S)\<lparr>sys_os := w', sys_vars := v', sys_server := s'\<rparr> = during i x as w' v' s' S"
  "(during i x as w v s S)\<lparr>sys_os := w', sys_server := s'\<rparr> = during i x as w' v s' S"
  "(during i x as w v s S)\<lparr>sys_os := w', sys_calls := (sys_calls S)(i \<mapsto> (x, as'))\<rparr> = during i x as' w' v s S"
  "(during i x as w v s S)\<lparr>sys_clients := f, sys_calls := g\<rparr> =
    S\<lparr>sys_os := w, sys_vars := v, sys_server := s, sys_clients := f, sys_calls := g\<rparr>"
  by (cases S; simp add: during_def)+

lemma during_main:
  "shutting_down_lock s = Unlocked \<Longrightarrow> os_run Server_proc (main_with fd pipename v s) [] w (Continue v', s') w' \<Longrightarrow>
    shutting_down_lock s' = Locked \<Longrightarrow> \<not> shutting_down s' \<Longrightarrow>
    system_step fd pipename heap junk (during i x as w v s S) Main_turn
      (during i x as w' v' (s'\<lparr>shutting_down_lock := Unlocked\<rparr>) S)"
  using system_step.main [where S = "during i x as w v s S"] by simp

lemma during_worker:
  "i < MAX_CLIENTS \<Longrightarrow> os_run Server_proc (\<lambda>as. thread_handler [] heap i (server_with s as)) [] w (True, s') w' \<Longrightarrow>
    system_step fd pipename heap junk (during i x as w v s S) (Worker_turn i) (during i x as w' v s' S)"
  using system_step.worker [where S = "during i x as w v s S"] by simp

lemma during_answered:
  "client_call junk x (client_with (sys_clients S i) as) = Fault (Waiting c) \<Longrightarrow> os_call (Client_proc i) c w = Some (a, w') \<Longrightarrow>
    system_step fd pipename heap junk (during i x as w v s S) (Answered i) (during i x (as @ [a]) w' v s S)"
  using system_step.answered [where S = "during i x as w v s S" and i = i and x = x and as = as] by simp

lemma during_return:
  "client_call junk x (client_with (sys_clients S i) as) = Ok (r, c) \<Longrightarrow>
    system_step fd pipename heap junk (during i x as w v s S) (Returned i r)
      (S\<lparr>sys_os := w, sys_vars := v, sys_server := s, sys_clients := (sys_clients S)(i := c), sys_calls := (sys_calls S)(i := None)\<rparr>)"
  using system_step.return [where S = "during i x as w v s S" and i = i and x = x and as = as] by simp

definition connected :: "nat \<Rightarrow> nat \<Rightarrow> cstring \<Rightarrow> os \<Rightarrow> os" where
  "connected i rq client_pipe w = opened (Client_proc i) 4 (open_end rq O_WRONLY)
     (opened (Client_proc i) 3 (open_end (next_pipe w) O_RDWR) (pipe_made client_pipe w))"

lemma connected_sel [simp]:
  assumes "rq < next_pipe w"
  shows "pipe_data (connected i rq client_pipe w) = (pipe_data w)(next_pipe w := [])"
    and "pipe_names (connected i rq client_pipe w) = (pipe_names w)(client_pipe \<mapsto> next_pipe w)"
    and "next_pipe (connected i rq client_pipe w) = Suc (next_pipe w)"
    and "descriptors (connected i rq client_pipe w) = (descriptors w)(Client_proc i := (descriptors w (Client_proc i))
      (3 \<mapsto> open_end (next_pipe w) O_RDWR, 4 \<mapsto> open_end rq O_WRONLY))"
    and "readers (connected i rq client_pipe w) = (readers w)(next_pipe w := Suc (readers w (next_pipe w)))"
    and "writers (connected i rq client_pipe w) = (writers w)(next_pipe w := Suc (writers w (next_pipe w)), rq := Suc (writers w rq))"
  using assms by (auto simp: connected_def opened_def pipe_made_def count_end_def put_descriptor_def open_end_def
      O_RDONLY_def O_WRONLY_def O_RDWR_def fun_eq_iff)

text \<open>The client up to the point where it has both pipes open; then it sends its request.\<close>

lemma mount_connects:
  assumes "serving fd server_pipe k ib rq S" and "client_pipe \<noteq> server_pipe" and "length client_pipe < BUFFER_SIZE"
  defines "x \<equiv> Call_mount client_pipe server_pipe" and "w \<equiv> connected k rq client_pipe (sys_os S)"
  shows "\<exists>u. unlinked u \<and> steps (system_step fd pipename heap junk) S
    (Call k x # replicate 4 (Answered k)) (during k x [u, reply 0, reply 3, reply 4] w (sys_vars S) (sys_server S) S)"
proof -
  let ?p = "Client_proc k" and ?w0 = "sys_os S"
  let ?w1 = "?w0\<lparr>pipe_names := (pipe_names ?w0)(client_pipe := None)\<rparr>" and ?w2 = "pipe_made client_pipe ?w0"
  let ?w3 = "opened ?p 3 (open_end (next_pipe ?w0) O_RDWR) ?w2"
  have s: "descriptors ?w0 ?p = (\<lambda>_. None)" "pipe_names ?w0 server_pipe = Some rq" "rq < next_pipe ?w0" "pipe_data ?w0 rq = []"
    "0 < readers ?w0 rq" "errno (c_sys (sys_clients S k)) \<noteq> EPIPE" "sys_calls S k = None" "k < MAX_CLIENTS"
    using assms(1) by (auto simp: serving_def)
  obtain u where u: "os_call ?p (Sys_unlink client_pipe) ?w0 = Some (u, ?w1)" "unlinked u" using os_unlinks by blast
  have d: "(3 :: int) \<noteq> -1" "(4 :: int) \<noteq> -1" by simp_all
  note wait = mount_waits(1-4) [OF assms(3) u(2) s(6) d, of junk server_pipe]
  have [simp]: "[3..<OPEN_MAX] = 3 # 4 # [5..<OPEN_MAX]" by (simp add: OPEN_MAX_def upt_conv_Cons)
  have "lowest_descriptor ?p ?w2 = Some 3" using s(1) by (simp add: lowest_descriptor_def pipe_made_def)
  from os_opens [OF _ _ this, of client_pipe "next_pipe ?w0" O_RDWR]
  have o3: "os_call ?p (Sys_open client_pipe O_RDWR) ?w2 = Some (reply 3, ?w3)" by (simp add: pipe_made_def O_RDWR_def)
  have "lowest_descriptor ?p ?w3 = Some 4"
    using s(1) by (simp add: lowest_descriptor_def pipe_made_def opened_def count_end_def put_descriptor_def)
  moreover have "pipe_names ?w3 server_pipe = Some rq" "0 < readers ?w3 rq"
    using s(2,3,5) assms(2) by (simp_all add: pipe_made_def opened_def count_end_def put_descriptor_def)
  ultimately have o4: "os_call ?p (Sys_open server_pipe O_WRONLY) ?w3 = Some (reply 4, w)"
    using os_opens [of ?w3 server_pipe rq O_WRONLY ?p 4] by (simp add: connected_def w_def O_WRONLY_def)
  let ?in = "\<lambda>as w. during k x as w (sys_vars S) (sys_server S) S"
  let ?step = "system_step fd pipename heap junk"
  have "?step S (Call k x) (?in [] ?w0)"
    using system_step.call [OF s(7), of fd pipename heap junk x] by (simp add: during_def)
  moreover have "?step (?in [] ?w0) (Answered k) (?in [u] ?w1)"
    using during_answered [OF wait(1) u(1)] by (simp add: x_def)
  moreover have "?step (?in [u] ?w1) (Answered k) (?in [u, reply 0] ?w2)"
    using during_answered [OF wait(2) os_makes] by (simp add: x_def)
  moreover have "?step (?in [u, reply 0] ?w2) (Answered k) (?in [u, reply 0, reply 3] ?w3)"
    using during_answered [OF wait(3) o3] by (simp add: x_def)
  moreover have "?step (?in [u, reply 0, reply 3] ?w3) (Answered k) (?in [u, reply 0, reply 3, reply 4] w)"
    using during_answered [OF wait(4) o4] by (simp add: x_def)
  ultimately show ?thesis using u(2)
    by (intro exI [of _ u] conjI) (simp_all add: eval_nat_numeral, (rule steps_Cons, assumption)+, rule steps.none)
qed

lemma mount_sends:
  assumes "serving fd server_pipe k ib rq S" and "length client_pipe < BUFFER_SIZE" and "unlinked u"
  defines "x \<equiv> Call_mount client_pipe server_pipe" and "w \<equiv> connected k rq client_pipe (sys_os S)"
  shows "system_step fd pipename heap junk (during k x [u, reply 0, reply 3, reply 4] w (sys_vars S) (sys_server S) S) (Answered k)
    (during k x [u, reply 0, reply 3, reply 4, reply 41] (w\<lparr>pipe_data := (pipe_data w)(rq := mount_bytes client_pipe)\<rparr>)
      (sys_vars S) (sys_server S) S)"
proof -
  let ?p = "Client_proc k"
  have s: "rq < next_pipe (sys_os S)" "pipe_data (sys_os S) rq = []" "0 < readers (sys_os S) rq" "errno (c_sys (sys_clients S k)) \<noteq> EPIPE"
    using assms(1) by (auto simp: serving_def)
  have "writes_to w ?p 4 rq"
    using s(1,3) by (simp add: writes_to_def w_def open_end_def O_WRONLY_def O_RDONLY_def)
  moreover have "length (mount_bytes client_pipe) = 41" using assms(2) by (simp add: config)
  ultimately have o5: "os_call ?p (Sys_write 4 (mount_bytes client_pipe)) w =
      Some (reply 41, w\<lparr>pipe_data := (pipe_data w)(rq := mount_bytes client_pipe)\<rparr>)"
    using s(1,2) by (simp add: os_writes w_def config)
  have d: "(3 :: int) \<noteq> -1" "(4 :: int) \<noteq> -1" by simp_all
  show ?thesis using during_answered [OF mount_waits(5) [OF assms(2,3) s(4) d, of junk server_pipe] o5] by (simp add: x_def)
qed

text \<open>The server's turns: the main thread takes the request in, the worker answers it.\<close>

lemma main_admits:
  assumes "idle i s" and "next_session_id s = int i + 1" and "i < 63" and "next_session_id_lock s = Unlocked"
    and "length client_pipe < BUFFER_SIZE" and "reads_from w Server_proc fd rq" and "pipe_data w rq = mount_bytes client_pipe"
  shows "\<exists>v' s'. admitted i client_pipe s s' \<and> os_run Server_proc (main_with fd pipename v s) [] w (Continue v', s')
    (w\<lparr>pipe_data := (pipe_data w)(rq := [])\<rparr>)"
proof -
  let ?f = "main_with fd pipename v s" and ?body = "drop 1 (mount_bytes client_pipe)"
  let ?w = "\<lambda>b. w\<lparr>pipe_data := (pipe_data w)(rq := b)\<rparr>"
  note m = main_mounts [OF assms(1-5), of fd pipename v]
  obtain v' s' where s': "?f [deliver [TFS_OP_CODE_MOUNT], deliver ?body] = Ok (Continue v', s')" "admitted i client_pipe s s'"
    using m(2) by blast
  have body: "length ?body = 40" "?body \<noteq> []" using assms(5) by (simp_all add: config)
  have "?f [] = Fault (Waiting (Sys_read fd (length [TFS_OP_CODE_MOUNT])))" by (simp add: main_waits(1))
  then have "os_run Server_proc ?f [] w (Continue v', s') (?w []) \<longleftrightarrow>
      os_run Server_proc ?f [deliver [TFS_OP_CODE_MOUNT]] (?w ?body) (Continue v', s') (?w [])"
    using read_run [of ?f "[]" fd "[TFS_OP_CODE_MOUNT]" w Server_proc rq ?body "(Continue v', s')" "?w []"] assms(6,7) by simp
  also have "\<dots> \<longleftrightarrow> os_run Server_proc ?f [deliver [TFS_OP_CODE_MOUNT], deliver ?body] (?w []) (Continue v', s') (?w [])"
    using read_run [of ?f "[deliver [TFS_OP_CODE_MOUNT]]" fd ?body "?w ?body" Server_proc rq "[]" "(Continue v', s')" "?w []"]
      m(1) body assms(6) by simp
  finally have "os_run Server_proc ?f [] w (Continue v', s') (?w [])"
    using os_run_Ok [where f = ?f, OF s'(1)] by simp
  with s'(2) show ?thesis by blast
qed

definition greeted :: "nat \<Rightarrow> int \<Rightarrow> server \<Rightarrow> server \<Rightarrow> bool" where
  "greeted i d s s' \<longleftrightarrow> (\<forall>j. j \<noteq> i \<longrightarrow> sessions s' j = sessions s j) \<and> sess_tx (sessions s' i) = d \<and>
     \<not> is_active (sessions s' i) \<and> (i < MAX_CLIENTS \<longrightarrow> idle i s') \<and> srv_fs s' = srv_fs s \<and> shutting_down_lock s' = Unlocked \<and>
     shutting_down s' = shutting_down s \<and> shutdown_called s' = shutdown_called s \<and> next_session_id s' = next_session_id s \<and> next_session_id_lock s' = next_session_id_lock s"

lemma worker_greets:
  assumes "woken i (mount_bytes client_pipe @ rest) s" and "length rest = 2007" and "0 \<notin> set client_pipe" and "length client_pipe < BUFFER_SIZE"
    and "pipe_names w client_pipe = Some q" and "0 < readers w q" and "lowest_descriptor Server_proc w = Some d" and "pipe_data w q = []"
  defines "w1 \<equiv> opened Server_proc (int d) (open_end q O_WRONLY) w"
  shows "\<exists>s'. greeted i (int d) s s' \<and> os_run Server_proc (\<lambda>as. thread_handler [] heap i (server_with s as)) [] w (True, s')
    (w1\<lparr>pipe_data := (pipe_data w)(q := int_bytes (sess_id (sessions s i)))\<rparr>)"
proof -
  let ?f = "\<lambda>as. thread_handler [] heap i (server_with s as)" and ?bs = "int_bytes (sess_id (sessions s i))"
  note m = worker_mounts [OF assms(1,3,4), of "int d" heap]
  obtain s' where s': "?f [reply (int d), reply 4] = Ok (True, s')"
      "sessions s' = (sessions s)(i := (sessions s i)\<lparr>is_active := False, sess_tx := int d, sess_pipename := Dead_local,
        sess_buffer := 0 # drop 1 (mount_bytes client_pipe @ rest)\<rparr>)"
      "srv_fs s' = srv_fs s" "shutting_down_lock s' = Unlocked" "shutting_down s' = shutting_down s" "shutdown_called s' = shutdown_called s"
      "next_session_id s' = next_session_id s" "next_session_id_lock s' = next_session_id_lock s"
    using m(3) by auto
  have "greeted i (int d) s s'" using s'(2-) assms(1,2,4) by (simp add: greeted_def idle_def woken_def config)
  moreover have o1: "os_call Server_proc (Sys_open client_pipe O_WRONLY) w = Some (reply (int d), w1)"
    using os_opens [OF assms(5) _ assms(7), of O_WRONLY] assms(6) by (simp add: w1_def O_WRONLY_def)
  moreover have o2: "os_call Server_proc (Sys_write (int d) ?bs) w1 = Some (reply 4, w1\<lparr>pipe_data := (pipe_data w)(q := ?bs)\<rparr>)"
  proof -
    have "writes_to w1 Server_proc (int d) q" "pipe_data w1 = pipe_data w"
      using assms(6) by (simp_all add: w1_def opened_def writes_to_def count_end_def put_descriptor_def open_end_def O_WRONLY_def O_RDONLY_def)
    then show ?thesis using assms(8) by (simp add: os_writes config)
  qed
  moreover have "os_run Server_proc ?f [] w (True, s') (w1\<lparr>pipe_data := (pipe_data w)(q := ?bs)\<rparr>)"
    using m(1,2) s'(1)
    by (intro os_run.asks [where f = ?f and as = "[]", OF _ o1] os_run.asks [where f = ?f and as = "[] @ [reply (int d)]", OF _ o2] os_run.returns) simp_all
  ultimately show ?thesis by blast
qed

lemma client_joined_mono:
  assumes "client_joined ib rq S i" and "ib' i = ib i" and "sys_clients S' i = sys_clients S i"
    and "sessions (sys_server S') i = sessions (sys_server S) i"
    and "descriptors (sys_os S') (Client_proc i) = descriptors (sys_os S) (Client_proc i)"
    and "\<And>d. descriptors (sys_os S) Server_proc d \<noteq> None \<Longrightarrow> descriptors (sys_os S') Server_proc d = descriptors (sys_os S) Server_proc d"
    and "\<And>q. readers (sys_os S) q \<le> readers (sys_os S') q" and "\<And>q. writers (sys_os S) q \<le> writers (sys_os S') q"
  shows "client_joined ib' rq S' i"
proof -
  have "0 < readers (sys_os S') q" if "0 < readers (sys_os S) q" for q using assms(7) [of q] that by simp
  moreover have "0 < writers (sys_os S') q" if "0 < writers (sys_os S) q" for q using assms(8) [of q] that by simp
  moreover have "descriptors (sys_os S') Server_proc d = Some e" if "descriptors (sys_os S) Server_proc d = Some e" for d e
    using assms(6) [of d] that by simp
  ultimately show ?thesis using assms(1-5) unfolding client_joined_def writes_to_def reads_from_def idle_def by metis
qed

text \<open>The state after the mount.\<close>

lemma serving_mounted:
  assumes "serving fd server_pipe k ib rq S" and "k < 63" and "client_pipe \<noteq> server_pipe" and "d \<le> 4 + k"
    and "descriptors (sys_os S) Server_proc (int d) = None"
    and "w = (opened Server_proc (int d) (open_end q O_WRONLY) (connected k rq client_pipe (sys_os S)))\<lparr>pipe_data := (pipe_data (sys_os S))(q := [])\<rparr>"
    and "\<forall>j. j \<noteq> k \<longrightarrow> sessions s j = sessions (sys_server S) j" and "sessions_free (Suc k) s" and "sess_tx (sessions s k) = int d"
    and "errno w' \<noteq> EPIPE" and "q = next_pipe (sys_os S)"
  shows "serving fd server_pipe (Suc k) (ib(k := q)) rq (S\<lparr>sys_os := w, sys_vars := v, sys_server := s,
    sys_clients := (sys_clients S)(k := (sys_clients S k)\<lparr>rx := 3, tx := 4, session_id := int k + 1, c_sys := w'\<rparr>),
    sys_calls := (sys_calls S)(k := None)\<rparr>)" (is "serving _ _ _ ?ib _ ?S")
proof -
  have s: "rq < q" "\<And>i. i < k \<Longrightarrow> ib i < q" "inj_on ib {..<k}" "pipe_data (sys_os S) rq = []" using assms(1,11) by (auto simp: serving_def)
  note sel = connected_sel [where i = k and client_pipe = client_pipe and w = "sys_os S", folded assms(11), OF s(1)]
  have w: "pipe_data w = (pipe_data (sys_os S))(q := [])" "pipe_names w = (pipe_names (sys_os S))(client_pipe \<mapsto> q)" "next_pipe w = Suc q"
    "descriptors w = (descriptors (sys_os S))(Server_proc := (descriptors (sys_os S) Server_proc)(int d \<mapsto> open_end q O_WRONLY),
      Client_proc k := (descriptors (sys_os S) (Client_proc k))(3 \<mapsto> open_end q O_RDWR, 4 \<mapsto> open_end rq O_WRONLY))"
    "readers w = (readers (sys_os S))(q := Suc (readers (sys_os S) q))" "0 < writers w q" "0 < writers w rq"
    "\<And>p. writers (sys_os S) p \<le> writers w p"
    using sel s(1) by (auto simp: assms(6) opened_def count_end_def put_descriptor_def open_end_def O_WRONLY_def O_RDONLY_def)
  have ends: "e_reads (open_end q O_RDWR)" "e_writes (open_end q O_RDWR)" "e_writes (open_end p O_WRONLY)" "e_pipe (open_end p f) = p" for p f
    by (simp_all add: open_end_def O_WRONLY_def O_RDONLY_def O_RDWR_def)
  have "client_joined ?ib rq ?S i" if "i < Suc k" for i
  proof (cases "i = k")
    case True
    have "idle k s" using assms(2,8) by (simp add: sessions_free_def config)
    then show ?thesis using True assms(1,9,10) s(1) w ends
      by (simp add: client_joined_def writes_to_def reads_from_def serving_def)
  next
    case False
    have "client_joined ib rq S i" using False that assms(1) by (simp add: serving_def)
    then show ?thesis
    proof (rule client_joined_mono)
      show "descriptors (sys_os ?S) Server_proc d' = descriptors (sys_os S) Server_proc d'"
        if "descriptors (sys_os S) Server_proc d' \<noteq> None" for d'
        using that assms(5) w(4) by auto
    qed (use False assms(7) w in auto)
  qed
  moreover have "inj_on ?ib {..<Suc k}" using s(2,3) by (fastforce simp: inj_on_def less_Suc_eq)
  moreover have "?ib i \<noteq> rq \<and> ?ib i < next_pipe w \<and> pipe_data w (?ib i) = []" if "i < Suc k" for i
    using that assms(1) s(1) s(2) [of i] w(1,3) by (auto simp: serving_def less_Suc_eq)
  moreover have "\<exists>e. descriptors w Server_proc fd = Some e \<and> e_reads e \<and> e_pipe e = rq"
    using assms(1,5) w(4) by (auto simp: serving_def)
  moreover have "descriptors w Server_proc (int j) = None" if "4 + Suc k \<le> j" for j
    using that assms(1,4) w(4) by (simp add: serving_def)
  ultimately show ?thesis using assms(1-3,8) s(1,4) w unfolding serving_def by (simp add: config)
qed

abbreviation mount_events :: "nat \<Rightarrow> cstring \<Rightarrow> cstring \<Rightarrow> event list" where
  "mount_events i client_pipe server_pipe \<equiv> Call i (Call_mount client_pipe server_pipe) # replicate 5 (Answered i) @
     [Main_turn, Worker_turn i, Answered i, Returned i (0, [])]"

text \<open>The two turns of the server, with the request in its pipe.\<close>

lemma mount_served:
  assumes "serving fd server_pipe k ib rq S" and "k < 63" and "0 \<notin> set client_pipe" and "length client_pipe < BUFFER_SIZE"
  defines "w \<equiv> connected k rq client_pipe (sys_os S)" and "q \<equiv> next_pipe (sys_os S)"
  shows "\<exists>v s d. steps (system_step fd pipename heap junk)
      (during k x as (w\<lparr>pipe_data := (pipe_data w)(rq := mount_bytes client_pipe)\<rparr>) (sys_vars S) (sys_server S) S)
      [Main_turn, Worker_turn k]
      (during k x as ((opened Server_proc (int d) (open_end q O_WRONLY) w)
        \<lparr>pipe_data := (pipe_data (sys_os S))(q := int_bytes (int k + 1))\<rparr>) v s S) \<and>
    d \<le> 4 + k \<and> descriptors (sys_os S) Server_proc (int d) = None \<and> sess_tx (sessions s k) = int d \<and>
    (\<forall>j. j \<noteq> k \<longrightarrow> sessions s j = sessions (sys_server S) j) \<and> sessions_free (Suc k) s \<and> srv_fs s = srv_fs (sys_server S)"
proof -
  let ?s = "sys_server S"
  have s: "rq < q" "pipe_data (sys_os S) rq = []" "\<And>i. i < MAX_CLIENTS \<Longrightarrow> idle i ?s" "next_session_id ?s = int k + 1"
    "next_session_id_lock ?s = Unlocked" "shutting_down_lock ?s = Unlocked" "\<not> shutting_down ?s"
    "\<And>j. 4 + k \<le> j \<Longrightarrow> descriptors (sys_os S) Server_proc (int j) = None"
    using assms(1) by (auto simp: serving_def sessions_free_def q_def)
  note sel = connected_sel [where i = k and client_pipe = client_pipe, OF s(1) [unfolded q_def], folded w_def, folded q_def]
  have k: "k < MAX_CLIENTS" using assms(2) by (simp add: config)
  let ?w5 = "w\<lparr>pipe_data := (pipe_data w)(rq := mount_bytes client_pipe)\<rparr>" and ?w6 = "w\<lparr>pipe_data := (pipe_data w)(rq := [])\<rparr>"
  have "reads_from ?w5 Server_proc fd rq" using assms(1) sel s(1) by (auto simp: reads_from_def serving_def)
  from main_admits [OF s(3) [OF k] s(4) assms(2) s(5) assms(4) this, of pipename "sys_vars S"] obtain v s1 where
    s1: "admitted k client_pipe ?s s1" "os_run Server_proc (main_with fd pipename (sys_vars S) ?s) [] ?w5 (Continue v, s1) ?w6" by auto
  let ?s6 = "s1\<lparr>shutting_down_lock := Unlocked\<rparr>" and ?rest = "drop 41 (sess_buffer (sessions ?s k))"
  have main: "system_step fd pipename heap junk (during k x as ?w5 (sys_vars S) ?s S) Main_turn (during k x as ?w6 v ?s6 S)"
    using s1 s(6,7) by (intro during_main [OF _ s1(2)]) (simp_all add: admitted_def)
  have woken: "woken k (mount_bytes client_pipe @ ?rest) ?s6" "length ?rest = 2007"
    using s1(1) s(3) [OF k] by (simp_all add: woken_def admitted_def idle_def config)
  have "4 + k < OPEN_MAX" "descriptors ?w6 Server_proc (int (4 + k)) = None"
    using assms(2) sel(4) s(8) [of "4 + k"] by (simp_all add: OPEN_MAX_def)
  then obtain d where d: "lowest_descriptor Server_proc ?w6 = Some d" "d \<le> 4 + k" "descriptors ?w6 Server_proc (int d) = None"
    using lowest_descriptor_free [of "4 + k" ?w6 Server_proc] by auto
  let ?w8 = "(opened Server_proc (int d) (open_end q O_WRONLY) ?w6)\<lparr>pipe_data := (pipe_data ?w6)(q := int_bytes (int k + 1))\<rparr>"
  have "pipe_names ?w6 client_pipe = Some q" "0 < readers ?w6 q" "pipe_data ?w6 q = []" "sess_id (sessions ?s6 k) = int k + 1"
    using sel s(1) s1(1) by (simp_all add: admitted_def)
  from worker_greets [OF woken assms(3,4) this(1,2) d(1) this(3), of heap] this(4) obtain s2 where
    s2: "greeted k (int d) ?s6 s2" "os_run Server_proc (\<lambda>as. thread_handler [] heap k (server_with ?s6 as)) [] ?w6 (True, s2) ?w8" by auto
  have w8: "?w8 = (opened Server_proc (int d) (open_end q O_WRONLY) w)\<lparr>pipe_data := (pipe_data (sys_os S))(q := int_bytes (int k + 1))\<rparr>"
    using sel(1) s(1,2) by (simp add: opened_def count_end_def put_descriptor_def open_end_def O_WRONLY_def O_RDONLY_def fun_eq_iff)
  have "sessions_free (Suc k) s2"
  proof -
    have "idle i s2" if "i < MAX_CLIENTS" for i
      using s(3) [OF that] s1(1) s2(1) k by (cases "i = k") (simp_all add: greeted_def admitted_def idle_def)
    moreover have "\<not> is_active (sessions s2 i)" for i
      using assms(1) s1(1) s2(1) by (cases "i = k") (simp_all add: greeted_def admitted_def serving_def sessions_free_def)
    ultimately show ?thesis using assms(1) s1(1) s2(1)
      by (simp add: sessions_free_def greeted_def admitted_def serving_def)
  qed
  moreover have "sess_tx (sessions s2 k) = int d" "\<forall>j. j \<noteq> k \<longrightarrow> sessions s2 j = sessions ?s j" "srv_fs s2 = srv_fs ?s"
    using s1(1) s2(1) by (simp_all add: greeted_def admitted_def)
  moreover have "descriptors (sys_os S) Server_proc (int d) = None" using d(3) sel(4) by simp
  ultimately show ?thesis
    using steps_Cons [OF main steps_one [where step = "system_step fd pipename heap junk", OF during_worker [OF k s2(2)]]] d(2) unfolding w8 by blast
qed

text \<open>From there to the end of the call.\<close>

lemma mount_completes:
  assumes "serving fd server_pipe k ib rq S" and "k < 63" and "unlinked u"
    and "client_pipe \<noteq> server_pipe" and "0 \<notin> set client_pipe" and "length client_pipe < BUFFER_SIZE"
  defines "x \<equiv> Call_mount client_pipe server_pipe" and "w \<equiv> connected k rq client_pipe (sys_os S)"
  shows "\<exists>S'. steps (system_step fd pipename heap junk) (during k x [u, reply 0, reply 3, reply 4] w (sys_vars S) (sys_server S) S)
      [Answered k, Main_turn, Worker_turn k, Answered k, Returned k (0, [])] S' \<and>
    serving fd server_pipe (Suc k) (ib(k := next_pipe (sys_os S))) rq S' \<and> srv_fs (sys_server S') = srv_fs (sys_server S)"
proof -
  let ?x = "Call_mount client_pipe server_pipe" and ?q = "next_pipe (sys_os S)" and ?s = "sys_server S" and ?c = "sys_clients S k"
  let ?step = "system_step fd pipename heap junk"
  have s: "errno (c_sys ?c) \<noteq> EPIPE" "rq < ?q" "sys_calls S = (\<lambda>_. None)" using assms(1) by (auto simp: serving_def)
  note sel = connected_sel [where i = k and client_pipe = client_pipe, OF s(2), folded w_def]
  note sent = mount_sends [where pipename = pipename and heap = heap and junk = junk, OF assms(1,6,3), folded w_def]
  let ?as = "[u, reply 0, reply 3, reply 4, reply 41]"
  obtain v s' d where s': "steps ?step (during k ?x ?as (w\<lparr>pipe_data := (pipe_data w)(rq := mount_bytes client_pipe)\<rparr>) (sys_vars S) ?s S)
      [Main_turn, Worker_turn k] (during k ?x ?as ((opened Server_proc (int d) (open_end ?q O_WRONLY) w)
        \<lparr>pipe_data := (pipe_data (sys_os S))(?q := int_bytes (int k + 1))\<rparr>) v s' S)"
    "d \<le> 4 + k" "descriptors (sys_os S) Server_proc (int d) = None" "sess_tx (sessions s' k) = int d"
    "\<forall>j. j \<noteq> k \<longrightarrow> sessions s' j = sessions ?s j" "sessions_free (Suc k) s'" "srv_fs s' = srv_fs ?s"
    using mount_served [OF assms(1,2,5,6)] unfolding w_def by blast
  let ?w7 = "opened Server_proc (int d) (open_end ?q O_WRONLY) w"
  let ?w8 = "?w7\<lparr>pipe_data := (pipe_data (sys_os S))(?q := int_bytes (int k + 1))\<rparr>" and ?w9 = "?w7\<lparr>pipe_data := (pipe_data (sys_os S))(?q := [])\<rparr>"
  have sid: "int_ok (int k + 1)" "int k + 1 \<noteq> -1" "(3 :: int) \<noteq> -1" "(4 :: int) \<noteq> -1" using assms(2) by (simp_all add: int_ok_def)
  note wait = mount_waits(6) [OF assms(6,3) s(1) sid(3,4), of junk server_pipe]
  obtain w' where w': "client_call junk ?x (client_with ?c (?as @ [deliver (int_bytes (int k + 1))])) =
      Ok ((0, []), ?c\<lparr>rx := 3, tx := 4, session_id := int k + 1, c_sys := w'\<rparr>)" "errno w' \<noteq> EPIPE"
    using mount_waits(7) [OF assms(6,3) s(1) sid(3,4,1,2), of junk server_pipe] by auto
  have "reads_from ?w8 (Client_proc k) 3 ?q"
    using sel s(2) by (simp add: reads_from_def opened_def count_end_def put_descriptor_def open_end_def O_RDWR_def O_WRONLY_def)
  from os_reads [OF this, of 4] have "os_call (Client_proc k) (Sys_read 3 4) ?w8 = Some (deliver (int_bytes (int k + 1)), ?w9)" by simp
  from during_answered [OF wait this] have reads: "?step (during k ?x ?as ?w8 v s' S) (Answered k)
      (during k ?x (?as @ [deliver (int_bytes (int k + 1))]) ?w9 v s' S)" by blast
  let ?S = "S\<lparr>sys_os := ?w9, sys_vars := v, sys_server := s',
    sys_clients := (sys_clients S)(k := ?c\<lparr>rx := 3, tx := 4, session_id := int k + 1, c_sys := w'\<rparr>), sys_calls := (sys_calls S)(k := None)\<rparr>"
  have "steps ?step (during k ?x [u, reply 0, reply 3, reply 4] w (sys_vars S) ?s S)
      [Answered k, Main_turn, Worker_turn k, Answered k, Returned k (0, [])] ?S"
    using steps_Cons [OF sent steps_append [OF steps_Cons [OF reads steps_one [where step = ?step, OF during_return [OF w'(1)]]] s'(1)]] by simp
  moreover have "serving fd server_pipe (Suc k) (ib(k := ?q)) rq ?S"
    by (rule serving_mounted [OF assms(1,2,4) s'(2,3) _ s'(5,6,4) w'(2)]) (simp_all add: w_def)
  moreover have "srv_fs (sys_server ?S) = srv_fs ?s" using s'(7) by simp
  ultimately show ?thesis unfolding x_def by blast
qed

lemma mount_runs:
  assumes "serving fd server_pipe k ib rq S" and "k < 63"
    and "client_pipe \<noteq> server_pipe" and "0 \<notin> set client_pipe" and "length client_pipe < BUFFER_SIZE"
  shows "\<exists>S'. steps (system_step fd pipename heap junk) S (mount_events k client_pipe server_pipe) S' \<and>
    serving fd server_pipe (Suc k) (ib(k := next_pipe (sys_os S))) rq S' \<and> srv_fs (sys_server S') = srv_fs (sys_server S)"
proof -
  let ?step = "system_step fd pipename heap junk" and ?x = "Call_mount client_pipe server_pipe"
  obtain u where u: "unlinked u" "steps ?step S (Call k ?x # replicate 4 (Answered k))
      (during k ?x [u, reply 0, reply 3, reply 4] (connected k rq client_pipe (sys_os S)) (sys_vars S) (sys_server S) S)"
    using mount_connects [where pipename = pipename and heap = heap and junk = junk, OF assms(1,3,5)] by blast
  from mount_completes [where pipename = pipename and heap = heap and junk = junk, OF assms(1,2) u(1) assms(3-5)] obtain S' where
    S': "steps ?step (during k ?x [u, reply 0, reply 3, reply 4] (connected k rq client_pipe (sys_os S)) (sys_vars S) (sys_server S) S)
      [Answered k, Main_turn, Worker_turn k, Answered k, Returned k (0, [])] S'"
      "serving fd server_pipe (Suc k) (ib(k := next_pipe (sys_os S))) rq S'" "srv_fs (sys_server S') = srv_fs (sys_server S)" by blast
  have "steps ?step S (mount_events k client_pipe server_pipe) S'"
    using steps_append [OF S'(1) u(2)] by (simp add: eval_nat_numeral)
  with S'(2,3) show ?thesis by blast
qed

end
