(* ===== verification/System_Props.thy ===== *)
theory System_Props
  imports System_Mount
begin

text \<open>
  The properties of clients and server together: clients can mount; what they then see is the abstract file
  system, one call after the other; and every call returns.
\<close>

section \<open>A call from its beginning to its end\<close>

text \<open>The steps of one call, one by one; the others may be in any phase.\<close>

lemma call_taken:
  assumes "linked fd k ib rq S (p, a) ph (i # order)"
  shows "\<exists>S' x. system_step fd pipename heap junk S Main_turn S' \<and> ph i = Queued x \<and>
    linked fd k ib rq S' (p, a) (ph(i := Held x)) order"
proof -
  obtain S' where S': "system_step fd pipename heap junk S Main_turn S'" using main_enabled [OF assms] by blast
  then show ?thesis
  proof (cases rule: system_step.cases)
    case (main v s w)
    from linked_main [OF assms main(3)] S' show ?thesis unfolding main(1) by blast
  qed
qed

lemma call_served:
  assumes "linked fd k ib rq S (p, a) ph order" and "i < k" and "ph i = Held x" and "effect_ok x a"
  shows "\<exists>S'. system_step fd pipename heap junk S (Worker_turn i) S' \<and>
    linked fd k ib rq S' (p(i := Done (fst (a_step (fs_op_of x) a))), snd (a_step (fs_op_of x) a))
      (ph(i := Replied x (fst (a_step (fs_op_of x) a)) 0)) order"
proof -
  have "p i = Pending x" using assms(1,3) by (simp add: linked_def)
  then have ok: "event_ok k (Worker_turn i) (p, a)" using assms(4) by simp
  obtain S' where S': "system_step fd pipename heap junk S (Worker_turn i) S'" using worker_enabled [OF assms(1-3) ok] by blast
  then show ?thesis
  proof (cases rule: system_step.cases)
    case (worker s w)
    from linked_worker [OF assms(1) ok worker(3)] assms(3) S' show ?thesis unfolding worker(1) by auto
  qed
qed

text \<open>A whole call while the others rest.\<close>

abbreviation call_events :: "nat \<Rightarrow> call \<Rightarrow> fs_res \<Rightarrow> event list" where
  "call_events i x res \<equiv> [Call i x, Answered i, Main_turn, Worker_turn i] @
     replicate (length (reply_chunks x res)) (Answered i) @ [Returned i res]"

lemma call_reads_all:
  assumes "linked fd k ib rq S (p, a) ph order" and "i < k" and "ph i = Replied x res l" and "l + n = length (reply_chunks x res)"
    and "[] \<notin> set (reply_chunks x res)"
  shows "\<exists>S'. steps (system_step fd pipename heap junk) S (replicate n (Answered i) @ [Returned i res]) S' \<and>
    linked fd k ib rq S' (p(i := No_call), a) (ph(i := Resting)) order"
  using assms
proof (induction n arbitrary: l S ph)
  case 0
  then obtain S' where "system_step fd pipename heap junk S (Returned i res) S'"
    "linked fd k ib rq S' (p(i := No_call), a) (ph(i := Resting)) order"
    using call_returned [OF 0(1,2), of x res] by (simp del: fun_upd_apply) blast
  then show ?case using steps_one [where step = "system_step fd pipename heap junk"] by (simp del: fun_upd_apply) blast
next
  case (Suc n)
  have "l < length (reply_chunks x res)" using Suc.prems(4) by simp
  with Suc.prems(5) have l: "l < length (reply_chunks x res)" "reply_chunks x res ! l \<noteq> []" by (metis nth_mem)+
  obtain S1 where S1: "system_step fd pipename heap junk S (Answered i) S1"
    "linked fd k ib rq S1 (p, a) (ph(i := Replied x res (Suc l))) order"
    using call_read [where pipename = pipename and heap = heap and junk = junk, OF Suc.prems(1-3) l] by auto
  obtain S' where "steps (system_step fd pipename heap junk) S1 (replicate n (Answered i) @ [Returned i res]) S'"
    "linked fd k ib rq S' (p(i := No_call), a) (ph(i := Resting)) order"
    using Suc.IH [OF S1(2) Suc.prems(2), of "Suc l"] Suc.prems(4,5) by (auto simp only: fun_upd_upd fun_upd_same add_Suc_shift)
  with steps_Cons [where step = "system_step fd pipename heap junk", OF S1(1)] show ?case
    by (simp del: fun_upd_apply) blast
qed

lemma call_takes_effect:
  assumes "linked fd k ib rq S (\<lambda>_. No_call, a) (\<lambda>_. Resting) []" and "i < k" and "call_ok x" and "effect_ok x a"
  defines "res \<equiv> fst (a_step (fs_op_of x) a)"
  shows "\<exists>S'. steps (system_step fd pipename heap junk) S [Call i x, Answered i, Main_turn, Worker_turn i] S' \<and>
    linked fd k ib rq S' ((\<lambda>_. No_call)(i := Done res), snd (a_step (fs_op_of x) a)) ((\<lambda>_. Resting)(i := Replied x res 0)) []"
proof -
  let ?ph = "\<lambda>h. (\<lambda>_. Resting)(i := h)" and ?p = "\<lambda>h. (\<lambda>_. No_call)(i := h)" and ?step = "system_step fd pipename heap junk"
  have "sys_calls S i = None" using linked_phase [OF assms(1), of i] by simp
  from linked_call [OF assms(1) this assms(2,3)] system_step.call [OF this, of fd pipename heap junk x]
  obtain S1 where S1: "?step S (Call i x) S1" "linked fd k ib rq S1 (?p (Pending x), a) (?ph (Calling x)) []" by auto
  have "length (pipe_data (sys_os S1) rq) + length (request_bytes i x) \<le> PIPE_CAPACITY"
    using linked_queue [OF S1(2)] request_length [OF assms(3), of i] by (simp add: queue_fits_def config)
  from call_sends [where pipename = pipename and heap = heap and junk = junk, OF S1(2) assms(2) _ this] obtain S2 where
    S2: "?step S1 (Answered i) S2" "linked fd k ib rq S2 (?p (Pending x), a) (?ph (Queued x)) [i]" by auto
  from call_taken [where pipename = pipename and heap = heap and junk = junk, OF S2(2)] obtain S3 where
    S3: "?step S2 Main_turn S3" "linked fd k ib rq S3 (?p (Pending x), a) (?ph (Held x)) []" by auto
  from call_served [where pipename = pipename and heap = heap and junk = junk, OF S3(2) assms(2) _ assms(4)] obtain S4 where
    S4: "?step S3 (Worker_turn i) S4" "linked fd k ib rq S4 (?p (Done res), snd (a_step (fs_op_of x) a)) (?ph (Replied x res 0)) []"
    unfolding res_def by auto
  have "steps ?step S [Call i x, Answered i, Main_turn, Worker_turn i] S4"
    using steps_Cons [OF S1(1) steps_Cons [OF S2(1) steps_Cons [OF S3(1) steps_one [where step = ?step, OF S4(1)]]]] .
  with S4(2) show ?thesis by blast
qed

lemma call_runs:
  assumes "linked fd k ib rq S (\<lambda>_. No_call, a) (\<lambda>_. Resting) []" and "i < k" and "call_ok x" and "effect_ok x a"
  defines "res \<equiv> fst (a_step (fs_op_of x) a)"
  assumes "[] \<notin> set (reply_chunks x res)"
  shows "\<exists>S'. steps (system_step fd pipename heap junk) S (call_events i x res) S' \<and>
    linked fd k ib rq S' (\<lambda>_. No_call, snd (a_step (fs_op_of x) a)) (\<lambda>_. Resting) []"
proof -
  let ?step = "system_step fd pipename heap junk"
  obtain S4 where S4: "steps ?step S [Call i x, Answered i, Main_turn, Worker_turn i] S4"
    "linked fd k ib rq S4 ((\<lambda>_. No_call)(i := Done res), snd (a_step (fs_op_of x) a)) ((\<lambda>_. Resting)(i := Replied x res 0)) []"
    using call_takes_effect [OF assms(1-4)] unfolding res_def by blast
  from call_reads_all [where pipename = pipename and heap = heap and junk = junk, OF S4(2) assms(2) _ _ assms(6), of 0 "length (reply_chunks x res)"] obtain S5 where
    S5: "steps ?step S4 (replicate (length (reply_chunks x res)) (Answered i) @ [Returned i res]) S5"
      "linked fd k ib rq S5 ((\<lambda>_. No_call)(i := No_call), snd (a_step (fs_op_of x) a)) ((\<lambda>_. Resting)(i := Resting)) []" by auto
  from steps_append [OF S5(1) S4(1)] S5(2) show ?thesis by (intro exI [of _ S5]) (simp add: fun_upd_idem)
qed

section \<open>A concrete system\<close>

text \<open>The server has opened its pipe, named \<open>s\<close>; nobody has mounted.\<close>

definition demo_system :: system where
  "demo_system = \<lparr>
     sys_os = \<lparr>pipe_names = [[0x73] \<mapsto> 0], pipe_data = (\<lambda>_. []), next_pipe = 1,
       descriptors = (\<lambda>_ _. None)(Server_proc := [3 \<mapsto> open_end 0 O_RDONLY]), readers = (\<lambda>_. 0)(0 := 1), writers = (\<lambda>_. 0)\<rparr>,
     sys_vars = demo_vars,
     sys_server = (demo_server (booted fs_static) [])\<lparr>next_session_id := 1, shutting_down_lock := Unlocked\<rparr>,
     sys_clients = (\<lambda>_. \<lparr>rx = 0, tx = 0, session_id = 0, c_sys = \<lparr>answers = [], errno = 0, trace = []\<rparr>\<rparr>),
     sys_calls = (\<lambda>_. None)\<rparr>"

lemma demo_system_serving: "serving 3 [0x73] 0 ib 0 demo_system"
  using ready_start(1)
  by (auto simp: serving_def demo_system_def sessions_free_def demo_server_def idle_def open_end_def O_RDONLY_def O_WRONLY_def EPIPE_def config)

text \<open>The system after the first client, whose pipe is named \<open>c\<close>, has mounted.\<close>

lemma demo_mounts:
  "\<exists>S. steps (system_step 3 [0x73] (\<lambda>_. 0) (\<lambda>_. 0)) demo_system (mount_events 0 [0x63] [0x73]) S \<and>
    serving 3 [0x73] 1 ((\<lambda>_. 0)(0 := 1)) 0 S \<and> at_start 3 1 ((\<lambda>_. 0)(0 := 1)) 0 S \<and> abs_fs (srv_fs (sys_server S)) = empty_fs"
proof -
  have [simp]: "next_pipe (sys_os demo_system) = 1" "srv_fs (sys_server demo_system) = booted fs_static"
    by (simp_all add: demo_system_def)
  obtain S where "steps (system_step 3 [0x73] (\<lambda>_. 0) (\<lambda>_. 0)) demo_system (mount_events 0 [0x63] [0x73]) S"
    "serving 3 [0x73] (Suc 0) ((\<lambda>_. 0)(0 := 1)) 0 S" "srv_fs (sys_server S) = booted fs_static"
    using mount_runs [where pipename = "[0x73]" and heap = "\<lambda>_. 0" and junk = "\<lambda>_. 0", OF demo_system_serving [of "\<lambda>_. 0"], of "[0x63]"] by (auto simp: config)
  with ready_start(2) serving_at_start show ?thesis by (intro exI [of _ S]) simp
qed

text \<open>A second client, whose pipe is named \<open>d\<close>.\<close>

lemma demo_mounts_two:
  "\<exists>S ib. steps (system_step 3 [0x73] (\<lambda>_. 0) (\<lambda>_. 0)) demo_system
      (mount_events 0 [0x63] [0x73] @ mount_events 1 [0x64] [0x73]) S \<and>
    at_start 3 2 ib 0 S \<and> abs_fs (srv_fs (sys_server S)) = empty_fs"
proof -
  let ?step = "system_step 3 [0x73] (\<lambda>_. 0) (\<lambda>_. 0)"
  obtain S1 where S1: "steps ?step demo_system (mount_events 0 [0x63] [0x73]) S1"
    "serving 3 [0x73] 1 ((\<lambda>_. 0)(0 := 1)) 0 S1" "abs_fs (srv_fs (sys_server S1)) = empty_fs" using demo_mounts by blast
  from mount_runs [where pipename = "[0x73]" and heap = "\<lambda>_. 0" and junk = "\<lambda>_. 0", OF S1(2), of "[0x64]"]
  obtain S ib where S: "steps ?step S1 (mount_events 1 [0x64] [0x73]) S" "serving 3 [0x73] (Suc 1) ib 0 S"
    "srv_fs (sys_server S) = srv_fs (sys_server S1)" by (auto simp: config)
  with serving_at_start [of 3 "[0x73]" "Suc 1" ib 0 S] have "at_start 3 2 ib 0 S" by (simp add: numeral_2_eq_2)
  with steps_append [OF S(1) S1(1)] S(3) S1(3) show ?thesis by (intro exI [of _ S] exI [of _ ib]) simp
qed

lemma demo_open_ok: "call_ok (Call_open f1 TFS_O_CREAT)" "effect_ok (Call_open f1 TFS_O_CREAT) empty_fs"
  "fst (a_step (Op_open f1 TFS_O_CREAT) empty_fs) = (0, [])"
  using good_f1(1) by (simp_all add: f1_def config int_ok_def effect_ok_def empty_fs_def eval_abs)

section \<open>The properties\<close>

text \<open>
  C1: Clients and server together are linearizable, as long as the clients keep the contract \<open>behaved\<close>: the \<open>k\<close> clients
  have mounted and make no further mount and no shutdown; a path name is a proper name that fits the request, the other arguments fit
  their C types, a write fits the session's buffer and a read asks for at least one byte; and a call that takes effect is
  allowed in the file system's state then: reads and writes go through open handles, and no file open elsewhere is truncated.
  Then, whatever the interleaving of the clients' system calls with the turns of the server's threads, over pipes that
  behave as documented, the calls and returns the clients see are those of one abstract file system on which each call
  takes effect at one moment between its start and its return, in its worker's turn, with the abstract operation's result.
  (A read at the end of its file takes effect too, with no bytes; it never returns, see \<open>starved\<close>.)
\<close>
theorem system_linearises:
  assumes "at_start fd k ib rq S0" and "steps (system_step fd pipename heap junk) S0 es S" and "behaved k es (no_calls S0)"
  shows "\<exists>p. atomic_run es (no_calls S0) = Some (p, abs_fs (srv_fs (sys_server S))) \<and> ready (srv_fs (sys_server S)) \<and>
    (\<forall>i. p i = No_call \<longleftrightarrow> sys_calls S i = None)"
proof -
  from linked_steps [OF assms(2) linked_start [OF assms(1)] assms(3)] obtain p a ph order where
    A: "atomic_run es (no_calls S0) = Some (p, a)" "linked fd k ib rq S (p, a) ph order" by force
  have S: "p = progress_of \<circ> ph" "a = abs_fs (srv_fs (sys_server S))" "ready (srv_fs (sys_server S))"
    using A(2) by (simp_all add: linked_def joined_def)
  have "p i = No_call \<longleftrightarrow> sys_calls S i = None" for i
    using linked_phase [OF A(2), of i] by (cases "ph i") (simp_all add: S(1))
  with S A(1) show ?thesis by auto
qed

text \<open>The call that opens \<open>f1\<close>, made by a client that has mounted.\<close>

lemma demo_call_runs:
  "\<exists>S0 S. at_start 3 1 ((\<lambda>_. 0)(0 := 1)) 0 S0 \<and> abs_fs (srv_fs (sys_server S0)) = empty_fs \<and>
    steps (system_step 3 [0x73] (\<lambda>_. 0) (\<lambda>_. 0)) S0 (call_events 0 (Call_open f1 TFS_O_CREAT) (0, [])) S \<and>
    behaved 1 (call_events 0 (Call_open f1 TFS_O_CREAT) (0, [])) (\<lambda>_. No_call, empty_fs)"
proof -
  obtain S0 where S0: "at_start 3 1 ((\<lambda>_. 0)(0 := 1)) 0 S0" "abs_fs (srv_fs (sys_server S0)) = empty_fs" using demo_mounts by blast
  have "linked 3 1 ((\<lambda>_. 0)(0 := 1)) 0 S0 (\<lambda>_. No_call, empty_fs) (\<lambda>_. Resting) []" using linked_start [OF S0(1)] S0(2) by simp
  from call_runs [where pipename = "[0x73]" and heap = "\<lambda>_. 0" and junk = "\<lambda>_. 0", OF this _ demo_open_ok(1,2), of 0] demo_open_ok(3) obtain S where
    "steps (system_step 3 [0x73] (\<lambda>_. 0) (\<lambda>_. 0)) S0 (call_events 0 (Call_open f1 TFS_O_CREAT) (0, [])) S" by auto
  moreover have "behaved 1 (call_events 0 (Call_open f1 TFS_O_CREAT) (0, [])) (\<lambda>_. No_call, empty_fs)"
    using demo_open_ok by (simp split: prod.split)
  ultimately show ?thesis using S0 by blast
qed

theorem system_linearises_witness:
  "\<exists>S0 S p. steps (system_step 3 [0x73] (\<lambda>_. 0) (\<lambda>_. 0)) S0 (call_events 0 (Call_open f1 TFS_O_CREAT) (0, [])) S \<and>
    atomic_run (call_events 0 (Call_open f1 TFS_O_CREAT) (0, [])) (no_calls S0) = Some (p, abs_fs (srv_fs (sys_server S)))"
proof -
  obtain S0 S where "at_start 3 1 ((\<lambda>_. 0)(0 := 1)) 0 S0" "abs_fs (srv_fs (sys_server S0)) = empty_fs"
    "steps (system_step 3 [0x73] (\<lambda>_. 0) (\<lambda>_. 0)) S0 (call_events 0 (Call_open f1 TFS_O_CREAT) (0, [])) S"
    "behaved 1 (call_events 0 (Call_open f1 TFS_O_CREAT) (0, [])) (\<lambda>_. No_call, empty_fs)" using demo_call_runs by blast
  with system_linearises [OF this(1,3)] show ?thesis by metis
qed

text \<open>
  C3: Calls return, with one exception. As long as the clients keep the contract \<open>behaved\<close> of the previous property, a run in
  which \<open>n\<close> calls are made has at most \<open>7 * n\<close> steps, however clients and threads interleave; and as long as a call is under
  way that is not a read which found no bytes at the end of its file, some client or thread has a step to take, unless the call
  has not taken effect yet and is one the file system does not allow in the present state. So with any scheduling that lets
  somebody go on every such call has returned after finitely many steps.
\<close>
theorem calls_return:
  assumes "at_start fd k ib rq S0" and "steps (system_step fd pipename heap junk) S0 es S" and "behaved k es (no_calls S0)"
    and "atomic_run es (no_calls S0) = Some A"
  shows "length es \<le> 7 * length (filter is_call es) \<and>
    (\<forall>i. sys_calls S i \<noteq> None \<and> \<not> starved S A i \<and> event_ok k (Worker_turn i) A \<longrightarrow>
      (\<exists>e S'. \<not> is_call e \<and> system_step fd pipename heap junk S e S'))"
proof -
  from linked_steps [OF assms(2) linked_start [OF assms(1)] assms(3)] assms(4) obtain ph order where
    S: "linked fd k ib rq S A ph order" "length es + all_steps_left k ph \<le> all_steps_left k (\<lambda>_. Resting) + 7 * length (filter is_call es)"
    by auto
  moreover have "all_steps_left k (\<lambda>_. Resting) = 0" by (simp add: all_steps_left_def)
  ultimately have "length es \<le> 7 * length (filter is_call es)" by simp
  with linked_progress [OF S(1)] show ?thesis by blast
qed

theorem calls_return_witness:
  "\<exists>S0 S e S'. at_start 3 1 ((\<lambda>_. 0)(0 := 1)) 0 S0 \<and>
    steps (system_step 3 [0x73] (\<lambda>_. 0) (\<lambda>_. 0)) S0 [Call 0 (Call_open f1 TFS_O_CREAT)] S \<and>
    \<not> is_call e \<and> system_step 3 [0x73] (\<lambda>_. 0) (\<lambda>_. 0) S e S'"
proof -
  let ?step = "system_step 3 [0x73] (\<lambda>_. 0) (\<lambda>_. 0)" and ?x = "Call_open f1 TFS_O_CREAT"
  obtain S0 where S0: "at_start 3 1 ((\<lambda>_. 0)(0 := 1)) 0 S0" "abs_fs (srv_fs (sys_server S0)) = empty_fs" using demo_mounts by blast
  have "sys_calls S0 0 = None" using S0(1) by (simp add: at_start_def)
  from steps_one [where step = ?step, OF system_step.call [OF this]] obtain S where
    S: "steps ?step S0 [Call 0 ?x] S" "sys_calls S 0 \<noteq> None" by fastforce
  have run: "atomic_run [Call 0 ?x] (no_calls S0) = Some ((\<lambda>_. No_call)(0 := Pending ?x), empty_fs)" using S0(2) by simp
  have ok: "behaved 1 [Call 0 ?x] (no_calls S0)" using demo_open_ok(1) by simp
  have "event_ok 1 (Worker_turn 0) ((\<lambda>_. No_call)(0 := Pending ?x), empty_fs)" "\<not> starved S ((\<lambda>_. No_call)(0 := Pending ?x), empty_fs) 0"
    using demo_open_ok(2) by (simp_all add: starved_def)
  with calls_return [OF S0(1) S(1) ok run] S(2) obtain e S' where "\<not> is_call e" "?step S e S'" by blast
  with S0(1) S(1) show ?thesis by blast
qed

text \<open>Once a client's read has found no bytes, nothing brings it to its end.\<close>

lemma starved_steps:
  assumes "steps (system_step fd pipename heap junk) S es S'" and "linked fd k ib rq S A ph order" and "behaved k es A" and "starved S A i"
  shows "\<exists>A' ph' order'. atomic_run es A = Some A' \<and> linked fd k ib rq S' A' ph' order' \<and> starved S' A' i \<and>
    fst (the (sys_calls S' i)) = fst (the (sys_calls S i)) \<and> (\<forall>r. Returned i r \<notin> set es)"
  using assms
proof (induction rule: steps.induct)
  case (more S es S1 e S2)
  have es: "behaved k es A" using more.prems(2) by (simp add: behaved_append)
  from more.IH [OF more.prems(1) es more.prems(3)] obtain A1 ph1 order1 where A1: "atomic_run es A = Some A1"
    "linked fd k ib rq S1 A1 ph1 order1" "starved S1 A1 i" "fst (the (sys_calls S1 i)) = fst (the (sys_calls S i))"
    "\<forall>r. Returned i r \<notin> set es" by blast
  with more.prems(2) have ok: "event_ok k e A1" by (simp add: behaved_append)
  from linked_step [OF more.hyps(2) A1(2) ok] obtain A2 ph2 order2 where
    A2: "atomic_next e A1 = Some A2" "linked fd k ib rq S2 A2 ph2 order2" by blast
  obtain p a where "A1 = (p, a)" by (cases A1)
  with starved_step [OF more.hyps(2), of k ib rq p a ph1 order1 i A2] A1(2,3) ok A2(1)
  have "starved S2 A2 i" "fst (the (sys_calls S2 i)) = fst (the (sys_calls S1 i))" "\<forall>r. e \<noteq> Returned i r" by blast+
  moreover have "atomic_run (es @ [e]) A = Some A2" by (simp add: atomic_run_append A1(1) A2(1))
  ultimately show ?case using A2(2) A1(4,5) by (intro exI [of _ A2] exI [of _ ph2] exI [of _ order2]) auto
qed auto

text \<open>
  C32: A client's \<open>tfs_read\<close> at the end of a file never returns. Take a run of the system in which the request of client \<open>i\<close> to
  read \<open>len\<close> bytes through an open handle takes effect, in its worker's turn, while the handle stands at the end of its
  file. However the run goes on, with whatever calls the other clients make inside the contract \<open>behaved\<close>: the call does not
  return; the server has sent the eight bytes of the count, 0, and nothing else; once the client has read them its next
  system call, a read of \<open>len\<close> bytes from its own pipe, is not answered.
\<close>
theorem read_at_end_never_returns:
  assumes "at_start fd k ib rq S0" and "steps (system_step fd pipename heap junk) S0 (es @ Worker_turn i # es') S"
    and "behaved k (es @ Worker_turn i # es') (no_calls S0)"
    and "atomic_run es (no_calls S0) = Some (p, a)" and "p i = Pending (Call_read f len)"
    and "a_open a f = Some (n, length data)" and "a_files a n = Some data"
  shows "(\<forall>r. Returned i r \<notin> set es') \<and>
    (sys_calls S i = Some (Call_read f len, [sent_answer i (Call_read f len)]) \<and> pipe_data (sys_os S) (ib i) = ssize_bytes 0 \<or>
     sys_calls S i = Some (Call_read f len, [sent_answer i (Call_read f len), deliver (ssize_bytes 0)]) \<and>
       client_call junk (Call_read f len) (client_with (sys_clients S i) (snd (the (sys_calls S i)))) =
         Fault (Waiting (Sys_read (rx (sys_clients S i)) len)) \<and>
       os_call (Client_proc i) (Sys_read (rx (sys_clients S i)) len) (sys_os S) = None)"
proof -
  let ?step = "system_step fd pipename heap junk" and ?x = "Call_read f len"
  obtain S1 S2 where S: "steps ?step S0 es S1" "?step S1 (Worker_turn i) S2" "steps ?step S2 es' S"
    using assms(2) steps_split [of ?step S0 es "Worker_turn i" es' S] by blast
  have ok: "behaved k es (no_calls S0)" "event_ok k (Worker_turn i) (p, a)"
    using assms(3,4) by (auto simp: behaved_append)
  from linked_steps [OF S(1) linked_start [OF assms(1)] ok(1)] assms(4) obtain ph order where
    A1: "linked fd k ib rq S1 (p, a) ph order" by auto
  have res: "a_step (fs_op_of ?x) a = ((0, []), snd (a_step (fs_op_of ?x) a))"
    using assms(6,7) by (simp add: a_read_def Let_def)
  from linked_step [OF S(2) A1 ok(2)] obtain A2 ph2 order2 where
    A2: "atomic_next (Worker_turn i) (p, a) = Some A2" "linked fd k ib rq S2 A2 ph2 order2" by blast
  then have p2: "A2 = (p(i := Done (0, [])), snd (a_step (fs_op_of ?x) a))" using assms(5) res by (simp split: prod.splits)
  have "ph i = Held ?x \<or> ph i = Queued ?x \<or> ph i = Calling ?x"
    using A1 assms(5) by (cases "ph i") (auto simp: linked_def)
  then have "\<exists>as. sys_calls S1 i = Some (?x, as)"
    using linked_phase [OF A1, of i] by auto
  moreover have "sys_calls S2 = sys_calls S1" using S(2) by (cases rule: system_step.cases) auto
  ultimately have starved: "starved S2 A2 i" "fst (the (sys_calls S2 i)) = ?x" by (auto simp: starved_def p2)
  have "behaved k es' A2" using assms(3,4) A2(1) by (simp add: behaved_append)
  from starved_steps [OF S(3) A2(2) this starved(1)] starved(2) obtain A ph' order' where
    A: "linked fd k ib rq S A ph' order'" "starved S A i" "fst (the (sys_calls S i)) = ?x" "\<forall>r. Returned i r \<notin> set es'" by auto
  obtain p' a' where A': "A = (p', a')" by (cases A)
  obtain f' len' l where s: "i < k" "ph' i = Replied (Call_read f' len') (0, []) l" "l \<le> 1"
    "sys_calls S i = Some (Call_read f' len', sent_answer i (Call_read f' len') # map deliver (take l [ssize_bytes 0]))"
    "pipe_data (sys_os S) (ib i) = concat (drop l [ssize_bytes 0])" "0 < len'"
    using starved_phase [OF A(1,2) [unfolded A']] .
  then have x: "f' = f" "len' = len" using A(3) by auto
  have cl: "session_id (sys_clients S i) = int i + 1" "errno (c_sys (sys_clients S i)) \<noteq> EPIPE" "call_ok ?x"
    "reads_from (sys_os S) (Client_proc i) (rx (sys_clients S i)) (ib i)"
    using joined_client [of fd k ib rq S i] linked_phase [OF A(1), of i] A(1) s(1,2) x by (auto simp: client_joined_def linked_def)
  show ?thesis
  proof (cases l)
    case 0
    with A(4) s(4,5) x show ?thesis by simp
  next
    case (Suc m)
    then have l: "l = 1" using s(3) by simp
    have "client_call junk ?x (client_with (sys_clients S i) (snd (the (sys_calls S i)))) = Fault (Waiting (Sys_read (rx (sys_clients S i)) len))"
      using client_waits [OF cl(3,1,2), of 1 "(0, [])" junk] s(4) l x by simp
    moreover have "os_call (Client_proc i) (Sys_read (rx (sys_clients S i)) len) (sys_os S) = None"
      using os_reads [OF cl(4)] s(5,6) l x by simp
    ultimately show ?thesis using A(4) s(4) l x by simp
  qed
qed

text \<open>A client creates a file, whose handle then stands at its end, and reads 5 bytes.\<close>

theorem read_at_end_never_returns_witness:
  "\<exists>S0 S. at_start 3 1 ((\<lambda>_. 0)(0 := 1)) 0 S0 \<and>
    steps (system_step 3 [0x73] (\<lambda>_. 0) (\<lambda>_. 0)) S0 (call_events 0 (Call_open f1 TFS_O_CREAT) (0, []) @
      [Call 0 (Call_read 0 5), Answered 0, Main_turn, Worker_turn 0, Answered 0]) S \<and>
    os_call (Client_proc 0) (Sys_read (rx (sys_clients S 0)) 5) (sys_os S) = None"
proof -
  let ?step = "system_step 3 [0x73] (\<lambda>_. 0) (\<lambda>_. 0)" and ?x = "Call_read 0 5"
  let ?es = "call_events 0 (Call_open f1 TFS_O_CREAT) (0, []) @ [Call 0 ?x, Answered 0, Main_turn]"
  obtain S0 where S0: "at_start 3 1 ((\<lambda>_. 0)(0 := 1)) 0 S0" "abs_fs (srv_fs (sys_server S0)) = empty_fs" using demo_mounts by blast
  let ?a = "\<lparr>a_dir = [f1 \<mapsto> 1], a_files = [1 \<mapsto> []], a_open = [0 \<mapsto> (1, 0)]\<rparr> :: afs"
  have a1: "a_step (Op_open f1 TFS_O_CREAT) empty_fs = ((0, []), ?a)" using good_f1(1) by (simp add: eval_abs)
  have "linked 3 1 ((\<lambda>_. 0)(0 := 1)) 0 S0 (\<lambda>_. No_call, empty_fs) (\<lambda>_. Resting) []" using linked_start [OF S0(1)] S0(2) by simp
  from call_runs [where pipename = "[0x73]" and heap = "\<lambda>_. 0" and junk = "\<lambda>_. 0", OF this _ demo_open_ok(1,2), of 0] a1 obtain S1 where
    S1: "steps ?step S0 (call_events 0 (Call_open f1 TFS_O_CREAT) (0, [])) S1"
      "linked 3 1 ((\<lambda>_. 0)(0 := 1)) 0 S1 (\<lambda>_. No_call, ?a) (\<lambda>_. Resting) []" by auto
  have x: "call_ok ?x" "effect_ok ?x ?a" "fst (a_step (fs_op_of ?x) ?a) = (0, [])"
    by (simp_all add: int_ok_def effect_ok_def a_read_def Let_def)
  from call_takes_effect [where pipename = "[0x73]" and heap = "\<lambda>_. 0" and junk = "\<lambda>_. 0", OF S1(2) _ x(1,2), of 0] x(3) obtain S2 where
    S2: "steps ?step S1 [Call 0 ?x, Answered 0, Main_turn, Worker_turn 0] S2"
      "linked 3 1 ((\<lambda>_. 0)(0 := 1)) 0 S2 ((\<lambda>_. No_call)(0 := Done (0, [])), snd (a_step (fs_op_of ?x) ?a)) ((\<lambda>_. Resting)(0 := Replied ?x (0, []) 0)) []"
    by auto
  obtain S3 where S3: "?step S2 (Answered 0) S3"
    using call_read [where pipename = "[0x73]" and heap = "\<lambda>_. 0" and junk = "\<lambda>_. 0", OF S2(2), of 0 ?x "(0, [])" 0] first_chunk [of ?x "(0, [])"] by auto
  have two: "sys_calls S3 0 \<noteq> Some (?x, [sent])" for sent
    using S3 linked_phase [OF S2(2), of 0] by (cases rule: system_step.cases) (auto simp: linked_def)
  have run: "steps ?step S0 (?es @ Worker_turn 0 # [Answered 0]) S3"
    using steps_append [OF steps_append [OF steps_one [where step = ?step, OF S3] S2(1)] S1(1)] by simp
  have ok: "behaved 1 (?es @ Worker_turn 0 # [Answered 0]) (no_calls S0)"
    using demo_open_ok x a1 S0(2) by (simp del: a_step.simps split: prod.split)
  have at: "atomic_run ?es (no_calls S0) = Some ((\<lambda>_. No_call)(0 := Pending ?x), ?a)"
    using a1 S0(2) by (simp add: fun_upd_idem del: a_step.simps)
  have "a_open ?a 0 = Some (1, length ([] :: byte list))" "a_files ?a 1 = Some []" by simp_all
  from read_at_end_never_returns [OF S0(1) run ok at _ this]
  have "os_call (Client_proc 0) (Sys_read (rx (sys_clients S3 0)) 5) (sys_os S3) = None" using two by auto
  with S0(1) run show ?thesis by auto
qed

text \<open>
  C11: Clients can mount: with up to 62 clients mounted, a client that calls \<open>tfs_mount\<close> with a name of fewer than 40
  bytes, different from the server's, makes its pipe, sends its request, is given the next session by the main thread, is
  written its number by the worker, and returns 0; afterwards the server serves one client more.
\<close>
theorem mount_joins:
  assumes "serving fd server_pipe k ib rq S" and "k < 63"
    and "client_pipe \<noteq> server_pipe" and "0 \<notin> set client_pipe" and "length client_pipe < BUFFER_SIZE"
  shows "\<exists>S'. steps (system_step fd pipename heap junk) S (mount_events k client_pipe server_pipe) S' \<and>
    serving fd server_pipe (Suc k) (ib(k := next_pipe (sys_os S))) rq S' \<and>
    at_start fd (Suc k) (ib(k := next_pipe (sys_os S))) rq S' \<and> srv_fs (sys_server S') = srv_fs (sys_server S)"
  using mount_runs [OF assms] serving_at_start by blast

theorem mount_joins_witness:
  "\<exists>S1 S2 ib. steps (system_step 3 [0x73] (\<lambda>_. 0) (\<lambda>_. 0)) demo_system (mount_events 0 [0x63] [0x73]) S1 \<and>
    steps (system_step 3 [0x73] (\<lambda>_. 0) (\<lambda>_. 0)) S1 (mount_events 1 [0x64] [0x73]) S2 \<and> at_start 3 (Suc 1) ib 0 S2"
proof -
  obtain S1 where S1: "steps (system_step 3 [0x73] (\<lambda>_. 0) (\<lambda>_. 0)) demo_system (mount_events 0 [0x63] [0x73]) S1"
    "serving 3 [0x73] 1 ((\<lambda>_. 0)(0 := 1)) 0 S1" using demo_mounts by blast
  from mount_joins [OF S1(2), of "[0x64]"] S1(1) show ?thesis by (simp add: config) blast
qed

end
