(* ===== verification/System_Tests.thy ===== *)
theory System_Tests
  imports System_Props
begin

text \<open>
  The clients of the project's own tests (\<open>run_test\<close> of \<open>client_server_shutdown_test.c\<close> and
  \<open>client_server_simple_test_processes.c\<close>): each creates the same file, writes to it, closes it, opens it
  again, reads and closes. With up to twenty of them at once every assertion they make holds.
\<close>

section \<open>The client of the tests\<close>

text \<open>The string \<open>AAA!\<close>.\<close>

definition test_str :: "byte list" where
  "test_str = [0x41, 0x41, 0x41, 0x21]"

text \<open>The call after the results so far, and what the test asserts of its result.\<close>

fun run_test :: "fs_res list \<Rightarrow> call option" where
  "run_test [] = Some (Call_open f1 TFS_O_CREAT)"
| "run_test [f] = Some (Call_write (nat (fst f)) test_str)"
| "run_test [f, w] = Some (Call_close (nat (fst f)))"
| "run_test [f, w, c] = Some (Call_open f1 0)"
| "run_test [f, w, c, g] = Some (Call_read (nat (fst g)) (40 - 1))"
| "run_test [f, w, c, g, r] = Some (Call_close (nat (fst g)))"
| "run_test rs = None"

definition asserted :: "nat \<Rightarrow> fs_res \<Rightarrow> bool" where
  "asserted j = (\<lambda>(r, bs).
     if j = 1 then r = int (length test_str)
     else if j = 4 then r = int (length test_str) \<and> bs = test_str
     else r \<noteq> -1)"

definition passed :: "fs_res list \<Rightarrow> bool" where
  "passed rs \<longleftrightarrow> length rs \<le> 6 \<and> (\<forall>j<length rs. asserted j (rs ! j))"

text \<open>The results a client has seen, and runs in which \<open>k\<close> clients do nothing but the test.\<close>

definition results :: "nat \<Rightarrow> event list \<Rightarrow> fs_res list" where
  "results i es = concat (map (\<lambda>e. case e of Returned j r \<Rightarrow> if j = i then [r] else [] | _ \<Rightarrow> []) es)"

definition testing :: "nat \<Rightarrow> event list \<Rightarrow> bool" where
  "testing k es \<longleftrightarrow> (\<forall>es1 i x es2. es = es1 @ Call i x # es2 \<longrightarrow> i < k \<and> run_test (results i es1) = Some x)"

section \<open>What the tests do to the file system\<close>

text \<open>The handle a client holds after its results, and the position of it.\<close>

fun held :: "fs_res list \<Rightarrow> (nat \<times> nat) option" where
  "held [f] = Some (nat (fst f), 0)"
| "held [f, w] = Some (nat (fst f), 4)"
| "held [f, w, c, g] = Some (nat (fst g), 0)"
| "held [f, w, c, g, r] = Some (nat (fst g), 4)"
| "held rs = None"

text \<open>
  The state of the file system after the effects \<open>E\<close>: the open handles are those held, each by one client;
  the file exists when somebody has created it and has its contents when somebody has written.
\<close>

definition handles :: "(nat \<Rightarrow> (nat \<times> nat) option) \<Rightarrow> (nat \<Rightarrow> (nat \<times> nat) option) \<Rightarrow> bool" where
  "handles H opn \<longleftrightarrow>
     (\<forall>i h off. H i = Some (h, off) \<longrightarrow> opn h = Some (1, off)) \<and>
     (\<forall>h v. opn h = Some v \<longrightarrow> (\<exists>i off. H i = Some (h, off))) \<and>
     (\<forall>i j h off off'. H i = Some (h, off) \<and> H j = Some (h, off') \<longrightarrow> i = j)"

definition stored :: "(nat \<Rightarrow> fs_res list) \<Rightarrow> afs \<Rightarrow> bool" where
  "stored E a \<longleftrightarrow> (if \<forall>i. E i = [] then a_dir a f1 = None \<and> a_files a = Map.empty
     else a_dir a f1 = Some 1 \<and> a_files a = [1 \<mapsto> if \<exists>i. 2 \<le> length (E i) then test_str else []])"

definition in_range :: "fs_res list \<Rightarrow> bool" where
  "in_range rs \<longleftrightarrow> (\<forall>j \<in> {0, 3}. j < length rs \<longrightarrow> (\<exists>h<MAX_OPEN_FILES. fst (rs ! j) = int h))"

definition test_state :: "nat \<Rightarrow> (nat \<Rightarrow> fs_res list) \<Rightarrow> afs \<Rightarrow> bool" where
  "test_state k E a \<longleftrightarrow> (\<forall>i\<ge>k. E i = []) \<and> (\<forall>i. passed (E i) \<and> in_range (E i)) \<and> handles (held \<circ> E) (a_open a) \<and> stored E a"

lemma handles_owner:
  assumes "handles H opn" and "H i = Some (h, off)"
  shows "opn h = Some (1, off)" and "H j = Some (h, off') \<longleftrightarrow> j = i \<and> off' = off"
  using assms unfolding handles_def by (blast, metis option.inject prod.inject)

lemma handles_set:
  assumes "handles H opn" and "H i = None \<and> opn h = None \<or> H i = Some (h, off0)"
  shows "handles (H(i \<mapsto> (h, off))) (opn(h \<mapsto> (1, off)))"
proof -
  have other: "h' \<noteq> h" if "j \<noteq> i" "H j = Some (h', off')" for j h' off'
    using assms handles_owner [OF assms(1) that(2)] that by (cases "H i = None") auto
  show ?thesis unfolding handles_def
  proof (intro conjI allI impI)
    fix j h' off' assume "(H(i \<mapsto> (h, off))) j = Some (h', off')"
    then show "(opn(h \<mapsto> (1, off))) h' = Some (1, off')"
      using other [of j h' off'] handles_owner(1) [OF assms(1), of j h' off'] by (auto split: if_splits)
  next
    fix h' v assume v: "(opn(h \<mapsto> (1, off))) h' = Some v"
    show "\<exists>j off'. (H(i \<mapsto> (h, off))) j = Some (h', off')"
    proof (cases "h' = h")
      case False
      then have "opn h' = Some v" using v by simp
      then obtain j off' where "H j = Some (h', off')" using assms(1) unfolding handles_def by blast
      with False assms(2) show ?thesis by (intro exI [of _ j] exI [of _ off']) auto
    qed auto
  next
    fix j l h' off' off'' assume "(H(i \<mapsto> (h, off))) j = Some (h', off') \<and> (H(i \<mapsto> (h, off))) l = Some (h', off'')"
    then show "j = l" using other [of j h' off'] other [of l h' off''] handles_owner(2) [OF assms(1), of j h' off' l off'']
      by (auto split: if_splits)
  qed
qed

lemma handles_closed:
  assumes "handles H opn" and "H i = Some (h, off)"
  shows "handles (H(i := None)) (opn(h := None))"
proof -
  have other: "h' \<noteq> h" if "j \<noteq> i" "H j = Some (h', off')" for j h' off'
    using handles_owner(2) [OF assms] that by auto
  show ?thesis unfolding handles_def
  proof (intro conjI allI impI)
    fix j h' off' assume "(H(i := None)) j = Some (h', off')"
    then show "(opn(h := None)) h' = Some (1, off')"
      using other [of j h' off'] handles_owner(1) [OF assms(1), of j h' off'] by (auto split: if_splits)
  next
    fix h' v assume v: "(opn(h := None)) h' = Some v"
    then have "opn h' = Some v" "h' \<noteq> h" by (auto split: if_splits)
    then obtain j off' where "H j = Some (h', off')" using assms(1) unfolding handles_def by blast
    with \<open>h' \<noteq> h\<close> assms(2) show "\<exists>j off'. (H(i := None)) j = Some (h', off')" by (intro exI [of _ j] exI [of _ off']) auto
  next
    fix j l h' off' off'' assume "(H(i := None)) j = Some (h', off') \<and> (H(i := None)) l = Some (h', off'')"
    then show "j = l" using handles_owner(2) [OF assms(1), of j h' off' l off''] by (auto split: if_splits)
  qed
qed

text \<open>A client that holds no handle finds a free one.\<close>

lemma handles_free:
  assumes "handles H opn" and "\<forall>j\<ge>k. H j = None" and "k \<le> MAX_OPEN_FILES" and "i < k" and "H i = None"
  shows "\<exists>h<MAX_OPEN_FILES. opn h = None \<and> first_free (\<lambda>f. if opn f = None then FREE else TAKEN) 0 MAX_OPEN_FILES = Some h"
proof (cases rule: first_free_cases [of "\<lambda>f. if opn f = None then FREE else TAKEN" MAX_OPEN_FILES])
  case full
  have "\<exists>j off. H j = Some (h, off)" if "h < MAX_OPEN_FILES" for h
  proof -
    have "opn h \<noteq> None" using full(2) that by (auto split: if_splits)
    then show ?thesis using assms(1) unfolding handles_def by blast
  qed
  then obtain c where c: "\<And>h. h < MAX_OPEN_FILES \<Longrightarrow> \<exists>off. H (c h) = Some (h, off)" by metis
  have "inj_on c {..<MAX_OPEN_FILES}"
    by (rule inj_onI) (metis c lessThan_iff option.inject prod.inject)
  moreover have "c ` {..<MAX_OPEN_FILES} \<subseteq> {..<k} - {i}"
  proof (clarsimp)
    fix h assume "h < MAX_OPEN_FILES"
    from c [OF this] show "c h < k \<and> c h \<noteq> i" using assms(2,5) by (metis leI option.distinct(1))
  qed
  ultimately have "card {..<MAX_OPEN_FILES} \<le> card ({..<k} - {i})" by (meson card_inj_on_le finite_Diff finite_lessThan)
  with assms(3,4) show ?thesis by simp
next
  case (found h)
  then show ?thesis by (intro exI [of _ h]) (auto split: if_splits)
qed

section \<open>One step of a test\<close>

text \<open>The number of effects a client has seen decides which call is next.\<close>

lemma held_append: "held \<circ> (E(i := e)) = (held \<circ> E)(i := held e)"
  by (simp add: fun_eq_iff)

lemma passed_append: "passed (rs @ [r]) \<longleftrightarrow> passed rs \<and> length rs < 6 \<and> asserted (length rs) r"
  by (auto simp: passed_def nth_append less_Suc_eq)

lemma in_range_append:
  "in_range (rs @ [r]) \<longleftrightarrow> in_range rs \<and> (length rs \<in> {0, 3} \<longrightarrow> (\<exists>h<MAX_OPEN_FILES. fst r = int h))"
  by (auto simp: in_range_def nth_append less_Suc_eq)

lemma test_state_extend:
  assumes "test_state k E a" and "i < k" and "length (E i) < 6" and "asserted (length (E i)) r"
    and "length (E i) \<in> {0, 3} \<Longrightarrow> \<exists>h<MAX_OPEN_FILES. fst r = int h"
    and "handles ((held \<circ> E)(i := held (E i @ [r]))) (a_open a')" and "stored (E(i := E i @ [r])) a'"
  shows "test_state k (E(i := E i @ [r])) a'"
  using assms by (simp add: test_state_def held_append passed_append in_range_append del: insert_iff)

lemma stored_later:
  assumes "stored E a" and "2 \<le> length (E i)" and "a_dir a' = a_dir a" and "a_files a' = a_files a"
  shows "stored (E(i := E i @ [r])) a'"
proof -
  have "\<not> (\<forall>j. E j = [])" "\<not> (\<forall>j. (E(i := E i @ [r])) j = [])" "\<exists>j. 2 \<le> length (E j)"
    "\<exists>j. 2 \<le> length ((E(i := E i @ [r])) j)"
    using assms(2) by (auto intro: exI [of _ i])
  with assms(1,3,4) show ?thesis by (simp only: stored_def if_True if_False simp_thms)
qed

lemma stored_written:
  assumes "stored E a" and "E i = [f]" and "a_dir a' = a_dir a" and "a_files a' = [1 \<mapsto> test_str]"
  shows "stored (E(i := [f, r])) a'"
proof -
  have "\<not> (\<forall>j. E j = [])" "\<not> (\<forall>j. (E(i := [f, r])) j = [])" "\<exists>j. 2 \<le> length ((E(i := [f, r])) j)"
    using assms(2) by (auto intro: exI [of _ i])
  with assms(1,3,4) show ?thesis by (simp only: stored_def if_True if_False simp_thms)
qed

lemma stored_created:
  assumes "stored E a" and "E i = []" and "a_dir a' f1 = Some 1"
    and "a_files a' = (if \<forall>j. E j = [] then [1 \<mapsto> []] else a_files a)"
  shows "stored (E(i := [r])) a'"
proof -
  have "2 \<le> length ((E(i := [r])) j) \<longleftrightarrow> 2 \<le> length (E j)" for j using assms(2) by simp
  moreover have "\<not> (\<forall>j. (E(i := [r])) j = [])" by auto
  ultimately show ?thesis using assms(1,3,4) unfolding stored_def by (auto split: if_splits)
qed

text \<open>The calls of a test are well-behaved and end as it asserts.\<close>

abbreviation effect :: "call \<Rightarrow> afs \<Rightarrow> fs_res \<times> afs" where
  "effect x a \<equiv> a_step (fs_op_of x) a"

definition test_goes_on :: "nat \<Rightarrow> (nat \<Rightarrow> fs_res list) \<Rightarrow> afs \<Rightarrow> nat \<Rightarrow> call \<Rightarrow> bool" where
  "test_goes_on k E a i x \<longleftrightarrow> effect_ok x a \<and> test_state k (E(i := E i @ [fst (effect x a)])) (snd (effect x a))"

lemma test_flags: "flag_creat TFS_O_CREAT" "\<not> flag_trunc TFS_O_CREAT" "\<not> flag_append TFS_O_CREAT"
  "\<not> flag_trunc 0" "\<not> flag_append 0"
  by (simp_all add: config)

lemma test_state_free:
  assumes "test_state k E a" and "i < k" and "k \<le> MAX_OPEN_FILES" and "held (E i) = None"
  shows "\<exists>h<MAX_OPEN_FILES. a_open a h = None \<and>
    (\<forall>j off a'. a_open a' = a_open a \<longrightarrow> a_add_handle j off a' = (int h, a'\<lparr>a_open := (a_open a)(h \<mapsto> (j, off))\<rparr>))"
  using handles_free [of "held \<circ> E" "a_open a" k i] assms by (auto simp: test_state_def a_add_handle_def)

lemma test_create:
  assumes "test_state k E a" and "i < k" and "k \<le> MAX_OPEN_FILES" and "E i = []"
  shows "test_goes_on k E a i (Call_open f1 TFS_O_CREAT)"
proof -
  obtain h where h: "h < MAX_OPEN_FILES" "a_open a h = None"
    "\<And>j off a'. a_open a' = a_open a \<Longrightarrow> a_add_handle j off a' = (int h, a'\<lparr>a_open := (a_open a)(h \<mapsto> (j, off))\<rparr>)"
    using test_state_free [OF assms(1-3)] assms(4) by auto
  have stored: "stored E a" and handles: "handles (held \<circ> E) (a_open a)" using assms(1) by (simp_all add: test_state_def)
  let ?a = "a\<lparr>a_dir := (a_dir a)(f1 \<mapsto> 1), a_files := (if \<forall>j. E j = [] then [1 \<mapsto> []] else a_files a), a_open := (a_open a)(h \<mapsto> (1, 0))\<rparr>"
  have open_file: "a_open_file f1 True False False a = (int h, ?a)"
  proof (cases "\<forall>j. E j = []")
    case True
    then have none: "a_dir a f1 = None" "a_files a = Map.empty" using stored by (simp_all add: stored_def)
    have "first_free (\<lambda>i. if i = 0 then TAKEN else case a_files a i of None \<Rightarrow> FREE | Some _ \<Rightarrow> TAKEN) 0 INODE_TABLE_SIZE = Some 1"
      by (rule first_free_least) (simp_all add: none config)
    with none True h(3) show ?thesis by (simp add: a_open_file_def Let_def config)
  next
    case False
    then have "a_dir a f1 = Some 1" using stored by (simp add: stored_def)
    then show ?thesis unfolding if_not_P [OF False] using h(3) by (simp add: a_open_file_def fun_upd_idem)
  qed
  then have eff: "effect (Call_open f1 TFS_O_CREAT) a = ((int h, []), ?a)" using test_flags by simp
  have "handles ((held \<circ> E)(i := held [(int h, [])])) (a_open ?a)"
    using handles_set [OF handles, of i h] h(2) assms(4) by simp
  moreover have "stored (E(i := [(int h, [])])) ?a" using assms(4) by (intro stored_created [OF stored]) simp_all
  ultimately have "test_state k (E(i := E i @ [(int h, [])])) ?a"
    using assms(1,2,4) h(1) by (intro test_state_extend) (simp_all add: asserted_def)
  moreover have "effect_ok (Call_open f1 TFS_O_CREAT) a" using test_flags by (simp add: effect_ok_def trunc_safe_def)
  ultimately show ?thesis unfolding test_goes_on_def eff by simp
qed

lemma test_reopen:
  assumes "test_state k E a" and "i < k" and "k \<le> MAX_OPEN_FILES" and "E i = [f, w, c]"
  shows "test_goes_on k E a i (Call_open f1 0)"
proof -
  obtain h where h: "h < MAX_OPEN_FILES" "a_open a h = None"
    "\<And>j off a'. a_open a' = a_open a \<Longrightarrow> a_add_handle j off a' = (int h, a'\<lparr>a_open := (a_open a)(h \<mapsto> (j, off))\<rparr>)"
    using test_state_free [OF assms(1-3)] assms(4) by auto
  have stored: "stored E a" and handles: "handles (held \<circ> E) (a_open a)" using assms(1) by (simp_all add: test_state_def)
  have "\<not> (\<forall>j. E j = [])" using assms(4) by (auto intro: exI [of _ i])
  then have "a_dir a f1 = Some 1" using stored by (simp add: stored_def)
  then have eff: "effect (Call_open f1 0) a = ((int h, []), a\<lparr>a_open := (a_open a)(h \<mapsto> (1, 0))\<rparr>)" (is "_ = (_, ?a)")
    using h(3) by (simp add: a_open_file_def)
  have "handles ((held \<circ> E)(i := held [f, w, c, (int h, [])])) (a_open ?a)"
    using handles_set [OF handles, of i h] h(2) assms(4) by simp
  moreover have "stored (E(i := E i @ [(int h, [])])) ?a" using assms(4) by (intro stored_later [OF stored]) simp_all
  ultimately have "test_state k (E(i := E i @ [(int h, [])])) ?a"
    using assms(1,2,4) h(1) by (intro test_state_extend) (simp_all add: asserted_def)
  moreover have "effect_ok (Call_open f1 0) a" by (simp add: effect_ok_def trunc_safe_def)
  ultimately show ?thesis unfolding test_goes_on_def eff by simp
qed

text \<open>The calls on a handle a client holds.\<close>

lemma length_four: "Suc (Suc (Suc (Suc 0))) = 4"
  by simp

lemma test_holds:
  assumes "test_state k E a" and "held (E i) = Some (h, off)"
  shows "a_open a h = Some (1, off)" and "E i \<noteq> []" and "a_dir a f1 = Some 1"
    and "a_files a = [1 \<mapsto> if \<exists>i. 2 \<le> length (E i) then test_str else []]"
proof -
  have s: "stored E a" "handles (held \<circ> E) (a_open a)" using assms(1) by (simp_all add: test_state_def)
  show "a_open a h = Some (1, off)" using handles_owner(1) [OF s(2), of i] assms(2) by simp
  show "E i \<noteq> []" using assms(2) by auto
  then have "\<not> (\<forall>j. E j = [])" by (auto intro: exI [of _ i])
  with s(1) show "a_dir a f1 = Some 1" "a_files a = [1 \<mapsto> if \<exists>i. 2 \<le> length (E i) then test_str else []]"
    unfolding stored_def by (simp_all only: if_False)
qed

lemma test_write:
  assumes "test_state k E a" and "i < k" and "E i = [f]"
  shows "test_goes_on k E a i (Call_write (nat (fst f)) test_str)"
proof -
  have handles: "handles (held \<circ> E) (a_open a)" and stored: "stored E a" using assms(1) by (simp_all add: test_state_def)
  have held: "held (E i) = Some (nat (fst f), 0)" using assms(3) by simp
  note a = test_holds [OF assms(1) held]
  let ?a = "a\<lparr>a_files := [1 \<mapsto> test_str], a_open := (a_open a)(nat (fst f) \<mapsto> (1, 4))\<rparr>"
  have eff: "effect (Call_write (nat (fst f)) test_str) a = ((4, []), ?a)"
    using a by (simp add: a_write_def test_str_def Let_def config length_four)
  have "handles ((held \<circ> E)(i := held [f, (4, [])])) (a_open ?a)"
    using handles_set [OF handles, of i "nat (fst f)" 0 4] held by simp
  moreover have "stored (E(i := [f, (4, [])])) ?a" by (rule stored_written [OF stored assms(3)]) simp_all
  ultimately have "test_state k (E(i := E i @ [(4, [])])) ?a"
    using assms by (intro test_state_extend) (simp_all add: asserted_def test_str_def)
  moreover have "effect_ok (Call_write (nat (fst f)) test_str) a" using a(1) by (simp add: effect_ok_def test_str_def config)
  ultimately show ?thesis unfolding test_goes_on_def eff by simp
qed

lemma test_read:
  assumes "test_state k E a" and "i < k" and "E i = [f, w, c, g]"
  shows "test_goes_on k E a i (Call_read (nat (fst g)) (40 - 1))"
proof -
  have handles: "handles (held \<circ> E) (a_open a)" and stored: "stored E a" using assms(1) by (simp_all add: test_state_def)
  have held: "held (E i) = Some (nat (fst g), 0)" using assms(3) by simp
  have "\<exists>j. 2 \<le> length (E j)" using assms(3) by (intro exI [of _ i]) simp
  then have a: "a_open a (nat (fst g)) = Some (1, 0)" "a_files a = [1 \<mapsto> test_str]"
    using test_holds(1,4) [OF assms(1) held] by simp_all
  let ?a = "a\<lparr>a_open := (a_open a)(nat (fst g) \<mapsto> (1, 4))\<rparr>"
  have eff: "effect (Call_read (nat (fst g)) (40 - 1)) a = ((4, test_str), ?a)"
    using a by (simp add: a_read_def test_str_def Let_def length_four)
  have "handles ((held \<circ> E)(i := held [f, w, c, g, (4, test_str)])) (a_open ?a)"
    using handles_set [OF handles, of i "nat (fst g)" 0 4] held by simp
  moreover have "stored (E(i := E i @ [(4, test_str)])) ?a" using assms(3) by (intro stored_later [OF stored]) simp_all
  ultimately have "test_state k (E(i := E i @ [(4, test_str)])) ?a"
    using assms by (intro test_state_extend) (simp_all add: asserted_def test_str_def)
  moreover have "effect_ok (Call_read (nat (fst g)) (40 - 1)) a" using eff a(1) by (simp add: effect_ok_def)
  ultimately show ?thesis unfolding test_goes_on_def eff by simp
qed

lemma test_close:
  assumes "test_state k E a" and "i < k" and "held (E i) = Some (h, off)" and "length (E i) \<in> {2, 5}"
  shows "test_goes_on k E a i (Call_close h)"
proof -
  have handles: "handles (held \<circ> E) (a_open a)" and stored: "stored E a" using assms(1) by (simp_all add: test_state_def)
  let ?a = "a\<lparr>a_open := (a_open a)(h := None)\<rparr>"
  have eff: "effect (Call_close h) a = ((0, []), ?a)" using test_holds(1) [OF assms(1,3)] by (simp add: a_close_def)
  have "held (E i @ [(0, [])]) = None" using assms(4) by (cases "E i" rule: run_test.cases) simp_all
  then have "handles ((held \<circ> E)(i := held (E i @ [(0, [])]))) (a_open ?a)"
    using handles_closed [OF handles, of i h off] assms(3) by simp
  moreover have "stored (E(i := E i @ [(0, [])])) ?a" using assms(4) by (intro stored_later [OF stored]) auto
  ultimately have "test_state k (E(i := E i @ [(0, [])])) ?a"
    using assms by (intro test_state_extend) (auto simp: asserted_def)
  moreover have "effect_ok (Call_close h) a" by (simp add: effect_ok_def)
  ultimately show ?thesis unfolding test_goes_on_def eff by simp
qed

lemma test_step:
  assumes "test_state k E a" and "i < k" and "k \<le> MAX_OPEN_FILES" and "run_test (E i) = Some x"
  shows "test_goes_on k E a i x"
  using assms(4)
proof (cases "E i" rule: run_test.cases)
  case 1
  with test_create [OF assms(1-3)] assms(4) show ?thesis by simp
next
  case (2 f)
  with test_write [OF assms(1,2)] assms(4) show ?thesis by simp
next
  case (3 f w)
  with test_close [OF assms(1,2), of "nat (fst f)" 4] assms(4) show ?thesis by simp
next
  case (4 f w c)
  with test_reopen [OF assms(1-3)] assms(4) show ?thesis by simp
next
  case (5 f w c g)
  with test_read [OF assms(1,2)] assms(4) show ?thesis by simp
next
  case (6 f w c g r)
  with test_close [OF assms(1,2), of "nat (fst g)" 4] assms(4) show ?thesis by simp
qed simp

section \<open>Runs of the tests\<close>

text \<open>What a client has seen happen: the results returned to it and one that is under way to it.\<close>

definition effects :: "(nat \<Rightarrow> fs_res list) \<Rightarrow> (nat \<Rightarrow> progress) \<Rightarrow> nat \<Rightarrow> fs_res list" where
  "effects R p i = R i @ (case p i of Done r \<Rightarrow> [r] | _ \<Rightarrow> [])"

definition test_runs :: "nat \<Rightarrow> (nat \<Rightarrow> fs_res list) \<Rightarrow> atomic \<Rightarrow> bool" where
  "test_runs k R A \<longleftrightarrow> (\<forall>i x. fst A i = Pending x \<longrightarrow> i < k \<and> run_test (R i) = Some x) \<and> test_state k (effects R (fst A)) (snd A)"

lemma test_state_call_ok:
  assumes "passed rs" and "in_range rs" and "run_test rs = Some x"
  shows "call_ok x"
proof -
  have "int_ok (int (nat (fst (rs ! j))))" if "j \<in> {0, 3}" "j < length rs" for j
    using assms(2) that unfolding in_range_def by (force simp: int_ok_def config)
  from this [of 0] this [of 3] show ?thesis using assms(3)
    by (cases rs rule: run_test.cases) (auto simp: f1_def test_str_def int_ok_def config)
qed

lemma results_append: "results i (es @ [e]) = results i es @ (case e of Returned j r \<Rightarrow> if j = i then [r] else [] | _ \<Rightarrow> [])"
  by (simp add: results_def)

lemma test_runs_results:
  assumes "test_runs k R A"
  shows "passed (R i)" and "in_range (R i)"
proof -
  have "passed (effects R (fst A) i)" "in_range (effects R (fst A) i)"
    using assms by (simp_all add: test_runs_def test_state_def)
  then show "passed (R i)" "in_range (R i)" by (cases "fst A i"; simp add: effects_def passed_append in_range_append)+
qed

text \<open>A worker's turn.\<close>

lemma test_runs_worker:
  assumes "test_runs k R (p, a)" and "k \<le> MAX_OPEN_FILES" and "p i = Pending x"
  shows "effect_ok x a" and "test_runs k R (p(i := Done (fst (effect x a))), snd (effect x a))"
proof -
  have i: "i < k" "run_test (effects R p i) = Some x" "effects R p i = R i"
    using assms(1,3) by (simp_all add: test_runs_def effects_def)
  have "test_goes_on k (effects R p) a i x"
    using test_step [of k "effects R p" a i x, OF _ i(1) assms(2) i(2)] assms(1) by (simp add: test_runs_def)
  moreover have "effects R (p(i := Done r)) = (effects R p)(i := effects R p i @ [r])" for r
    using i(3) by (simp add: fun_eq_iff effects_def)
  ultimately show "effect_ok x a" "test_runs k R (p(i := Done (fst (effect x a))), snd (effect x a))"
    using assms(1) by (simp_all add: test_goes_on_def test_runs_def)
qed

lemma test_runs_event:
  assumes "test_runs k R A" and "k \<le> MAX_OPEN_FILES" and "\<And>i x. e = Call i x \<Longrightarrow> i < k \<and> run_test (R i) = Some x"
  shows "event_ok k e A"
proof (cases e)
  case (Call i x)
  with assms(3) test_state_call_ok [OF test_runs_results [OF assms(1)], of i x] show ?thesis by (cases A) simp
next
  case (Worker_turn i)
  with test_runs_worker(1) [of k R "fst A" "snd A" i] assms(1,2) show ?thesis by (cases A) (simp split: progress.split)
qed (cases A; simp)+

lemma test_runs_next:
  assumes "test_runs k R A" and "k \<le> MAX_OPEN_FILES" and "\<And>i x. e = Call i x \<Longrightarrow> i < k \<and> run_test (R i) = Some x"
    and "atomic_next e A = Some A'"
  shows "test_runs k (\<lambda>i. R i @ (case e of Returned j r \<Rightarrow> if j = i then [r] else [] | _ \<Rightarrow> [])) A'"
proof -
  obtain p a where A: "A = (p, a)" by (cases A)
  show ?thesis
  proof (cases e)
    case (Call i x)
    with assms(4) have A': "p i = No_call" "A' = (p(i := Pending x), a)" by (auto simp: A split: if_splits)
    have "effects R (p(i := Pending x)) = effects R p" using A'(1) by (simp add: fun_eq_iff effects_def)
    with assms(1) assms(3) [OF Call] A' Call show ?thesis by (simp add: A test_runs_def)
  next
    case (Worker_turn i)
    with assms(4) obtain x where x: "p i = Pending x" "A' = (p(i := Done (fst (effect x a))), snd (effect x a))"
      by (auto simp: A split: progress.splits prod.splits)
    with test_runs_worker(2) [OF assms(1) [unfolded A] assms(2) x(1)] Worker_turn show ?thesis by simp
  next
    case (Returned i r)
    with assms(4) have A': "p i = Done r" "A' = (p(i := No_call), a)" by (auto simp: A split: if_splits)
    have "effects (\<lambda>j. R j @ (if i = j then [r] else [])) (p(i := No_call)) = effects R p"
      using A'(1) by (simp add: fun_eq_iff effects_def)
    with assms(1) A' Returned show ?thesis by (simp add: A test_runs_def)
  qed (use assms(1,4) in \<open>simp_all add: A\<close>)
qed

text \<open>The calls the clients have still to make.\<close>

definition calls_left :: "nat \<Rightarrow> (nat \<Rightarrow> fs_res list) \<Rightarrow> (nat \<Rightarrow> progress) \<Rightarrow> nat" where
  "calls_left k R p = (\<Sum>i<k. 6 - (length (R i) + (if p i = No_call then 0 else 1)))"

lemma sum_decrease:
  fixes f g :: "nat \<Rightarrow> nat"
  assumes "i < k" and "f i = Suc (g i)" and "\<And>j. j \<noteq> i \<Longrightarrow> f j = g j"
  shows "(\<Sum>j<k. g j) + 1 = (\<Sum>j<k. f j)"
proof -
  have "(\<Sum>j \<in> {..<k} - {i}. g j) = (\<Sum>j \<in> {..<k} - {i}. f j)" using assms(3) by (intro sum.cong) auto
  then show ?thesis using assms(1,2) by (simp add: sum.remove [of "{..<k}" i])
qed

lemma calls_left_next:
  assumes "\<And>i x. e = Call i x \<Longrightarrow> i < k \<and> run_test (R i) = Some x" and "atomic_next e A = Some A'"
  shows "calls_left k (\<lambda>i. R i @ (case e of Returned j r \<Rightarrow> if j = i then [r] else [] | _ \<Rightarrow> [])) (fst A') + (if is_call e then 1 else 0) =
    calls_left k R (fst A)"
proof -
  obtain p a where A: "A = (p, a)" by (cases A)
  show ?thesis
  proof (cases e)
    case (Call i x)
    with assms(2) have A': "p i = No_call" "A' = (p(i := Pending x), a)" by (auto simp: A split: if_splits)
    have i: "i < k" "length (R i) < 6" using assms(1) [OF Call] by (auto, cases "R i" rule: run_test.cases, auto)
    have "calls_left k R (p(i := Pending x)) + 1 = calls_left k R p"
      unfolding calls_left_def by (rule sum_decrease [OF i(1)]) (use i(2) A'(1) in auto)
    with Call A' show ?thesis by (simp add: A)
  next
    case (Worker_turn i)
    with assms(2) show ?thesis
      by (auto simp: A calls_left_def split: progress.splits prod.splits intro!: sum.cong)
  next
    case (Returned i r)
    with assms(2) show ?thesis by (auto simp: A calls_left_def split: if_splits intro!: sum.cong)
  qed (use assms(2) in \<open>simp_all add: A\<close>)
qed

lemma testing_append:
  assumes "testing k (es @ [e])"
  shows "testing k es" and "e = Call i x \<Longrightarrow> i < k \<and> run_test (results i es) = Some x"
  using assms unfolding testing_def by (metis append.assoc append_Cons, blast)

lemma tests_linked:
  assumes "steps (system_step fd pipename heap junk) S0 es S" and "at_start fd k ib rq S0"
    and "abs_fs (srv_fs (sys_server S0)) = empty_fs" and "k \<le> MAX_OPEN_FILES" and "testing k es"
  shows "\<exists>A ph order. atomic_run es (no_calls S0) = Some A \<and> linked fd k ib rq S A ph order \<and>
    behaved k es (no_calls S0) \<and> test_runs k (\<lambda>i. results i es) A \<and>
    calls_left k (\<lambda>i. results i es) (fst A) + length (filter is_call es) = 6 * k"
  using assms
proof (induction rule: steps.induct)
  case (none S)
  have "test_runs k (\<lambda>i. results i []) (no_calls S)"
    by (simp add: none.prems(2) test_runs_def test_state_def results_def effects_def passed_def in_range_def handles_def stored_def empty_fs_def)
  moreover have "calls_left k (\<lambda>i. results i []) (\<lambda>_. No_call) = 6 * k" by (simp add: calls_left_def results_def)
  ultimately show ?case using linked_start [OF none.prems(1)] by auto
next
  case (more S es S1 e S2)
  note es = testing_append [OF more.prems(4)]
  from more.IH [OF more.prems(1-3) es(1)] obtain A ph order where
    A: "atomic_run es (no_calls S) = Some A" "linked fd k ib rq S1 A ph order" "behaved k es (no_calls S)"
    "test_runs k (\<lambda>i. results i es) A" "calls_left k (\<lambda>i. results i es) (fst A) + length (filter is_call es) = 6 * k" by blast
  have ok: "event_ok k e A" by (rule test_runs_event [OF A(4) more.prems(3)]) (use es(2) in blast)
  from linked_step [OF more.hyps(2) A(2) this] obtain A' ph' order' where
    A': "atomic_next e A = Some A'" "linked fd k ib rq S2 A' ph' order'" by blast
  have "test_runs k (\<lambda>i. results i (es @ [e])) A'" unfolding results_append
    by (rule test_runs_next [OF A(4) more.prems(3) _ A'(1)]) (use es(2) in blast)
  moreover have "behaved k (es @ [e]) (no_calls S)" using A(1,3) ok A'(1) by (simp add: behaved_append)
  moreover have "atomic_run (es @ [e]) (no_calls S) = Some A'" using A(1) A'(1) by (simp add: atomic_run_append)
  moreover have "calls_left k (\<lambda>i. results i (es @ [e])) (fst A') + length (filter is_call (es @ [e])) = 6 * k"
    using calls_left_next [of e k "\<lambda>i. results i es" A A', OF _ A'(1)] es(2) A(5) unfolding results_append by (auto split: if_splits)
  ultimately show ?case using A'(2) by blast
qed

text \<open>While some client has not finished, some step continues the test.\<close>

lemma testing_step: "testing k es \<Longrightarrow> (\<And>i x. e = Call i x \<Longrightarrow> i < k \<and> run_test (results i es) = Some x) \<Longrightarrow> testing k (es @ [e])"
  unfolding testing_def by (auto simp: append_eq_append_conv2 append_eq_Cons_conv Cons_eq_append_conv)

lemma run_test_Some: "passed rs \<Longrightarrow> length rs \<noteq> 6 \<Longrightarrow> \<exists>x. run_test rs = Some x"
  by (cases rs rule: run_test.cases) (auto simp: passed_def)

text \<open>The call a client is in is the test's next one; its read is never one at the end of the file.\<close>

lemma tests_calls:
  assumes "steps (system_step fd pipename heap junk) S0 es S" and "\<And>i. sys_calls S0 i = None" and "testing k es"
    and "sys_calls S i = Some (x, as)"
  shows "run_test (results i es) = Some x"
  using assms
proof (induction arbitrary: as rule: steps.induct)
  case (more S es S1 e S2)
  note es = testing_append [OF more.prems(2)]
  note IH = more.IH [OF more.prems(1) es(1)]
  show ?case using more.hyps(2) more.prems(3) IH es(2)
    by (cases rule: system_step.cases) (auto simp: results_append split: if_splits)
qed auto

lemma tests_not_starved:
  assumes "test_runs k (\<lambda>i. results i es) A" and "\<And>x as. sys_calls S i = Some (x, as) \<Longrightarrow> run_test (results i es) = Some x"
  shows "\<not> starved S A i"
proof
  assume "starved S A i"
  then obtain f len as where s: "sys_calls S i = Some (Call_read f len, as)" "fst A i = Done (0, [])" by (auto simp: starved_def)
  have "length (results i es) = 4" using assms(2) [OF s(1)] by (cases "results i es" rule: run_test.cases) simp_all
  moreover have e: "effects (\<lambda>i. results i es) (fst A) i = results i es @ [(0, [])]" by (simp add: effects_def s(2))
  have "\<forall>j. passed (effects (\<lambda>i. results i es) (fst A) j)" using assms(1) by (simp add: test_runs_def test_state_def)
  then have "passed (results i es @ [(0, [])])" using e by metis
  ultimately show False by (simp add: passed_append asserted_def test_str_def)
qed

lemma tests_continue:
  assumes "linked fd k ib rq S A ph order" and "\<And>x as. sys_calls S i = Some (x, as) \<Longrightarrow> run_test (results i es) = Some x"
    and "test_runs k (\<lambda>i. results i es) A" and "k \<le> MAX_OPEN_FILES"
    and "testing k es" and "i < k" and "length (results i es) \<noteq> 6"
  shows "\<exists>e S'. system_step fd pipename heap junk S e S' \<and> testing k (es @ [e])"
proof (cases "sys_calls S i")
  case None
  obtain x where "run_test (results i es) = Some x" using run_test_Some [OF test_runs_results(1) [OF assms(3)] assms(7)] by blast
  with assms(5,6) have "testing k (es @ [Call i x])" by (intro testing_step) auto
  with system_step.call [OF None] show ?thesis by blast
next
  case (Some v)
  have "event_ok k (Worker_turn i) A" using test_runs_event [OF assms(3,4)] by blast
  moreover have "\<not> starved S A i" by (rule tests_not_starved [OF assms(3,2)])
  ultimately obtain e S' where
    e: "\<not> is_call e" "system_step fd pipename heap junk S e S'" using linked_progress [OF assms(1)] Some by blast
  then have "testing k (es @ [e])" using assms(5) by (intro testing_step) auto
  with e(2) show ?thesis by blast
qed

text \<open>
  C4: The project's concurrent test passes and ends: when up to twenty clients have mounted a server with an empty file
  system and each runs the test's calls, with the handles it is given, then in every interleaving every assertion the
  clients make holds (no open or close fails, each write takes all four bytes, each read gives back \<open>AAA!\<close>), the run
  has at most 42 steps per client, and until all clients have finished there is a step that continues it.
\<close>
theorem tests_pass:
  assumes "at_start fd k ib rq S0" and "abs_fs (srv_fs (sys_server S0)) = empty_fs" and "k \<le> MAX_OPEN_FILES"
    and "steps (system_step fd pipename heap junk) S0 es S" and "testing k es"
  shows "(\<forall>i. passed (results i es)) \<and> length es \<le> 42 * k \<and>
    ((\<forall>i<k. length (results i es) = 6) \<or> (\<exists>e S'. system_step fd pipename heap junk S e S' \<and> testing k (es @ [e])))"
proof -
  from tests_linked [OF assms(4,1,2,3,5)] obtain A ph order where
    A: "linked fd k ib rq S A ph order" "behaved k es (no_calls S0)" "test_runs k (\<lambda>i. results i es) A"
    "calls_left k (\<lambda>i. results i es) (fst A) + length (filter is_call es) = 6 * k" by blast
  have "all_steps_left k (\<lambda>_. Resting) = 0" by (simp add: all_steps_left_def)
  then have "length es \<le> 7 * length (filter is_call es)"
    using linked_steps [OF assms(4) linked_start [OF assms(1)] A(2)] by fastforce
  with A(4) have l: "length es \<le> 42 * k" by linarith
  have calls: "run_test (results i es) = Some x" if "sys_calls S i = Some (x, as)" for i x as
  proof (rule tests_calls [OF assms(4) _ assms(5) that])
    show "sys_calls S0 j = None" for j
      using linked_caller [OF linked_start [OF assms(1)], of j] assms(1) by (cases "sys_calls S0 j") (auto simp: at_start_def)
  qed
  have "\<exists>e S'. system_step fd pipename heap junk S e S' \<and> testing k (es @ [e])" if "i < k" "length (results i es) \<noteq> 6" for i
    by (rule tests_continue [OF A(1) calls A(3) assms(3,5) that])
  with l show ?thesis using test_runs_results(1) [OF A(3)] by blast
qed

text \<open>Two clients have mounted; the first makes its first call.\<close>

theorem tests_pass_witness:
  "\<exists>S0 S ib e S'. at_start 3 2 ib 0 S0 \<and>
    steps (system_step 3 [0x73] (\<lambda>_. 0) (\<lambda>_. 0)) S0 (call_events 0 (Call_open f1 TFS_O_CREAT) (0, [])) S \<and>
    passed [(0, [])] \<and> system_step 3 [0x73] (\<lambda>_. 0) (\<lambda>_. 0) S e S'"
proof -
  let ?es = "call_events 0 (Call_open f1 TFS_O_CREAT) (0, [])"
  obtain S0 ib where S0: "at_start 3 2 ib 0 S0" "abs_fs (srv_fs (sys_server S0)) = empty_fs" using demo_mounts_two by blast
  have "linked 3 2 ib 0 S0 (\<lambda>_. No_call, empty_fs) (\<lambda>_. Resting) []" using linked_start [OF S0(1)] S0(2) by simp
  from call_runs [where pipename = "[0x73]" and heap = "\<lambda>_. 0" and junk = "\<lambda>_. 0", OF this _ demo_open_ok(1,2), of 0] demo_open_ok(3) first_chunk
  obtain S where S: "steps (system_step 3 [0x73] (\<lambda>_. 0) (\<lambda>_. 0)) S0 ?es S" by auto
  have "testing 2 ?es" by (auto simp: testing_def results_def Cons_eq_append_conv)
  moreover have "results 0 ?es = [(0, [])]" by (simp add: results_def)
  moreover have "(2 :: nat) \<le> MAX_OPEN_FILES" by (simp add: config)
  moreover have "\<exists>i<2. length (results i ?es) \<noteq> 6" by (intro exI [of _ 0]) (simp add: results_def)
  ultimately show ?thesis using tests_pass [OF S0 _ S] S0(1) S by metis
qed

end
