(* ===== verification/Pipe_Counts.thy ===== *)
theory Pipe_Counts
  imports Pipes
begin

text \<open>
  How many descriptors read from and write to each pipe: the counters of \<open>os\<close> agree with the descriptors,
  whatever calls the processes make, and when a process ends its descriptors are closed. A pipe
  somebody holds open is never at its end.
\<close>

section \<open>The counters\<close>

definition ends_of :: "(pipe_end \<Rightarrow> bool) \<Rightarrow> os \<Rightarrow> nat \<Rightarrow> (proc \<times> int) set" where
  "ends_of sel w q = {(p, d). \<exists>e. descriptors w p d = Some e \<and> sel e \<and> e_pipe e = q}"

definition counted :: "os \<Rightarrow> bool" where
  "counted w \<longleftrightarrow> (\<forall>q. finite (ends_of e_reads w q) \<and> readers w q = card (ends_of e_reads w q) \<and>
     finite (ends_of e_writes w q) \<and> writers w q = card (ends_of e_writes w q))"

lemma ends_of_data [simp]: "ends_of sel (w\<lparr>pipe_data := f\<rparr>) q = ends_of sel w q"
  "ends_of sel (w\<lparr>pipe_names := g\<rparr>) q = ends_of sel w q"
  "ends_of sel (w\<lparr>pipe_names := g, pipe_data := f, next_pipe := n\<rparr>) q = ends_of sel w q"
  by (simp_all add: ends_of_def)

lemma counted_data [simp]: "counted (w\<lparr>pipe_data := f\<rparr>) = counted w" "counted (w\<lparr>pipe_names := g\<rparr>) = counted w"
  "counted (w\<lparr>pipe_names := g, pipe_data := f, next_pipe := n\<rparr>) = counted w"
  by (simp_all add: counted_def)

lemma ends_of_put:
  "descriptors w p d = None \<Longrightarrow> ends_of sel (put_descriptor p d (Some e) w) q =
    (if sel e \<and> e_pipe e = q then insert (p, d) (ends_of sel w q) else ends_of sel w q)"
  by (auto simp: ends_of_def put_descriptor_def split: if_splits)

lemma ends_of_drop:
  "descriptors w p d = Some e \<Longrightarrow> ends_of sel (put_descriptor p d None w) q =
    (if sel e \<and> e_pipe e = q then ends_of sel w q - {(p, d)} else ends_of sel w q)"
  by (auto simp: ends_of_def put_descriptor_def split: if_splits)

lemma count_end_sel [simp]:
  "descriptors (count_end f e w) = descriptors w" "ends_of sel (count_end f e w) q = ends_of sel w q"
  "pipe_data (count_end f e w) = pipe_data w" "pipe_names (count_end f e w) = pipe_names w"
  "readers (count_end f e w) q = (if e_reads e \<and> e_pipe e = q then f (readers w q) else readers w q)"
  "writers (count_end f e w) q = (if e_writes e \<and> e_pipe e = q then f (writers w q) else writers w q)"
  by (simp_all add: count_end_def ends_of_def)

lemma put_descriptor_sel [simp]:
  "readers (put_descriptor p d e w) = readers w" "writers (put_descriptor p d e w) = writers w"
  "pipe_data (put_descriptor p d e w) = pipe_data w" "pipe_names (put_descriptor p d e w) = pipe_names w"
  "descriptors (put_descriptor p d e w) = (descriptors w)(p := (descriptors w p)(d := e))"
  by (simp_all add: put_descriptor_def)

lemma counted_opened:
  assumes "counted w" and "descriptors w p d = None"
  shows "counted (count_end Suc e (put_descriptor p d (Some e) w))"
proof -
  have "(p, d) \<notin> ends_of sel w q" for sel q using assms(2) by (simp add: ends_of_def)
  with assms show ?thesis by (simp add: counted_def ends_of_put)
qed

lemma counted_closed:
  assumes "counted w" and "descriptors w p d = Some e"
  shows "counted (count_end (\<lambda>k. k - Suc 0) e (put_descriptor p d None w))"
proof -
  have "(p, d) \<in> ends_of sel w (e_pipe e)" if "sel e" for sel using assms(2) that by (auto simp: ends_of_def)
  with assms show ?thesis by (auto simp: counted_def ends_of_drop)
qed

lemma lowest_descriptor_Some: "lowest_descriptor p w = Some d \<Longrightarrow> descriptors w p (int d) = None"
  by (auto simp: lowest_descriptor_def find_Some_iff)

lemma counted_call: "counted w \<Longrightarrow> os_call p c w = Some (a, w') \<Longrightarrow> counted w'"
  by (cases c) (auto simp: os_call.simps Let_def counted_opened counted_closed lowest_descriptor_Some
      split: option.splits if_splits)

lemma counted_run: "os_run p f as w x w' \<Longrightarrow> counted w \<Longrightarrow> counted w'"
  by (induction rule: os_run.induct) (auto intro: counted_call)

text \<open>A process that can write to a pipe keeps it from its end.\<close>

lemma counted_writer: "counted w \<Longrightarrow> descriptors w p d = Some e \<Longrightarrow> e_writes e \<Longrightarrow> 0 < writers w (e_pipe e)"
  by (auto simp: counted_def ends_of_def card_gt_0_iff)

section \<open>The end of a process\<close>

definition close_descriptor :: "proc \<Rightarrow> nat \<Rightarrow> os \<Rightarrow> os" where
  "close_descriptor p d w = (case os_call p (Sys_close (int d)) w of None \<Rightarrow> w | Some (a, w) \<Rightarrow> w)"

definition os_exit :: "proc \<Rightarrow> os \<Rightarrow> os" where
  "os_exit p = fold (close_descriptor p) [0..<OPEN_MAX]"

lemma close_descriptor_keeps:
  "counted w \<Longrightarrow> counted (close_descriptor p d w)" "pipe_data (close_descriptor p d w) = pipe_data w"
  "r \<noteq> p \<Longrightarrow> descriptors (close_descriptor p d w) r = descriptors w r"
  by (auto simp: close_descriptor_def intro: counted_closed split: option.split)

lemma os_exit_keeps:
  "counted w \<Longrightarrow> counted (os_exit p w)" "pipe_data (os_exit p w) = pipe_data w"
  "r \<noteq> p \<Longrightarrow> descriptors (os_exit p w) r = descriptors w r"
proof -
  have "(counted w \<longrightarrow> counted (fold (close_descriptor p) ds w)) \<and> pipe_data (fold (close_descriptor p) ds w) = pipe_data w \<and>
      (r \<noteq> p \<longrightarrow> descriptors (fold (close_descriptor p) ds w) r = descriptors w r)" for ds
    by (induction ds arbitrary: w) (simp_all add: close_descriptor_keeps)
  then show "counted w \<Longrightarrow> counted (os_exit p w)" "pipe_data (os_exit p w) = pipe_data w"
    "r \<noteq> p \<Longrightarrow> descriptors (os_exit p w) r = descriptors w r" by (simp_all add: os_exit_def)
qed

end
