(* ===== verification/System_Exit.thy ===== *)
theory System_Exit
  imports System_Props Pipe_Counts
begin

text \<open>
  The end of the server: what a shutdown does, and what becomes of the other clients when the server's process
  has ended, be it by \<open>exit\<close> in the worker that shut the file system down or by a signal. A client has
  opened its own pipe for writing too, so it never sees the end of it.
\<close>

section \<open>The system calls of a client\<close>

text \<open>In a call on files a client writes to the server's pipe and reads from its own, and keeps both descriptors.\<close>

definition own_call :: "client \<Rightarrow> sys_call \<Rightarrow> bool" where
  "own_call c sc \<longleftrightarrow> (\<exists>bs. sc = Sys_write (tx c) bs) \<or> (\<exists>n. sc = Sys_read (rx c) n)"

definition own_calls :: "client \<Rightarrow> ('a \<Rightarrow> client) \<Rightarrow> 'a outcome \<Rightarrow> bool" where
  "own_calls c sel m \<longleftrightarrow> (\<forall>x. m = Ok x \<longrightarrow> rx (sel x) = rx c \<and> tx (sel x) = tx c) \<and>
     (\<forall>sc. m = Fault (Waiting sc) \<longrightarrow> own_call c sc)"

lemma own_calls_simps [simp]:
  "own_calls c sel (Ok x) \<longleftrightarrow> rx (sel x) = rx c \<and> tx (sel x) = tx c"
  "own_calls c sel (Fault e) \<longleftrightarrow> (\<forall>sc. e = Waiting sc \<longrightarrow> own_call c sc)"
  by (simp_all add: own_calls_def)

lemma own_calls_then:
  assumes "own_calls c sel m" and "\<And>x. rx (sel x) = rx c \<Longrightarrow> tx (sel x) = tx c \<Longrightarrow> own_calls c sel' (f x)"
  shows "own_calls c sel' (and_then m f)"
  using assms by (cases m) (auto simp: own_calls_def)

lemma write_loop_calls: "write_loop fd buf n k w = Fault (Waiting sc) \<Longrightarrow> \<exists>bs. sc = Sys_write fd bs"
proof (induction fd buf n k w rule: write_loop.induct)
  case (1 fd buf n k w)
  show ?case
  proof (cases "k < n \<and> unat k + unat (n - k) \<le> length buf")
    case True
    let ?bs = "take (unat (n - k)) (drop (unat k) buf)"
    have bs: "buf_get (unat k) (unat (n - k)) buf = Ok ?bs" using True by (simp add: buf_get_def)
    show ?thesis
    proof (cases "answers w")
      case Nil
      with "1.prems" True bs show ?thesis by (auto simp: write_loop.simps [of fd buf n k w] syscall_def)
    next
      case (Cons a as)
      then obtain w' where w': "syscall (Sys_write fd ?bs) w = Ok (a, w')" by (simp add: syscall_def)
      with "1.IH" "1.prems" True bs show ?thesis by (auto simp: write_loop.simps [of fd buf n k w] split: if_splits)
    qed
  qed (use "1.prems" in \<open>auto simp: write_loop.simps [of fd buf n k w] buf_get_def split: if_splits\<close>)
qed

lemma own_calls_send: "rx c' = rx c \<Longrightarrow> tx c' = tx c \<Longrightarrow> own_calls c snd (send_request req c')"
  using write_loop_calls [of "tx c'" req "of_nat (length req)" 0 "c_sys c'"]
  by (cases "write_loop (tx c') req (of_nat (length req)) 0 (c_sys c')")
     (auto simp: own_calls_def own_call_def send_request_def client_write_buffer_def)

lemma own_calls_do: "rx c' = rx c \<Longrightarrow> tx c' = tx c \<Longrightarrow> own_call c sc \<Longrightarrow> own_calls c snd (do_call sc c')"
  by (auto simp: own_calls_def do_call_def syscall_def split: list.split)

lemma own_calls_receive: "rx c' = rx c \<Longrightarrow> tx c' = tx c \<Longrightarrow> own_calls c snd (receive junk c')"
  unfolding receive_def
  by (rule own_calls_then [OF own_calls_do]) (auto simp: own_call_def)

lemma own_calls_rpc:
  "rx c' = rx c \<Longrightarrow> tx c' = tx c \<Longrightarrow> own_calls c snd (client_rpc (Ok req) junk decode c')"
  unfolding client_rpc_def and_then.simps
  by (rule own_calls_then [OF own_calls_send])
     (auto intro!: own_calls_then [OF own_calls_receive] split: option.split)

lemma own_calls_read:
  "rx c' = rx c \<Longrightarrow> tx c' = tx c \<Longrightarrow> own_calls c snd (client_read f buf len junk c')"
  unfolding client_read_def read_request_eq and_then.simps
  by (rule own_calls_then [OF own_calls_send])
     (auto intro!: own_calls_then [OF own_calls_receive] own_calls_then [OF own_calls_do]
       simp: own_call_def buf_put_def split: option.split)

lemma client_own_calls: "call_ok x \<Longrightarrow> own_calls c snd (client_call junk x (client_with c as))"
proof (cases x)
  case (Call_open n flags)
  assume "call_ok x"
  with Call_open show ?thesis
    by (auto simp: no_bytes_def client_open_def open_request_eq config intro!: own_calls_then [OF own_calls_rpc])
next
  case (Call_close f)
  then show ?thesis
    by (auto simp: no_bytes_def client_close_def close_request_eq intro!: own_calls_then [OF own_calls_rpc])
next
  case (Call_write f data)
  assume "call_ok x"
  with Call_write show ?thesis
    by (auto simp: no_bytes_def client_write_def write_request_eq unat_of_nat_small config intro!: own_calls_then [OF own_calls_rpc])
next
  case (Call_read f len)
  then show ?thesis by (auto intro!: own_calls_then [OF own_calls_read])
qed simp_all

section \<open>Clients without a server\<close>

text \<open>The server's process ends; from then on only clients go on, with calls on files.\<close>

definition server_gone :: "system \<Rightarrow> system" where
  "server_gone S = S\<lparr>sys_os := os_exit Server_proc (sys_os S)\<rparr>"

fun client_event :: "nat \<Rightarrow> event \<Rightarrow> bool" where
  "client_event k (Call i x) \<longleftrightarrow> i < k \<and> call_ok x"
| "client_event k (Answered i) \<longleftrightarrow> True"
| "client_event k (Returned i r) \<longleftrightarrow> True"
| "client_event k Main_turn \<longleftrightarrow> False"
| "client_event k (Worker_turn i) \<longleftrightarrow> False"

definition client_step :: "int \<Rightarrow> cstring \<Rightarrow> (nat \<Rightarrow> byte) \<Rightarrow> (nat \<Rightarrow> byte) \<Rightarrow> nat \<Rightarrow> system \<Rightarrow> event \<Rightarrow> system \<Rightarrow> bool" where
  "client_step fd pipename heap junk k S e S' \<longleftrightarrow> client_event k e \<and> system_step fd pipename heap junk S e S'"

text \<open>Client \<open>j\<close> reads from its own empty pipe; the other clients use other pipes.\<close>

definition has_end :: "os \<Rightarrow> proc \<Rightarrow> int \<Rightarrow> nat \<Rightarrow> bool" where
  "has_end w p d q \<longleftrightarrow> (\<exists>e. descriptors w p d = Some e \<and> e_pipe e = q)"

definition stranded :: "nat \<Rightarrow> (nat \<Rightarrow> nat) \<Rightarrow> nat \<Rightarrow> (nat \<Rightarrow> byte) \<Rightarrow> nat \<Rightarrow> system \<Rightarrow> bool" where
  "stranded k ib rq junk j S \<longleftrightarrow> counted (sys_os S) \<and>
     (\<forall>l<k. has_end (sys_os S) (Client_proc l) (tx (sys_clients S l)) rq \<and>
       has_end (sys_os S) (Client_proc l) (rx (sys_clients S l)) (ib l) \<and> (ib l = ib j \<longrightarrow> l = j)) \<and> ib j \<noteq> rq \<and>
     (\<forall>l x as. sys_calls S l = Some (x, as) \<longrightarrow> l < k \<and> call_ok x) \<and> pipe_data (sys_os S) (ib j) = [] \<and>
     (\<exists>e. descriptors (sys_os S) (Client_proc j) (rx (sys_clients S j)) = Some e \<and> e_reads e \<and> e_writes e \<and> e_pipe e = ib j) \<and>
     (\<exists>x as n. sys_calls S j = Some (x, as) \<and> 0 < n \<and>
       client_call junk x (client_with (sys_clients S j) as) = Fault (Waiting (Sys_read (rx (sys_clients S j)) n)))"

lemma own_call_effect:
  assumes "own_call c sc" and "os_call p sc w = Some (a, w')" and "has_end w p (tx c) q1" and "has_end w p (rx c) q2"
  shows "w' = w\<lparr>pipe_data := pipe_data w'\<rparr>" and "q \<noteq> q1 \<Longrightarrow> q \<noteq> q2 \<Longrightarrow> pipe_data w' q = pipe_data w q"
  using assms by (auto simp: own_call_def has_end_def os_call.simps Let_def split: if_splits)

lemma stranded_waits:
  assumes "stranded k ib rq junk j S" and "sys_calls S j = Some (x, as)"
    and "client_call junk x (client_with (sys_clients S j) as) = Fault (Waiting sc)"
  shows "os_call (Client_proc j) sc (sys_os S) = None"
proof -
  obtain e n where e: "descriptors (sys_os S) (Client_proc j) (rx (sys_clients S j)) = Some e" "e_reads e" "e_writes e" "e_pipe e = ib j"
    and n: "0 < n" "sc = Sys_read (rx (sys_clients S j)) n" and s: "counted (sys_os S)" "pipe_data (sys_os S) (ib j) = []"
    using assms by (auto simp: stranded_def)
  have "reads_from (sys_os S) (Client_proc j) (rx (sys_clients S j)) (ib j)"
    using counted_writer [OF s(1) e(1,3)] e by (auto simp: reads_from_def)
  with os_reads [OF this n(1)] n(2) s(2) show ?thesis by simp
qed

lemma stranded_step:
  assumes "client_step fd pipename heap junk k S e S'" and "stranded k ib rq junk j S"
  shows "stranded k ib rq junk j S' \<and> sys_calls S' j = sys_calls S j"
proof -
  note s = assms(2) [unfolded stranded_def]
  have step: "client_event k e" "system_step fd pipename heap junk S e S'" using assms(1) by (simp_all add: client_step_def)
  from step(2) show ?thesis
  proof (cases rule: system_step.cases)
    case (call i x)
    then have "i \<noteq> j" "i < k" "call_ok x" using s step(1) by auto
    with s show ?thesis by (simp add: call(2) stranded_def)
  next
    case (answered i x as c a w)
    then have i: "i \<noteq> j" using stranded_waits [OF assms(2)] by fastforce
    have x: "i < k" "call_ok x" using s answered(3) by blast+
    have "own_call (sys_clients S i) c"
      using client_own_calls [OF x(2), of "sys_clients S i" junk as] answered(4) by (simp add: own_calls_def)
    from own_call_effect [OF this answered(5), of rq "ib i"] s x(1) i
    have f: "w = (sys_os S)\<lparr>pipe_data := pipe_data w\<rparr>" "pipe_data w (ib j) = pipe_data (sys_os S) (ib j)" by metis+
    then have "counted w" "descriptors w = descriptors (sys_os S)" using s by (metis counted_data(1), metis os.select_convs(4) os.surjective os.update_convs(2))
    with s i x f(2) show ?thesis by (simp add: answered(2) stranded_def has_end_def)
  next
    case (return i x as r c)
    then have i: "i \<noteq> j" using s by auto
    have "call_ok x" using s return(3) by blast
    from client_own_calls [OF this, of "sys_clients S i" junk as] return(4)
    have "rx c = rx (sys_clients S i)" "tx c = tx (sys_clients S i)" by (simp_all add: own_calls_def)
    with s i show ?thesis by (simp add: return(2) stranded_def)
  qed (use step(1) in simp_all)
qed

lemma stranded_steps:
  "steps (client_step fd pipename heap junk k) S es S' \<Longrightarrow> stranded k ib rq junk j S \<Longrightarrow>
    stranded k ib rq junk j S' \<and> sys_calls S' j = sys_calls S j"
proof (induction rule: steps.induct)
  case (more S es S1 e S2)
  with stranded_step [OF more.hyps(2)] show ?case by auto
qed simp

text \<open>The descriptors are counted in every state the system reaches.\<close>

lemma counted_step: "system_step fd pipename heap junk S e S' \<Longrightarrow> counted (sys_os S) \<Longrightarrow> counted (sys_os S')"
  by (induction rule: system_step.induct) (auto intro: counted_call counted_run)

lemma counted_steps: "steps (system_step fd pipename heap junk) S es S' \<Longrightarrow> counted (sys_os S) \<Longrightarrow> counted (sys_os S')"
  by (induction rule: steps.induct) (auto intro: counted_step)

text \<open>A client whose request is with the server when the server ends.\<close>

lemma linked_stranded:
  assumes "linked fd k ib rq S A ph order" and "counted (sys_os S)" and "ph j = Queued x \<or> ph j = Held x"
  shows "stranded k ib rq junk j (server_gone S)"
proof -
  have j: "joined fd k ib rq S" using assms(1) by (simp add: linked_def)
  have jk: "j < k" using assms(1,3) by (metis leI linked_def phase.distinct(3,5))
  have x: "sys_calls S j = Some (x, [sent_answer j x])" "call_ok x" "pipe_data (sys_os S) (ib j) = []"
    using linked_phase [OF assms(1), of j] assms(3) jk by auto
  have c: "session_id (sys_clients S j) = int j + 1" "errno (c_sys (sys_clients S j)) \<noteq> EPIPE"
    using joined_client [OF j jk] by (simp_all add: client_joined_def)
  have n: "0 < length (reply_chunks x (0, []))" "0 < chunk_sizes x ! 0" using x(2) by (cases x; simp)+
  have wait: "client_call junk x (client_with (sys_clients S j) [sent_answer j x]) = Fault (Waiting (Sys_read (rx (sys_clients S j)) (chunk_sizes x ! 0)))"
    using client_waits [OF x(2) c n(1), of junk] by simp
  have ends: "has_end (sys_os S) (Client_proc l) (tx (sys_clients S l)) rq \<and> has_end (sys_os S) (Client_proc l) (rx (sys_clients S l)) (ib l)"
    if "l < k" for l
    using joined_client [OF j that] by (auto simp: client_joined_def writes_to_def reads_from_def has_end_def)
  have calls: "l < k \<and> call_ok y" if "sys_calls S l = Some (y, as)" for l y as
    using linked_phase [OF assms(1), of l] linked_caller [OF assms(1) that] that by (cases "ph l") auto
  obtain e where e: "descriptors (sys_os S) (Client_proc j) (rx (sys_clients S j)) = Some e" "e_reads e" "e_writes e" "e_pipe e = ib j"
    using joined_client [OF j jk] by (auto simp: client_joined_def writes_to_def reads_from_def)
  show ?thesis unfolding stranded_def
  proof (intro conjI allI impI)
    show "counted (sys_os (server_gone S))" using os_exit_keeps(1) [OF assms(2)] by (simp add: server_gone_def)
    show "pipe_data (sys_os (server_gone S)) (ib j) = []" using x(3) by (simp add: server_gone_def os_exit_keeps)
    show "ib j \<noteq> rq" using joined_pipe_distinct(1) [OF j jk] .
    show "l = j" if "l < k" "ib l = ib j" for l using joined_pipe_distinct(2) [OF j jk that(1)] that(2) by simp
  qed (use ends calls x(1) n(2) wait e in \<open>auto simp: server_gone_def os_exit_keeps has_end_def\<close>)
qed

text \<open>
  C39: A client whose request the server has not answered when the server's process ends waits for ever: from a run of
  well-behaved clients take any moment at which a client has sent its request and its pipe is empty, and let the server
  end there; then whatever the clients do afterwards, the call never gets another answer and never returns, because
  the client itself holds its pipe open for writing and so its read does not end.
\<close>
theorem server_end_strands:
  assumes "at_start fd k ib rq S0" and "counted (sys_os S0)"
    and "steps (system_step fd pipename heap junk) S0 es S" and "behaved k es (no_calls S0)"
    and "sys_calls S j = Some (x, [a])" and "pipe_data (sys_os S) (ib j) = []"
    and "steps (client_step fd pipename heap junk k) (server_gone S) es' S'"
  shows "sys_calls S' j = Some (x, [a])"
proof -
  from linked_steps [OF assms(3) linked_start [OF assms(1)] assms(4)] obtain A ph order where
    A: "linked fd k ib rq S A ph order" by blast
  have jk: "j < k" using linked_caller [OF A assms(5)] .
  have "ph j = Queued x \<or> ph j = Held x"
  proof (cases "ph j")
    case (Replied y res l)
    with linked_phase [OF A, of j] assms(5,6) jk have "l = 0" "concat (drop l (reply_chunks y res)) = []" "result_ok y res" by auto
    with first_chunk [of y res] length_reply_chunks [of y res] show ?thesis by (cases "reply_chunks y res") auto
  qed (use linked_phase [OF A, of j] assms(5) jk in auto)
  from linked_stranded [OF A counted_steps [OF assms(3,2)] this, of junk] stranded_steps [OF assms(7)]
  show ?thesis using assms(5) by (simp add: server_gone_def)
qed

text \<open>The server ends while the first of two clients waits for its answer; the second makes a call.\<close>

lemma demo_counted: "counted (sys_os demo_system)"
proof -
  have "ends_of e_reads (sys_os demo_system) q = (if q = 0 then {(Server_proc, 3)} else {})"
    "ends_of e_writes (sys_os demo_system) q = {}" for q
    by (auto simp: ends_of_def demo_system_def open_end_def O_RDONLY_def O_WRONLY_def split: if_splits)
  then show ?thesis by (simp add: counted_def) (simp add: demo_system_def)
qed

theorem server_end_strands_witness:
  "\<exists>S0 S S' a ib. at_start 3 2 ib 0 S0 \<and>
    steps (system_step 3 [0x73] (\<lambda>_. 0) (\<lambda>_. 0)) S0 [Call 0 (Call_open f1 TFS_O_CREAT), Answered 0] S \<and>
    client_step 3 [0x73] (\<lambda>_. 0) (\<lambda>_. 0) 2 (server_gone S) (Call 1 (Call_close 0)) S' \<and>
    sys_calls S' 0 = Some (Call_open f1 TFS_O_CREAT, [a])"
proof -
  let ?step = "system_step 3 [0x73] (\<lambda>_. 0) (\<lambda>_. 0)" and ?x = "Call_open f1 TFS_O_CREAT"
  let ?p = "(\<lambda>_. No_call)(0 := Pending ?x)" and ?ph = "\<lambda>h. (\<lambda>_. Resting)(0 := h)"
  obtain S0 ib where S0: "at_start 3 2 ib 0 S0" "abs_fs (srv_fs (sys_server S0)) = empty_fs" "counted (sys_os S0)"
    using demo_mounts_two counted_steps [OF _ demo_counted] by blast
  have idle: "sys_calls S0 0 = None" using S0(1) by (simp add: at_start_def)
  have "linked 3 2 ib 0 S0 (\<lambda>_. No_call, empty_fs) (\<lambda>_. Resting) []" using linked_start [OF S0(1)] S0(2) by simp
  from linked_call [OF this idle _ demo_open_ok(1)] system_step.call [OF idle, of 3 "[0x73]" "\<lambda>_. 0" "\<lambda>_. 0" ?x]
  obtain S1 where S1: "?step S0 (Call 0 ?x) S1" "linked 3 2 ib 0 S1 (?p, empty_fs) (?ph (Calling ?x)) []" by auto
  have "length (pipe_data (sys_os S1) 0) + length (request_bytes 0 ?x) \<le> PIPE_CAPACITY"
    using linked_queue [OF S1(2)] request_length [OF demo_open_ok(1), of 0] by (simp add: queue_fits_def config)
  from call_sends [where pipename = "[0x73]" and heap = "\<lambda>_. 0" and junk = "\<lambda>_. 0", OF S1(2) _ _ this]
  obtain S where S: "?step S1 (Answered 0) S" "linked 3 2 ib 0 S (?p, empty_fs) (?ph (Queued ?x)) [0]" by auto
  have run: "steps ?step S0 [Call 0 ?x, Answered 0] S" using steps_Cons [OF S1(1) steps_one [where step = ?step, OF S(1)]] .
  have waits: "sys_calls S 0 = Some (?x, [sent_answer 0 ?x])" "pipe_data (sys_os S) (ib 0) = []"
    using linked_phase [OF S(2), of 0] by simp_all
  have ok: "behaved 2 [Call 0 ?x, Answered 0] (no_calls S0)" using demo_open_ok(1) by simp
  have "sys_calls S 1 = None" using linked_phase [OF S(2), of 1] by simp
  then have "sys_calls (server_gone S) 1 = None" by (simp add: server_gone_def)
  from system_step.call [OF this, of 3 "[0x73]" "\<lambda>_. 0" "\<lambda>_. 0" "Call_close 0"]
  obtain S' where S': "client_step 3 [0x73] (\<lambda>_. 0) (\<lambda>_. 0) 2 (server_gone S) (Call 1 (Call_close 0)) S'"
    by (auto simp: client_step_def int_ok_def)
  with server_end_strands [OF S0(1,3) run ok waits steps_one [where step = "client_step 3 [0x73] (\<lambda>_. 0) (\<lambda>_. 0) 2", OF S']] S0(1) run
  show ?thesis by blast
qed

end
