(* ===== verification/System_Shutdown.thy ===== *)
theory System_Shutdown
  imports System_Exit
begin

text \<open>
  Shutting the server down: the request goes the way of the others, the worker that holds it waits until no handle
  is open, answers and ends the process, and the client closes its pipes.
\<close>

section \<open>The end of the process by \<open>exit\<close>\<close>

inductive os_exits :: "proc \<Rightarrow> (answer list \<Rightarrow> 'a outcome) \<Rightarrow> answer list \<Rightarrow> os \<Rightarrow> int \<Rightarrow> os \<Rightarrow> bool" for p f where
  exits: "f as = Fault (Exit r) \<Longrightarrow> os_exits p f as w r w"
| asks: "f as = Fault (Waiting c) \<Longrightarrow> os_call p c w = Some (a, w1) \<Longrightarrow> os_exits p f (as @ [a]) w1 r w2 \<Longrightarrow> os_exits p f as w r w2"

lemma os_exits_Exit: "f as = Fault (Exit r') \<Longrightarrow> os_exits p f as w r w' \<longleftrightarrow> r = r' \<and> w' = w"
  by (subst os_exits.simps) auto

lemma os_exits_Waiting:
  "f as = Fault (Waiting c) \<Longrightarrow> os_call p c w = Some (a, w1) \<Longrightarrow> os_exits p f as w r w' \<longleftrightarrow> os_exits p f (as @ [a]) w1 r w'"
  by (subst os_exits.simps) auto

lemma os_exits_Fault: "f as = Fault e \<Longrightarrow> (\<And>c. e \<noteq> Waiting c) \<Longrightarrow> (\<And>r. e \<noteq> Exit r) \<Longrightarrow> \<not> os_exits p f as w r w'"
  by (subst os_exits.simps) auto

text \<open>Worker \<open>i\<close>'s turn ends the process with the status \<open>r\<close>.\<close>

definition server_exits :: "(nat \<Rightarrow> byte) \<Rightarrow> nat \<Rightarrow> system \<Rightarrow> int \<Rightarrow> system \<Rightarrow> bool" where
  "server_exits heap i S r S' \<longleftrightarrow> (\<exists>w.
     os_exits Server_proc (\<lambda>as. thread_handler [] heap i (server_with (sys_server S) as)) [] (sys_os S) r w \<and>
     S' = server_gone (S\<lparr>sys_os := w\<rparr>))"

section \<open>The parties\<close>

abbreviation shutdown_bytes :: "nat \<Rightarrow> byte list" where
  "shutdown_bytes i \<equiv> TFS_OP_CODE_SHUTDOWN # int_bytes (int i + 1)"

lemma shutdown_waits:
  fixes junk :: "nat \<Rightarrow> byte"
  assumes "session_id c = int i + 1" and "errno (c_sys c) \<noteq> EPIPE"
  defines "call \<equiv> \<lambda>as. client_call junk Call_shutdown (client_with c as)"
  shows "call [] = Fault (Waiting (Sys_write (tx c) (shutdown_bytes i)))"
    and "call [reply 5] = Fault (Waiting (Sys_read (rx c) 4))"
    and "call [reply 5, deliver (int_bytes 0)] = Fault (Waiting (Sys_close (tx c)))"
    and "call [reply 5, deliver (int_bytes 0), reply 0] = Fault (Waiting (Sys_close (rx c)))"
    and "\<exists>w. call [reply 5, deliver (int_bytes 0), reply 0, reply 0] = Ok ((0, []), c\<lparr>c_sys := w\<rparr>)"
proof -
  have req: "session_request TFS_OP_CODE_SHUTDOWN (session_id c) SHUTDOWN_SIZE_API = Ok (shutdown_bytes i)"
    using assms(1) by (simp add: session_request_eq config)
  have len: "length (shutdown_bytes i) = 5" "shutdown_bytes i \<noteq> []" by simp_all
  show "call [] = Fault (Waiting (Sys_write (tx c) (shutdown_bytes i)))"
    using req send_waits [of "client_with c []" "shutdown_bytes i"] len
    by (simp add: call_def no_bytes_def client_shutdown_after_all_closed_def)
  have sent: "\<exists>w. send_request (shutdown_bytes i) (client_with c (reply 5 # as)) = Ok (True, c\<lparr>c_sys := w\<rparr>) \<and>
      answers w = as \<and> errno w = errno (c_sys c)" for as
    using send_done [of "client_with c (reply 5 # as)" "shutdown_bytes i" as] len assms(2) by auto
  show "call [reply 5] = Fault (Waiting (Sys_read (rx c) 4))"
    using sent [of "[]"] req by (auto simp: call_def no_bytes_def client_shutdown_after_all_closed_def receive_waits)
  have received: "\<exists>w. call (reply 5 # deliver (int_bytes 0) # as) = no_bytes (
      and_then (close_pipe (tx c) (c\<lparr>c_sys := w\<rparr>)) (\<lambda>(ok, c).
      if \<not> ok then Ok (-1, c) else
      and_then (close_pipe (rx c) c) (\<lambda>(ok, c). if \<not> ok then Ok (-1, c) else Ok (bytes_int (int_bytes 0), c)))) \<and>
    answers w = as \<and> errno w = errno (c_sys c)" for as
  proof -
    obtain w where w: "send_request (shutdown_bytes i) (client_with c (reply 5 # deliver (int_bytes 0) # as)) = Ok (True, c\<lparr>c_sys := w\<rparr>)"
      "answers w = deliver (int_bytes 0) # as" "errno w = errno (c_sys c)" using sent by blast
    obtain w' where "receive (map junk [0..<4]) (c\<lparr>c_sys := w\<rparr>) = Ok (Some (int_bytes 0), c\<lparr>c_sys := w'\<rparr>)"
      "answers w' = as" "errno w' = errno w"
      using receive_done [of "c\<lparr>c_sys := w\<rparr>" "int_bytes 0" as "map junk [0..<4]"] w(2,3) assms(2) by auto
    with w(1,3) req show ?thesis
      by (intro exI [of _ w']) (simp add: call_def client_shutdown_after_all_closed_def)
  qed
  have "bytes_int (int_bytes 0) = 0" by (rule bytes_int_bytes) (simp add: int_ok_def)
  note close = this close_pipe_def do_call_def syscall_def reply_def no_bytes_def
  show "call [reply 5, deliver (int_bytes 0)] = Fault (Waiting (Sys_close (tx c)))"
    using received [of "[]"] by (auto simp: close)
  show "call [reply 5, deliver (int_bytes 0), reply 0] = Fault (Waiting (Sys_close (rx c)))"
    using received [of "[reply 0]"] assms(2) by (auto simp: close)
  show "\<exists>w. call [reply 5, deliver (int_bytes 0), reply 0, reply 0] = Ok ((0, []), c\<lparr>c_sys := w\<rparr>)"
    using received [of "[reply 0, reply 0]"] assms(2) by (auto simp: close)
qed

lemma main_takes_shutdown:
  assumes "idle i s" and "reads_from w Server_proc fd q" and "pipe_data w q = shutdown_bytes i @ rest"
  shows "\<exists>v' s'. received i (shutdown_bytes i) [] s s' \<and>
    os_run Server_proc (main_with fd pipename v s) [] w (Continue v', s') (w\<lparr>pipe_data := (pipe_data w)(q := rest)\<rparr>)"
proof -
  let ?as = "[deliver [TFS_OP_CODE_SHUTDOWN], deliver (int_bytes (int i + 1))]" and ?f = "main_with fd pipename v s"
  have i: "i < MAX_CLIENTS" "session_lock (sessions s i) = Unlocked" "length (sess_buffer (sessions s i)) = 2048"
    using assms(1) by (auto simp: idle_def config)
  have sid: "int_ok (int i + 1)" "session_at (int i + 1) = Ok i" using i(1) by (auto simp: int_ok_def session_at_def config)
  have "\<exists>v' s'. ?f ?as = Ok (Continue v', s') \<and> received i (shutdown_bytes i) [] s s'"
    using i sid by (cases "sessions s i") (simp add: main_iteration_def receive_request_def hand_over_def server_steps syscall_def deliver_def
      check_pipe_open_def bytes_int_bytes op_codes buf_put_def config server_with_def received_def)
  then obtain v' s' where s': "?f ?as = Ok (Continue v', s')" "received i (shutdown_bytes i) [] s s'" by blast
  have "TFS_OP_CODE_SHUTDOWN \<noteq> TFS_OP_CODE_MOUNT" by (simp add: op_codes)
  from main_run_head [OF assms(1,2) _ this, of rest] assms(3) s' show ?thesis
    by (auto simp: os_run_Ok)
qed

text \<open>The worker: the process ends exactly when no handle is open.\<close>

lemma all_closed_iff: "wf_core s \<Longrightarrow> open_files_count s = 0 \<longleftrightarrow> (\<forall>f. abs_open s f = None)"
proof -
  assume "wf_core s"
  then have "open_files_count s = 0 \<longleftrightarrow> {f. f < MAX_OPEN_FILES \<and> free_open_file_entries s f = TAKEN} = {}"
    by (simp add: wf_core_def count_ok_def handles.used_def)
  then show ?thesis by (auto simp: abs_open_def)
qed

definition stopping :: "nat \<Rightarrow> server \<Rightarrow> server" where
  "stopping i s = s\<lparr>sessions := (sessions s)(i := (sessions s i)\<lparr>session_lock := Locked, is_active := True\<rparr>),
     shutdown_called := True, shutting_down_lock := Unlocked\<rparr>"

lemma worker_shutdown_fault:
  "woken i (TFS_OP_CODE_SHUTDOWN # rest) s \<Longrightarrow> \<not> shutdown_called s \<Longrightarrow>
    case_shutdown [] i (stopping i s) = Fault e \<Longrightarrow> thread_handler [] heap i s = Fault e"
  by (simp add: thread_handler_def woken_def stopping_def server_steps field_def buf_get_def dispatch_def op_codes)

lemma destroy_now:
  assumes "ready s"
  shows "\<exists>s'. tfs_destroy_after_all_closed [] s = Ok (if \<forall>f. abs_open s f = None then Some (0, s') else None)"
proof -
  have "wf_core s" "open_files_mutex s = Unlocked" using assms by (auto simp: ready_def fs_ok_def unlocked_def)
  with all_closed_iff [OF this(1)] show ?thesis
    by (auto simp: tfs_destroy_after_all_closed_def wait_all_closed.simps state_destroy_def Let_def)
qed

lemma worker_shuts_down:
  assumes "woken i (shutdown_bytes i @ rest) s" and "\<not> shutdown_called s" and "ready (srv_fs s)"
    and "writes_to w Server_proc (sess_tx (sessions s i)) q" and "pipe_data w q = []"
  shows "os_exits Server_proc (\<lambda>as. thread_handler [] heap i (server_with s as)) [] w r w' \<longleftrightarrow>
    (\<forall>f. abs_open (srv_fs s) f = None) \<and> r = 0 \<and> w' = w\<lparr>pipe_data := (pipe_data w)(q := int_bytes 0)\<rparr>"
proof -
  let ?f = "\<lambda>as. thread_handler [] heap i (server_with s as)"
  let ?s = "\<lambda>as. stopping i (server_with s as)"
  have woken: "woken i (TFS_OP_CODE_SHUTDOWN # int_bytes (int i + 1) @ rest) (server_with s as)" "\<not> shutdown_called (server_with s as)" for as
    using assms(1,2) by (simp_all add: server_with_def woken_def)
  note fault = worker_shutdown_fault [OF woken]
  obtain fs where fs: "tfs_destroy_after_all_closed [] (srv_fs s) = Ok (if \<forall>f. abs_open (srv_fs s) f = None then Some (0, fs) else None)"
    using destroy_now [OF assms(3)] by blast
  show ?thesis
  proof (cases "\<forall>f. abs_open (srv_fs s) f = None")
    case False
    then have "tfs_destroy_after_all_closed [] (srv_fs s) = Ok None" using fs unfolding if_not_P [OF False] by simp
    then have "case_shutdown [] i (?s []) = Fault Blocked" by (simp add: case_shutdown_def stopping_def)
    from os_exits_Fault [where f = ?f, OF fault [OF this]] False show ?thesis by auto
  next
    case True
    note eval = case_shutdown_def server_steps stopping_def server_with_def syscall_def reply_def
    have "case_shutdown [] i (?s []) = Fault (Waiting (Sys_write (sess_tx (sessions s i)) (int_bytes 0)))"
      using fs True by (simp add: eval)
    moreover have "os_call Server_proc (Sys_write (sess_tx (sessions s i)) (int_bytes 0)) w =
        Some (reply 4, w\<lparr>pipe_data := (pipe_data w)(q := int_bytes 0)\<rparr>)"
      using os_writes [OF assms(4)] assms(5) by (simp add: config)
    ultimately have "os_exits Server_proc ?f [] w r w' \<longleftrightarrow>
        os_exits Server_proc ?f ([] @ [reply 4]) (w\<lparr>pipe_data := (pipe_data w)(q := int_bytes 0)\<rparr>) r w'"
      by (intro os_exits_Waiting [where f = ?f] fault)
    moreover have "case_shutdown [] i (?s [reply 4]) = Fault (Exit 0)" using fs True by (simp add: eval)
    ultimately show ?thesis using True os_exits_Exit [where f = ?f, OF fault] by simp
  qed
qed

section \<open>A shutdown from beginning to end\<close>

text \<open>The client sends its request, the main thread hands it over.\<close>

lemma shutdown_sent:
  assumes "serving fd server_pipe k ib rq S" and "i < k"
  shows "\<exists>v s. steps (system_step fd pipename heap junk) S [Call i Call_shutdown, Answered i, Main_turn]
      (during i Call_shutdown [reply 5] (sys_os S) v s S) \<and>
    woken i (shutdown_bytes i @ drop 5 (sess_buffer (sessions (sys_server S) i))) s \<and> srv_fs s = srv_fs (sys_server S) \<and>
    shutdown_called s = shutdown_called (sys_server S) \<and> sess_tx (sessions s i) = sess_tx (sessions (sys_server S) i)"
proof -
  let ?w = "sys_os S" and ?s = "sys_server S" and ?step = "system_step fd pipename heap junk"
  let ?w1 = "?w\<lparr>pipe_data := (pipe_data ?w)(rq := shutdown_bytes i)\<rparr>"
  have start: "at_start fd k ib rq S" using assms serving_at_start [OF assms(1)] by simp
  then have j: "joined fd k ib rq S" "pipe_data ?w rq = []" "sys_calls S i = None" using assms(2) by (simp_all add: at_start_def)
  have c: "session_id (sys_clients S i) = int i + 1" "errno (c_sys (sys_clients S i)) \<noteq> EPIPE"
    "writes_to ?w (Client_proc i) (tx (sys_clients S i)) rq" "idle i ?s" "reads_from ?w1 Server_proc fd rq"
    "shutting_down_lock ?s = Unlocked" "\<not> shutting_down ?s"
    using j(1) joined_client [OF j(1) assms(2)] by (simp_all add: client_joined_def joined_def)
  note wait = shutdown_waits [OF c(1,2), of junk]
  have "?step S (Call i Call_shutdown) (during i Call_shutdown [] ?w (sys_vars S) ?s S)"
    using system_step.call [OF j(3), of fd pipename heap junk Call_shutdown] by (simp add: during_def)
  moreover have "?step (during i Call_shutdown [] ?w (sys_vars S) ?s S) (Answered i) (during i Call_shutdown [reply 5] ?w1 (sys_vars S) ?s S)"
    using during_answered [OF wait(1)] os_writes [OF c(3), of "shutdown_bytes i"] j(2) by (simp add: config)
  moreover obtain v s1 where s1: "received i (shutdown_bytes i) [] ?s s1"
    "os_run Server_proc (main_with fd pipename (sys_vars S) ?s) [] ?w1 (Continue v, s1) ?w"
    using main_takes_shutdown [OF c(4,5), of "[]" pipename "sys_vars S"] j(2) by (auto simp: fun_upd_idem)
  moreover have "?step (during i Call_shutdown [reply 5] ?w1 (sys_vars S) ?s S) Main_turn
      (during i Call_shutdown [reply 5] ?w v (s1\<lparr>shutting_down_lock := Unlocked\<rparr>) S)"
    using s1 c(6,7) by (intro during_main) (simp_all add: received_def)
  ultimately have "steps ?step S [Call i Call_shutdown, Answered i, Main_turn]
      (during i Call_shutdown [reply 5] ?w v (s1\<lparr>shutting_down_lock := Unlocked\<rparr>) S)"
    by (blast intro: steps_Cons steps_one)
  moreover have "woken i (shutdown_bytes i @ drop 5 (sess_buffer (sessions ?s i))) (s1\<lparr>shutting_down_lock := Unlocked\<rparr>)"
    using received_woken [OF s1(1) c(4)] by simp
  ultimately show ?thesis using s1(1)
    by (intro exI [of _ v] exI [of _ "s1\<lparr>shutting_down_lock := Unlocked\<rparr>"]) (simp add: received_def)
qed

text \<open>After the server's process has ended, the client reads the answer and closes its pipes.\<close>

lemma shutdown_answered:
  assumes "serving fd server_pipe k ib rq S" and "i < k"
    and "w = os_exit Server_proc ((sys_os S)\<lparr>pipe_data := (pipe_data (sys_os S))(ib i := int_bytes 0)\<rparr>)"
  shows "\<exists>S'. steps (client_step fd pipename heap junk k) (during i Call_shutdown [reply 5] w v s S)
    [Answered i, Answered i, Answered i, Returned i (0, [])] S'"
proof -
  let ?p = "Client_proc i" and ?c = "sys_clients S i" and ?step = "system_step fd pipename heap junk"
  let ?in = "\<lambda>as w. during i Call_shutdown as w v s S"
  have j: "joined fd k ib rq S" using assms(1,2) serving_at_start [OF assms(1)] by (simp add: at_start_def)
  obtain e1 e2 where e: "descriptors w ?p (rx ?c) = Some e1" "e_reads e1" "e_pipe e1 = ib i" "descriptors w ?p (tx ?c) = Some e2" "e_pipe e2 = rq"
    and c: "session_id ?c = int i + 1" "errno (c_sys ?c) \<noteq> EPIPE"
    using joined_client [OF j assms(2)] by (auto simp: client_joined_def writes_to_def reads_from_def assms(3) os_exit_keeps(3))
  have ne: "tx ?c \<noteq> rx ?c" using e joined_pipe_distinct(1) [OF j assms(2)] by auto
  have data: "pipe_data w (ib i) = int_bytes 0" by (simp add: assms(3) os_exit_keeps(2))
  note wait = shutdown_waits [OF c, of junk]
  let ?w1 = "w\<lparr>pipe_data := (pipe_data w)(ib i := [])\<rparr>"
  let ?w2 = "count_end (\<lambda>k. k - 1) e2 (put_descriptor ?p (tx ?c) None ?w1)"
  have "os_call ?p (Sys_read (rx ?c) 4) w = Some (deliver (int_bytes 0), ?w1)" using e data by (simp add: os_call.simps(1))
  from during_answered [OF wait(2) this] have 1: "?step (?in [reply 5] w) (Answered i) (?in [reply 5, deliver (int_bytes 0)] ?w1)" by simp
  have "os_call ?p (Sys_close (tx ?c)) ?w1 = Some (reply 0, ?w2)" using e(4) by simp
  from during_answered [OF wait(3) this]
  have 2: "?step (?in [reply 5, deliver (int_bytes 0)] ?w1) (Answered i) (?in [reply 5, deliver (int_bytes 0), reply 0] ?w2)" by simp
  obtain w3 where "os_call ?p (Sys_close (rx ?c)) ?w2 = Some (reply 0, w3)" using e(1) ne by simp
  from during_answered [OF wait(4) this]
  have 3: "?step (?in [reply 5, deliver (int_bytes 0), reply 0] ?w2) (Answered i) (?in [reply 5, deliver (int_bytes 0), reply 0, reply 0] w3)" by simp
  obtain c' where "client_call junk Call_shutdown (client_with ?c [reply 5, deliver (int_bytes 0), reply 0, reply 0]) = Ok ((0, []), c')"
    using wait(5) by blast
  from during_return [OF this] obtain S' where 4: "?step (?in [reply 5, deliver (int_bytes 0), reply 0, reply 0] w3) (Returned i (0, [])) S'" by blast
  have "client_step fd pipename heap junk k T e T'" if "?step T e T'" "e = Answered i \<or> e = Returned i (0, [])" for T e T'
    using that by (auto simp: client_step_def)
  with 1 2 3 4 show ?thesis by (intro exI [of _ S'] steps_Cons [OF _ steps_Cons [OF _ steps_Cons [OF _ steps_one]]]) blast+
qed

text \<open>
  C13: Shutting down: a mounted client that calls \<open>tfs_shutdown_after_all_closed\<close> while the other clients rest gets
  its request to its worker; if no handle is open the worker answers 0 and ends the server's process with status 0,
  and the client then reads the answer, closes its pipes and returns 0; if one is open the server does not end.
\<close>
theorem shutdown_ends:
  assumes "serving fd server_pipe k ib rq S" and "i < k"
  shows "\<exists>S1. steps (system_step fd pipename heap junk) S [Call i Call_shutdown, Answered i, Main_turn] S1 \<and>
    (if \<forall>f. a_open (abs_fs (srv_fs (sys_server S))) f = None
     then \<exists>S2 S3. server_exits heap i S1 0 S2 \<and>
       steps (client_step fd pipename heap junk k) S2 [Answered i, Answered i, Answered i, Returned i (0, [])] S3
     else \<forall>r S2. \<not> server_exits heap i S1 r S2)"
proof -
  let ?s = "sys_server S"
  obtain v s where s: "steps (system_step fd pipename heap junk) S [Call i Call_shutdown, Answered i, Main_turn]
      (during i Call_shutdown [reply 5] (sys_os S) v s S)"
    "woken i (shutdown_bytes i @ drop 5 (sess_buffer (sessions ?s i))) s" "srv_fs s = srv_fs ?s"
    "shutdown_called s = shutdown_called ?s" "sess_tx (sessions s i) = sess_tx (sessions ?s i)"
    using shutdown_sent [OF assms(1,2), of pipename heap junk] by blast
  have w: "writes_to (sys_os S) Server_proc (sess_tx (sessions s i)) (ib i)" "pipe_data (sys_os S) (ib i) = []" "ready (srv_fs s)"
    using assms(1,2) s(3,5) by (auto simp: serving_def client_joined_def sessions_free_def)
  have "\<not> shutdown_called s" using s(4) assms(1) by (simp add: serving_def sessions_free_def)
  note exits = worker_shuts_down [OF s(2) this w(3,1,2), of heap]
  show ?thesis
  proof (cases "\<forall>f. a_open (abs_fs (srv_fs ?s)) f = None")
    case True
    let ?w = "(sys_os S)\<lparr>pipe_data := (pipe_data (sys_os S))(ib i := int_bytes 0)\<rparr>"
    have "server_gone (during i Call_shutdown [reply 5] (sys_os S) v s S \<lparr>sys_os := ?w\<rparr>) =
        during i Call_shutdown [reply 5] (os_exit Server_proc ?w) v s S"
      by (cases S) (simp add: server_gone_def during_def)
    then have "server_exits heap i (during i Call_shutdown [reply 5] (sys_os S) v s S) 0 (during i Call_shutdown [reply 5] (os_exit Server_proc ?w) v s S)"
      using exits True s(3) unfolding server_exits_def by (intro exI [of _ ?w]) simp
    with s(1) shutdown_answered [OF assms(1,2) refl, of pipename heap junk v s] True show ?thesis by auto
  next
    case False
    then have "\<not> server_exits heap i (during i Call_shutdown [reply 5] (sys_os S) v s S) r S2" for r S2
      using exits s(3) unfolding server_exits_def by simp
    with s(1) False show ?thesis unfolding if_not_P [OF False] by blast
  qed
qed

text \<open>The first client mounts and shuts the server down.\<close>

theorem shutdown_ends_witness:
  "\<exists>S S1 S2 S3. steps (system_step 3 [0x73] (\<lambda>_. 0) (\<lambda>_. 0)) demo_system (mount_events 0 [0x63] [0x73]) S \<and>
    steps (system_step 3 [0x73] (\<lambda>_. 0) (\<lambda>_. 0)) S [Call 0 Call_shutdown, Answered 0, Main_turn] S1 \<and>
    server_exits (\<lambda>_. 0) 0 S1 0 S2 \<and>
    steps (client_step 3 [0x73] (\<lambda>_. 0) (\<lambda>_. 0) 1) S2 [Answered 0, Answered 0, Answered 0, Returned 0 (0, [])] S3"
proof -
  obtain S where S: "steps (system_step 3 [0x73] (\<lambda>_. 0) (\<lambda>_. 0)) demo_system (mount_events 0 [0x63] [0x73]) S"
    "serving 3 [0x73] 1 ((\<lambda>_. 0)(0 := 1)) 0 S" "abs_fs (srv_fs (sys_server S)) = empty_fs" using demo_mounts by blast
  have closed: "\<forall>f. a_open (abs_fs (srv_fs (sys_server S))) f = None" by (simp add: S(3) empty_fs_def del: abs_sel)
  show ?thesis
    using shutdown_ends [where pipename = "[0x73]" and heap = "\<lambda>_. 0" and junk = "\<lambda>_. 0", OF S(2), of 0] S(1) closed
    unfolding if_P [OF closed] by auto
qed

end
