(* ===== verification/System_Boot.thy ===== *)
theory System_Boot
  imports System_Props
begin

text \<open>
  From the start of the server's \<open>main\<close> (\<open>parte-2/fs/tfs_server.c\<close>) to a system that serves clients. The server
  makes its pipe and opens it for reading, which waits until a client opens it for writing, in \<open>tfs_mount\<close>; then the
  sessions are started and the loop begins. So the system in which \<open>System_Props\<close> proves its properties is one the
  programs reach.
\<close>

section \<open>The start of main\<close>

text \<open>With locks that can be initialised, in a server whose calls got the answers \<open>as\<close>.\<close>

abbreviation starting :: "cstring \<Rightarrow> server \<Rightarrow> answer list \<Rightarrow> (int \<times> server) outcome" where
  "starting pipename s as \<equiv> server_start pipename (\<lambda>_. 0) (\<lambda>_. 0) (server_with s as)"

lemma sessions_init:
  "\<exists>s'. init_sessions (\<lambda>_. 0) n s = Ok s' \<and> next_session_id_lock s' = next_session_id_lock s \<and>
    shutting_down_lock s' = shutting_down_lock s \<and> next_session_id s' = next_session_id s \<and> shutting_down s' = shutting_down s \<and>
    shutdown_called s' = shutdown_called s \<and> srv_fs s' = srv_fs s \<and>
    (\<forall>i. length (sess_buffer (sessions s' i)) = length (sess_buffer (sessions s i)) \<and> (is_active (sessions s' i) \<longrightarrow> is_active (sessions s i))) \<and>
    (\<forall>i<n. session_lock (sessions s' i) = Unlocked)"
proof (induction n)
  case (Suc n)
  then show ?case by (auto simp: server_steps less_Suc_eq)
qed simp

text \<open>The calls the start waits in, and what it leaves behind.\<close>

lemma start_waits:
  assumes "unlinked u" and "d \<noteq> -1"
  shows "starting pipename server_static [] = Fault (Waiting (Sys_unlink pipename))"
    and "starting pipename server_static [u] = Fault (Waiting (Sys_mkfifo pipename 416))"
    and "starting pipename server_static [u, reply 0] = Fault (Waiting (Sys_open pipename O_RDONLY))"
    and "\<exists>s. starting pipename server_static [u, reply 0, reply d] = Ok (d, s) \<and> shutting_down_lock s = Locked \<and>
      sessions_free 0 (s\<lparr>shutting_down_lock := Unlocked\<rparr>) \<and> srv_fs s = booted fs_static"
proof -
  note eval = server_start_def tfs_init_eq srv_call_def syscall_def server_with_def reply_def
  show "starting pipename server_static [] = Fault (Waiting (Sys_unlink pipename))"
    by (simp add: eval server_static_def)
  show "starting pipename server_static [u] = Fault (Waiting (Sys_mkfifo pipename 416))"
    using assms(1) by (auto simp: eval server_static_def unlinked_def)
  show "starting pipename server_static [u, reply 0] = Fault (Waiting (Sys_open pipename O_RDONLY))"
    using assms(1) by (auto simp: eval server_static_def unlinked_def)
  have "\<exists>s. starting pipename server_static [u, reply 0, reply d] =
      and_then (start_sessions 0 0 (\<lambda>_. 0) s) (\<lambda>s. and_then (on_shutting_down lock_mutex s) (\<lambda>s. Ok (d, s))) \<and>
      sessions s = sessions server_static \<and> next_session_id s = 1 \<and> \<not> shutting_down s \<and> \<not> shutdown_called s \<and> srv_fs s = booted fs_static"
    using assms by (auto simp: eval server_static_def unlinked_def)
  then obtain s where s: "starting pipename server_static [u, reply 0, reply d] =
      and_then (start_sessions 0 0 (\<lambda>_. 0) s) (\<lambda>s. and_then (on_shutting_down lock_mutex s) (\<lambda>s. Ok (d, s)))"
      "sessions s = sessions server_static" "next_session_id s = 1" "\<not> shutting_down s" "\<not> shutdown_called s" "srv_fs s = booted fs_static"
    by blast
  obtain s' where s': "start_sessions 0 0 (\<lambda>_. 0) s = Ok s'" "next_session_id_lock s' = Unlocked" "shutting_down_lock s' = Unlocked"
      "next_session_id s' = 1" "\<not> shutting_down s'" "\<not> shutdown_called s'" "srv_fs s' = booted fs_static"
      "\<And>i. length (sess_buffer (sessions s' i)) = MAX_REQUEST_SIZE" "\<And>i. \<not> is_active (sessions s' i)"
      "\<And>i. i < MAX_CLIENTS \<Longrightarrow> session_lock (sessions s' i) = Unlocked"
    using sessions_init [of MAX_CLIENTS "s\<lparr>next_session_id_lock := Unlocked, shutting_down_lock := Unlocked\<rparr>"] s(2-6)
    by (auto simp: start_sessions_def with_lock_def init_mutex_def pthread_mutex_init_def server_static_def)
  have "sessions_free 0 (s'\<lparr>shutting_down_lock := Unlocked\<rparr>)"
    using s'(2-) ready_start(1) by (simp add: sessions_free_def idle_def)
  then show "\<exists>s. starting pipename server_static [u, reply 0, reply d] = Ok (d, s) \<and> shutting_down_lock s = Locked \<and>
      sessions_free 0 (s\<lparr>shutting_down_lock := Unlocked\<rparr>) \<and> srv_fs s = booted fs_static"
    using s(1) s'(1,3,7) by (intro exI [of _ "s'\<lparr>shutting_down_lock := Locked\<rparr>"]) (simp add: with_lock_def lock_mutex_def)
qed

section \<open>Server and client find each other\<close>

text \<open>
  Two opens of one pipe that wait for each other return together: one opens it for reading, the other for
  writing. (\<open>fifo(7)\<close>: opening blocks until the other end is opened also.)
\<close>

definition os_meet :: "proc \<Rightarrow> cstring \<Rightarrow> int \<Rightarrow> proc \<Rightarrow> cstring \<Rightarrow> int \<Rightarrow> os \<Rightarrow> (answer \<times> answer \<times> os) option" where
  "os_meet p1 name1 flags1 p2 name2 flags2 w =
     (case (pipe_names w name1, pipe_names w name2, lowest_descriptor p1 w, lowest_descriptor p2 w) of
       (Some q1, Some q2, Some d1, Some d2) \<Rightarrow>
         let e1 = open_end q1 flags1; e2 = open_end q2 flags2 in
         if p1 \<noteq> p2 \<and> q1 = q2 \<and> (e_reads e1 \<or> e_reads e2) \<and> (e_writes e1 \<or> e_writes e2)
         then Some (reply (int d1), reply (int d2), opened p2 (int d2) e2 (opened p1 (int d1) e1 w)) else None
     | _ \<Rightarrow> None)"

text \<open>
  The steps while the server starts: the server's next system call, a step of a client, or server and client opening
  the same pipe. The state has the answers the server got so far.
\<close>

datatype boot_event = Server_call | Client_step event | Meet nat

fun of_client :: "event \<Rightarrow> bool" where
  "of_client Main_turn = False"
| "of_client (Worker_turn i) = False"
| "of_client e = True"

inductive boot_step :: "cstring \<Rightarrow> (nat \<Rightarrow> byte) \<Rightarrow> answer list \<times> system \<Rightarrow> boot_event \<Rightarrow> answer list \<times> system \<Rightarrow> bool"
  for pipename junk where
  server_call: "starting pipename (sys_server S) as = Fault (Waiting c) \<Longrightarrow> os_call Server_proc c (sys_os S) = Some (a, w) \<Longrightarrow>
    boot_step pipename junk (as, S) Server_call (as @ [a], S\<lparr>sys_os := w\<rparr>)"
| client_step: "of_client e \<Longrightarrow> system_step fd pipename heap junk S e S' \<Longrightarrow>
    boot_step pipename junk (as, S) (Client_step e) (as, S')"
| meet: "starting pipename (sys_server S) as = Fault (Waiting (Sys_open name1 flags1)) \<Longrightarrow> sys_calls S i = Some (x, bs) \<Longrightarrow>
    client_call junk x (client_with (sys_clients S i) bs) = Fault (Waiting (Sys_open name2 flags2)) \<Longrightarrow>
    os_meet Server_proc name1 flags1 (Client_proc i) name2 flags2 (sys_os S) = Some (a, b, w) \<Longrightarrow>
    boot_step pipename junk (as, S) (Meet i) (as @ [a], S\<lparr>sys_os := w, sys_calls := (sys_calls S)(i \<mapsto> (x, bs @ [b]))\<rparr>)"

lemma during_meet:
  "starting pipename s as = Fault (Waiting (Sys_open name1 flags1)) \<Longrightarrow>
    client_call junk x (client_with (sys_clients S i) bs) = Fault (Waiting (Sys_open name2 flags2)) \<Longrightarrow>
    os_meet Server_proc name1 flags1 (Client_proc i) name2 flags2 w = Some (a, b, w') \<Longrightarrow>
    boot_step pipename junk (as, during i x bs w v s S) (Meet i) (as @ [a], during i x (bs @ [b]) w' v s S)"
  using boot_step.meet [where S = "during i x bs w v s S" and i = i and x = x and bs = bs] by simp

text \<open>The start is over: the loop begins, with the lock it releases first.\<close>

definition started :: "cstring \<Rightarrow> answer list \<times> system \<Rightarrow> int \<Rightarrow> system \<Rightarrow> bool" where
  "started pipename = (\<lambda>(as, S) fd S'. \<exists>s. starting pipename (sys_server S) as = Ok (fd, s) \<and> shutting_down_lock s = Locked \<and>
     S' = S\<lparr>sys_server := s\<lparr>shutting_down_lock := Unlocked\<rparr>\<rparr>)"

text \<open>The machine before: no descriptor is open, pipes of earlier runs may be left over.\<close>

definition fresh_os :: "os \<Rightarrow> bool" where
  "fresh_os w \<longleftrightarrow> (\<forall>p. descriptors w p = (\<lambda>_. None)) \<and> (\<forall>name q. pipe_names w name = Some q \<longrightarrow> q < next_pipe w) \<and>
     (\<forall>q. readers w q = 0 \<and> writers w q = 0)"

definition start_system :: "os \<Rightarrow> main_vars \<Rightarrow> system" where
  "start_system w v = \<lparr>sys_os = w, sys_vars = v, sys_server = server_static,
     sys_clients = (\<lambda>_. \<lparr>rx = 0, tx = 0, session_id = 0, c_sys = \<lparr>answers = [], errno = 0, trace = []\<rparr>\<rparr>), sys_calls = (\<lambda>_. None)\<rparr>"

text \<open>
  The first client: it calls \<open>tfs_mount\<close> once the server has made its pipe, and waits in opening it. What happens is
  what would have happened if the server's open had returned before.
\<close>

abbreviation boot_events :: "call \<Rightarrow> boot_event list" where
  "boot_events x \<equiv> [Server_call, Server_call, Client_step (Call 0 x), Client_step (Answered 0), Client_step (Answered 0),
     Client_step (Answered 0), Meet 0]"

abbreviation pipe_opened :: "cstring \<Rightarrow> os \<Rightarrow> os" where
  "pipe_opened pipename w \<equiv> opened Server_proc 3 (open_end (next_pipe w) O_RDONLY) (pipe_made pipename w)"

lemma meets_connected:
  fixes server_pipe client_pipe :: cstring and w :: os
  defines "w2 \<equiv> pipe_made server_pipe w" and "q \<equiv> Suc (next_pipe w)"
  shows "opened (Client_proc 0) 4 (open_end (next_pipe w) O_WRONLY) (opened Server_proc 3 (open_end (next_pipe w) O_RDONLY)
      (opened (Client_proc 0) 3 (open_end q O_RDWR) (pipe_made client_pipe w2))) =
    connected 0 (next_pipe w) client_pipe (pipe_opened server_pipe w)"
  by (simp add: connected_def opened_def pipe_made_def count_end_def put_descriptor_def open_end_def w2_def q_def
      O_RDONLY_def O_WRONLY_def O_RDWR_def fun_eq_iff)

lemma boots:
  fixes v :: main_vars
  assumes "fresh_os w" and "client_pipe \<noteq> server_pipe" and "length client_pipe < BUFFER_SIZE"
  defines "x \<equiv> Call_mount client_pipe server_pipe" and "S \<equiv> (start_system w v)\<lparr>sys_os := pipe_opened server_pipe w\<rparr>"
  shows "\<exists>u u' . unlinked u \<and> unlinked u' \<and> steps (boot_step server_pipe junk) ([], start_system w v) (boot_events x)
    ([u', reply 0, reply 3], during 0 x [u, reply 0, reply 3, reply 4] (connected 0 (next_pipe w) client_pipe (sys_os S)) v server_static S)"
proof -
  let ?p = "Client_proc 0" and ?in = "\<lambda>as w. during 0 x as w v server_static (start_system w v)"
  let ?w2 = "pipe_made server_pipe w"
  let ?w3 = "?w2\<lparr>pipe_names := (pipe_names ?w2)(client_pipe := None)\<rparr>" and ?w4 = "pipe_made client_pipe ?w2"
  let ?w5 = "opened ?p 3 (open_end (next_pipe ?w2) O_RDWR) ?w4"
  let ?start = "start_system w v" and ?step = "boot_step server_pipe junk"
  let ?in = "\<lambda>as w. during 0 x as w v server_static ?start"
  have d: "(3 :: int) \<noteq> -1" "(4 :: int) \<noteq> -1" by simp_all
  have [simp]: "[3..<OPEN_MAX] = 3 # 4 # [5..<OPEN_MAX]" by (simp add: OPEN_MAX_def upt_conv_Cons)
  obtain u' where u': "os_call Server_proc (Sys_unlink server_pipe) w = Some (u', w\<lparr>pipe_names := (pipe_names w)(server_pipe := None)\<rparr>)"
    "unlinked u'" using os_unlinks by blast
  obtain u where u: "os_call ?p (Sys_unlink client_pipe) ?w2 = Some (u, ?w3)" "unlinked u" using os_unlinks by blast
  note start = start_waits [OF u'(2) d(1), of server_pipe]
  have c: "sys_clients ?start 0 = \<lparr>rx = 0, tx = 0, session_id = 0, c_sys = \<lparr>answers = [], errno = 0, trace = []\<rparr>\<rparr>"
    by (simp add: start_system_def)
  have e: "errno (c_sys (sys_clients ?start 0)) \<noteq> EPIPE" by (simp add: c EPIPE_def)
  note wait = mount_waits(1-4) [OF assms(3) u(2) e d, of junk server_pipe]
  have none: "descriptors w p = (\<lambda>_. None)" for p using assms(1) by (simp add: fresh_os_def)
  have "lowest_descriptor ?p ?w4 = Some 3" by (simp add: lowest_descriptor_def pipe_made_def none)
  from os_opens [OF _ _ this, of client_pipe "next_pipe ?w2" O_RDWR]
  have o3: "os_call ?p (Sys_open client_pipe O_RDWR) ?w4 = Some (reply 3, ?w5)" by (simp add: pipe_made_def O_RDWR_def)
  have "pipe_names ?w5 server_pipe = Some (next_pipe w)" "lowest_descriptor Server_proc ?w5 = Some 3" "lowest_descriptor ?p ?w5 = Some 4"
    using assms(2) by (simp_all add: lowest_descriptor_def pipe_made_def opened_def count_end_def put_descriptor_def none)
  then have m: "os_meet Server_proc server_pipe O_RDONLY ?p server_pipe O_WRONLY ?w5 =
      Some (reply 3, reply 4, connected 0 (next_pipe w) client_pipe (pipe_opened server_pipe w))"
    using meets_connected [of w client_pipe server_pipe]
    by (simp add: os_meet_def open_end_def O_RDONLY_def O_WRONLY_def pipe_made_def)
  have srv: "sys_server (?start\<lparr>sys_os := w'\<rparr>) = server_static" "sys_server ?start = server_static" "sys_os ?start = w" "sys_vars ?start = v"
    "sys_calls ?start = (\<lambda>_. None)" for w' by (simp_all add: start_system_def)
  have "?step ([], ?start) Server_call ([u'], ?start\<lparr>sys_os := w\<lparr>pipe_names := (pipe_names w)(server_pipe := None)\<rparr>\<rparr>)"
    using boot_step.server_call [of server_pipe ?start "[]" _ u' _ junk] start(1) u'(1) srv by simp
  moreover have "?step ([u'], ?start\<lparr>sys_os := w\<lparr>pipe_names := (pipe_names w)(server_pipe := None)\<rparr>\<rparr>) Server_call
      ([u', reply 0], ?start\<lparr>sys_os := ?w2\<rparr>)"
    using boot_step.server_call [of server_pipe "?start\<lparr>sys_os := w\<lparr>pipe_names := (pipe_names w)(server_pipe := None)\<rparr>\<rparr>" "[u']" _ "reply 0" ?w2 junk]
      start(2) os_makes [of Server_proc server_pipe 416 w] srv by simp
  moreover have "?step ([u', reply 0], ?start\<lparr>sys_os := ?w2\<rparr>) (Client_step (Call 0 x)) ([u', reply 0], ?in [] ?w2)"
    using boot_step.client_step [OF _ system_step.call [of "?start\<lparr>sys_os := ?w2\<rparr>" 0 0 server_pipe "\<lambda>_. 0" junk x], of "[u', reply 0]"]
    by (simp add: during_def start_system_def)
  moreover have answered: "?step ([u', reply 0], ?in as w1) (Client_step (Answered 0)) ([u', reply 0], ?in (as @ [a]) w1')"
    if "client_call junk x (client_with (sys_clients ?start 0) as) = Fault (Waiting call)" "os_call ?p call w1 = Some (a, w1')" for as w1 call a w1'
    using boot_step.client_step [OF _ during_answered [where fd = 0 and pipename = server_pipe and heap = "\<lambda>_. 0" and S = ?start, OF that]] by simp
  have "?step ([u', reply 0], ?in [] ?w2) (Client_step (Answered 0)) ([u', reply 0], ?in [u] ?w3)"
    using answered [of "[]"] wait(1) u(1) by (simp add: x_def)
  moreover have "?step ([u', reply 0], ?in [u] ?w3) (Client_step (Answered 0)) ([u', reply 0], ?in [u, reply 0] ?w4)"
    using answered [of "[u]"] wait(2) os_makes [of ?p client_pipe 416 ?w2] by (simp add: x_def)
  moreover have "?step ([u', reply 0], ?in [u, reply 0] ?w4) (Client_step (Answered 0)) ([u', reply 0], ?in [u, reply 0, reply 3] ?w5)"
    using answered [of "[u, reply 0]"] wait(3) o3 by (simp add: x_def)
  moreover have "?step ([u', reply 0], ?in [u, reply 0, reply 3] ?w5) (Meet 0)
      ([u', reply 0, reply 3], ?in [u, reply 0, reply 3, reply 4] (connected 0 (next_pipe w) client_pipe (pipe_opened server_pipe w)))"
    using during_meet [where as = "[u', reply 0]" and bs = "[u, reply 0, reply 3]", OF start(3) _ m] wait(4) by (simp add: x_def)
  ultimately have "steps ?step ([], ?start) (boot_events x)
      ([u', reply 0, reply 3], ?in [u, reply 0, reply 3, reply 4] (connected 0 (next_pipe w) client_pipe (pipe_opened server_pipe w)))"
    by - ((rule steps_Cons, assumption)+, rule steps.none)
  moreover have "sys_os S = pipe_opened server_pipe w" "during 0 x as w' v server_static S = ?in as w'" for as w'
    by (simp_all add: S_def during_def)
  ultimately show ?thesis using u(2) u'(2) by auto
qed

section \<open>Up to a serving system\<close>

text \<open>The state the start leaves behind, had no client come yet.\<close>

lemma booted_serving:
  assumes "fresh_os w" and "sessions_free 0 s"
  shows "serving 3 server_pipe 0 ib (next_pipe w) ((start_system w v)\<lparr>sys_os := pipe_opened server_pipe w, sys_server := s\<rparr>)"
proof -
  have "descriptors w p = (\<lambda>_. None)" for p using assms(1) by (simp add: fresh_os_def)
  then show ?thesis using assms(2)
    by (auto simp: serving_def start_system_def opened_def pipe_made_def count_end_def put_descriptor_def open_end_def
        O_RDONLY_def O_WRONLY_def EPIPE_def config)
qed

text \<open>The first client's mount, from the start of \<open>main\<close> to its end.\<close>

lemma first_mount:
  assumes "fresh_os w" and "client_pipe \<noteq> server_pipe" and "0 \<notin> set client_pipe" and "length client_pipe < BUFFER_SIZE"
  shows "\<exists>B S1 S ib. steps (boot_step server_pipe junk) ([], start_system w v) (boot_events (Call_mount client_pipe server_pipe)) B \<and>
    started server_pipe B 3 S1 \<and>
    steps (system_step 3 server_pipe heap junk) S1 [Answered 0, Main_turn, Worker_turn 0, Answered 0, Returned 0 (0, [])] S \<and>
    serving 3 server_pipe 1 ib (next_pipe w) S \<and> srv_fs (sys_server S) = booted fs_static"
proof -
  let ?x = "Call_mount client_pipe server_pipe" and ?S = "(start_system w v)\<lparr>sys_os := pipe_opened server_pipe w\<rparr>"
  let ?w = "connected 0 (next_pipe w) client_pipe (pipe_opened server_pipe w)"
  obtain u u' where u: "unlinked u" "unlinked u'" and boot: "steps (boot_step server_pipe junk) ([], start_system w v) (boot_events ?x)
      ([u', reply 0, reply 3], during 0 ?x [u, reply 0, reply 3, reply 4] ?w v server_static ?S)"
    using boots [OF assms(1,2,4), of junk v] by auto
  obtain s where s: "starting server_pipe server_static [u', reply 0, reply 3] = Ok (3, s)" "shutting_down_lock s = Locked"
      "sessions_free 0 (s\<lparr>shutting_down_lock := Unlocked\<rparr>)" "srv_fs s = booted fs_static"
    using start_waits(4) [OF u(2), of 3 server_pipe] by auto
  let ?s = "s\<lparr>shutting_down_lock := Unlocked\<rparr>"
  let ?S1 = "during 0 ?x [u, reply 0, reply 3, reply 4] ?w v ?s (?S\<lparr>sys_server := ?s\<rparr>)"
  have "started server_pipe ([u', reply 0, reply 3], during 0 ?x [u, reply 0, reply 3, reply 4] ?w v server_static ?S) 3 ?S1"
    using s(1,2) by (auto simp: started_def during_def start_system_def)
  moreover have "\<exists>S ib. steps (system_step 3 server_pipe heap junk) ?S1 [Answered 0, Main_turn, Worker_turn 0, Answered 0, Returned 0 (0, [])] S \<and>
      serving 3 server_pipe 1 ib (next_pipe w) S \<and> srv_fs (sys_server S) = booted fs_static"
    using mount_completes [where pipename = server_pipe and heap = heap and junk = junk, OF booted_serving [OF assms(1) s(3)] _ u(1) assms(2-4), of v "\<lambda>_. 0"] s(4)
    by (simp add: start_system_def) blast
  ultimately show ?thesis using boot by blast
qed

text \<open>Further clients, one after the other.\<close>

fun mounts :: "nat \<Rightarrow> cstring \<Rightarrow> cstring list \<Rightarrow> event list" where
  "mounts k server_pipe [] = []"
| "mounts k server_pipe (name # names) = mount_events k name server_pipe @ mounts (Suc k) server_pipe names"

definition name_ok :: "cstring \<Rightarrow> cstring \<Rightarrow> bool" where
  "name_ok server_pipe name \<longleftrightarrow> name \<noteq> server_pipe \<and> 0 \<notin> set name \<and> length name < BUFFER_SIZE"

lemma mounts_run:
  assumes "serving fd server_pipe k ib rq S" and "k + length names \<le> 63" and "\<forall>name \<in> set names. name_ok server_pipe name"
  shows "\<exists>S' ib'. steps (system_step fd pipename heap junk) S (mounts k server_pipe names) S' \<and>
    serving fd server_pipe (k + length names) ib' rq S' \<and> srv_fs (sys_server S') = srv_fs (sys_server S)"
  using assms
proof (induction names arbitrary: k ib S)
  case (Cons name names)
  let ?step = "system_step fd pipename heap junk"
  have name: "k < 63" "name \<noteq> server_pipe" "0 \<notin> set name" "length name < BUFFER_SIZE" using Cons.prems(2,3) by (auto simp: name_ok_def)
  obtain S1 where S1: "steps ?step S (mount_events k name server_pipe) S1"
    "serving fd server_pipe (Suc k) (ib(k := next_pipe (sys_os S))) rq S1" "srv_fs (sys_server S1) = srv_fs (sys_server S)"
    using mount_runs [OF Cons.prems(1) name] by blast
  obtain S' ib' where S': "steps ?step S1 (mounts (Suc k) server_pipe names) S'"
    "serving fd server_pipe (Suc k + length names) ib' rq S'" "srv_fs (sys_server S') = srv_fs (sys_server S1)"
    using Cons.IH [OF S1(2)] Cons.prems(2,3) by auto
  have "steps ?step S (mounts k server_pipe (name # names)) S'"
    using steps_append [OF S'(1) S1(1)] unfolding mounts.simps .
  with S'(2,3) S1(3) show ?case by (intro exI [of _ S'] exI [of _ ib']) simp
qed (auto intro: steps.none)

text \<open>Without a client the start of the server does not end: it waits in opening its pipe.\<close>

lemma start_alone:
  assumes "fresh_os w"
  shows "\<not> os_run Server_proc (starting server_pipe server_static) [] w r w'"
proof -
  let ?f = "starting server_pipe server_static"
  obtain u where u: "os_call Server_proc (Sys_unlink server_pipe) w = Some (u, w\<lparr>pipe_names := (pipe_names w)(server_pipe := None)\<rparr>)"
    "unlinked u" using os_unlinks by blast
  have "(3 :: int) \<noteq> -1" by simp
  note start = start_waits(1-3) [OF u(2) this, of server_pipe]
  have "os_call Server_proc (Sys_open server_pipe O_RDONLY) (pipe_made server_pipe w) = None"
    using assms by (simp add: fresh_os_def pipe_made_def open_end_def O_RDONLY_def O_WRONLY_def)
  then have "\<not> os_run Server_proc ?f [u, reply 0] (pipe_made server_pipe w) r w'"
    by (rule os_run_stuck [where f = ?f, OF start(3)])
  then show ?thesis
    using os_run_Waiting [where f = ?f, OF start(1) u(1)] os_run_Waiting [where f = ?f and as = "[u]", OF start(2) os_makes] by simp
qed

text \<open>
  C12: From the start of the server's \<open>main\<close>, on a machine where no descriptor is open and pipes of earlier runs may be
  left over: the start waits until a client opens the server's pipe; then it ends, with descriptor 3, and up to 63 clients
  can mount, with any allowed names of their pipes. The system they reach is one from which \<open>system_linearises\<close> and the
  other properties start, with an empty file system.
\<close>
theorem server_boots:
  assumes "fresh_os w" and "length (name # names) \<le> 63" and "\<forall>n \<in> set (name # names). name_ok server_pipe n"
  shows "(\<nexists>r w'. os_run Server_proc (starting server_pipe server_static) [] w r w') \<and>
    (\<exists>B S1 S ib. steps (boot_step server_pipe junk) ([], start_system w v) (boot_events (Call_mount name server_pipe)) B \<and>
      started server_pipe B 3 S1 \<and>
      steps (system_step 3 server_pipe heap junk) S1
        ([Answered 0, Main_turn, Worker_turn 0, Answered 0, Returned 0 (0, [])] @ mounts 1 server_pipe names) S \<and>
      at_start 3 (length (name # names)) ib (next_pipe w) S \<and> abs_fs (srv_fs (sys_server S)) = empty_fs)"
proof -
  have name: "name \<noteq> server_pipe" "0 \<notin> set name" "length name < BUFFER_SIZE" using assms(3) by (auto simp: name_ok_def)
  obtain B S1 S ib where B: "steps (boot_step server_pipe junk) ([], start_system w v) (boot_events (Call_mount name server_pipe)) B"
    "started server_pipe B 3 S1"
    "steps (system_step 3 server_pipe heap junk) S1 [Answered 0, Main_turn, Worker_turn 0, Answered 0, Returned 0 (0, [])] S"
    "serving 3 server_pipe 1 ib (next_pipe w) S" "srv_fs (sys_server S) = booted fs_static"
    using first_mount [OF assms(1) name] by blast
  obtain S' ib' where S': "steps (system_step 3 server_pipe heap junk) S (mounts 1 server_pipe names) S'"
    "serving 3 server_pipe (1 + length names) ib' (next_pipe w) S'" "srv_fs (sys_server S') = srv_fs (sys_server S)"
    using mounts_run [OF B(4), of names server_pipe heap junk] assms(2,3) by fastforce
  have "at_start 3 (length (name # names)) ib' (next_pipe w) S'" using serving_at_start [OF S'(2)] by simp
  moreover have "abs_fs (srv_fs (sys_server S')) = empty_fs" using S'(3) B(5) ready_start(2) by simp
  ultimately show ?thesis using start_alone [OF assms(1)] B(1,2) steps_append [OF S'(1) B(3)] by blast
qed

text \<open>Two clients, with a pipe of the server's name left over from an earlier run.\<close>

definition demo_os :: os where
  "demo_os = \<lparr>pipe_names = [[0x73] \<mapsto> 5], pipe_data = (\<lambda>_. []), next_pipe = 6, descriptors = (\<lambda>_ _. None), readers = (\<lambda>_. 0), writers = (\<lambda>_. 0)\<rparr>"

theorem server_boots_witness:
  "\<exists>B S1 S ib. steps (boot_step [0x73] (\<lambda>_. 0)) ([], start_system demo_os demo_vars) (boot_events (Call_mount [0x63] [0x73])) B \<and>
    started [0x73] B 3 S1 \<and> steps (system_step 3 [0x73] (\<lambda>_. 0) (\<lambda>_. 0)) S1
      ([Answered 0, Main_turn, Worker_turn 0, Answered 0, Returned 0 (0, [])] @ mounts 1 [0x73] [[0x64]]) S \<and>
    at_start 3 2 ib 6 S"
proof -
  have os: "fresh_os demo_os" "next_pipe demo_os = 6" by (simp_all add: fresh_os_def demo_os_def)
  have "\<forall>n \<in> set [[0x63], [0x64]]. name_ok [0x73] n" by (simp add: name_ok_def config)
  from server_boots [OF os(1) _ this, of "\<lambda>_. 0" demo_vars "\<lambda>_. 0"] show ?thesis unfolding os(2) by (simp add: numeral_2_eq_2) blast
qed

end
