(* ===== verification/Rwlock.thy ===== *)
theory Rwlock
  imports Sync
begin

text \<open>
  Read-write locks as one thread of control sees them, for the first delivery (\<open>parte-1\<close>). A
  thread that asks for a lock it already holds for writing (or asks to write where it reads) can
  never get it: POSIX lets the call block for ever or report EDEADLK, on which the wrappers end
  the process, so no call returns; this is the fault \<open>Deadlock\<close>.
\<close>

datatype rwlock = RW_Uninit | RW_Free | RW_Readers nat | RW_Writer

definition pthread_rwlock_init :: "int \<Rightarrow> rwlock \<Rightarrow> (int \<times> rwlock) outcome" where
  "pthread_rwlock_init rc l = Ok (rc, if rc = 0 then RW_Free else l)"

fun pthread_rwlock_rdlock :: "rwlock \<Rightarrow> (int \<times> rwlock) outcome" where
  "pthread_rwlock_rdlock RW_Free = Ok (0, RW_Readers 1)"
| "pthread_rwlock_rdlock (RW_Readers n) = Ok (0, RW_Readers (Suc n))"
| "pthread_rwlock_rdlock RW_Writer = Fault Deadlock"
| "pthread_rwlock_rdlock RW_Uninit = Fault Undefined"

fun pthread_rwlock_wrlock :: "rwlock \<Rightarrow> (int \<times> rwlock) outcome" where
  "pthread_rwlock_wrlock RW_Free = Ok (0, RW_Writer)"
| "pthread_rwlock_wrlock (RW_Readers n) = Fault Deadlock"
| "pthread_rwlock_wrlock RW_Writer = Fault Deadlock"
| "pthread_rwlock_wrlock RW_Uninit = Fault Undefined"

fun pthread_rwlock_unlock :: "rwlock \<Rightarrow> (int \<times> rwlock) outcome" where
  "pthread_rwlock_unlock (RW_Readers n) = Ok (0, if n \<le> 1 then RW_Free else RW_Readers (n - 1))"
| "pthread_rwlock_unlock RW_Writer = Ok (0, RW_Free)"
| "pthread_rwlock_unlock RW_Free = Fault Undefined"
| "pthread_rwlock_unlock RW_Uninit = Fault Undefined"

fun pthread_rwlock_destroy :: "rwlock \<Rightarrow> (int \<times> rwlock) outcome" where
  "pthread_rwlock_destroy RW_Free = Ok (0, RW_Uninit)"
| "pthread_rwlock_destroy (RW_Readers n) = Fault Undefined"
| "pthread_rwlock_destroy RW_Writer = Fault Undefined"
| "pthread_rwlock_destroy RW_Uninit = Fault Undefined"

fun_cases rdlock_OkE: "pthread_rwlock_rdlock l = Ok r"
fun_cases wrlock_OkE: "pthread_rwlock_wrlock l = Ok r"
fun_cases unlock_OkE: "pthread_rwlock_unlock l = Ok r"

text \<open>Every call that returns reports success, so only a fault ends the process in the wrappers.\<close>

lemma rwlock_codes:
  "pthread_rwlock_rdlock l = Ok (rc, l') \<Longrightarrow> rc = 0"
  "pthread_rwlock_wrlock l = Ok (rc, l') \<Longrightarrow> rc = 0 \<and> l = RW_Free \<and> l' = RW_Writer"
  "pthread_rwlock_unlock l = Ok (rc, l') \<Longrightarrow> rc = 0"
  by (auto elim: rdlock_OkE wrlock_OkE unlock_OkE)

text \<open>Locking and unlocking again restores the lock.\<close>

lemma unlock_after_wrlock:
  "pthread_rwlock_wrlock l = Ok (rc, l') \<Longrightarrow> pthread_rwlock_unlock l' = Ok (0, l)"
  by (auto dest: rwlock_codes)

lemma unlock_after_rdlock:
  "l \<noteq> RW_Readers 0 \<Longrightarrow> pthread_rwlock_rdlock l = Ok (rc, l') \<Longrightarrow> pthread_rwlock_unlock l' = Ok (0, l)"
  by (cases l) auto

end
