(* ===== verification/FS1_State.thy ===== *)
theory FS1_State
  imports Rwlock FS_Dir
begin

text \<open>
  The state layer of the first delivery, \<open>parte-1/fs/state.c\<close>: files of up to ten direct blocks and
  an index block, a read-write lock for every i-node, block, handle and directory entry, and two
  mutexes. Names that both deliveries use carry the suffix 1 here. The constants, the bounds checks,
  \<open>data_block_get\<close>, the mutex wrappers and the layout of a directory entry are textually the same in
  both deliveries and are shared. The busy-wait \<open>insert_delay\<close> has no effect on the state.
\<close>

section \<open>State\<close>

definition MAX_DIRECT_BLOCKS :: nat where [config]: "MAX_DIRECT_BLOCKS = 10"

record inode1 =
  i_node_type1 :: inode_type
  i_size1 :: size_t
  i_data_block1 :: "nat \<Rightarrow> int"
  i_indirect_data_block :: int

text \<open>A pointer to one of the read-write locks: the array it points into, and the index.\<close>

datatype lock_ptr = Inode_lock int | Block_lock int | File_lock int | Dir_lock int

record fs_state1 =
  inode_table1 :: "nat \<Rightarrow> inode1"
  freeinode_ts1 :: "nat \<Rightarrow> allocation_state"
  fs_data1 :: memory
  free_blocks1 :: "nat \<Rightarrow> allocation_state"
  open_file_table1 :: "nat \<Rightarrow> open_file_entry"
  free_open_file_entries1 :: "nat \<Rightarrow> allocation_state"
  rwlocks :: "lock_ptr \<Rightarrow> rwlock"
  open_files_count1 :: int
  open_files_mutex1 :: mutex
  open_file_lock :: mutex

definition fs1_static :: fs_state1 where
  "fs1_static =
     \<lparr>inode_table1 = (\<lambda>_. \<lparr>i_node_type1 = T_FILE, i_size1 = 0, i_data_block1 = (\<lambda>_. 0), i_indirect_data_block = 0\<rparr>),
      freeinode_ts1 = (\<lambda>_. FREE),
      fs_data1 = (\<lambda>_. 0),
      free_blocks1 = (\<lambda>_. FREE),
      open_file_table1 = (\<lambda>_. \<lparr>of_inumber = 0, of_offset = 0\<rparr>),
      free_open_file_entries1 = (\<lambda>_. FREE),
      rwlocks = (\<lambda>_. RW_Uninit),
      open_files_count1 = 0,
      open_files_mutex1 = Uninit,
      open_file_lock = Uninit\<rparr>"

definition put_inode1 :: "nat \<Rightarrow> (inode1 \<Rightarrow> inode1) \<Rightarrow> fs_state1 \<Rightarrow> fs_state1" where
  "put_inode1 i f s = s\<lparr>inode_table1 := (inode_table1 s)(i := f (inode_table1 s i))\<rparr>"

definition put_file1 :: "nat \<Rightarrow> (open_file_entry \<Rightarrow> open_file_entry) \<Rightarrow> fs_state1 \<Rightarrow> fs_state1" where
  "put_file1 i f s = s\<lparr>open_file_table1 := (open_file_table1 s)(i := f (open_file_table1 s i))\<rparr>"

definition put_freeinode1 :: "nat \<Rightarrow> allocation_state \<Rightarrow> fs_state1 \<Rightarrow> fs_state1" where
  "put_freeinode1 i a s = s\<lparr>freeinode_ts1 := (freeinode_ts1 s)(i := a)\<rparr>"

definition put_block1 :: "nat \<Rightarrow> allocation_state \<Rightarrow> fs_state1 \<Rightarrow> fs_state1" where
  "put_block1 i a s = s\<lparr>free_blocks1 := (free_blocks1 s)(i := a)\<rparr>"

definition put_open1 :: "nat \<Rightarrow> allocation_state \<Rightarrow> fs_state1 \<Rightarrow> fs_state1" where
  "put_open1 i a s = s\<lparr>free_open_file_entries1 := (free_open_file_entries1 s)(i := a)\<rparr>"

lemmas put_defs1 = put_inode1_def put_file1_def put_freeinode1_def put_block1_def put_open1_def

section \<open>The read-write locks\<close>

text \<open>Taking the address of a lock is harmless; using one outside its array is undefined.\<close>

definition get_inode_table_lock :: "int \<Rightarrow> lock_ptr" where
  "get_inode_table_lock inumber = Inode_lock inumber"

definition get_open_file_table_lock :: "int \<Rightarrow> lock_ptr" where
  "get_open_file_table_lock file_handle = File_lock file_handle"

fun in_table :: "lock_ptr \<Rightarrow> bool" where
  "in_table (Inode_lock i) = valid_inumber i"
| "in_table (Block_lock b) = valid_block_number b"
| "in_table (File_lock f) = valid_file_handle f"
| "in_table (Dir_lock e) = (0 \<le> e \<and> e < int MAX_DIR_ENTRIES)"

text \<open>A wrapper applies a pthread call to the lock and ends the process if it reports an error.\<close>

definition on_rwlock :: "(rwlock \<Rightarrow> (int \<times> rwlock) outcome) \<Rightarrow> lock_ptr \<Rightarrow> fs_state1 \<Rightarrow> fs_state1 outcome" where
  "on_rwlock call l s =
     (if \<not> in_table l then Fault Undefined
      else and_then (call (rwlocks s l)) (\<lambda>(rc, v).
        if rc \<noteq> 0 then Fault (Exit EXIT_FAILURE) else Ok (s\<lparr>rwlocks := (rwlocks s)(l := v)\<rparr>)))"

definition read_lock_rwlock :: "lock_ptr \<Rightarrow> fs_state1 \<Rightarrow> fs_state1 outcome" where
  "read_lock_rwlock = on_rwlock pthread_rwlock_rdlock"

definition write_lock_rwlock :: "lock_ptr \<Rightarrow> fs_state1 \<Rightarrow> fs_state1 outcome" where
  "write_lock_rwlock = on_rwlock pthread_rwlock_wrlock"

definition unlock_rwlock :: "lock_ptr \<Rightarrow> fs_state1 \<Rightarrow> fs_state1 outcome" where
  "unlock_rwlock = on_rwlock pthread_rwlock_unlock"

definition init_rwlock :: "int \<Rightarrow> lock_ptr \<Rightarrow> fs_state1 \<Rightarrow> fs_state1 outcome" where
  "init_rwlock rc = on_rwlock (pthread_rwlock_init rc)"

definition destroy_rwlock :: "lock_ptr \<Rightarrow> fs_state1 \<Rightarrow> fs_state1 outcome" where
  "destroy_rwlock = on_rwlock pthread_rwlock_destroy"

text \<open>The loops over the lock arrays, in the order of the code.\<close>

fun each_lock :: "(lock_ptr \<Rightarrow> fs_state1 \<Rightarrow> fs_state1 outcome) \<Rightarrow> lock_ptr list \<Rightarrow> fs_state1 \<Rightarrow> fs_state1 outcome" where
  "each_lock call [] s = Ok s"
| "each_lock call (l # ls) s = and_then (call l s) (each_lock call ls)"

definition all_locks :: "lock_ptr list" where
  "all_locks = map (\<lambda>i. Inode_lock (int i)) [0..<INODE_TABLE_SIZE] @ map (\<lambda>i. Block_lock (int i)) [0..<DATA_BLOCKS] @
     map (\<lambda>i. File_lock (int i)) [0..<MAX_OPEN_FILES] @ map (\<lambda>i. Dir_lock (int i)) [0..<MAX_DIR_ENTRIES]"

text \<open>
  \<open>rc\<close> is what the initialisation of a mutex or lock answers: the first two for the mutexes, the
  function for the locks. The three flag arrays are emptied in the same loops.
\<close>

definition state_init1 :: "int \<Rightarrow> int \<Rightarrow> (lock_ptr \<Rightarrow> int) \<Rightarrow> fs_state1 \<Rightarrow> fs_state1 outcome" where
  "state_init1 rc1 rc2 rc s =
     and_then (init_mutex rc1 (open_files_mutex1 s)) (\<lambda>m1.
     and_then (init_mutex rc2 (open_file_lock s)) (\<lambda>m2.
     each_lock (\<lambda>l. init_rwlock (rc l) l) all_locks
       (s\<lparr>open_files_mutex1 := m1, open_file_lock := m2,
          freeinode_ts1 := (\<lambda>i. if i < INODE_TABLE_SIZE then FREE else freeinode_ts1 s i),
          free_blocks1 := (\<lambda>i. if i < DATA_BLOCKS then FREE else free_blocks1 s i),
          free_open_file_entries1 :=
            (\<lambda>i. if i < MAX_OPEN_FILES then FREE else free_open_file_entries1 s i)\<rparr>)))"

definition state_destroy1 :: "fs_state1 \<Rightarrow> fs_state1 outcome" where
  "state_destroy1 s =
     and_then (destroy_mutex (open_file_lock s)) (\<lambda>m.
     each_lock destroy_rwlock all_locks (s\<lparr>open_file_lock := m\<rparr>))"

section \<open>Loops that lock entry after entry\<close>

text \<open>
  The loop of five functions: lock entry \<open>i\<close>; where the test holds, leave the function by \<open>found\<close>
  (which unlocks); otherwise unlock and go on; after the last entry return \<open>none\<close>.
\<close>

function scan :: "(lock_ptr \<Rightarrow> fs_state1 \<Rightarrow> fs_state1 outcome) \<Rightarrow> (int \<Rightarrow> lock_ptr) \<Rightarrow> nat \<Rightarrow>
    (nat \<Rightarrow> fs_state1 \<Rightarrow> bool) \<Rightarrow> (nat \<Rightarrow> fs_state1 \<Rightarrow> (int \<times> fs_state1) outcome) \<Rightarrow>
    nat \<Rightarrow> fs_state1 \<Rightarrow> (int \<times> fs_state1) outcome" where
  "scan lock ptr n test found i s =
     (if i < n then
        and_then (lock (ptr (int i)) s) (\<lambda>s.
        if test i s then found i s
        else and_then (unlock_rwlock (ptr (int i)) s) (\<lambda>s. scan lock ptr n test found (Suc i) s))
      else Ok (-1, s))"
  by pat_completeness auto
termination
  by (relation "measure (\<lambda>(lock, ptr, n, test, found, i, s). n - i)") auto

declare scan.simps [simp del]

section \<open>Data blocks\<close>

definition data_block_alloc1 :: "fs_state1 \<Rightarrow> (int \<times> fs_state1) outcome" where
  "data_block_alloc1 =
     scan write_lock_rwlock Block_lock DATA_BLOCKS (\<lambda>i s. free_blocks1 s i = FREE)
       (\<lambda>i s. and_then (unlock_rwlock (Block_lock (int i)) (put_block1 i TAKEN s)) (\<lambda>s. Ok (int i, s))) 0"

text \<open>The lock is indexed before the number is checked.\<close>

definition data_block_free1 :: "int \<Rightarrow> fs_state1 \<Rightarrow> (int \<times> fs_state1) outcome" where
  "data_block_free1 block_number s =
     and_then (write_lock_rwlock (Block_lock block_number) s) (\<lambda>s.
     if \<not> valid_block_number block_number then
       and_then (unlock_rwlock (Block_lock block_number) s) (\<lambda>s. Ok (-1, s))
     else
       and_then (unlock_rwlock (Block_lock block_number) (put_block1 (nat block_number) FREE s)) (\<lambda>s.
       Ok (0, s)))"

section \<open>I-nodes\<close>

text \<open>What \<open>inode_create\<close> does once it has found the entry \<open>inumber\<close>, whose lock it holds.\<close>

definition take_inode :: "inode_type \<Rightarrow> nat \<Rightarrow> fs_state1 \<Rightarrow> (int \<times> fs_state1) outcome" where
  "take_inode n_type inumber s =
     and_then (unlock_rwlock (Inode_lock (int inumber)) (put_freeinode1 inumber TAKEN s)) (\<lambda>s.
     let s = put_inode1 inumber (i_node_type1_update (\<lambda>_. n_type)) s in
     if n_type = T_DIRECTORY then
       and_then (data_block_alloc1 s) (\<lambda>(b, s).
       if b = -1 then Ok (-1, put_freeinode1 inumber FREE s)
       else
         let s = put_inode1 inumber (\<lambda>n. n\<lparr>i_size1 := of_nat BLOCK_SIZE,
                   i_data_block1 := (i_data_block1 n)(0 := b), i_indirect_data_block := -1\<rparr>) s
         in (case data_block_get b of
               None \<Rightarrow> Ok (-1, put_freeinode1 inumber FREE s)
             | Some p \<Rightarrow> Ok (int inumber, s\<lparr>fs_data1 := clear_entries p MAX_DIR_ENTRIES (fs_data1 s)\<rparr>)))
     else
       Ok (int inumber, put_inode1 inumber (\<lambda>n. n\<lparr>i_size1 := 0,
             i_data_block1 := (\<lambda>k. if k < MAX_DIRECT_BLOCKS then -1 else i_data_block1 n k),
             i_indirect_data_block := -1\<rparr>) s))"

definition inode_create1 :: "inode_type \<Rightarrow> fs_state1 \<Rightarrow> (int \<times> fs_state1) outcome" where
  "inode_create1 n_type =
     scan write_lock_rwlock Inode_lock INODE_TABLE_SIZE (\<lambda>i s. freeinode_ts1 s i = FREE) (take_inode n_type) 0"

text \<open>The loop of \<open>inode_delete\<close> over the direct blocks, from block \<open>i\<close>.\<close>

function free_direct :: "nat \<Rightarrow> nat \<Rightarrow> fs_state1 \<Rightarrow> (int \<times> fs_state1) outcome" where
  "free_direct inumber i s =
     (if i < MAX_DIRECT_BLOCKS then
        let block = i_data_block1 (inode_table1 s inumber) i in
        and_then (write_lock_rwlock (Block_lock block) s) (\<lambda>s.
        and_then (data_block_free1 block s) (\<lambda>(r, s).
        and_then (unlock_rwlock (Block_lock block) s) (\<lambda>s.
        if r = -1 then Ok (-1, s) else free_direct inumber (Suc i) s)))
      else Ok (0, s))"
  by pat_completeness auto
termination
  by (relation "measure (\<lambda>(inumber, i, s). MAX_DIRECT_BLOCKS - i)") auto

declare free_direct.simps [simp del]

definition inode_delete1 :: "int \<Rightarrow> fs_state1 \<Rightarrow> (int \<times> fs_state1) outcome" where
  "inode_delete1 inumber s =
     (if \<not> valid_inumber inumber \<or> freeinode_ts1 s (nat inumber) = FREE then Ok (-1, s)
      else
        let s = put_freeinode1 (nat inumber) FREE s in
        if i_size1 (inode_table1 s (nat inumber)) > 0 then free_direct (nat inumber) 0 s else Ok (0, s))"

section \<open>Directory entries\<close>

definition add_dir_entry1 :: "int \<Rightarrow> int \<Rightarrow> cstring \<Rightarrow> fs_state1 \<Rightarrow> (int \<times> fs_state1) outcome" where
  "add_dir_entry1 inumber sub_inumber sub_name s =
     (if \<not> valid_inumber inumber \<or> \<not> valid_inumber sub_inumber then Ok (-1, s)
      else
        and_then (read_lock_rwlock (Inode_lock inumber) s) (\<lambda>s.
        if i_node_type1 (inode_table1 s (nat inumber)) \<noteq> T_DIRECTORY then
          and_then (unlock_rwlock (Inode_lock inumber) s) (\<lambda>s. Ok (-1, s))
        else
          and_then (unlock_rwlock (Inode_lock inumber) s) (\<lambda>s.
          if length sub_name = 0 then Ok (-1, s)
          else
            and_then (read_lock_rwlock (Inode_lock inumber) s) (\<lambda>s.
            let dir_entry = data_block_get (i_data_block1 (inode_table1 s (nat inumber)) 0) in
            and_then (unlock_rwlock (Inode_lock inumber) s) (\<lambda>s.
            case dir_entry of
              None \<Rightarrow> Ok (-1, s)
            | Some p \<Rightarrow>
                scan write_lock_rwlock Dir_lock MAX_DIR_ENTRIES (\<lambda>i s. d_inumber (fs_data1 s) p i = -1)
                  (\<lambda>i s.
                    let m = set_d_inumber p i sub_inumber (fs_data1 s);
                        m = set_d_name p i (c_strncpy (MAX_FILE_NAME - 1) sub_name) m;
                        m = m(p + sizeof_dir_entry * i + (MAX_FILE_NAME - 1) := 0)
                    in and_then (unlock_rwlock (Dir_lock (int i)) (s\<lparr>fs_data1 := m\<rparr>)) (\<lambda>s. Ok (0, s)))
                  0 s)))))"

text \<open>The lock is indexed before the number is checked; the entry's number is read after unlocking it.\<close>

definition find_in_dir1 :: "int \<Rightarrow> cstring \<Rightarrow> fs_state1 \<Rightarrow> (int \<times> fs_state1) outcome" where
  "find_in_dir1 inumber sub_name s =
     and_then (read_lock_rwlock (Inode_lock inumber) s) (\<lambda>s.
     if \<not> valid_inumber inumber \<or> i_node_type1 (inode_table1 s (nat inumber)) \<noteq> T_DIRECTORY then
       and_then (unlock_rwlock (Inode_lock inumber) s) (\<lambda>s. Ok (-1, s))
     else
       let dir_entry = data_block_get (i_data_block1 (inode_table1 s (nat inumber)) 0) in
       and_then (unlock_rwlock (Inode_lock inumber) s) (\<lambda>s.
       case dir_entry of
         None \<Rightarrow> Ok (-1, s)
       | Some p \<Rightarrow>
           scan read_lock_rwlock Dir_lock MAX_DIR_ENTRIES
             (\<lambda>i s. d_inumber (fs_data1 s) p i \<noteq> -1 \<and>
                c_strncmp MAX_FILE_NAME (d_name (fs_data1 s) p i) sub_name = 0)
             (\<lambda>i s. and_then (unlock_rwlock (Dir_lock (int i)) s) (\<lambda>s. Ok (d_inumber (fs_data1 s) p i, s)))
             0 s))"

section \<open>The open file table\<close>

definition add_to_open_file_table1 :: "int \<Rightarrow> size_t \<Rightarrow> fs_state1 \<Rightarrow> (int \<times> fs_state1) outcome" where
  "add_to_open_file_table1 inumber offset =
     scan write_lock_rwlock File_lock MAX_OPEN_FILES (\<lambda>i s. free_open_file_entries1 s i = FREE)
       (\<lambda>i s.
         and_then (lock_mutex (open_files_mutex1 s)) (\<lambda>m.
         let s = s\<lparr>open_files_mutex1 := m\<rparr>;
             s = put_open1 i TAKEN s;
             s = put_file1 i (\<lambda>_. \<lparr>of_inumber = inumber, of_offset = offset\<rparr>) s;
             s = s\<lparr>open_files_count1 := open_files_count1 s + 1\<rparr> in
         and_then (unlock_rwlock (File_lock (int i)) s) (\<lambda>s.
         and_then (unlock_mutex (open_files_mutex1 s)) (\<lambda>m.
         Ok (int i, s\<lparr>open_files_mutex1 := m\<rparr>))))) 0"

text \<open>The lock is indexed before the handle is checked, and only read-locked for the change.\<close>

definition remove_from_open_file_table1 :: "int \<Rightarrow> fs_state1 \<Rightarrow> (int \<times> fs_state1) outcome" where
  "remove_from_open_file_table1 fhandle s =
     and_then (read_lock_rwlock (File_lock fhandle) s) (\<lambda>s.
     if \<not> valid_file_handle fhandle \<or> free_open_file_entries1 s (nat fhandle) \<noteq> TAKEN then
       and_then (unlock_rwlock (File_lock fhandle) s) (\<lambda>s. Ok (-1, s))
     else
       and_then (lock_mutex (open_files_mutex1 s)) (\<lambda>m.
       let s = s\<lparr>open_files_mutex1 := m\<rparr>;
           s = s\<lparr>open_files_count1 := open_files_count1 s - 1\<rparr>;
           s = put_open1 (nat fhandle) FREE s in
       and_then (unlock_mutex (open_files_mutex1 s)) (\<lambda>m.
       and_then (unlock_rwlock (File_lock fhandle) (s\<lparr>open_files_mutex1 := m\<rparr>)) (\<lambda>s. Ok (0, s)))))"

end
