(* ===== verification/FS1_Ops.thy ===== *)
theory FS1_Ops
  imports FS1_State FS_Ops
begin

text \<open>
  The operations of the first delivery, \<open>parte-1/fs/operations.c\<close>: files over several blocks, read and
  written block by block, and \<open>tfs_copy_to_external_fs\<close>. \<open>valid_pathname\<close> and the copies into and out
  of \<open>fs_data\<close> are shared with the second delivery.
\<close>

unbundle bit_operations_syntax

section \<open>Initialisation and destruction\<close>

definition tfs_init1 :: "int \<Rightarrow> int \<Rightarrow> (lock_ptr \<Rightarrow> int) \<Rightarrow> fs_state1 \<Rightarrow> (int \<times> fs_state1) outcome" where
  "tfs_init1 rc1 rc2 rc s =
     and_then (state_init1 rc1 rc2 rc s) (\<lambda>s.
     and_then (inode_create1 T_DIRECTORY s) (\<lambda>(root, s).
     if root \<noteq> ROOT_DIR_INUM then Ok (-1, s) else Ok (0, s)))"

definition tfs_destroy1 :: "fs_state1 \<Rightarrow> (int \<times> fs_state1) outcome" where
  "tfs_destroy1 s = and_then (state_destroy1 s) (\<lambda>s. Ok (0, s))"

text \<open>As in the second delivery the waits take the other threads' effects from a list.\<close>

fun wait_all_closed1 :: "(fs_state1 \<Rightarrow> fs_state1) list \<Rightarrow> fs_state1 \<Rightarrow> fs_state1 option" where
  "wait_all_closed1 ws s =
     (if open_files_count1 s \<noteq> 0
      then (case ws of [] \<Rightarrow> None | w # ws' \<Rightarrow> wait_all_closed1 ws' (w s))
      else Some s)"

declare wait_all_closed1.simps [simp del]

definition tfs_destroy_after_all_closed1 ::
  "(fs_state1 \<Rightarrow> fs_state1) list \<Rightarrow> fs_state1 \<Rightarrow> (int \<times> fs_state1) option outcome" where
  "tfs_destroy_after_all_closed1 ws s =
     and_then (lock_mutex (open_files_mutex1 s)) (\<lambda>m.
     case wait_all_closed1 ws (s\<lparr>open_files_mutex1 := m\<rparr>) of
       None \<Rightarrow> Ok None
     | Some s \<Rightarrow>
         and_then (state_destroy1 s) (\<lambda>s.
         and_then (unlock_mutex (open_files_mutex1 s)) (\<lambda>m.
         and_then (destroy_mutex m) (\<lambda>m.
         Ok (Some (0, s\<lparr>open_files_mutex1 := m\<rparr>))))))"

section \<open>Opening and closing\<close>

definition tfs_lookup1 :: "cstring option \<Rightarrow> fs_state1 \<Rightarrow> (int \<times> fs_state1) outcome" where
  "tfs_lookup1 name s =
     (if \<not> valid_pathname name then Ok (-1, s) else find_in_dir1 ROOT_DIR_INUM (tl (the name)) s)"

text \<open>The loop of the truncation, from block \<open>k\<close> to \<open>loop_limit\<close>; the result is 0, or -1 to fail.\<close>

function truncate_direct :: "nat \<Rightarrow> nat \<Rightarrow> nat \<Rightarrow> fs_state1 \<Rightarrow> (int \<times> fs_state1) outcome" where
  "truncate_direct i k loop_limit s =
     (if k < loop_limit then
        and_then (data_block_free1 (i_data_block1 (inode_table1 s i) k) s) (\<lambda>(r, s).
        if r = -1 then Ok (-1, s)
        else truncate_direct i (Suc k) loop_limit
               (put_inode1 i (\<lambda>n. n\<lparr>i_data_block1 := (i_data_block1 n)(k := -1)\<rparr>) s))
      else Ok (0, s))"
  by pat_completeness auto
termination
  by (relation "measure (\<lambda>(i, k, loop_limit, s). loop_limit - k)") auto

declare truncate_direct.simps [simp del]

definition truncate_inode1 :: "nat \<Rightarrow> fs_state1 \<Rightarrow> (int \<times> fs_state1) outcome" where
  "truncate_inode1 i s =
     (if i_size1 (inode_table1 s i) > 0 then
        let written_blocks = i_size1 (inode_table1 s i) div of_nat BLOCK_SIZE;
            written_blocks = (if written_blocks mod of_nat BLOCK_SIZE \<noteq> 0 then written_blocks + 1 else written_blocks);
            loop_limit = (if written_blocks \<le> 10 then written_blocks else 10) in
        and_then (truncate_direct i 0 (unat loop_limit) s) (\<lambda>(r, s).
        if r = -1 then Ok (-1, s)
        else
          and_then (if written_blocks \<ge> of_nat MAX_DIRECT_BLOCKS then
                      and_then (data_block_free1 (i_indirect_data_block (inode_table1 s i)) s) (\<lambda>(r, s).
                      if r = -1 then Ok (-1 :: int, s)
                      else Ok (0, put_inode1 i (i_indirect_data_block_update (\<lambda>_. -1)) s))
                    else Ok (0, s)) (\<lambda>(r, s).
          if r = -1 then Ok (-1, s) else Ok (0, put_inode1 i (i_size1_update (\<lambda>_. 0)) s)))
      else Ok (0, s))"

text \<open>The two unlocks before every return of \<open>tfs_open\<close>.\<close>

definition unlock_open :: "lock_ptr \<Rightarrow> fs_state1 \<Rightarrow> fs_state1 outcome" where
  "unlock_open inode_lock s =
     and_then (unlock_mutex (open_file_lock s)) (\<lambda>m. unlock_rwlock inode_lock (s\<lparr>open_file_lock := m\<rparr>))"

definition tfs_open1 :: "cstring option \<Rightarrow> int \<Rightarrow> fs_state1 \<Rightarrow> (int \<times> fs_state1) outcome" where
  "tfs_open1 name flags s =
     (if \<not> valid_pathname name then Ok (-1, s)
      else
        and_then (lock_mutex (open_file_lock s)) (\<lambda>m.
        and_then (tfs_lookup1 name (s\<lparr>open_file_lock := m\<rparr>)) (\<lambda>(inum, s).
        if inum \<ge> 0 then
          let inode_lock = get_inode_table_lock inum in
          and_then (write_lock_rwlock inode_lock s) (\<lambda>s.
          case inode_get inum of
            None \<Rightarrow> and_then (unlock_open inode_lock s) (\<lambda>s. Ok (-1, s))
          | Some i \<Rightarrow>
              and_then (if flags AND TFS_O_TRUNC \<noteq> 0 then truncate_inode1 i s else Ok (0, s)) (\<lambda>(r, s).
              if r = -1 then and_then (unlock_open inode_lock s) (\<lambda>s. Ok (-1, s))
              else
                let offset = (if flags AND TFS_O_APPEND \<noteq> 0 then i_size1 (inode_table1 s i) else 0) in
                and_then (unlock_open inode_lock s) (\<lambda>s. add_to_open_file_table1 inum offset s)))
        else if flags AND TFS_O_CREAT \<noteq> 0 then
          and_then (inode_create1 T_FILE s) (\<lambda>(inum, s).
          let inode_lock = get_inode_table_lock inum in
          if inum = -1 then
            and_then (unlock_mutex (open_file_lock s)) (\<lambda>m. Ok (-1, s\<lparr>open_file_lock := m\<rparr>))
          else
            and_then (write_lock_rwlock inode_lock s) (\<lambda>s.
            and_then (add_dir_entry1 ROOT_DIR_INUM inum (tl (the name)) s) (\<lambda>(r, s).
            if r = -1 then
              and_then (inode_delete1 inum s) (\<lambda>(_, s).
              and_then (unlock_open inode_lock s) (\<lambda>s. Ok (-1, s)))
            else and_then (unlock_open inode_lock s) (\<lambda>s. add_to_open_file_table1 inum 0 s))))
        else
          and_then (unlock_mutex (open_file_lock s)) (\<lambda>m. Ok (-1, s\<lparr>open_file_lock := m\<rparr>)))))"

definition tfs_close1 :: "int \<Rightarrow> fs_state1 \<Rightarrow> (int \<times> fs_state1) outcome" where
  "tfs_close1 fhandle = remove_from_open_file_table1 fhandle"

section \<open>The blocks of a file\<close>

text \<open>Entry \<open>j\<close> of the index block that starts at address \<open>p\<close>: an \<open>int\<close> that must lie in \<open>fs_data\<close>.\<close>

definition load_index :: "nat \<Rightarrow> nat \<Rightarrow> memory \<Rightarrow> int outcome" where
  "load_index p j m =
     (if p + 4 * j + 4 \<le> BLOCK_SIZE * DATA_BLOCKS then Ok (load_int m (p + 4 * j)) else Fault Undefined)"

definition store_index :: "nat \<Rightarrow> nat \<Rightarrow> int \<Rightarrow> memory \<Rightarrow> memory outcome" where
  "store_index p j v m =
     (if p + 4 * j + 4 \<le> BLOCK_SIZE * DATA_BLOCKS then Ok (store_int (p + 4 * j) v m) else Fault Undefined)"

text \<open>The loop \<open>for (int j = MAX_DIRECT_BLOCKS; j < BLOCK_SIZE; j++)\<close> that empties a new index block.\<close>

function clear_index :: "nat \<Rightarrow> nat \<Rightarrow> memory \<Rightarrow> memory outcome" where
  "clear_index p j m =
     (if j < BLOCK_SIZE then and_then (store_index p (j - MAX_DIRECT_BLOCKS) (-1) m) (clear_index p (Suc j))
      else Ok m)"
  by pat_completeness auto
termination
  by (relation "measure (\<lambda>(p, j, m). BLOCK_SIZE - j)") auto

declare clear_index.simps [simp del]

text \<open>
  The address of block \<open>k\<close> of the file, allocated if needed; \<open>None\<close> where \<open>tfs_write\<close> unlocks and
  returns -1.
\<close>

definition direct_for_write :: "nat \<Rightarrow> nat \<Rightarrow> fs_state1 \<Rightarrow> (nat option \<times> fs_state1) outcome" where
  "direct_for_write i k s =
     and_then (if i_data_block1 (inode_table1 s i) k = -1 then
                 and_then (data_block_alloc1 s) (\<lambda>(b, s).
                 Ok (b, put_inode1 i (\<lambda>n. n\<lparr>i_data_block1 := (i_data_block1 n)(k := b)\<rparr>) s))
               else Ok (i_data_block1 (inode_table1 s i) k, s)) (\<lambda>(b, s).
     if b = -1 then Ok (None, s) else Ok (data_block_get b, s))"

definition indirect_for_write :: "nat \<Rightarrow> nat \<Rightarrow> fs_state1 \<Rightarrow> (nat option \<times> fs_state1) outcome" where
  "indirect_for_write i k s =
     and_then (if i_indirect_data_block (inode_table1 s i) = -1 then
                 and_then (data_block_alloc1 s) (\<lambda>(b, s).
                 let s = put_inode1 i (i_indirect_data_block_update (\<lambda>_. b)) s in
                 case data_block_get b of
                   None \<Rightarrow> Ok (None, s)
                 | Some p \<Rightarrow> and_then (clear_index p MAX_DIRECT_BLOCKS (fs_data1 s)) (\<lambda>m. Ok (Some p, s\<lparr>fs_data1 := m\<rparr>)))
               else Ok (data_block_get (i_indirect_data_block (inode_table1 s i)), s)) (\<lambda>(index, s).
     case index of
       None \<Rightarrow> Ok (None, s)
     | Some p \<Rightarrow>
         and_then (load_index p (k - MAX_DIRECT_BLOCKS) (fs_data1 s)) (\<lambda>v.
         and_then (if v = -1 then
                     and_then (data_block_alloc1 s) (\<lambda>(b, s).
                     and_then (store_index p (k - MAX_DIRECT_BLOCKS) b (fs_data1 s)) (\<lambda>m.
                     Ok (b, s\<lparr>fs_data1 := m\<rparr>)))
                   else Ok (v, s)) (\<lambda>(v, s).
         if v = -1 then Ok (None, s)
         else and_then (load_index p (k - MAX_DIRECT_BLOCKS) (fs_data1 s)) (\<lambda>v. Ok (data_block_get v, s)))))"

definition block_for_write :: "nat \<Rightarrow> nat \<Rightarrow> fs_state1 \<Rightarrow> (nat option \<times> fs_state1) outcome" where
  "block_for_write i k s = (if k < MAX_DIRECT_BLOCKS then direct_for_write i k s else indirect_for_write i k s)"

text \<open>The same for \<open>tfs_read\<close>, which allocates nothing.\<close>

definition block_for_read :: "nat \<Rightarrow> nat \<Rightarrow> fs_state1 \<Rightarrow> nat option outcome" where
  "block_for_read i k s =
     (if k < MAX_DIRECT_BLOCKS then Ok (data_block_get (i_data_block1 (inode_table1 s i) k))
      else (case data_block_get (i_indirect_data_block (inode_table1 s i)) of
              None \<Rightarrow> Ok None
            | Some p \<Rightarrow> and_then (load_index p (k - MAX_DIRECT_BLOCKS) (fs_data1 s)) (\<lambda>v. Ok (data_block_get v))))"

section \<open>Writing and reading\<close>

text \<open>
  The three branches that reading and writing share: the number of bytes to copy in block \<open>k\<close> of
  \<open>end_blocks\<close> at position \<open>off\<close> with \<open>left\<close> bytes left, and whether the loop then breaks.
\<close>

definition chunk :: "size_t \<Rightarrow> size_t \<Rightarrow> size_t \<Rightarrow> size_t \<Rightarrow> size_t \<times> bool" where
  "chunk k end_blocks left off =
     (if k + 1 < end_blocks \<and> left > of_nat BLOCK_SIZE - off mod of_nat BLOCK_SIZE
      then (of_nat BLOCK_SIZE - off mod of_nat BLOCK_SIZE, False)
      else if left \<le> of_nat BLOCK_SIZE then (left, True)
      else (of_nat BLOCK_SIZE, False))"

text \<open>The first block behind the transfer: rounded up only if the length is no multiple of a block.\<close>

definition end_blocks :: "size_t \<Rightarrow> size_t \<Rightarrow> size_t" where
  "end_blocks off len =
     (let e = (off + len) div of_nat BLOCK_SIZE in if len mod of_nat BLOCK_SIZE > 0 then e + 1 else e)"

lemma next_block: "k < e \<Longrightarrow> unat e - unat (k + 1 :: size_t) < unat e - unat k"
proof -
  assume "k < e"
  then have "k \<noteq> - 1" using word_n1_ge [of e] by (auto simp: not_less)
  then have "unat (k + 1) = Suc (unat k)" by (metis add.commute unatSuc add_eq_0_iff add.inverse_inverse)
  with \<open>k < e\<close> show ?thesis by (simp add: word_less_nat_alt)
qed

text \<open>What follows each copy: the handle moves on, and the file grows if the handle is behind its end.\<close>

definition after_copy :: "nat \<Rightarrow> nat \<Rightarrow> size_t \<Rightarrow> fs_state1 \<Rightarrow> fs_state1" where
  "after_copy f i n s =
     (let s = put_file1 f (of_offset_update (\<lambda>off. off + n)) s in
      if of_offset (open_file_table1 s f) > i_size1 (inode_table1 s i)
      then put_inode1 i (i_size1_update (\<lambda>_. of_offset (open_file_table1 s f))) s
      else s)"

text \<open>
  The loop of \<open>tfs_write\<close>; \<open>buffer\<close> is what remains of the buffer at \<open>buffer_offset\<close>, which always
  equals \<open>bytes_written\<close>. \<open>None\<close> stands for the returns of -1 inside the loop.
\<close>

function write_blocks :: "nat \<Rightarrow> nat \<Rightarrow> size_t \<Rightarrow> size_t \<Rightarrow> byte list \<Rightarrow> size_t \<Rightarrow> size_t \<Rightarrow> fs_state1 \<Rightarrow>
    (size_t option \<times> fs_state1) outcome" where
  "write_blocks f i k e buffer to_write bytes_written s =
     (if k < e then
        and_then (block_for_write i (unat k) s) (\<lambda>(block, s).
        case block of
          None \<Rightarrow> Ok (None, s)
        | Some a \<Rightarrow>
            (case chunk k e to_write (of_offset (open_file_table1 s f)) of (n, last_write) \<Rightarrow>
               and_then (memcpy_in (a + unat (of_offset (open_file_table1 s f) mod of_nat BLOCK_SIZE)) buffer
                           (unat n) (fs_data1 s)) (\<lambda>m.
               let s = after_copy f i n (s\<lparr>fs_data1 := m\<rparr>) in
               if last_write then Ok (Some (bytes_written + n), s)
               else write_blocks f i (k + 1) e (drop (unat n) buffer) (to_write - n) (bytes_written + n) s)))
      else Ok (Some bytes_written, s))"
  by pat_completeness auto
termination
  by (relation "measure (\<lambda>(f, i, k, e, rest). unat e - unat k)") (simp_all add: next_block)

declare write_blocks.simps [simp del]

definition tfs_write1 :: "int \<Rightarrow> byte list \<Rightarrow> size_t \<Rightarrow> fs_state1 \<Rightarrow> (int \<times> fs_state1) outcome" where
  "tfs_write1 fhandle buffer to_write s =
     (case get_open_file_entry fhandle of
        None \<Rightarrow> Ok (-1, s)
      | Some f \<Rightarrow>
        let file_lock = get_open_file_table_lock fhandle in
        and_then (write_lock_rwlock file_lock s) (\<lambda>s.
        let inum = of_inumber (open_file_table1 s f) in
        case inode_get inum of
          None \<Rightarrow> and_then (unlock_rwlock file_lock s) (\<lambda>s. Ok (-1, s))
        | Some i \<Rightarrow>
          let inode_lock = get_inode_table_lock inum in
          and_then (write_lock_rwlock inode_lock s) (\<lambda>s.
          if to_write > 0 then
            let off = of_offset (open_file_table1 s f) in
            and_then (write_blocks f i (off div of_nat BLOCK_SIZE) (end_blocks off to_write) buffer to_write 0 s) (\<lambda>(r, s).
            and_then (unlock_rwlock file_lock s) (\<lambda>s.
            and_then (unlock_rwlock inode_lock s) (\<lambda>s.
            Ok (case r of None \<Rightarrow> -1 | Some bytes_written \<Rightarrow> sint bytes_written, s))))
          else Ok (0, s))))"

text \<open>The loop of \<open>tfs_read\<close>, which collects the bytes it copies to the caller's buffer.\<close>

function read_blocks :: "nat \<Rightarrow> nat \<Rightarrow> size_t \<Rightarrow> size_t \<Rightarrow> size_t \<Rightarrow> size_t \<Rightarrow> byte list \<Rightarrow> fs_state1 \<Rightarrow>
    ((size_t option \<times> byte list) \<times> fs_state1) outcome" where
  "read_blocks f i k e to_read bytes_read buffer s =
     (if k < e then
        and_then (block_for_read i (unat k) s) (\<lambda>block.
        case block of
          None \<Rightarrow> Ok ((None, buffer), s)
        | Some a \<Rightarrow>
            (case chunk k e to_read (of_offset (open_file_table1 s f)) of (n, last_read) \<Rightarrow>
               and_then (memcpy_out (a + unat (of_offset (open_file_table1 s f) mod of_nat BLOCK_SIZE))
                           (unat n) (fs_data1 s)) (\<lambda>bytes.
               let s = put_file1 f (of_offset_update (\<lambda>off. off + n)) s in
               if last_read then Ok ((Some (bytes_read + n), buffer @ bytes), s)
               else read_blocks f i (k + 1) e (to_read - n) (bytes_read + n) (buffer @ bytes) s)))
      else Ok ((Some bytes_read, buffer), s))"
  by pat_completeness auto
termination
  by (relation "measure (\<lambda>(f, i, k, e, rest). unat e - unat k)") (simp_all add: next_block)

declare read_blocks.simps [simp del]

text \<open>Between taking and releasing the locks: nothing to read, or the loop.\<close>

definition read_range :: "nat \<Rightarrow> nat \<Rightarrow> size_t \<Rightarrow> fs_state1 \<Rightarrow> ((size_t option \<times> byte list) \<times> fs_state1) outcome" where
  "read_range f i len s =
     (let off = of_offset (open_file_table1 s f);
          to_read = read_amount (i_size1 (inode_table1 s i)) off len in
      if to_read \<le> 0 then Ok ((Some 0, []), s)
      else read_blocks f i (off div of_nat BLOCK_SIZE) (end_blocks off to_read) to_read 0 [] s)"

definition tfs_read1 :: "int \<Rightarrow> size_t \<Rightarrow> fs_state1 \<Rightarrow> ((int \<times> byte list) \<times> fs_state1) outcome" where
  "tfs_read1 fhandle len s =
     (case get_open_file_entry fhandle of
        None \<Rightarrow> Ok ((-1, []), s)
      | Some f \<Rightarrow>
        let file_lock = get_open_file_table_lock fhandle in
        and_then (write_lock_rwlock file_lock s) (\<lambda>s.
        let inum = of_inumber (open_file_table1 s f) in
        case inode_get inum of
          None \<Rightarrow> and_then (unlock_rwlock file_lock s) (\<lambda>s. Ok ((-1, []), s))
        | Some i \<Rightarrow>
          let inode_lock = get_inode_table_lock inum in
          and_then (write_lock_rwlock inode_lock s) (\<lambda>s.
          and_then (read_range f i len s) (\<lambda>((r, buffer), s).
          and_then (unlock_rwlock file_lock s) (\<lambda>s.
          and_then (unlock_rwlock inode_lock s) (\<lambda>s.
          Ok ((case r of None \<Rightarrow> -1 | Some bytes_read \<Rightarrow> sint bytes_read, buffer), s)))))))"

section \<open>Copying a file out of the file system\<close>

text \<open>
  \<open>accepts n\<close> is how many bytes \<open>fwrite\<close> takes when it is given \<open>n\<close>; \<open>dest\<close> is what the file outside
  holds. The loop may go on for ever in principle, so it has fuel; \<open>None\<close> means the fuel ran out.
\<close>

fun copy_loop :: "nat \<Rightarrow> (nat \<Rightarrow> nat) \<Rightarrow> int \<Rightarrow> byte list \<Rightarrow> fs_state1 \<Rightarrow> ((bool \<times> byte list) \<times> fs_state1) option outcome" where
  "copy_loop 0 accepts handle dest s = Ok None"
| "copy_loop (Suc fuel) accepts handle dest s =
     and_then (tfs_read1 handle (of_nat BLOCK_SIZE) s) (\<lambda>((bytes_read, buffer), s).
     if bytes_read = -1 then Ok (Some ((False, dest), s))
     else
       let bytes_written = min (accepts (length buffer)) (length buffer);
           dest = dest @ take bytes_written buffer in
       if bytes_written \<noteq> length buffer then Ok (Some ((False, dest), s))
       else if bytes_read = int BLOCK_SIZE then copy_loop fuel accepts handle dest s
       else Ok (Some ((True, dest), s)))"

text \<open>
  The result is the return value, the contents of the destination file (\<open>None\<close>: not created) and
  whether that file was left open.
\<close>

type_synonym copy_result = "(int \<times> byte list option \<times> bool) \<times> fs_state1"

definition tfs_copy_to_external_fs ::
  "nat \<Rightarrow> bool \<Rightarrow> bool \<Rightarrow> (nat \<Rightarrow> nat) \<Rightarrow> cstring option \<Rightarrow> fs_state1 \<Rightarrow> copy_result option outcome" where
  "tfs_copy_to_external_fs fuel fopen_ok malloc_ok accepts source_path s =
     and_then (tfs_open1 source_path 0 s) (\<lambda>(source_handle, s).
     if source_handle = -1 then Ok (Some ((-1, None, False), s))
     else (case get_open_file_entry source_handle of
       None \<Rightarrow> Ok (Some ((-1, None, False), s))
     | Some f \<Rightarrow>
       (case inode_get (of_inumber (open_file_table1 s f)) of
         None \<Rightarrow> Ok (Some ((-1, None, False), s))
       | Some i \<Rightarrow>
         if \<not> fopen_ok then Ok (Some ((-1, None, False), s))
         else if \<not> malloc_ok then Ok (Some ((-1, Some [], True), s))
         else
           and_then (copy_loop fuel accepts source_handle [] s) (\<lambda>copied.
           case copied of
             None \<Rightarrow> Ok None
           | Some ((done, dest), s) \<Rightarrow>
               if \<not> done then Ok (Some ((-1, Some dest, True), s))
               else
                 and_then (tfs_close1 source_handle s) (\<lambda>(r, s).
                 if r = -1 then Ok (Some ((-1, Some dest, True), s))
                 else Ok (Some ((0, Some dest, False), s)))))))"

end
