(* ===== verification/FS1_Quiet.thy ===== *)
theory FS1_Quiet
  imports FS1_Ops
begin

text \<open>
  The operations of \<open>parte-1/fs\<close> when the locks they take are free: every lock is released again, so
  each function of the state layer has a closed form without locks.
\<close>

section \<open>Locks\<close>

definition quiet :: "fs_state1 \<Rightarrow> bool" where
  "quiet s \<longleftrightarrow> (\<forall>l. in_table l \<longrightarrow> rwlocks s l = RW_Free) \<and> open_files_mutex1 s = Unlocked \<and>
     open_file_lock s = Unlocked"

definition set_lock :: "lock_ptr \<Rightarrow> rwlock \<Rightarrow> fs_state1 \<Rightarrow> fs_state1" where
  "set_lock l v s = s\<lparr>rwlocks := (rwlocks s)(l := v)\<rparr>"

named_theorems lock_simps \<open>locks taken and released\<close>

lemma write_lock_free [lock_simps]:
  "in_table l \<Longrightarrow> rwlocks s l = RW_Free \<Longrightarrow> write_lock_rwlock l s = Ok (set_lock l RW_Writer s)"
  by (simp add: write_lock_rwlock_def on_rwlock_def set_lock_def)

lemma read_lock_free [lock_simps]:
  "in_table l \<Longrightarrow> rwlocks s l = RW_Free \<Longrightarrow> read_lock_rwlock l s = Ok (set_lock l (RW_Readers 1) s)"
  by (simp add: read_lock_rwlock_def on_rwlock_def set_lock_def)

lemma unlock_held [lock_simps]:
  "in_table l \<Longrightarrow> rwlocks s l = RW_Writer \<or> rwlocks s l = RW_Readers 1 \<Longrightarrow>
    unlock_rwlock l s = Ok (set_lock l RW_Free s)"
  by (auto simp: unlock_rwlock_def on_rwlock_def set_lock_def)

lemma bad_lock [lock_simps]:
  "\<not> in_table l \<Longrightarrow> write_lock_rwlock l s = Fault Undefined"
  "\<not> in_table l \<Longrightarrow> read_lock_rwlock l s = Fault Undefined"
  by (simp_all add: write_lock_rwlock_def read_lock_rwlock_def on_rwlock_def)

lemma held_lock [lock_simps]:
  "in_table l \<Longrightarrow> rwlocks s l = RW_Writer \<Longrightarrow> write_lock_rwlock l s = Fault Deadlock"
  by (simp add: write_lock_rwlock_def on_rwlock_def)

lemma set_lock_sel [simp]:
  "inode_table1 (set_lock l v s) = inode_table1 s" "freeinode_ts1 (set_lock l v s) = freeinode_ts1 s"
  "fs_data1 (set_lock l v s) = fs_data1 s" "free_blocks1 (set_lock l v s) = free_blocks1 s"
  "open_file_table1 (set_lock l v s) = open_file_table1 s"
  "free_open_file_entries1 (set_lock l v s) = free_open_file_entries1 s"
  "rwlocks (set_lock l v s) = (rwlocks s)(l := v)"
  "open_files_count1 (set_lock l v s) = open_files_count1 s"
  "open_files_mutex1 (set_lock l v s) = open_files_mutex1 s" "open_file_lock (set_lock l v s) = open_file_lock s"
  by (simp_all add: set_lock_def)

lemma set_lock_twice [simp]: "set_lock l v (set_lock l w s) = set_lock l v s"
  by (simp add: set_lock_def)

lemma set_lock_same [simp]: "rwlocks s l = v \<Longrightarrow> set_lock l v s = s"
  by (cases s) (simp add: set_lock_def fun_upd_idem)

text \<open>A lock and the assignments to other fields do not interfere.\<close>

lemma set_lock_commute [simp]:
  "put_block1 i a (set_lock l v s) = set_lock l v (put_block1 i a s)"
  "put_inode1 i g (set_lock l v s) = set_lock l v (put_inode1 i g s)"
  "put_freeinode1 i a (set_lock l v s) = set_lock l v (put_freeinode1 i a s)"
  "put_file1 i h (set_lock l v s) = set_lock l v (put_file1 i h s)"
  "put_open1 i a (set_lock l v s) = set_lock l v (put_open1 i a s)"
  "set_lock l v s\<lparr>fs_data1 := m\<rparr> = set_lock l v (s\<lparr>fs_data1 := m\<rparr>)"
  "set_lock l v s\<lparr>open_files_count1 := c\<rparr> = set_lock l v (s\<lparr>open_files_count1 := c\<rparr>)"
  "set_lock l v s\<lparr>open_files_mutex1 := x\<rparr> = set_lock l v (s\<lparr>open_files_mutex1 := x\<rparr>)"
  "set_lock l v s\<lparr>open_file_lock := x\<rparr> = set_lock l v (s\<lparr>open_file_lock := x\<rparr>)"
  by (cases s; simp add: set_lock_def put_defs1)+

lemma put_sel [simp]:
  "rwlocks (put_block1 i a s) = rwlocks s" "rwlocks (put_inode1 i g s) = rwlocks s"
  "rwlocks (put_freeinode1 i a s) = rwlocks s" "rwlocks (put_file1 i h s) = rwlocks s"
  "rwlocks (put_open1 i a s) = rwlocks s"
  by (simp_all add: put_defs1)

section \<open>The locking loop\<close>

lemma scan_free:
  assumes "\<And>t j. j < n \<Longrightarrow> rwlocks t (ptr (int j)) = RW_Free \<Longrightarrow> lock (ptr (int j)) t = Ok (set_lock (ptr (int j)) v t)"
    and "v = RW_Writer \<or> v = RW_Readers 1"
    and "\<And>j. j < n \<Longrightarrow> in_table (ptr (int j))"
    and "\<And>j. j < n \<Longrightarrow> rwlocks s (ptr (int j)) = RW_Free"
    and "\<And>j l w t. test j (set_lock l w t) = test j t"
  shows "scan lock ptr n test found i s =
    (case first_free (\<lambda>j. if test j s then FREE else TAKEN) i n of
       None \<Rightarrow> Ok (-1, s) | Some j \<Rightarrow> found j (set_lock (ptr (int j)) v s))"
proof (induction "n - i" arbitrary: i)
  case 0
  then show ?case by (simp add: scan.simps [of lock] first_free.simps [of _ i])
next
  case (Suc k)
  then have i: "i < n" "k = n - Suc i" by auto
  show ?case
  proof (cases "test i s")
    case True
    with i assms(1,4,5) show ?thesis by (simp add: scan.simps [of lock] first_free.simps [of _ i])
  next
    case False
    have "unlock_rwlock (ptr (int i)) (set_lock (ptr (int i)) v s) = Ok s"
      using assms(2,3,4) i by (subst unlock_held) auto
    with False i assms(1,4,5) Suc(1) [OF i(2)] show ?thesis
      by (simp add: scan.simps [of lock ptr n test found i] first_free.simps [of _ i])
  qed
qed

lemmas scan_write = scan_free [where lock = write_lock_rwlock and v = RW_Writer]
lemmas scan_read = scan_free [where lock = read_lock_rwlock and v = "RW_Readers 1"]

lemma first_free_flags [simp]:
  "first_free (\<lambda>j. if t j = FREE then FREE else TAKEN) i n = first_free t i n"
  by (rule first_free_cong) (metis allocation_state.exhaust)

lemma first_free_entry:
  "first_free (\<lambda>j. if d_inumber m p j = -1 then FREE else TAKEN) i MAX_DIR_ENTRIES = free_entry m p i"
  by (induction m p i rule: free_entry.induct)
     (simp add: free_entry.simps [of _ _ i for i] first_free.simps [of _ i for i])

lemma first_find_entry:
  "(case first_free (\<lambda>j. if d_inumber m p j \<noteq> -1 \<and> c_strncmp MAX_FILE_NAME (d_name m p j) n = 0 then FREE else TAKEN)
      i MAX_DIR_ENTRIES of None \<Rightarrow> -1 | Some j \<Rightarrow> d_inumber m p j) = find_entry m p n i"
  by (induction m p n i rule: find_entry.induct)
     (simp add: find_entry.simps [of _ _ _ i for i] first_free.simps [of _ i for i])

section \<open>The state layer without locks\<close>

definition locks_free :: "(int \<Rightarrow> lock_ptr) \<Rightarrow> nat \<Rightarrow> fs_state1 \<Rightarrow> bool" where
  "locks_free ptr n s \<longleftrightarrow> (\<forall>j<n. in_table (ptr (int j)) \<and> rwlocks s (ptr (int j)) = RW_Free)"

lemma quiet_locks:
  assumes "quiet s"
  shows "locks_free Inode_lock INODE_TABLE_SIZE s" "locks_free Block_lock DATA_BLOCKS s"
    "locks_free File_lock MAX_OPEN_FILES s" "locks_free Dir_lock MAX_DIR_ENTRIES s"
  using assms by (auto simp: quiet_def locks_free_def valid_inumber_def valid_block_number_def valid_file_handle_def)

lemma locks_free_set_lock [simp]:
  "locks_free Inode_lock n (set_lock (Block_lock b) v s) = locks_free Inode_lock n s"
  "locks_free Inode_lock n (set_lock (File_lock b) v s) = locks_free Inode_lock n s"
  "locks_free Block_lock n (set_lock (Inode_lock b) v s) = locks_free Block_lock n s"
  "locks_free Block_lock n (set_lock (File_lock b) v s) = locks_free Block_lock n s"
  "locks_free Dir_lock n (set_lock (Inode_lock b) v s) = locks_free Dir_lock n s"
  "locks_free File_lock n (set_lock (Inode_lock b) v s) = locks_free File_lock n s"
  by (simp_all add: locks_free_def)

lemma locks_free_put [simp]:
  "locks_free ptr n (put_block1 i a s) = locks_free ptr n s"
  "locks_free ptr n (put_inode1 i g s) = locks_free ptr n s"
  "locks_free ptr n (put_freeinode1 i a s) = locks_free ptr n s"
  "locks_free ptr n (put_file1 i h s) = locks_free ptr n s"
  "locks_free ptr n (put_open1 i a s) = locks_free ptr n s"
  "locks_free ptr n (s\<lparr>fs_data1 := m\<rparr>) = locks_free ptr n s"
  "locks_free ptr n (s\<lparr>open_file_lock := x\<rparr>) = locks_free ptr n s"
  "locks_free ptr n (s\<lparr>open_files_mutex1 := x\<rparr>) = locks_free ptr n s"
  "locks_free ptr n (s\<lparr>open_files_count1 := c\<rparr>) = locks_free ptr n s"
  by (simp_all add: locks_free_def)

lemma locks_freeD: "locks_free ptr n s \<Longrightarrow> j < n \<Longrightarrow> in_table (ptr (int j)) \<and> rwlocks s (ptr (int j)) = RW_Free"
  by (simp add: locks_free_def)

lemma data_block_alloc1_eq:
  assumes "locks_free Block_lock DATA_BLOCKS s"
  shows "data_block_alloc1 s = Ok (case first_free (free_blocks1 s) 0 DATA_BLOCKS of
    None \<Rightarrow> (-1, s) | Some b \<Rightarrow> (int b, put_block1 b TAKEN s))"
  using locks_freeD [OF assms]
  by (cases rule: first_free_cases [of "free_blocks1 s" DATA_BLOCKS])
     (auto simp: data_block_alloc1_def scan_write lock_simps simp del: in_table.simps)

lemma data_block_free1_eq:
  assumes "locks_free Block_lock DATA_BLOCKS s"
  shows "data_block_free1 b s =
    (if valid_block_number b then Ok (0, put_block1 (nat b) FREE s) else Fault Undefined)"
  using locks_freeD [OF assms, of "nat b"]
  by (auto simp: data_block_free1_def lock_simps valid_block_number_def)

lemma inode_create1_file_eq:
  assumes "locks_free Inode_lock INODE_TABLE_SIZE s"
  shows "inode_create1 T_FILE s = Ok (case first_free (freeinode_ts1 s) 0 INODE_TABLE_SIZE of
    None \<Rightarrow> (-1, s)
  | Some i \<Rightarrow> (int i, put_inode1 i (\<lambda>n. n\<lparr>i_node_type1 := T_FILE, i_size1 := 0,
      i_data_block1 := (\<lambda>k. if k < MAX_DIRECT_BLOCKS then -1 else i_data_block1 n k), i_indirect_data_block := -1\<rparr>)
      (put_freeinode1 i TAKEN s)))"
  using locks_freeD [OF assms]
  by (cases rule: first_free_cases [of "freeinode_ts1 s" INODE_TABLE_SIZE])
     (auto simp: inode_create1_def take_inode_def scan_write lock_simps put_inode1_def put_freeinode1_def
        set_lock_def fun_upd_idem simp del: in_table.simps cong: if_cong)

lemma find_in_root1_eq:
  assumes "quiet s \<or> locks_free Inode_lock INODE_TABLE_SIZE s \<and> locks_free Dir_lock MAX_DIR_ENTRIES s"
    and "i_node_type1 (inode_table1 s 0) = T_DIRECTORY" and "data_block_get (i_data_block1 (inode_table1 s 0) 0) = Some p"
  shows "find_in_dir1 ROOT_DIR_INUM n s = Ok (find_entry (fs_data1 s) p n 0, s)"
proof -
  have free: "locks_free Inode_lock INODE_TABLE_SIZE s" "locks_free Dir_lock MAX_DIR_ENTRIES s"
    using assms(1) quiet_locks by auto
  then have root: "rwlocks s (Inode_lock 0) = RW_Free" "in_table (Inode_lock 0)" "valid_inumber 0"
    using locks_freeD [OF free(1), of 0] by (auto simp: config)
  have "scan read_lock_rwlock Dir_lock MAX_DIR_ENTRIES
      (\<lambda>i s. d_inumber (fs_data1 s) p i \<noteq> -1 \<and> c_strncmp MAX_FILE_NAME (d_name (fs_data1 s) p i) n = 0)
      (\<lambda>i s. and_then (unlock_rwlock (Dir_lock (int i)) s) (\<lambda>s. Ok (d_inumber (fs_data1 s) p i, s))) 0 s =
    Ok (find_entry (fs_data1 s) p n 0, s)"
    unfolding first_find_entry [symmetric] using locks_freeD [OF free(2)]
    by (subst scan_read) (auto simp: lock_simps simp del: in_table.simps split: option.splits dest!: first_free_zero(1))
  with root assms(2,3) show ?thesis
    by (simp add: find_in_dir1_def ROOT_DIR_INUM_def lock_simps)
qed

lemma add_dir_entry1_eq:
  assumes "locks_free Dir_lock MAX_DIR_ENTRIES s" and "rwlocks s (Inode_lock 0) = RW_Free"
    and "i_node_type1 (inode_table1 s 0) = T_DIRECTORY" and "data_block_get (i_data_block1 (inode_table1 s 0) 0) = Some p"
    and "valid_inumber v"
  shows "add_dir_entry1 ROOT_DIR_INUM v n s =
    (if n = [] then Ok (-1, s)
     else case free_entry (fs_data1 s) p 0 of
       None \<Rightarrow> Ok (-1, s)
     | Some e \<Rightarrow> Ok (0, s\<lparr>fs_data1 := put_entry p e v n (fs_data1 s)\<rparr>))"
proof -
  have root: "valid_inumber 0" "in_table (Inode_lock 0)" by (simp_all add: valid_inumber_def config)
  have "scan write_lock_rwlock Dir_lock MAX_DIR_ENTRIES (\<lambda>i s. d_inumber (fs_data1 s) p i = -1)
      (\<lambda>i s.
        let m = set_d_inumber p i v (fs_data1 s);
            m = set_d_name p i (c_strncpy (MAX_FILE_NAME - 1) n) m;
            m = m(p + sizeof_dir_entry * i + (MAX_FILE_NAME - 1) := 0)
        in and_then (unlock_rwlock (Dir_lock (int i)) (s\<lparr>fs_data1 := m\<rparr>)) (\<lambda>s. Ok (0, s))) 0 s =
    (case free_entry (fs_data1 s) p 0 of
       None \<Rightarrow> Ok (-1, s)
     | Some e \<Rightarrow> Ok (0, s\<lparr>fs_data1 := put_entry p e v n (fs_data1 s)\<rparr>))"
    unfolding first_free_entry [symmetric] using locks_freeD [OF assms(1)]
    by (subst scan_write) (auto simp: lock_simps put_entry_def Let_def simp del: in_table.simps split: option.splits dest!: first_free_zero(1))
  with root assms(2-5) show ?thesis
    by (simp add: add_dir_entry1_def ROOT_DIR_INUM_def lock_simps)
qed

lemma add_handle1_eq:
  assumes "locks_free File_lock MAX_OPEN_FILES s" and "open_files_mutex1 s = Unlocked"
  shows "add_to_open_file_table1 inumber offset s = Ok (case first_free (free_open_file_entries1 s) 0 MAX_OPEN_FILES of
    None \<Rightarrow> (-1, s)
  | Some f \<Rightarrow> (int f, s\<lparr>free_open_file_entries1 := (free_open_file_entries1 s)(f := TAKEN),
      open_file_table1 := (open_file_table1 s)(f := \<lparr>of_inumber = inumber, of_offset = offset\<rparr>),
      open_files_count1 := open_files_count1 s + 1\<rparr>))"
  using locks_freeD [OF assms(1)] assms(2)
  by (cases s; cases rule: first_free_cases [of "free_open_file_entries1 s" MAX_OPEN_FILES])
     (auto simp: add_to_open_file_table1_def scan_write lock_simps put_open1_def put_file1_def set_lock_def
        simp del: in_table.simps)

lemma remove_handle1_eq:
  assumes "locks_free File_lock MAX_OPEN_FILES s" and "open_files_mutex1 s = Unlocked"
  shows "remove_from_open_file_table1 fhandle s =
    (if \<not> valid_file_handle fhandle then Fault Undefined
     else if free_open_file_entries1 s (nat fhandle) = TAKEN
     then Ok (0, s\<lparr>open_files_count1 := open_files_count1 s - 1,
            free_open_file_entries1 := (free_open_file_entries1 s)(nat fhandle := FREE)\<rparr>)
     else Ok (-1, s))"
  using locks_freeD [OF assms(1), of "nat fhandle"] assms(2)
  by (cases s) (auto simp: remove_from_open_file_table1_def lock_simps put_open1_def valid_file_handle_def set_lock_def
        fun_upd_idem)

end
