(* ===== verification/FS1_Inv.thy ===== *)
theory FS1_Inv
  imports FS1_Quiet FS_Spec
begin

text \<open>
  The invariant of the first delivery's file system for files that stay within their direct blocks,
  and the abstraction function into the same abstract file system that specifies the second
  delivery.
\<close>

section \<open>The invariant\<close>

definition MAX_DIRECT_SIZE :: nat where "MAX_DIRECT_SIZE = 10240"

definition is_file1 :: "fs_state1 \<Rightarrow> nat \<Rightarrow> bool" where
  "is_file1 s i \<longleftrightarrow> 0 < i \<and> i < INODE_TABLE_SIZE \<and> freeinode_ts1 s i = TAKEN"

text \<open>The block pointers in use: block 0 of the root, and those of files that are not -1.\<close>

definition slot1 :: "fs_state1 \<Rightarrow> nat \<times> nat \<Rightarrow> bool" where
  "slot1 s x \<longleftrightarrow> (x = (0, 0) \<or> is_file1 s (fst x) \<and> snd x < MAX_DIRECT_BLOCKS) \<and>
     i_data_block1 (inode_table1 s (fst x)) (snd x) \<noteq> -1"

definition blk1 :: "fs_state1 \<Rightarrow> nat \<times> nat \<Rightarrow> nat" where
  "blk1 s x = nat (i_data_block1 (inode_table1 s (fst x)) (snd x))"

definition dir_addr1 :: "fs_state1 \<Rightarrow> nat" where
  "dir_addr1 s = blk1 s (0, 0) * BLOCK_SIZE"

definition blocks_ok1 :: "fs_state1 \<Rightarrow> bool" where
  "blocks_ok1 s \<longleftrightarrow>
     (\<forall>x. slot1 s x \<longrightarrow> valid_block_number (i_data_block1 (inode_table1 s (fst x)) (snd x))) \<and>
     bij_betw (blk1 s) {x. slot1 s x} {b. b < DATA_BLOCKS \<and> free_blocks1 s b = TAKEN}"

definition root_ok1 :: "fs_state1 \<Rightarrow> bool" where
  "root_ok1 s \<longleftrightarrow> freeinode_ts1 s 0 = TAKEN \<and> i_node_type1 (inode_table1 s 0) = T_DIRECTORY \<and> slot1 s (0, 0)"

text \<open>A file has a block for each of its bytes, and no index block.\<close>

definition node_ok1 :: "inode1 \<Rightarrow> bool" where
  "node_ok1 n \<longleftrightarrow> i_node_type1 n = T_FILE \<and> i_indirect_data_block n = -1 \<and> unat (i_size1 n) \<le> MAX_DIRECT_SIZE \<and>
     (\<forall>k. k * BLOCK_SIZE < unat (i_size1 n) \<longrightarrow> i_data_block1 n k \<noteq> -1)"

definition files_ok1 :: "fs_state1 \<Rightarrow> bool" where
  "files_ok1 s \<longleftrightarrow> (\<forall>i. is_file1 s i \<longrightarrow> node_ok1 (inode_table1 s i))"

definition dir_ok1 :: "fs_state1 \<Rightarrow> bool" where
  "dir_ok1 s \<longleftrightarrow> bij_betw (d_inumber (fs_data1 s) (dir_addr1 s)) {e. live (fs_data1 s) (dir_addr1 s) e}
     (int ` {i. is_file1 s i})"

definition handles_ok1 :: "fs_state1 \<Rightarrow> bool" where
  "handles_ok1 s \<longleftrightarrow> (\<forall>f. f < MAX_OPEN_FILES \<and> free_open_file_entries1 s f = TAKEN \<longrightarrow>
     of_inumber (open_file_table1 s f) \<in> int ` {i. is_file1 s i})"

definition handle_count1 :: "fs_state1 \<Rightarrow> nat" where
  "handle_count1 s = card {f. f < MAX_OPEN_FILES \<and> free_open_file_entries1 s f = TAKEN}"

definition wf1 :: "fs_state1 \<Rightarrow> bool" where
  "wf1 s \<longleftrightarrow> root_ok1 s \<and> files_ok1 s \<and> blocks_ok1 s \<and> dir_ok1 s \<and> handles_ok1 s \<and>
     open_files_count1 s = int (handle_count1 s)"

lemmas wf1_parts = root_ok1_def files_ok1_def blocks_ok1_def dir_ok1_def handles_ok1_def handle_count1_def

section \<open>The abstraction function\<close>

definition byte_addr1 :: "fs_state1 \<Rightarrow> nat \<Rightarrow> nat \<Rightarrow> nat" where
  "byte_addr1 s i k = blk1 s (i, k div BLOCK_SIZE) * BLOCK_SIZE + k mod BLOCK_SIZE"

definition content1 :: "fs_state1 \<Rightarrow> nat \<Rightarrow> byte list" where
  "content1 s i = map (\<lambda>k. fs_data1 s (byte_addr1 s i k)) [0..<unat (i_size1 (inode_table1 s i))]"

definition abs_dir1 :: "fs_state1 \<Rightarrow> cstring \<Rightarrow> nat option" where
  "abs_dir1 s n = (let r = find_entry (fs_data1 s) (dir_addr1 s) n 0
     in if good_name n \<and> r \<noteq> -1 then Some (nat r) else None)"

definition abs_files1 :: "fs_state1 \<Rightarrow> nat \<Rightarrow> byte list option" where
  "abs_files1 s i = (if is_file1 s i then Some (content1 s i) else None)"

definition abs_open1 :: "fs_state1 \<Rightarrow> nat \<Rightarrow> (nat \<times> nat) option" where
  "abs_open1 s f = (if f < MAX_OPEN_FILES \<and> free_open_file_entries1 s f = TAKEN
     then Some (nat (of_inumber (open_file_table1 s f)), unat (of_offset (open_file_table1 s f))) else None)"

definition abs1 :: "fs_state1 \<Rightarrow> afs" where
  "abs1 s = \<lparr>a_dir = abs_dir1 s, a_files = abs_files1 s, a_open = abs_open1 s\<rparr>"

definition offsets_ok1 :: "fs_state1 \<Rightarrow> bool" where
  "offsets_ok1 s \<longleftrightarrow> (\<forall>f i off. abs_open1 s f = Some (i, off) \<longrightarrow> off \<le> length (content1 s i))"

definition names_ok1 :: "fs_state1 \<Rightarrow> bool" where
  "names_ok1 s \<longleftrightarrow> distinct_names (fs_data1 s) (dir_addr1 s) \<and>
     (\<forall>e. live (fs_data1 s) (dir_addr1 s) e \<longrightarrow> good_name (entry_name (fs_data1 s) (dir_addr1 s) e))"

definition ok1 :: "fs_state1 \<Rightarrow> bool" where
  "ok1 s \<longleftrightarrow> wf1 s \<and> offsets_ok1 s \<and> names_ok1 s"

lemma abs1_sel [simp]:
  "a_dir (abs1 s) = abs_dir1 s" "a_files (abs1 s) = abs_files1 s" "a_open (abs1 s) = abs_open1 s"
  by (simp_all add: abs1_def)

lemma length_content1 [simp]: "length (content1 s i) = unat (i_size1 (inode_table1 s i))"
  by (simp add: content1_def)

lemma ok1_wf [simp]: "ok1 s \<Longrightarrow> wf1 s"
  by (simp add: ok1_def)

text \<open>The invariant and the abstraction do not look at the locks.\<close>

text \<open>The part of the state the abstraction depends on, and the rest of it.\<close>

definition same_data :: "fs_state1 \<Rightarrow> fs_state1 \<Rightarrow> bool" where
  "same_data s s' \<longleftrightarrow> inode_table1 s' = inode_table1 s \<and> freeinode_ts1 s' = freeinode_ts1 s \<and>
     fs_data1 s' = fs_data1 s \<and> free_blocks1 s' = free_blocks1 s \<and> open_file_table1 s' = open_file_table1 s \<and>
     free_open_file_entries1 s' = free_open_file_entries1 s \<and> open_files_count1 s' = open_files_count1 s"

definition same_locks :: "fs_state1 \<Rightarrow> fs_state1 \<Rightarrow> bool" where
  "same_locks s s' \<longleftrightarrow> rwlocks s' = rwlocks s \<and> open_files_mutex1 s' = open_files_mutex1 s \<and>
     open_file_lock s' = open_file_lock s"

lemma same_locks_refl [simp]: "same_locks s s"
  by (simp add: same_locks_def)

lemma same_locks_trans: "same_locks s s' \<Longrightarrow> same_locks s' s'' \<Longrightarrow> same_locks s s''"
  by (simp add: same_locks_def)

lemma same_view:
  assumes "same_data s s'"
  shows "is_file1 s' = is_file1 s" "slot1 s' = slot1 s" "blk1 s' = blk1 s" "dir_addr1 s' = dir_addr1 s"
    "content1 s' = content1 s" "abs_dir1 s' = abs_dir1 s" "abs_files1 s' = abs_files1 s" "abs_open1 s' = abs_open1 s"
  using assms
  by (auto simp: same_data_def is_file1_def [abs_def] slot1_def [abs_def] blk1_def [abs_def] dir_addr1_def
      content1_def [abs_def] byte_addr1_def abs_dir1_def [abs_def] abs_files1_def [abs_def] abs_open1_def [abs_def])

lemma same_ok1:
  assumes "same_data s s'"
  shows "abs1 s' = abs1 s" "wf1 s' = wf1 s" "ok1 s' = ok1 s"
  using assms same_view [OF assms]
  by (simp_all add: abs1_def ok1_def offsets_ok1_def names_ok1_def wf1_def wf1_parts same_data_def)

lemma same_data_locks [simp]:
  "same_data s (set_lock l v s)" "same_data s (s\<lparr>open_file_lock := x\<rparr>)" "same_data s (s\<lparr>open_files_mutex1 := x\<rparr>)"
  by (simp_all add: same_data_def)

lemma ok1_locks [simp]:
  "ok1 (set_lock l v s) = ok1 s" "ok1 (s\<lparr>open_file_lock := x\<rparr>) = ok1 s" "ok1 (s\<lparr>open_files_mutex1 := y\<rparr>) = ok1 s"
  "abs1 (set_lock l v s) = abs1 s" "abs1 (s\<lparr>open_file_lock := x\<rparr>) = abs1 s" "abs1 (s\<lparr>open_files_mutex1 := y\<rparr>) = abs1 s"
  "wf1 (set_lock l v s) = wf1 s" "wf1 (s\<lparr>open_file_lock := x\<rparr>) = wf1 s" "wf1 (s\<lparr>open_files_mutex1 := y\<rparr>) = wf1 s"
  by (rule same_ok1; simp)+

section \<open>Consequences\<close>

lemma slot_block1:
  assumes "wf1 s" and "slot1 s (i, k)"
  shows "data_block_get (i_data_block1 (inode_table1 s i) k) = Some (blk1 s (i, k) * BLOCK_SIZE)"
    and "blk1 s (i, k) < DATA_BLOCKS" and "free_blocks1 s (blk1 s (i, k)) = TAKEN"
    and "i_data_block1 (inode_table1 s i) k = int (blk1 s (i, k))"
proof -
  from assms have v: "valid_block_number (i_data_block1 (inode_table1 s i) k)"
    and bij: "bij_betw (blk1 s) {x. slot1 s x} {b. b < DATA_BLOCKS \<and> free_blocks1 s b = TAKEN}"
    by (auto simp: wf1_def blocks_ok1_def)
  from v show "data_block_get (i_data_block1 (inode_table1 s i) k) = Some (blk1 s (i, k) * BLOCK_SIZE)"
    "i_data_block1 (inode_table1 s i) k = int (blk1 s (i, k))"
    by (auto simp: data_block_get_def blk1_def valid_block_number_def)
  from bij_betwE [OF bij] assms(2)
  show "blk1 s (i, k) < DATA_BLOCKS" "free_blocks1 s (blk1 s (i, k)) = TAKEN" by auto
qed

lemma slot_inj1: "wf1 s \<Longrightarrow> slot1 s x \<Longrightarrow> slot1 s y \<Longrightarrow> blk1 s x = blk1 s y \<Longrightarrow> x = y"
  by (auto simp: wf1_def blocks_ok1_def bij_betw_def dest: inj_onD)

lemma root_slot1 [simp]: "wf1 s \<Longrightarrow> slot1 s (0, 0)"
  by (simp add: wf1_def root_ok1_def)

lemma root_block1: "wf1 s \<Longrightarrow> data_block_get (i_data_block1 (inode_table1 s 0) 0) = Some (dir_addr1 s)"
  by (simp add: slot_block1(1) dir_addr1_def)

lemma size_le1: "wf1 s \<Longrightarrow> is_file1 s i \<Longrightarrow> unat (i_size1 (inode_table1 s i)) \<le> 10240"
  by (simp add: wf1_def files_ok1_def node_ok1_def MAX_DIRECT_SIZE_def)

text \<open>The block of a byte inside the file is in use.\<close>

lemma byte_slot1:
  assumes "wf1 s" and "is_file1 s i" and "k < unat (i_size1 (inode_table1 s i))"
  shows "slot1 s (i, k div BLOCK_SIZE)" and "k div BLOCK_SIZE < MAX_DIRECT_BLOCKS"
proof -
  have "k < 10240" using size_le1 [OF assms(1,2)] assms(3) by simp
  then show *: "k div BLOCK_SIZE < MAX_DIRECT_BLOCKS" by (simp add: config div_less_iff_less_mult)
  have "k div BLOCK_SIZE * BLOCK_SIZE < unat (i_size1 (inode_table1 s i))"
    using assms(3) by (meson div_times_less_eq_dividend le_less_trans)
  with * assms show "slot1 s (i, k div BLOCK_SIZE)"
    by (auto simp: slot1_def wf1_def files_ok1_def node_ok1_def)
qed

text \<open>At most 491 of the 1024 blocks are ever taken, so an allocation succeeds.\<close>

lemma some_block_free1:
  assumes "wf1 s"
  shows "\<exists>b<DATA_BLOCKS. free_blocks1 s b = FREE"
proof (rule ccontr)
  assume "\<not> ?thesis"
  then have "{b. b < DATA_BLOCKS \<and> free_blocks1 s b = TAKEN} = {..<DATA_BLOCKS}"
    by (auto simp: not_TAKEN [symmetric] simp del: not_TAKEN)
  moreover have "card {x. slot1 s x} = card {b. b < DATA_BLOCKS \<and> free_blocks1 s b = TAKEN}"
    using assms by (auto simp: wf1_def blocks_ok1_def dest: bij_betw_same_card)
  moreover have "{x. slot1 s x} \<subseteq> {..<INODE_TABLE_SIZE} \<times> {..<MAX_DIRECT_BLOCKS}"
    by (auto simp: slot1_def is_file1_def config)
  then have "card {x. slot1 s x} \<le> card ({..<INODE_TABLE_SIZE} \<times> {..<MAX_DIRECT_BLOCKS})"
    by (intro card_mono) auto
  ultimately show False by (simp add: config)
qed

lemma alloc_free1:
  assumes "wf1 s" and "locks_free Block_lock DATA_BLOCKS s"
  obtains b where "data_block_alloc1 s = Ok (int b, put_block1 b TAKEN s)" and "b < DATA_BLOCKS"
    and "free_blocks1 s b = FREE"
  using some_block_free1 [OF assms(1)]
  by (cases rule: first_free_cases [of "free_blocks1 s" DATA_BLOCKS])
     (auto simp: data_block_alloc1_eq [OF assms(2)])

text \<open>Handles, and lookups in the root directory.\<close>

lemma abs_open1_Some:
  assumes "wf1 s" and "abs_open1 s f = Some (i, off)"
  shows "f < MAX_OPEN_FILES" "free_open_file_entries1 s f = TAKEN" "is_file1 s i"
    and "of_inumber (open_file_table1 s f) = int i" "unat (of_offset (open_file_table1 s f)) = off"
    and "get_open_file_entry (int f) = Some f" "inode_get (int i) = Some i"
proof -
  from assms(2) show f: "f < MAX_OPEN_FILES" "free_open_file_entries1 s f = TAKEN"
    and "unat (of_offset (open_file_table1 s f)) = off"
    by (auto simp: abs_open1_def split: if_splits)
  from f assms(1) obtain j where "of_inumber (open_file_table1 s f) = int j" "is_file1 s j"
    by (auto simp: wf1_def handles_ok1_def)
  moreover from assms(2) f have "nat (of_inumber (open_file_table1 s f)) = i" by (simp add: abs_open1_def)
  ultimately show "is_file1 s i" "of_inumber (open_file_table1 s f) = int i" by auto
  then show "inode_get (int i) = Some i" by (simp add: inode_get_def valid_inumber_def is_file1_def)
  show "get_open_file_entry (int f) = Some f" using f by (simp add: get_open_file_entry_def valid_file_handle_def)
qed

lemma live_file1:
  assumes "wf1 s" and "live (fs_data1 s) (dir_addr1 s) e"
  obtains i where "d_inumber (fs_data1 s) (dir_addr1 s) e = int i" and "is_file1 s i"
  using assms by (auto simp: wf1_def dir_ok1_def dest: bij_betwE)

lemma found_file1:
  assumes "wf1 s" and "find_entry (fs_data1 s) (dir_addr1 s) n 0 \<noteq> -1"
  obtains i where "find_entry (fs_data1 s) (dir_addr1 s) n 0 = int i" and "is_file1 s i"
proof -
  from find_entry_found [OF refl assms(2)] obtain e where
    "live (fs_data1 s) (dir_addr1 s) e" "d_inumber (fs_data1 s) (dir_addr1 s) e = find_entry (fs_data1 s) (dir_addr1 s) n 0"
    by blast
  with that show ?thesis using live_file1 [OF assms(1)] by metis
qed

lemma first_free_abs_open1:
  "first_free (\<lambda>f. if abs_open1 s f = None then FREE else TAKEN) 0 MAX_OPEN_FILES =
   first_free (free_open_file_entries1 s) 0 MAX_OPEN_FILES"
  by (rule first_free_cong) (auto simp: abs_open1_def)

end
