(* ===== verification/FS1_Blocks.thy ===== *)
theory FS1_Blocks
  imports FS1_Inv
begin

text \<open>
  Reading and writing a file block by block, in the first delivery: what one pass of the loops does to
  the file's contents, and what the whole loops do when they run to the right block.
\<close>

section \<open>The abstract write\<close>

text \<open>An abstract write without the limit of one block that the second delivery has.\<close>

definition a_store :: "nat \<Rightarrow> byte list \<Rightarrow> afs \<Rightarrow> int \<times> afs" where
  "a_store f data a = (case a_open a f of
     None \<Rightarrow> (-1, a)
   | Some (i, off) \<Rightarrow>
       let c = the (a_files a i)
       in (int (length data), a\<lparr>a_files := (a_files a)(i \<mapsto> take off c @ data @ drop (off + length data) c),
             a_open := (a_open a)(f \<mapsto> (i, off + length data))\<rparr>))"

lemma a_store_append:
  assumes "a_open a f = Some (i, off)" and "a_files a i = Some c" and "off \<le> length c"
  shows "snd (a_store f ys (snd (a_store f xs a))) = snd (a_store f (xs @ ys) a)"
  using assms by (simp add: a_store_def Let_def min_absorb1 add.commute add.left_commute)

lemma a_write_store:
  "a_open a f = Some (i, off) \<Longrightarrow> off + length data \<le> BLOCK_SIZE \<Longrightarrow> a_write f data a = a_store f data a"
  by (simp add: a_write_def a_store_def Let_def min_absorb1)

section \<open>The branches of the loops\<close>

lemma unat_block_arith:
  "unat (off mod of_nat BLOCK_SIZE :: size_t) = unat off mod BLOCK_SIZE"
  "unat (off div of_nat BLOCK_SIZE :: size_t) = unat off div BLOCK_SIZE"
  "unat (of_nat BLOCK_SIZE - off mod of_nat BLOCK_SIZE :: size_t) = BLOCK_SIZE - unat off mod BLOCK_SIZE"
proof -
  show m: "unat (off mod of_nat BLOCK_SIZE :: size_t) = unat off mod BLOCK_SIZE"
    by (simp add: unat_mod config)
  show "unat (off div of_nat BLOCK_SIZE :: size_t) = unat off div BLOCK_SIZE"
    by (simp add: unat_div config)
  have "unat off mod BLOCK_SIZE \<le> BLOCK_SIZE" by (simp add: config)
  with m show "unat (of_nat BLOCK_SIZE - off mod of_nat BLOCK_SIZE :: size_t) = BLOCK_SIZE - unat off mod BLOCK_SIZE"
    by (subst unat_sub) (simp_all add: word_le_nat_alt, simp_all add: config)
qed

text \<open>As long as the end block is far enough, a pass copies up to the end of its block.\<close>

lemma chunk_eq:
  fixes k e left off :: size_t
  assumes "unat k = unat off div BLOCK_SIZE" and "unat off + unat left \<le> unat e * BLOCK_SIZE"
    and "unat off + unat left \<le> MAX_DIRECT_SIZE"
  shows "chunk k e left off = (of_nat (min (unat left) (BLOCK_SIZE - unat off mod BLOCK_SIZE)),
    unat left \<le> BLOCK_SIZE - unat off mod BLOCK_SIZE)"
proof (cases "unat left \<le> BLOCK_SIZE - unat off mod BLOCK_SIZE")
  case True
  then have "\<not> left > of_nat BLOCK_SIZE - off mod of_nat BLOCK_SIZE"
    by (simp add: word_less_nat_alt unat_block_arith)
  moreover have "left \<le> of_nat BLOCK_SIZE"
    using True by (simp add: word_le_nat_alt config)
  ultimately show ?thesis using True by (simp add: chunk_def min_absorb1)
next
  case False
  then have left: "left > of_nat BLOCK_SIZE - off mod of_nat BLOCK_SIZE"
    by (simp add: word_less_nat_alt unat_block_arith)
  have "unat off = unat k * BLOCK_SIZE + unat off mod BLOCK_SIZE" using assms(1) by simp
  moreover have "unat off mod BLOCK_SIZE < BLOCK_SIZE" by (simp add: config)
  ultimately have "Suc (unat k) * BLOCK_SIZE < unat e * BLOCK_SIZE" using False assms(2) by simp
  then have "Suc (unat k) < unat e" by (simp add: config)
  moreover have "unat k < 10240" using assms(1,3) by (simp add: MAX_DIRECT_SIZE_def config div_less_iff_less_mult)
  ultimately have "k + 1 < e" by (simp add: word_less_nat_alt unat_word_ariths)
  moreover have "(of_nat (BLOCK_SIZE - unat off mod BLOCK_SIZE) :: size_t) = of_nat BLOCK_SIZE - off mod of_nat BLOCK_SIZE"
    by (simp flip: unat_block_arith(3))
  ultimately show ?thesis using False left by (simp add: chunk_def min_absorb2)
qed

lemma unat_succ: "unat (w :: size_t) < 20 \<Longrightarrow> unat (w + 1) = unat w + 1"
  by (simp add: unat_word_ariths)

text \<open>When the end block computed by the code is far enough.\<close>

definition aligned :: "nat \<Rightarrow> nat \<Rightarrow> bool" where
  "aligned off n \<longleftrightarrow> n mod BLOCK_SIZE \<noteq> 0 \<or> off mod BLOCK_SIZE = 0"

lemma end_blocks_enough:
  fixes off len :: size_t
  assumes "unat off + unat len \<le> MAX_DIRECT_SIZE"
  shows "unat (end_blocks off len) = (unat off + unat len) div BLOCK_SIZE + (if unat len mod BLOCK_SIZE > 0 then 1 else 0)"
    and "aligned (unat off) (unat len) \<Longrightarrow> unat off + unat len \<le> unat (end_blocks off len) * BLOCK_SIZE"
proof -
  have sum: "unat (off + len) = unat off + unat len"
    using assms by (simp add: unat_word_ariths MAX_DIRECT_SIZE_def)
  have pos: "len mod of_nat BLOCK_SIZE > 0 \<longleftrightarrow> unat len mod BLOCK_SIZE > 0"
    by (simp add: word_less_nat_alt unat_block_arith)
  have q: "unat ((off + len) div of_nat BLOCK_SIZE) = (unat off + unat len) div BLOCK_SIZE"
    by (simp add: unat_block_arith sum)
  have "(unat off + unat len) div BLOCK_SIZE < 20"
    using assms by (simp add: MAX_DIRECT_SIZE_def config div_less_iff_less_mult)
  with q have "unat ((off + len) div of_nat BLOCK_SIZE + 1) = (unat off + unat len) div BLOCK_SIZE + 1"
    by (metis unat_succ)
  then show eq: "unat (end_blocks off len) = (unat off + unat len) div BLOCK_SIZE + (if unat len mod BLOCK_SIZE > 0 then 1 else 0)"
    using pos by (simp add: end_blocks_def Let_def unat_block_arith sum)
  assume "aligned (unat off) (unat len)"
  then show "unat off + unat len \<le> unat (end_blocks off len) * BLOCK_SIZE"
    unfolding eq aligned_def by (auto simp: config)
qed

section \<open>Finding or allocating a direct block\<close>

text \<open>Everything but the block map and the block pointers is as before, and so are the old pointers.\<close>

definition grown :: "fs_state1 \<Rightarrow> fs_state1 \<Rightarrow> bool" where
  "grown s s' \<longleftrightarrow> fs_data1 s' = fs_data1 s \<and> is_file1 s' = is_file1 s \<and>
     (\<forall>i. i_size1 (inode_table1 s' i) = i_size1 (inode_table1 s i)) \<and>
     (\<forall>x. slot1 s x \<longrightarrow> slot1 s' x \<and> blk1 s' x = blk1 s x) \<and>
     open_file_table1 s' = open_file_table1 s \<and> free_open_file_entries1 s' = free_open_file_entries1 s"

lemma grown_view:
  assumes "wf1 s" and "grown s s'"
  shows "abs1 s' = abs1 s" and "wf1 s' \<Longrightarrow> ok1 s \<Longrightarrow> ok1 s'"
proof -
  note g = assms(2) [unfolded grown_def]
  have addr: "dir_addr1 s' = dir_addr1 s" using g assms(1) by (simp add: dir_addr1_def)
  have bytes: "content1 s' i = content1 s i" if "is_file1 s i" for i
    using g byte_slot1(1) [OF assms(1) that] by (simp add: content1_def byte_addr1_def)
  have files: "abs_files1 s' = abs_files1 s"
    using g bytes by (auto simp: abs_files1_def fun_eq_iff)
  have open': "abs_open1 s' = abs_open1 s" using g by (auto simp: abs_open1_def fun_eq_iff)
  show "abs1 s' = abs1 s"
    using g addr files open' by (simp add: abs1_def abs_dir1_def [abs_def])
  show "ok1 s'" if "wf1 s'" "ok1 s"
    using that g addr open' bytes abs_open1_Some(3) [OF assms(1)]
    by (auto simp: ok1_def offsets_ok1_def names_ok1_def simp del: length_content1)
qed

lemma wf1_new_block:
  assumes "wf1 s" and "is_file1 s i" and "k < MAX_DIRECT_BLOCKS" and "i_data_block1 (inode_table1 s i) k = -1"
    and "b < DATA_BLOCKS" and "free_blocks1 s b = FREE"
  defines "s' \<equiv> put_inode1 i (\<lambda>n. n\<lparr>i_data_block1 := (i_data_block1 n)(k := int b)\<rparr>) (put_block1 b TAKEN s)"
  shows "wf1 s'" and "grown s s'" and "slot1 s' (i, k)" and "blk1 s' (i, k) = b"
proof -
  have i0: "i \<noteq> 0" using assms(2) by (simp add: is_file1_def)
  have node: "inode_table1 s' j = (if j = i then (inode_table1 s i)\<lparr>i_data_block1 := (i_data_block1 (inode_table1 s i))(k := int b)\<rparr>
      else inode_table1 s j)" for j
    by (simp add: s'_def put_defs1)
  have files: "is_file1 s' = is_file1 s" by (auto simp: is_file1_def s'_def put_defs1 fun_eq_iff)
  have slots: "slot1 s' x \<longleftrightarrow> x = (i, k) \<or> slot1 s x" for x
    using assms(2,3) i0 by (cases x) (auto simp: slot1_def files node)
  have old: "\<not> slot1 s (i, k)" using assms(4) by (simp add: slot1_def)
  have blk: "blk1 s' x = (if x = (i, k) then b else blk1 s x)" for x
    by (cases x) (auto simp: blk1_def node)
  show "slot1 s' (i, k)" "blk1 s' (i, k) = b" by (simp_all add: slots blk)
  have sz: "\<forall>j. i_size1 (inode_table1 s' j) = i_size1 (inode_table1 s j)" by (simp add: node)
  show g: "grown s s'"
    unfolding grown_def files using slots blk old sz by (auto simp: s'_def put_defs1)
  have "bij_betw ((blk1 s)((i, k) := b)) (insert (i, k) {x. slot1 s x}) (insert b {b. b < DATA_BLOCKS \<and> free_blocks1 s b = TAKEN})"
    using assms(1,6) old by (intro bij_betw_upd) (auto simp: wf1_def blocks_ok1_def)
  moreover have "{b. b < DATA_BLOCKS \<and> free_blocks1 s' b = TAKEN} = insert b {b. b < DATA_BLOCKS \<and> free_blocks1 s b = TAKEN}"
    using assms(5) by (auto simp: s'_def put_defs1)
  moreover have "blk1 s' = (blk1 s)((i, k) := b)" "{x. slot1 s' x} = insert (i, k) {x. slot1 s x}"
    using blk slots by auto
  moreover have "valid_block_number (i_data_block1 (inode_table1 s' (fst x)) (snd x))" if "slot1 s' x" for x
    using that slots assms(1,5)
    by (cases "x = (i, k)") (auto simp: node valid_block_number_def wf1_def blocks_ok1_def)
  ultimately have "blocks_ok1 s'" by (simp add: blocks_ok1_def)
  moreover have "root_ok1 s'" using assms(1) i0 by (simp add: wf1_def root_ok1_def slots node) (simp add: s'_def put_defs1)
  moreover have "files_ok1 s'"
    using assms(1) by (auto simp: wf1_def files_ok1_def files node node_ok1_def)
  moreover have "dir_addr1 s' = dir_addr1 s" using i0 by (simp add: dir_addr1_def blk)
  ultimately show "wf1 s'"
    using assms(1) by (simp add: wf1_def wf1_parts files) (simp add: s'_def put_defs1)
qed

lemma direct_for_write_eq:
  assumes "wf1 s" and "is_file1 s i" and "k < MAX_DIRECT_BLOCKS" and "locks_free Block_lock DATA_BLOCKS s"
  obtains s' where "direct_for_write i k s = Ok (Some (blk1 s' (i, k) * BLOCK_SIZE), s')"
    and "wf1 s'" and "grown s s'" and "slot1 s' (i, k)" and "same_locks s s'"
proof (cases "i_data_block1 (inode_table1 s i) k = -1")
  case False
  then have "slot1 s (i, k)" using assms(2,3) by (simp add: slot1_def)
  with that [of s] False assms(1) slot_block1(1) [OF assms(1) this] show ?thesis
    by (simp add: direct_for_write_def grown_def)
next
  case True
  obtain b where b: "data_block_alloc1 s = Ok (int b, put_block1 b TAKEN s)" "b < DATA_BLOCKS" "free_blocks1 s b = FREE"
    using alloc_free1 [OF assms(1,4)] .
  let ?s = "put_inode1 i (\<lambda>n. n\<lparr>i_data_block1 := (i_data_block1 n)(k := int b)\<rparr>) (put_block1 b TAKEN s)"
  note new = wf1_new_block [OF assms(1-3) True b(2,3)]
  have "direct_for_write i k s = Ok (Some (b * BLOCK_SIZE), ?s)"
    using True b by (simp add: direct_for_write_def data_block_get_def valid_block_number_def)
  moreover have "same_locks s ?s" by (simp add: same_locks_def put_defs1)
  ultimately show ?thesis using that [of ?s] new by simp
qed

section \<open>Storing into a block\<close>

text \<open>The state after one pass of the loop of \<open>tfs_write\<close> has copied \<open>bs\<close>.\<close>

definition stored :: "nat \<Rightarrow> nat \<Rightarrow> nat \<Rightarrow> byte list \<Rightarrow> fs_state1 \<Rightarrow> fs_state1" where
  "stored f i a bs s =
     (let off = of_offset (open_file_table1 s f) + of_nat (length bs) in
      s\<lparr>fs_data1 := mem_write (fs_data1 s) a bs,
        open_file_table1 := (open_file_table1 s)(f := (open_file_table1 s f)\<lparr>of_offset := off\<rparr>),
        inode_table1 := (inode_table1 s)(i := (inode_table1 s i)\<lparr>i_size1 := max (i_size1 (inode_table1 s i)) off\<rparr>)\<rparr>)"

lemma stored_eq:
  assumes "unat n = length bs"
  shows "after_copy f i n (s\<lparr>fs_data1 := mem_write (fs_data1 s) a bs\<rparr>) = stored f i a bs s"
proof -
  have "n = of_nat (length bs)" by (simp flip: assms)
  then show ?thesis
    by (cases s) (simp add: after_copy_def stored_def Let_def put_defs1 offset_add max_def fun_upd_idem not_less)
qed

lemma unat_advance1:
  "unat off + n \<le> MAX_DIRECT_SIZE \<Longrightarrow> unat (off + of_nat n :: size_t) = unat off + n"
  by (simp add: unat_word_ariths unat_of_nat MAX_DIRECT_SIZE_def)

lemma unat_plus_small: "unat a + unat b \<le> MAX_DIRECT_SIZE \<Longrightarrow> unat (a + b :: size_t) = unat a + unat b"
  by (simp add: unat_word_ariths MAX_DIRECT_SIZE_def)

lemma unat_max: "unat (max a b) = max (unat a) (unat b)"
  by (simp add: max_def word_le_nat_alt)

lemma stored_view:
  assumes "is_file1 s i"
  shows "is_file1 (stored f i a bs s) = is_file1 s" "slot1 (stored f i a bs s) = slot1 s"
    "blk1 (stored f i a bs s) = blk1 s" "dir_addr1 (stored f i a bs s) = dir_addr1 s"
    "same_locks s (stored f i a bs s)" "fs_data1 (stored f i a bs s) = mem_write (fs_data1 s) a bs"
proof -
  show files: "is_file1 (stored f i a bs s) = is_file1 s"
    by (auto simp: is_file1_def stored_def Let_def fun_eq_iff)
  show "slot1 (stored f i a bs s) = slot1 s"
    by (auto simp: slot1_def files fun_eq_iff) (auto simp: stored_def Let_def split: if_splits)
  show blk: "blk1 (stored f i a bs s) = blk1 s"
    by (auto simp: blk1_def fun_eq_iff stored_def Let_def)
  show "dir_addr1 (stored f i a bs s) = dir_addr1 s" by (simp add: dir_addr1_def blk)
  show "same_locks s (stored f i a bs s)" "fs_data1 (stored f i a bs s) = mem_write (fs_data1 s) a bs"
    by (simp_all add: stored_def Let_def same_locks_def)
qed

text \<open>A range inside one block.\<close>

lemma range_in_block:
  fixes off p n :: nat
  assumes "off mod BLOCK_SIZE + n \<le> BLOCK_SIZE"
  shows "off div BLOCK_SIZE = p div BLOCK_SIZE \<and> off mod BLOCK_SIZE \<le> p mod BLOCK_SIZE \<and>
      p mod BLOCK_SIZE < off mod BLOCK_SIZE + n \<longleftrightarrow> off \<le> p \<and> p < off + n"
    and "off div BLOCK_SIZE = p div BLOCK_SIZE \<Longrightarrow> p mod BLOCK_SIZE - off mod BLOCK_SIZE = p - off"
proof -
  let ?q = "off div BLOCK_SIZE" and ?r = "off mod BLOCK_SIZE"
  have o: "off = ?q * BLOCK_SIZE + ?r" and p: "p = p div BLOCK_SIZE * BLOCK_SIZE + p mod BLOCK_SIZE" by simp_all
  have q: "?q = p div BLOCK_SIZE" if "off \<le> p" "p < off + n"
  proof -
    have "?q * BLOCK_SIZE \<le> p" "p < BLOCK_SIZE + ?q * BLOCK_SIZE" using that assms o by linarith+
    then show ?thesis by (intro div_nat_eqI [symmetric]) (simp_all add: mult.commute)
  qed
  show diff: "p mod BLOCK_SIZE - ?r = p - off" if "?q = p div BLOCK_SIZE"
    using that o p by (metis add_diff_cancel_left)
  show "?q = p div BLOCK_SIZE \<and> ?r \<le> p mod BLOCK_SIZE \<and> p mod BLOCK_SIZE < ?r + n \<longleftrightarrow> off \<le> p \<and> p < off + n"
    (is "?L \<longleftrightarrow> ?R")
  proof
    assume ?L
    with o p show ?R by (metis add.assoc nat_add_left_cancel_le nat_add_left_cancel_less)
  next
    assume ?R
    with q have eq: "?q = p div BLOCK_SIZE" by blast
    with o p \<open>?R\<close> show ?L by (metis add.assoc nat_add_left_cancel_le nat_add_left_cancel_less)
  qed
qed

text \<open>A byte of another block in use, or outside the copied range, keeps its value.\<close>

lemma mem_write_slot1:
  assumes "wf1 s" and "slot1 s x" and "slot1 s y" and "r + length bs \<le> BLOCK_SIZE" and "c < BLOCK_SIZE"
  shows "mem_write m (blk1 s x * BLOCK_SIZE + r) bs (blk1 s y * BLOCK_SIZE + c) =
    (if x = y \<and> r \<le> c \<and> c < r + length bs then bs ! (c - r) else m (blk1 s y * BLOCK_SIZE + c))"
proof (cases "x = y")
  case True
  then show ?thesis by (auto simp: mem_write_def)
next
  case False
  then have "blk1 s x \<noteq> blk1 s y" using slot_inj1 [OF assms(1-3)] by blast
  from block_write_other [OF this assms(4,5)] False show ?thesis by simp
qed

lemma content1_stored:
  assumes "wf1 s" and "is_file1 s i" and "slot1 s (i, unat off div BLOCK_SIZE)"
    and "off = of_offset (open_file_table1 s f)" and "unat off \<le> length (content1 s i)"
    and "unat off mod BLOCK_SIZE + length bs \<le> BLOCK_SIZE" and "unat off + length bs \<le> MAX_DIRECT_SIZE"
    and "wf1 s'" and "s' = stored f i (blk1 s (i, unat off div BLOCK_SIZE) * BLOCK_SIZE + unat off mod BLOCK_SIZE) bs s"
    and "is_file1 s j"
  shows "content1 s' j = (if j = i then take (unat off) (content1 s i) @ bs @ drop (unat off + length bs) (content1 s i)
    else content1 s j)"
proof (rule nth_equalityI)
  let ?new = "if j = i then take (unat off) (content1 s i) @ bs @ drop (unat off + length bs) (content1 s i) else content1 s j"
  note view = stored_view [OF assms(2), of f "blk1 s (i, unat off div BLOCK_SIZE) * BLOCK_SIZE + unat off mod BLOCK_SIZE" bs,
    folded assms(9)]
  have off': "unat (off + of_nat (length bs)) = unat off + length bs"
    using assms(7) by (rule unat_advance1)
  have size': "unat (i_size1 (inode_table1 s' j)) =
      (if j = i then max (length (content1 s i)) (unat off + length bs) else length (content1 s j))"
    using off' by (simp add: assms(9) stored_def Let_def unat_max flip: assms(4))
  with assms(5) show "length (content1 s' j) = length ?new" by auto
  fix p assume "p < length (content1 s' j)"
  then have p: "p < unat (i_size1 (inode_table1 s' j))" by simp
  have slot: "slot1 s (j, p div BLOCK_SIZE)"
    using byte_slot1(1) [OF assms(8) _ p] assms(10) by (simp add: view)
  have "content1 s' j ! p = mem_write (fs_data1 s) (blk1 s (i, unat off div BLOCK_SIZE) * BLOCK_SIZE + unat off mod BLOCK_SIZE) bs
      (blk1 s (j, p div BLOCK_SIZE) * BLOCK_SIZE + p mod BLOCK_SIZE)"
    using p by (simp add: content1_def byte_addr1_def view)
  also have "\<dots> = (if (i, unat off div BLOCK_SIZE) = (j, p div BLOCK_SIZE) \<and> unat off mod BLOCK_SIZE \<le> p mod BLOCK_SIZE \<and>
      p mod BLOCK_SIZE < unat off mod BLOCK_SIZE + length bs then bs ! (p mod BLOCK_SIZE - unat off mod BLOCK_SIZE)
      else fs_data1 s (byte_addr1 s j p))"
    unfolding byte_addr1_def
    by (rule mem_write_slot1 [OF assms(1,3) slot assms(6)]) (simp add: config)
  also have "\<dots> = ?new ! p"
  proof -
    note inside = range_in_block(1) [OF assms(6), of p] and diff = range_in_block(2) [OF assms(6), of p]
    show ?thesis
    proof (cases "j = i \<and> unat off \<le> p \<and> p < unat off + length bs")
      case True
      then have "p - unat off < length bs" by auto
      with True inside diff assms(5) show ?thesis by (simp add: nth_append min_absorb1)
    next
      case False
      then have "fs_data1 s (byte_addr1 s j p) = ?new ! p"
        using p size' assms(5)
        by (cases "p < unat off") (auto simp: content1_def nth_append min_absorb1)
      with False inside show ?thesis by auto
    qed
  qed
  finally show "content1 s' j ! p = ?new ! p" .
qed

lemma wf1_stored:
  assumes "wf1 s" and "is_file1 s i" and "slot1 s (i, k)" and "r + length bs \<le> BLOCK_SIZE"
    and "unat (of_offset (open_file_table1 s f)) = k * BLOCK_SIZE + r"
    and "unat (of_offset (open_file_table1 s f)) \<le> length (content1 s i)"
    and "unat (of_offset (open_file_table1 s f)) + length bs \<le> MAX_DIRECT_SIZE"
  shows "wf1 (stored f i (blk1 s (i, k) * BLOCK_SIZE + r) bs s)"
proof -
  let ?s = "stored f i (blk1 s (i, k) * BLOCK_SIZE + r) bs s" and ?off = "of_offset (open_file_table1 s f)"
  note view = stored_view [OF assms(2), of f "blk1 s (i, k) * BLOCK_SIZE + r" bs]
  have i0: "i \<noteq> 0" using assms(2) by (simp add: is_file1_def)
  have size': "unat (max (i_size1 (inode_table1 s i)) (?off + of_nat (length bs))) =
      max (unat (i_size1 (inode_table1 s i))) (unat ?off + length bs)"
    using unat_advance1 [OF assms(7)] by (simp add: unat_max)
  have node: "inode_table1 ?s j = (if j = i then (inode_table1 s i)\<lparr>i_size1 :=
      max (i_size1 (inode_table1 s i)) (?off + of_nat (length bs))\<rparr> else inode_table1 s j)" for j
    by (simp add: stored_def Let_def)
  have same: "fs_data1 ?s (dir_addr1 s + c) = fs_data1 s (dir_addr1 s + c)" if "c < BLOCK_SIZE" for c
    unfolding view dir_addr1_def
    using mem_write_slot1 [OF assms(1,3) root_slot1 [OF assms(1)] assms(4) that] i0 by simp
  note entries = same_block_entries [where m' = "fs_data1 ?s" and m = "fs_data1 s" and p = "dir_addr1 s", OF same]
  then have "dir_ok1 ?s" using assms(1) by (simp add: wf1_def dir_ok1_def view(1,4))
  moreover have "node_ok1 (inode_table1 ?s j)" if j: "is_file1 s j" for j
  proof (cases "j = i")
    case False
    with j assms(1) show ?thesis by (simp add: node wf1_def files_ok1_def)
  next
    case True
    have old: "node_ok1 (inode_table1 s i)" using assms(1,2) by (simp add: wf1_def files_ok1_def)
    have "i_data_block1 (inode_table1 s i) q \<noteq> -1"
      if q: "q * BLOCK_SIZE < max (unat (i_size1 (inode_table1 s i))) (unat ?off + length bs)" for q
    proof (cases "q = k")
      case True
      then show ?thesis using assms(3) by (simp add: slot1_def)
    next
      case False
      have "q * BLOCK_SIZE < unat (i_size1 (inode_table1 s i))"
      proof (rule ccontr)
        assume "\<not> ?thesis"
        then have "unat (i_size1 (inode_table1 s i)) \<le> q * BLOCK_SIZE" "q * BLOCK_SIZE < k * BLOCK_SIZE + r + length bs"
          using q assms(5) by (simp_all add: less_max_iff_disj)
        then have "q * BLOCK_SIZE < k * BLOCK_SIZE + BLOCK_SIZE" "k * BLOCK_SIZE \<le> q * BLOCK_SIZE"
          using assms(4,5) assms(6) [unfolded length_content1] by linarith+
        then have "q < Suc k" "k \<le> q" by (auto simp: config)
        with False show False by simp
      qed
      with old show ?thesis by (simp add: node_ok1_def)
    qed
    with True old assms(7) show ?thesis by (simp add: node node_ok1_def size')
  qed
  then have "files_ok1 ?s" by (simp add: files_ok1_def view)
  moreover have "blocks_ok1 ?s"
    using assms(1) by (simp add: wf1_def blocks_ok1_def view node) (simp add: stored_def Let_def)
  moreover have "root_ok1 ?s"
    using assms(1) i0 by (simp add: wf1_def root_ok1_def view node) (simp add: stored_def Let_def)
  moreover have "handles_ok1 ?s \<and> open_files_count1 ?s = int (handle_count1 ?s)"
    using assms(1) by (auto simp: wf1_def handles_ok1_def handle_count1_def view) (auto simp: stored_def Let_def)
  ultimately show ?thesis by (simp add: wf1_def)
qed

text \<open>One pass of the loop is the abstract write of the bytes it copies.\<close>

lemma stored_refines:
  assumes "ok1 s" and "abs_open1 s f = Some (i, off)" and "slot1 s (i, off div BLOCK_SIZE)"
    and "off mod BLOCK_SIZE + length bs \<le> BLOCK_SIZE" and "off + length bs \<le> MAX_DIRECT_SIZE"
  defines "s' \<equiv> stored f i (blk1 s (i, off div BLOCK_SIZE) * BLOCK_SIZE + off mod BLOCK_SIZE) bs s"
  shows "ok1 s'" and "abs1 s' = snd (a_store f bs (abs1 s))"
proof -
  have wf: "wf1 s" using assms(1) by simp
  note h = abs_open1_Some [OF wf assms(2)]
  note view = stored_view [OF h(3), of f "blk1 s (i, off div BLOCK_SIZE) * BLOCK_SIZE + off mod BLOCK_SIZE" bs, folded s'_def]
  have i0: "i \<noteq> 0" using h(3) by (simp add: is_file1_def)
  have off: "off \<le> length (content1 s i)" using assms(1,2) by (auto simp: ok1_def offsets_ok1_def)
  have "unat (of_offset (open_file_table1 s f)) = off div BLOCK_SIZE * BLOCK_SIZE + off mod BLOCK_SIZE"
    using h(5) by simp
  from wf1_stored [OF wf h(3) assms(3,4) this] off assms(5) have wf': "wf1 s'" by (simp add: s'_def h(5))
  have content: "content1 s' j = (if j = i then take off (content1 s i) @ bs @ drop (off + length bs) (content1 s i)
      else content1 s j)" if "is_file1 s j" for j
    using content1_stored [OF wf h(3) _ refl _ _ _ wf' _ that, of f bs] assms(3-5) off s'_def h(5) by simp
  have files: "abs_files1 s' = (abs_files1 s)(i \<mapsto> take off (content1 s i) @ bs @ drop (off + length bs) (content1 s i))"
    using content h(3) by (auto simp: abs_files1_def view fun_eq_iff)
  have open': "abs_open1 s' = (abs_open1 s)(f \<mapsto> (i, off + length bs))"
    using h assms(5) unat_advance1 [of "of_offset (open_file_table1 s f)" "length bs"]
    by (auto simp: abs_open1_def s'_def stored_def Let_def fun_eq_iff)
  have same: "fs_data1 s' (dir_addr1 s + c) = fs_data1 s (dir_addr1 s + c)" if "c < BLOCK_SIZE" for c
    unfolding view dir_addr1_def
    using mem_write_slot1 [OF wf assms(3) root_slot1 [OF wf] assms(4) that] i0 by simp
  note entries = same_block_entries [where m' = "fs_data1 s'" and m = "fs_data1 s" and p = "dir_addr1 s", OF same]
  then have dir: "abs_dir1 s' = abs_dir1 s" by (simp add: abs_dir1_def [abs_def] view(4))
  have "names_ok1 s'"
    using assms(1) entries by (auto simp: ok1_def names_ok1_def view(4) distinct_names_def inj_on_def)
  moreover have "offsets_ok1 s'"
    unfolding offsets_ok1_def
  proof (intro allI impI)
    have len: "length (content1 s' j) = (if j = i then max (length (content1 s i)) (off + length bs) else length (content1 s j))"
      if "is_file1 s j" for j
      using content [OF that] off by (auto simp: max_def simp del: length_content1)
    fix g j off' assume g: "abs_open1 s' g = Some (j, off')"
    show "off' \<le> length (content1 s' j)"
    proof (cases "g = f")
      case True
      with g len [OF h(3)] show ?thesis by (simp add: open' del: length_content1)
    next
      case False
      with g have g': "abs_open1 s g = Some (j, off')" by (simp add: open')
      with assms(1) have "off' \<le> length (content1 s j)" by (auto simp: ok1_def offsets_ok1_def)
      with len [OF abs_open1_Some(3) [OF wf g']] show ?thesis by (auto simp del: length_content1)
    qed
  qed
  ultimately show "ok1 s'" using wf' by (simp add: ok1_def)
  show "abs1 s' = snd (a_store f bs (abs1 s))"
    using assms(2) h(3) files open' dir by (simp add: a_store_def Let_def abs1_def) (simp add: abs_files1_def)
qed

section \<open>The loops\<close>

lemma a_store_view:
  assumes "a_open a f = Some (i, off)"
  shows "fst (a_store f xs a) = int (length xs)" and "a_open (snd (a_store f xs a)) f = Some (i, off + length xs)"
  using assms by (simp_all add: a_store_def Let_def)

lemma same_locks_free: "same_locks s s' \<Longrightarrow> locks_free ptr n s' = locks_free ptr n s"
  by (simp add: same_locks_def locks_free_def)

text \<open>
  The write loop: with room in the direct blocks and the end block far enough, all the bytes are
  written, as the abstract write does it.
\<close>

lemma write_blocks_refines:
  fixes off k e left wr :: size_t
  assumes "ok1 s" and "abs_open1 s f = Some (i, unat off)" and "locks_free Block_lock DATA_BLOCKS s"
    and "unat k = unat off div BLOCK_SIZE" and "unat off + unat left \<le> unat e * BLOCK_SIZE"
    and "unat off + unat left \<le> MAX_DIRECT_SIZE" and "0 < unat left" and "unat left \<le> length buffer"
  shows "\<exists>s'. write_blocks f i k e buffer left wr s = Ok (Some (wr + left), s') \<and> ok1 s' \<and>
    abs1 s' = snd (a_store f (take (unat left) buffer) (abs1 s)) \<and> same_locks s s'"
  using assms
proof (induction "unat left" arbitrary: s off k left buffer wr rule: less_induct)
  case less
  note ok = less.prems(1) and room = less.prems(5,6) and buf = less.prems(8)
  have wf: "wf1 s" using ok by simp
  note h = abs_open1_Some [OF wf less.prems(2)]
  let ?r = "unat off mod BLOCK_SIZE" let ?n = "min (unat left) (BLOCK_SIZE - ?r)"
  have off: "of_offset (open_file_table1 s f) = off" using h(5) by (simp add: word_unat_eq_iff)
  have "unat off < MAX_DIRECT_BLOCKS * BLOCK_SIZE"
    using less.prems(6,7) by (simp add: config MAX_DIRECT_SIZE_def)
  then have k: "unat k < MAX_DIRECT_BLOCKS"
    using less.prems(4) by (simp add: div_less_iff_less_mult config)
  have "unat k * BLOCK_SIZE \<le> unat off" using less.prems(4) by simp
  then have "unat k * BLOCK_SIZE < unat e * BLOCK_SIZE" using less.prems(5,7) by linarith
  then have ke: "k < e" by (simp add: word_less_nat_alt)
  obtain s1 where s1: "direct_for_write i (unat k) s = Ok (Some (blk1 s1 (i, unat k) * BLOCK_SIZE), s1)"
    "wf1 s1" "grown s s1" "slot1 s1 (i, unat k)" "same_locks s s1"
    using direct_for_write_eq [OF wf h(3) k less.prems(3)] .
  have ok': "ok1 s1" and abs': "abs1 s1 = abs1 s" using grown_view [OF wf s1(3)] ok s1(2) by auto
  then have open1: "abs_open1 s1 f = Some (i, unat off)" using less.prems(2) by (simp add: abs1_def)
  have off1: "of_offset (open_file_table1 s1 f) = off" using s1(3) off by (simp add: grown_def)
  have r: "?r + ?n \<le> BLOCK_SIZE" "0 < ?n" using less.prems(7) by (simp_all add: config)
  let ?bs = "take ?n buffer" let ?a = "blk1 s1 (i, unat k) * BLOCK_SIZE + ?r"
  have len: "length ?bs = ?n" using buf by simp
  have n: "unat (of_nat ?n :: size_t) = ?n"
    by (rule unat_of_nat_small) (use unat_size_less [of left] in simp)
  have copy: "memcpy_in (blk1 s1 (i, unat k) * BLOCK_SIZE + ?r) buffer ?n (fs_data1 s1) = Ok (mem_write (fs_data1 s1) ?a ?bs)"
  proof -
    have "Suc (blk1 s1 (i, unat k)) * BLOCK_SIZE \<le> DATA_BLOCKS * BLOCK_SIZE"
      using slot_block1(2) [OF s1(2,4)] by (intro mult_le_mono1) simp
    with r(1) buf show ?thesis by (simp add: memcpy_in_def mult.commute)
  qed
  define s2 where "s2 = stored f i ?a ?bs s1"
  have s2: "ok1 s2" "abs1 s2 = snd (a_store f ?bs (abs1 s))"
  proof -
    have "slot1 s1 (i, unat off div BLOCK_SIZE)" using s1(4) by (simp only: less.prems(4))
    moreover have "?r + length ?bs \<le> BLOCK_SIZE" using r(1) by (simp only: len)
    moreover have "unat off + length ?bs \<le> MAX_DIRECT_SIZE" unfolding len using less.prems(6) by linarith
    ultimately show "ok1 s2" "abs1 s2 = snd (a_store f ?bs (abs1 s))"
      using stored_refines [OF ok' open1] by (simp_all only: s2_def abs' less.prems(4))
  qed
  have after: "after_copy f i (of_nat ?n) (s1\<lparr>fs_data1 := mem_write (fs_data1 s1) ?a ?bs\<rparr>) = s2"
    unfolding s2_def by (rule stored_eq) (simp only: n len)
  have locks: "same_locks s s2"
    using same_locks_trans [OF s1(5) stored_view(5)] s1(3) h(3) by (simp add: s2_def grown_def)
  have step: "write_blocks f i k e buffer left wr s =
    (if unat left \<le> BLOCK_SIZE - ?r then Ok (Some (wr + of_nat ?n), s2)
     else write_blocks f i (k + 1) e (drop ?n buffer) (left - of_nat ?n) (wr + of_nat ?n) s2)"
    unfolding write_blocks.simps [of f i k e buffer left wr s] if_P [OF ke] block_for_write_def if_P [OF k] s1(1)
      and_then.simps prod.case option.case off1 chunk_eq [OF less.prems(4-6)] unat_block_arith n copy Let_def after
    by (rule refl)
  show ?case
  proof (cases "unat left \<le> BLOCK_SIZE - ?r")
    case True
    then have "?n = unat left" by simp
    with True step s2 locks show ?thesis by simp
  next
    case False
    let ?left = "left - of_nat ?n :: size_t" let ?off = "off + of_nat ?n :: size_t"
    have left: "unat ?left = unat left - ?n" using n by (simp add: unat_sub word_le_nat_alt)
    have off2: "unat ?off = unat off + ?n" using unat_advance1 [of off ?n] less.prems(6) by simp
    have n': "?n = BLOCK_SIZE - ?r" using False by simp
    have "unat off = unat off div BLOCK_SIZE * BLOCK_SIZE + ?r" "?r < BLOCK_SIZE" by (simp_all add: config)
    then have "unat ?off = Suc (unat off div BLOCK_SIZE) * BLOCK_SIZE"
      unfolding mult_Suc using off2 n' by linarith
    then have "unat ?off div BLOCK_SIZE = Suc (unat off div BLOCK_SIZE)" by (simp add: config)
    moreover have "unat (k + 1) = Suc (unat k)" using unat_succ [of k] k by (simp add: config)
    ultimately have k': "unat (k + 1) = unat ?off div BLOCK_SIZE" using less.prems(4) by simp
    have "a_open (abs1 s2) f = Some (i, unat off + ?n)"
      unfolding s2(2) using less.prems(2) len by (subst a_store_view(2)) auto
    then have open2: "abs_open1 s2 f = Some (i, unat ?off)" by (simp add: off2)
    have lf: "locks_free Block_lock DATA_BLOCKS s2" using less.prems(3) same_locks_free [OF locks] by simp
    have sum: "unat ?off + unat ?left = unat off + unat left" "unat ?left < unat left" "0 < unat ?left"
      using left off2 False r(2) by linarith+
    have room': "unat ?off + unat ?left \<le> unat e * BLOCK_SIZE" "unat ?off + unat ?left \<le> MAX_DIRECT_SIZE"
      unfolding sum(1) using room by blast+
    have buf': "unat ?left \<le> length (drop ?n buffer)" using left buf by (simp only: length_drop) linarith
    obtain s' where s': "write_blocks f i (k + 1) e (drop ?n buffer) ?left (wr + of_nat ?n) s2 =
        Ok (Some (wr + of_nat ?n + ?left), s')" "ok1 s'"
      "abs1 s' = snd (a_store f (take (unat ?left) (drop ?n buffer)) (abs1 s2))" "same_locks s2 s'"
      using less.hyps [OF sum(2) s2(1) open2 lf k' room' sum(3) buf', of "wr + of_nat ?n"] by blast
    have c: "a_files (abs1 s) i = Some (content1 s i)" "unat off \<le> length (content1 s i)"
      using h(3) ok less.prems(2) by (auto simp: abs_files1_def ok1_def offsets_ok1_def)
    have "take ?n buffer @ take (unat ?left) (drop ?n buffer) = take (unat left) buffer"
      using left by (simp add: take_add [symmetric])
    then have "abs1 s' = snd (a_store f (take (unat left) buffer) (abs1 s))"
      using s'(3) a_store_append [of "abs1 s" f, OF _ c] less.prems(2) by (simp add: s2(2))
    with False step s' same_locks_trans [OF locks s'(4)] show ?thesis by simp
  qed
qed

text \<open>One pass of the read loop copies the next bytes of the file.\<close>

lemma read_chunk:
  assumes "off mod BLOCK_SIZE + n \<le> BLOCK_SIZE" and "off + n \<le> length (content1 s i)"
  shows "mem_read (fs_data1 s) (blk1 s (i, off div BLOCK_SIZE) * BLOCK_SIZE + off mod BLOCK_SIZE) n =
    take n (drop off (content1 s i))"
proof (rule nth_equalityI)
  show "length (mem_read (fs_data1 s) (blk1 s (i, off div BLOCK_SIZE) * BLOCK_SIZE + off mod BLOCK_SIZE) n) =
      length (take n (drop off (content1 s i)))"
    using assms(2) by (simp del: length_content1)
  fix j assume "j < length (mem_read (fs_data1 s) (blk1 s (i, off div BLOCK_SIZE) * BLOCK_SIZE + off mod BLOCK_SIZE) n)"
  then have j: "j < n" by simp
  have same: "off div BLOCK_SIZE = (off + j) div BLOCK_SIZE" "off mod BLOCK_SIZE \<le> (off + j) mod BLOCK_SIZE"
    using range_in_block(1) [OF assms(1), of "off + j"] j by auto
  moreover have "(off + j) mod BLOCK_SIZE = off mod BLOCK_SIZE + j"
    using range_in_block(2) [OF assms(1) same(1)] same(2) by simp
  ultimately have "byte_addr1 s i (off + j) = blk1 s (i, off div BLOCK_SIZE) * BLOCK_SIZE + off mod BLOCK_SIZE + j"
    by (simp add: byte_addr1_def)
  with j assms(2) show "mem_read (fs_data1 s) (blk1 s (i, off div BLOCK_SIZE) * BLOCK_SIZE + off mod BLOCK_SIZE) n ! j =
      take n (drop off (content1 s i)) ! j"
    by (simp add: content1_def)
qed

definition moved :: "nat \<Rightarrow> size_t \<Rightarrow> fs_state1 \<Rightarrow> fs_state1" where
  "moved f off s = put_file1 f (of_offset_update (\<lambda>_. off)) s"

lemma moved_view [simp]:
  "moved f b (moved f a s) = moved f b s" "of_offset (open_file_table1 (moved f a s) g) = (if g = f then a else of_offset (open_file_table1 s g))"
  "inode_table1 (moved f a s) = inode_table1 s" "fs_data1 (moved f a s) = fs_data1 s"
  "content1 (moved f a s) = content1 s" "blk1 (moved f a s) = blk1 s"
  "freeinode_ts1 (moved f a s) = freeinode_ts1 s" "free_blocks1 (moved f a s) = free_blocks1 s"
  "free_open_file_entries1 (moved f a s) = free_open_file_entries1 s"
  "open_files_count1 (moved f a s) = open_files_count1 s" "rwlocks (moved f a s) = rwlocks s"
  "open_files_mutex1 (moved f a s) = open_files_mutex1 s" "open_file_lock (moved f a s) = open_file_lock s"
  "of_inumber (open_file_table1 (moved f a s) g) = of_inumber (open_file_table1 s g)"
  by (simp_all add: moved_def put_defs1 content1_def [abs_def] byte_addr1_def blk1_def [abs_def])

lemma put_file_moved: "put_file1 f (of_offset_update (\<lambda>off. off + n)) s = moved f (of_offset (open_file_table1 s f) + n) s"
  by (simp add: moved_def put_file1_def offset_add)

lemma moved_same: "of_offset (open_file_table1 s f) = off \<Longrightarrow> moved f off s = s"
  by (cases s) (auto simp: moved_def put_file1_def fun_upd_idem)

lemma read_blocks_eq:
  fixes off k e left rd :: size_t
  assumes "wf1 s" and "is_file1 s i" and "unat off + unat left \<le> length (content1 s i)"
    and "unat k = unat off div BLOCK_SIZE" and "unat off + unat left \<le> unat e * BLOCK_SIZE"
    and "0 < unat left"
  shows "read_blocks f i k e left rd buffer (moved f off s) =
    Ok ((Some (rd + left), buffer @ take (unat left) (drop (unat off) (content1 s i))), moved f (off + left) s)"
  using assms(3-)
proof (induction "unat left" arbitrary: off k left buffer rd rule: less_induct)
  case less
  note room = less.prems(1,3)
  let ?r = "unat off mod BLOCK_SIZE" let ?n = "min (unat left) (BLOCK_SIZE - ?r)"
  let ?a = "blk1 s (i, unat k) * BLOCK_SIZE + ?r" let ?c = "content1 s i"
  have max: "unat off + unat left \<le> MAX_DIRECT_SIZE"
    using less.prems(1) size_le1 [OF assms(1,2)] by (simp add: MAX_DIRECT_SIZE_def)
  have slot: "slot1 s (i, unat k)" and k: "unat k < MAX_DIRECT_BLOCKS"
    using byte_slot1 [OF assms(1,2), of "unat off"] less.prems(1,2,4) by auto
  have "unat k * BLOCK_SIZE \<le> unat off" using less.prems(2) by simp
  then have "unat k * BLOCK_SIZE < unat e * BLOCK_SIZE" using less.prems(3,4) by linarith
  then have ke: "k < e" by (simp add: word_less_nat_alt)
  have r: "?r + ?n \<le> BLOCK_SIZE" "0 < ?n" "?r < BLOCK_SIZE" using less.prems(4) by (simp_all add: config)
  have n: "unat (of_nat ?n :: size_t) = ?n"
    by (rule unat_of_nat_small) (use unat_size_less [of left] in simp)
  have "unat off + ?n \<le> length ?c" using less.prems(1) by linarith
  from read_chunk [OF r(1) this] have bytes: "mem_read (fs_data1 s) ?a ?n = take ?n (drop (unat off) ?c)"
    by (simp only: less.prems(2))
  have copy: "memcpy_out ?a ?n (fs_data1 s) = Ok (take ?n (drop (unat off) ?c))"
  proof -
    have "Suc (blk1 s (i, unat k)) * BLOCK_SIZE \<le> DATA_BLOCKS * BLOCK_SIZE"
      using slot_block1(2) [OF assms(1) slot] by (intro mult_le_mono1) simp
    with r(1) bytes show ?thesis by (simp add: memcpy_out_def mult.commute)
  qed
  have block: "block_for_read i (unat k) (moved f off s) = Ok (Some (blk1 s (i, unat k) * BLOCK_SIZE))"
    using k slot_block1(1) [OF assms(1) slot] by (simp add: block_for_read_def)
  have step: "read_blocks f i k e left rd buffer (moved f off s) =
    (if unat left \<le> BLOCK_SIZE - ?r
     then Ok ((Some (rd + of_nat ?n), buffer @ take ?n (drop (unat off) ?c)), moved f (off + of_nat ?n) s)
     else read_blocks f i (k + 1) e (left - of_nat ?n) (rd + of_nat ?n) (buffer @ take ?n (drop (unat off) ?c))
            (moved f (off + of_nat ?n) s))"
    unfolding read_blocks.simps [of f i k e left rd buffer "moved f off s"] if_P [OF ke] block and_then.simps option.case
      moved_view simp_thms(6) if_True chunk_eq [OF less.prems(2,3) max] prod.case n unat_block_arith copy put_file_moved Let_def
    by (rule TrueI)
  show ?case
  proof (cases "unat left \<le> BLOCK_SIZE - ?r")
    case True
    then have "?n = unat left" by simp
    with True step show ?thesis by simp
  next
    case False
    let ?left = "left - of_nat ?n :: size_t" let ?off = "off + of_nat ?n :: size_t"
    have left: "unat ?left = unat left - ?n" using n by (simp add: unat_sub word_le_nat_alt)
    have off2: "unat ?off = unat off + ?n" using unat_advance1 [of off ?n] max by simp
    have n': "?n = BLOCK_SIZE - ?r" using False by simp
    have "unat off = unat off div BLOCK_SIZE * BLOCK_SIZE + ?r" by simp
    then have "unat ?off = Suc (unat off div BLOCK_SIZE) * BLOCK_SIZE"
      unfolding mult_Suc using off2 n' r(3) by linarith
    then have "unat ?off div BLOCK_SIZE = Suc (unat off div BLOCK_SIZE)" by (simp add: config)
    moreover have "unat (k + 1) = Suc (unat k)" using unat_succ [of k] k by (simp add: config)
    ultimately have k': "unat (k + 1) = unat ?off div BLOCK_SIZE" using less.prems(2) by simp
    have sum: "unat ?off + unat ?left = unat off + unat left" "unat ?left < unat left" "0 < unat ?left"
      using left off2 False r(2) by linarith+
    have room': "unat ?off + unat ?left \<le> length ?c" "unat ?off + unat ?left \<le> unat e * BLOCK_SIZE"
      unfolding sum(1) using room by blast+
    have "take ?n (drop (unat off) ?c) @ take (unat ?left) (drop (unat ?off) ?c) = take (unat left) (drop (unat off) ?c)"
    proof -
      have "unat left = ?n + unat ?left" using left by simp
      moreover have "drop (unat ?off) ?c = drop ?n (drop (unat off) ?c)" by (simp only: off2 drop_drop add.commute)
      ultimately show ?thesis by (metis take_add)
    qed
    moreover note less.hyps [OF sum(2) room'(1) k' room'(2) sum(3), of "rd + of_nat ?n" "buffer @ take ?n (drop (unat off) ?c)"]
    ultimately show ?thesis using False by (simp only: step if_False append_assoc) simp
  qed
qed

end
