(* ===== verification/FS1_Refine.thy ===== *)
theory FS1_Refine
  imports FS1_Blocks
begin

text \<open>
  The public operations of the first delivery on a state between two operations: all locks are free
  again afterwards, and the operation is the one of the abstract file system.
\<close>

definition ready1 :: "fs_state1 \<Rightarrow> bool" where
  "ready1 s \<longleftrightarrow> ok1 s \<and> quiet s"

lemma ready1D: "ready1 s \<Longrightarrow> ok1 s" "ready1 s \<Longrightarrow> quiet s" "ready1 s \<Longrightarrow> wf1 s"
  by (simp_all add: ready1_def)

section \<open>Writing and reading\<close>

text \<open>The two locks that reading and writing hold during their loops.\<close>

definition with_file_locks :: "nat \<Rightarrow> nat \<Rightarrow> fs_state1 \<Rightarrow> fs_state1" where
  "with_file_locks f i s = set_lock (Inode_lock (int i)) RW_Writer (set_lock (File_lock (int f)) RW_Writer s)"

lemma with_file_locks_view [simp]:
  "ok1 (with_file_locks f i s) = ok1 s" "abs1 (with_file_locks f i s) = abs1 s" "wf1 (with_file_locks f i s) = wf1 s"
  "open_file_table1 (with_file_locks f i s) = open_file_table1 s" "inode_table1 (with_file_locks f i s) = inode_table1 s"
  by (simp_all add: with_file_locks_def)

lemma abs1_eqD: "abs1 s' = abs1 s \<Longrightarrow> abs_open1 s' = abs_open1 s \<and> abs_files1 s' = abs_files1 s \<and> abs_dir1 s' = abs_dir1 s"
  by (simp add: abs1_def)

lemma take_file_locks:
  assumes "quiet s" and "f < MAX_OPEN_FILES" and "i < INODE_TABLE_SIZE"
  shows "write_lock_rwlock (File_lock (int f)) s = Ok (set_lock (File_lock (int f)) RW_Writer s)"
    and "write_lock_rwlock (Inode_lock (int i)) (set_lock (File_lock (int f)) RW_Writer s) = Ok (with_file_locks f i s)"
    and "locks_free Block_lock DATA_BLOCKS (with_file_locks f i s)"
  using assms quiet_locks(2) [OF assms(1)]
  by (auto simp: lock_simps quiet_def valid_file_handle_def valid_inumber_def with_file_locks_def)

text \<open>Releasing them from a state with the same locks gives a state with all locks free.\<close>

lemma release_file_locks:
  assumes "quiet s" and "f < MAX_OPEN_FILES" and "i < INODE_TABLE_SIZE" and "same_locks (with_file_locks f i s) s'"
  obtains s'' where "unlock_rwlock (File_lock (int f)) s' = Ok (set_lock (File_lock (int f)) RW_Free s')"
    and "unlock_rwlock (Inode_lock (int i)) (set_lock (File_lock (int f)) RW_Free s') = Ok s''"
    and "quiet s''" and "same_data s' s''"
proof (rule that)
  have l: "rwlocks s' = (rwlocks s)(File_lock (int f) := RW_Writer, Inode_lock (int i) := RW_Writer)"
    and m: "open_files_mutex1 s' = open_files_mutex1 s" "open_file_lock s' = open_file_lock s"
    using assms(4) by (simp_all add: same_locks_def with_file_locks_def)
  let ?s = "set_lock (Inode_lock (int i)) RW_Free (set_lock (File_lock (int f)) RW_Free s')"
  show "unlock_rwlock (File_lock (int f)) s' = Ok (set_lock (File_lock (int f)) RW_Free s')"
    "unlock_rwlock (Inode_lock (int i)) (set_lock (File_lock (int f)) RW_Free s') = Ok ?s"
    using assms(2,3) l by (simp_all add: lock_simps valid_file_handle_def valid_inumber_def)
  show "quiet ?s" using assms(1) l m by (auto simp: quiet_def)
  show "same_data s' ?s" by (simp add: same_data_def)
qed

lemma quiet_free:
  assumes "quiet s" and "same_locks s s'"
  shows "quiet s'"
  using assms by (simp add: quiet_def same_locks_def)

lemma refine_tfs_write1:
  assumes "ready1 s" and "abs_open1 s f = Some (i, off)" and "0 < unat w" and "unat w \<le> length buffer"
    and "off + unat w \<le> MAX_DIRECT_SIZE" and "aligned off (unat w)"
  shows "\<exists>s'. tfs_write1 (int f) buffer w s = Ok (int (unat w), s') \<and> ready1 s' \<and>
    abs1 s' = snd (a_store f (take (unat w) buffer) (abs1 s))"
proof -
  note ok = ready1D [OF assms(1)]
  note h = abs_open1_Some [OF ok(3) assms(2)]
  have i: "i < INODE_TABLE_SIZE" using h(3) by (simp add: is_file1_def)
  let ?off = "of_offset (open_file_table1 s f)" let ?s = "with_file_locks f i s"
  note locks = take_file_locks [OF ok(2) h(1) i]
  have open': "abs_open1 ?s f = Some (i, unat ?off)" using assms(2) h(5) abs1_eqD [of ?s s] by simp
  have e: "unat ?off + unat w \<le> unat (end_blocks ?off w) * BLOCK_SIZE" "unat ?off + unat w \<le> MAX_DIRECT_SIZE"
    using end_blocks_enough(2) [of ?off w] assms(5,6) by (auto simp: h(5))
  obtain s1 where s1: "write_blocks f i (?off div of_nat BLOCK_SIZE) (end_blocks ?off w) buffer w 0 ?s = Ok (Some (0 + w), s1)"
    "ok1 s1" "abs1 s1 = snd (a_store f (take (unat w) buffer) (abs1 ?s))" "same_locks ?s s1"
    using write_blocks_refines [OF _ open' locks(3) unat_block_arith(2) e assms(3,4), of 0] ok(1) by auto
  obtain s2 where s2: "unlock_rwlock (File_lock (int f)) s1 = Ok (set_lock (File_lock (int f)) RW_Free s1)"
    "unlock_rwlock (Inode_lock (int i)) (set_lock (File_lock (int f)) RW_Free s1) = Ok s2" "quiet s2" "same_data s1 s2"
    using release_file_locks [OF ok(2) h(1) i s1(4)] .
  have "sint w = int (unat w)" using assms(5) by (intro sint_small) (simp add: MAX_DIRECT_SIZE_def)
  moreover have "0 < w" using assms(3) by (simp add: word_less_nat_alt)
  ultimately have "tfs_write1 (int f) buffer w s = Ok (int (unat w), s2)"
    using s1(1) s2 locks h
    by (simp add: tfs_write1_def get_open_file_table_lock_def get_inode_table_lock_def)
  moreover have "ready1 s2" "abs1 s2 = snd (a_store f (take (unat w) buffer) (abs1 s))"
    using s1(2,3) s2(3) same_ok1 [OF s2(4)] by (simp_all add: ready1_def)
  ultimately show ?thesis by blast
qed

lemma refine_moved:
  assumes "ok1 s" and "abs_open1 s f = Some (i, off)" and "unat off' \<le> length (content1 s i)"
  shows "ok1 (moved f off' s)" and "abs1 (moved f off' s) = (abs1 s)\<lparr>a_open := (abs_open1 s)(f \<mapsto> (i, unat off'))\<rparr>"
    and "same_locks s (moved f off' s)"
proof -
  let ?s = "moved f off' s"
  have wf: "wf1 s" using assms(1) by simp
  note h = abs_open1_Some [OF wf assms(2)]
  have files: "is_file1 ?s = is_file1 s" by (simp add: is_file1_def [abs_def])
  then have "abs_files1 ?s = abs_files1 s" by (intro ext) (simp add: abs_files1_def)
  then have view: "is_file1 ?s = is_file1 s" "dir_addr1 ?s = dir_addr1 s" "abs_dir1 ?s = abs_dir1 s" "abs_files1 ?s = abs_files1 s"
    using files by (simp_all add: dir_addr1_def abs_dir1_def [abs_def])
  have slots: "slot1 ?s = slot1 s" by (simp add: slot1_def [abs_def] files)
  have open': "abs_open1 ?s = (abs_open1 s)(f \<mapsto> (i, unat off'))"
    using h(1,2,4) by (intro ext) (simp add: abs_open1_def)
  have "wf1 ?s"
    using wf by (simp add: wf1_def wf1_parts view slots)
  moreover have "offsets_ok1 ?s"
    unfolding offsets_ok1_def
  proof (intro allI impI)
    fix g j off1 assume "abs_open1 ?s g = Some (j, off1)"
    then have "g = f \<and> j = i \<and> off1 = unat off' \<or> abs_open1 s g = Some (j, off1)"
      unfolding open' by (simp split: if_splits)
    then show "off1 \<le> length (content1 ?s j)"
      using assms(1,3) unfolding ok1_def offsets_ok1_def moved_view by blast
  qed
  moreover have "names_ok1 ?s" using assms(1) by (simp add: ok1_def names_ok1_def view)
  ultimately show "ok1 ?s" by (simp add: ok1_def)
  show "abs1 ?s = (abs1 s)\<lparr>a_open := (abs_open1 s)(f \<mapsto> (i, unat off'))\<rparr>"
    by (simp add: abs1_def view open')
  show "same_locks s ?s" by (simp add: same_locks_def)
qed

lemma refine_tfs_read1:
  assumes "ready1 s" and "abs_open1 s f = Some (i, off)"
    and "aligned off (min (length (content1 s i) - off) (unat len))"
  shows "\<exists>s'. tfs_read1 (int f) len s = Ok (fst (a_read f (unat len) (abs1 s)), s') \<and> ready1 s' \<and>
    abs1 s' = snd (a_read f (unat len) (abs1 s))"
proof -
  note ok = ready1D [OF assms(1)]
  note h = abs_open1_Some [OF ok(3) assms(2)]
  have i: "i < INODE_TABLE_SIZE" using h(3) by (simp add: is_file1_def)
  have offs: "off \<le> length (content1 s i)" using ok(1) assms(2) by (auto simp: ok1_def offsets_ok1_def)
  let ?off = "of_offset (open_file_table1 s f)" let ?s = "with_file_locks f i s"
  let ?n = "min (length (content1 s i) - off) (unat len)"
  let ?w = "read_amount (i_size1 (inode_table1 s i)) ?off len"
  have w: "unat ?w = ?n" using offs h(5) by (subst read_amount_unat) auto
  note locks = take_file_locks [OF ok(2) h(1) i]
  have view: "content1 ?s = content1 s" "is_file1 ?s = is_file1 s"
    using same_view [of s ?s] by (simp_all add: with_file_locks_def same_data_def)
  have max: "length (content1 s i) \<le> MAX_DIRECT_SIZE" using size_le1 [OF ok(3) h(3)] by (simp add: MAX_DIRECT_SIZE_def)
  have le: "unat ?off + unat ?w \<le> length (content1 s i)" unfolding w h(5) using offs by linarith
  have same: "moved f ?off ?s = ?s" by (rule moved_same) simp
  have read: "read_range f i len ?s =
    Ok ((Some ?w, take ?n (drop off (content1 s i))), moved f (?off + ?w) ?s)"
  proof (cases "?w = 0")
    case True
    with w have "?n = 0" by simp
    then show ?thesis using True same by (simp add: read_range_def)
  next
    case False
    then have pos: "0 < unat ?w" by (simp add: unat_gt_0)
    have "unat ?off + unat ?w \<le> unat (end_blocks ?off ?w) * BLOCK_SIZE"
      using end_blocks_enough(2) [of ?off ?w] assms(3) le max by (simp add: h(5) w)
    from read_blocks_eq [OF _ _ _ unat_block_arith(2) this pos, of ?s i f 0 "[]"] ok(3) h(3) le
    show ?thesis using False by (simp add: read_range_def Let_def view same w h(5) del: length_content1)
  qed
  have adv: "unat (?off + ?w) = off + ?n"
    using unat_plus_small [of ?off ?w] le max by (simp add: h(5) w del: length_content1)
  have open': "abs_open1 ?s f = Some (i, off)" using assms(2) abs1_eqD [of ?s s] by simp
  have mv: "ok1 (moved f (?off + ?w) ?s)"
    "abs1 (moved f (?off + ?w) ?s) = (abs1 s)\<lparr>a_open := (abs_open1 s)(f \<mapsto> (i, off + ?n))\<rparr>"
    "same_locks ?s (moved f (?off + ?w) ?s)"
    using refine_moved [OF _ open', of "?off + ?w"] ok(1) le w h(5) adv abs1_eqD [of ?s s] view
    by (simp_all del: length_content1)
  obtain s2 where s2: "unlock_rwlock (File_lock (int f)) (moved f (?off + ?w) ?s) = Ok (set_lock (File_lock (int f)) RW_Free (moved f (?off + ?w) ?s))"
    "unlock_rwlock (Inode_lock (int i)) (set_lock (File_lock (int f)) RW_Free (moved f (?off + ?w) ?s)) = Ok s2"
    "quiet s2" "same_data (moved f (?off + ?w) ?s) s2"
    using release_file_locks [OF ok(2) h(1) i mv(3)] .
  have "sint ?w = int ?n"
    using w max by (subst sint_small) (auto simp: MAX_DIRECT_SIZE_def)
  then have "tfs_read1 (int f) len s = Ok ((int ?n, take ?n (drop off (content1 s i))), s2)"
    using s2 locks h read
    by (simp add: tfs_read1_def get_open_file_table_lock_def get_inode_table_lock_def Let_def del: length_content1)
  moreover have "take (unat len) (drop off (content1 s i)) = take ?n (drop off (content1 s i))"
    by (cases "length (content1 s i) - off \<le> unat len") (auto simp: min_def)
  then have "a_read f (unat len) (abs1 s) =
      ((int ?n, take ?n (drop off (content1 s i))), (abs1 s)\<lparr>a_open := (abs_open1 s)(f \<mapsto> (i, off + ?n))\<rparr>)"
    using assms(2) h(3) by (simp add: a_read_def abs_files1_def Let_def del: length_content1)
  ultimately show ?thesis
    using s2(3) mv same_ok1 [OF s2(4)] by (auto simp: ready1_def simp del: length_content1)
qed

end
