(* ===== verification/FS1_Open.thy ===== *)
theory FS1_Open
  imports FS1_Refine FS_Correct
begin

text \<open>
  Opening, closing and looking up in the first delivery, against the abstract file system.
\<close>

section \<open>Handles\<close>

text \<open>Handles added or removed: a change of the open file table alone.\<close>

lemma handle_change:
  assumes "inode_table1 s' = inode_table1 s" and "freeinode_ts1 s' = freeinode_ts1 s" and "fs_data1 s' = fs_data1 s"
    and "free_blocks1 s' = free_blocks1 s"
  shows "is_file1 s' = is_file1 s" "slot1 s' = slot1 s" "blk1 s' = blk1 s" "dir_addr1 s' = dir_addr1 s"
    "content1 s' = content1 s" "abs_dir1 s' = abs_dir1 s" "abs_files1 s' = abs_files1 s"
    "root_ok1 s' = root_ok1 s" "files_ok1 s' = files_ok1 s" "blocks_ok1 s' = blocks_ok1 s" "dir_ok1 s' = dir_ok1 s"
    "names_ok1 s' = names_ok1 s"
proof -
  show v: "is_file1 s' = is_file1 s" "blk1 s' = blk1 s" using assms by (simp_all add: is_file1_def [abs_def] blk1_def [abs_def])
  show w: "slot1 s' = slot1 s" "dir_addr1 s' = dir_addr1 s" "content1 s' = content1 s"
    using assms v by (simp_all add: slot1_def [abs_def] dir_addr1_def content1_def [abs_def] byte_addr1_def)
  show "abs_dir1 s' = abs_dir1 s" using assms w by (simp add: abs_dir1_def [abs_def])
  show "abs_files1 s' = abs_files1 s" using v w by (intro ext) (simp add: abs_files1_def)
  show "root_ok1 s' = root_ok1 s" "files_ok1 s' = files_ok1 s" "blocks_ok1 s' = blocks_ok1 s" "dir_ok1 s' = dir_ok1 s"
    "names_ok1 s' = names_ok1 s"
    using assms v w by (simp_all add: wf1_parts names_ok1_def)
qed

lemma refine_add_handle1:
  assumes "ok1 s" and "is_file1 s i" and "unat offset \<le> length (content1 s i)"
    and "locks_free File_lock MAX_OPEN_FILES s" and "open_files_mutex1 s = Unlocked"
  shows "\<exists>s'. add_to_open_file_table1 (int i) offset s = Ok (fst (a_add_handle i (unat offset) (abs1 s)), s') \<and>
    abs1 s' = snd (a_add_handle i (unat offset) (abs1 s)) \<and> ok1 s' \<and> same_locks s s'"
proof (cases rule: first_free_cases [of "free_open_file_entries1 s" MAX_OPEN_FILES])
  case full
  with assms show ?thesis
    by (simp add: add_handle1_eq a_add_handle_def first_free_abs_open1)
next
  case (found f)
  let ?s = "s\<lparr>free_open_file_entries1 := (free_open_file_entries1 s)(f := TAKEN),
      open_file_table1 := (open_file_table1 s)(f := \<lparr>of_inumber = int i, of_offset = offset\<rparr>),
      open_files_count1 := open_files_count1 s + 1\<rparr>"
  have add: "add_to_open_file_table1 (int i) offset s = Ok (int f, ?s)"
    using assms(4,5) found by (simp add: add_handle1_eq)
  define t where "t = ?s"
  have "inode_table1 t = inode_table1 s" "freeinode_ts1 t = freeinode_ts1 s" "fs_data1 t = fs_data1 s"
    "free_blocks1 t = free_blocks1 s" by (simp_all add: t_def)
  note view = handle_change [OF this]
  have cnt: "open_files_count1 t = open_files_count1 s + 1" by (simp add: t_def)
  have open': "abs_open1 t = (abs_open1 s)(f \<mapsto> (i, unat offset))"
    using found(2) by (intro ext) (simp add: abs_open1_def t_def)
  have "{g. g < MAX_OPEN_FILES \<and> free_open_file_entries1 t g = TAKEN} =
      insert f {g. g < MAX_OPEN_FILES \<and> free_open_file_entries1 s g = TAKEN}"
    using found(2) by (auto simp: t_def)
  then have "handle_count1 t = Suc (handle_count1 s)"
    unfolding handle_count1_def using found(3) by simp
  moreover have "handles_ok1 t"
    using assms(1,2) by (auto simp: ok1_def wf1_def handles_ok1_def view) (auto simp: t_def split: if_splits)
  ultimately have "wf1 t" using assms(1) by (simp add: ok1_def wf1_def view cnt)
  moreover have "offsets_ok1 t"
    using assms(1,3) by (auto simp: ok1_def offsets_ok1_def open' view simp del: length_content1)
  ultimately have "ok1 t" using assms(1) by (simp add: ok1_def view)
  moreover have "a_add_handle i (unat offset) (abs1 s) = (int f, abs1 t)"
    using found by (simp add: a_add_handle_def first_free_abs_open1) (simp add: abs1_def open' view)
  moreover have "same_locks s t" by (simp add: same_locks_def t_def)
  ultimately show ?thesis using add [folded t_def] by auto
qed

lemma refine_tfs_close1:
  assumes "ready1 s" and "f < MAX_OPEN_FILES"
  shows "\<exists>s'. tfs_close1 (int f) s = Ok (fst (a_close f (abs1 s)), s') \<and>
    abs1 s' = snd (a_close f (abs1 s)) \<and> ready1 s'"
proof (cases "free_open_file_entries1 s f = TAKEN")
  case False
  with assms quiet_locks(3) [of s] show ?thesis
    by (simp add: ready1_def quiet_def tfs_close1_def remove_handle1_eq valid_file_handle_def a_close_def abs_open1_def)
next
  case True
  let ?s = "s\<lparr>open_files_count1 := open_files_count1 s - 1,
      free_open_file_entries1 := (free_open_file_entries1 s)(f := FREE)\<rparr>"
  have q: "quiet s" and ok: "ok1 s" using assms(1) by (simp_all add: ready1_def)
  have rem: "tfs_close1 (int f) s = Ok (0, ?s)"
    using assms(2) q quiet_locks(3) [OF q] True
    by (simp add: tfs_close1_def remove_handle1_eq valid_file_handle_def quiet_def)
  define t where "t = ?s"
  have "inode_table1 t = inode_table1 s" "freeinode_ts1 t = freeinode_ts1 s" "fs_data1 t = fs_data1 s"
    "free_blocks1 t = free_blocks1 s" by (simp_all add: t_def)
  note view = handle_change [OF this]
  have cnt: "open_files_count1 t = open_files_count1 s - 1" by (simp add: t_def)
  have open': "abs_open1 t = (abs_open1 s)(f := None)"
    by (intro ext) (simp add: abs_open1_def t_def)
  have "{g. g < MAX_OPEN_FILES \<and> free_open_file_entries1 s g = TAKEN} =
      insert f {g. g < MAX_OPEN_FILES \<and> free_open_file_entries1 t g = TAKEN}"
    using True assms(2) by (auto simp: t_def)
  then have "handle_count1 s = Suc (handle_count1 t)"
    unfolding handle_count1_def by (simp add: t_def)
  moreover have "handles_ok1 t" using ok by (auto simp: ok1_def wf1_def handles_ok1_def view) (auto simp: t_def split: if_splits)
  ultimately have "wf1 t" using ok by (simp add: ok1_def wf1_def view cnt)
  moreover have "offsets_ok1 t" using ok by (auto simp: ok1_def offsets_ok1_def open' view simp del: length_content1)
  ultimately have "ok1 t" using ok by (simp add: ok1_def view)
  moreover have "a_close f (abs1 s) = (0, abs1 t)"
    using True assms(2) by (simp add: a_close_def abs1_def open' view) (simp add: abs_open1_def)
  moreover have "quiet t" using q by (simp add: quiet_def t_def)
  ultimately show ?thesis using rem [folded t_def] by (simp add: ready1_def)
qed

section \<open>Looking up\<close>

lemma lookup1_path:
  assumes "wf1 s" and "locks_free Inode_lock INODE_TABLE_SIZE s" and "locks_free Dir_lock MAX_DIR_ENTRIES s" and "n \<noteq> []"
  shows "tfs_lookup1 (path n) s = Ok (find_entry (fs_data1 s) (dir_addr1 s) n 0, s)"
proof -
  have "i_node_type1 (inode_table1 s 0) = T_DIRECTORY" using assms(1) by (simp add: wf1_def root_ok1_def)
  with assms root_block1 [OF assms(1)] show ?thesis
    by (simp add: tfs_lookup1_def path_def valid_pathname_def c_char_def find_in_root1_eq)
qed

lemma find_entry_abs1:
  assumes "wf1 s" and "good_name n"
  shows "find_entry (fs_data1 s) (dir_addr1 s) n 0 = a_lookup n (abs1 s)"
    and "abs_dir1 s n = Some i \<Longrightarrow> find_entry (fs_data1 s) (dir_addr1 s) n 0 = int i \<and> is_file1 s i"
proof -
  let ?r = "find_entry (fs_data1 s) (dir_addr1 s) n 0"
  show some: "?r = int i \<and> is_file1 s i" if i: "abs_dir1 s n = Some i" for i
  proof -
    have "?r \<noteq> -1" using i by (auto simp: abs_dir1_def Let_def split: if_splits)
    from found_file1 [OF assms(1) this] obtain j where "?r = int j" "is_file1 s j" .
    with i show ?thesis by (auto simp: abs_dir1_def Let_def split: if_splits)
  qed
  show "?r = a_lookup n (abs1 s)"
  proof (cases "abs_dir1 s n")
    case None
    with assms(2) show ?thesis by (auto simp: a_lookup_def abs_dir1_def Let_def split: if_splits)
  next
    case (Some j)
    with some [OF Some] show ?thesis by (simp add: a_lookup_def)
  qed
qed

lemma refine_tfs_lookup1:
  assumes "ready1 s" and "good_name n"
  shows "tfs_lookup1 (path n) s = Ok (a_lookup n (abs1 s), s)"
  using assms lookup1_path [of s n] quiet_locks [of s] find_entry_abs1(1) [of s n]
  by (simp add: ready1_def good_name_def)

section \<open>Truncation\<close>

text \<open>The first \<open>m\<close> block pointers of i-node \<open>i\<close> released.\<close>

definition cut :: "nat \<Rightarrow> nat \<Rightarrow> fs_state1 \<Rightarrow> fs_state1" where
  "cut i m s = s\<lparr>free_blocks1 := (\<lambda>b. if b \<in> (\<lambda>k. blk1 s (i, k)) ` {..<m} then FREE else free_blocks1 s b),
     inode_table1 := (inode_table1 s)(i := (inode_table1 s i)\<lparr>i_data_block1 :=
       (\<lambda>k. if k < m then -1 else i_data_block1 (inode_table1 s i) k)\<rparr>)\<rparr>"

lemma truncate_direct_prefix:
  assumes "locks_free Block_lock DATA_BLOCKS s" and "\<And>k. k < m \<Longrightarrow> valid_block_number (i_data_block1 (inode_table1 s i) k)"
    and "j \<le> m" and "m \<le> limit"
  shows "truncate_direct i j limit (cut i j s) = truncate_direct i m limit (cut i m s)"
  using assms(3)
proof (induction "m - j" arbitrary: j)
  case 0
  then show ?case by simp
next
  case (Suc d)
  then have j: "j < m" "d = m - Suc j" "Suc j \<le> m" by auto
  have lf: "locks_free Block_lock DATA_BLOCKS (cut i j s)" using assms(1) by (simp add: locks_free_def cut_def)
  have same: "i_data_block1 (inode_table1 (cut i j s) i) j = i_data_block1 (inode_table1 s i) j" by (simp add: cut_def)
  have "put_inode1 i (\<lambda>n. n\<lparr>i_data_block1 := (i_data_block1 n)(j := -1)\<rparr>)
      (put_block1 (nat (i_data_block1 (inode_table1 s i) j)) FREE (cut i j s)) = cut i (Suc j) s"
    by (cases s) (auto simp: cut_def put_defs1 blk1_def lessThan_Suc fun_eq_iff less_Suc_eq)
  with Suc(1) [OF j(2,3)] assms(2) [OF j(1)] j(1) assms(4) show ?case
    by (simp add: truncate_direct.simps [of i j] data_block_free1_eq [OF lf] same)
qed

lemma truncate_direct_eq:
  assumes "locks_free Block_lock DATA_BLOCKS s" and "\<And>k. k < m \<Longrightarrow> valid_block_number (i_data_block1 (inode_table1 s i) k)"
  shows "truncate_direct i 0 m (cut i 0 s) = Ok (0, cut i m s)"
  using truncate_direct_prefix [OF assms le0 order_refl] by (simp add: truncate_direct.simps [of i m])

lemma cut_0: "cut i 0 s = s"
  by (cases s) (simp add: cut_def)

text \<open>
  The sizes for which truncation is right: at most nine blocks, and no multiple of the block size
  (except the empty file).
\<close>

definition can_truncate :: "nat \<Rightarrow> bool" where
  "can_truncate n \<longleftrightarrow> n = 0 \<or> n < 9216 \<and> n mod BLOCK_SIZE \<noteq> 0"

definition blocks_cut :: "nat \<Rightarrow> nat" where
  "blocks_cut n = (if n < BLOCK_SIZE then 0 else n div BLOCK_SIZE + 1)"

definition emptied :: "nat \<Rightarrow> fs_state1 \<Rightarrow> fs_state1" where
  "emptied i s = put_inode1 i (i_size1_update (\<lambda>_. 0)) (cut i (blocks_cut (unat (i_size1 (inode_table1 s i)))) s)"

lemma truncate_inode1_eq:
  assumes "wf1 s" and "is_file1 s i" and "locks_free Block_lock DATA_BLOCKS s"
    and "can_truncate (unat (i_size1 (inode_table1 s i)))"
  shows "truncate_inode1 i s = Ok (0, emptied i s)"
proof (cases "i_size1 (inode_table1 s i) = 0")
  case True
  then show ?thesis
    by (cases s) (auto simp: truncate_inode1_def emptied_def blocks_cut_def cut_0 put_inode1_def config fun_eq_iff)
next
  case False
  let ?size = "i_size1 (inode_table1 s i)"
  let ?m = "blocks_cut (unat ?size)"
  have sz: "unat ?size < 9216" "unat ?size mod BLOCK_SIZE \<noteq> 0"
    using assms(4) False by (auto simp: can_truncate_def unat_eq_0)
  have q: "unat (?size div of_nat BLOCK_SIZE) = unat ?size div BLOCK_SIZE" "unat ?size div BLOCK_SIZE < 9"
    using sz by (simp_all add: unat_block_arith) (simp add: config div_less_iff_less_mult)
  define wb where "wb = ?size div of_nat BLOCK_SIZE"
  define wb' where "wb' = (if wb mod of_nat BLOCK_SIZE \<noteq> 0 then wb + 1 else wb)"
  have wbu: "unat wb = unat ?size div BLOCK_SIZE" using q by (simp add: wb_def)
  have mod: "wb mod of_nat BLOCK_SIZE \<noteq> 0 \<longleftrightarrow> \<not> unat ?size < BLOCK_SIZE"
  proof -
    have "unat (wb mod of_nat BLOCK_SIZE) = unat ?size div BLOCK_SIZE"
      using q(2) by (simp add: unat_block_arith wbu) (simp add: config)
    then show ?thesis by (simp add: unat_eq_0 [symmetric] config div_eq_0_iff)
  qed
  have wb': "unat wb' = ?m"
    using mod unat_succ [of wb] q(2) by (auto simp: wb'_def blocks_cut_def wbu config)
  have m: "?m < 10" using q(2) by (simp add: blocks_cut_def)
  have "slot1 s (i, k)" if "k < ?m" for k
  proof -
    have k: "k \<le> unat ?size div BLOCK_SIZE" using that by (auto simp: blocks_cut_def split: if_splits)
    then have "k * BLOCK_SIZE \<le> unat ?size div BLOCK_SIZE * BLOCK_SIZE" by simp
    moreover have "unat ?size div BLOCK_SIZE * BLOCK_SIZE + unat ?size mod BLOCK_SIZE = unat ?size" by simp
    ultimately have "k * BLOCK_SIZE < unat ?size" using sz(2) by linarith
    then have "slot1 s (i, k * BLOCK_SIZE div BLOCK_SIZE)" by (rule byte_slot1(1) [OF assms(1,2)])
    then show ?thesis by (simp add: config)
  qed
  then have valid: "valid_block_number (i_data_block1 (inode_table1 s i) k)" if "k < ?m" for k
    using that assms(1) by (auto simp: wf1_def blocks_ok1_def)
  have "truncate_direct i 0 ?m s = Ok (0, cut i ?m s)"
    using truncate_direct_eq [OF assms(3) valid, of ?m] by (simp add: cut_0)
  moreover have "wb' \<le> 10" "\<not> of_nat MAX_DIRECT_BLOCKS \<le> wb'"
    using wb' m by (simp_all add: word_le_nat_alt config)
  ultimately show ?thesis
    using False wb' unfolding truncate_inode1_def Let_def wb_def [symmetric] wb'_def [symmetric]
    by (simp add: word_gt_0 emptied_def)
qed

lemma emptied_slots:
  assumes "wf1 s" and "is_file1 s i" and "can_truncate (unat (i_size1 (inode_table1 s i)))"
    and "k < blocks_cut (unat (i_size1 (inode_table1 s i)))"
  shows "slot1 s (i, k)"
proof -
  let ?n = "unat (i_size1 (inode_table1 s i))"
  have "k \<le> ?n div BLOCK_SIZE" "\<not> ?n < BLOCK_SIZE" using assms(4) by (auto simp: blocks_cut_def split: if_splits)
  then have "k * BLOCK_SIZE \<le> ?n div BLOCK_SIZE * BLOCK_SIZE" "?n mod BLOCK_SIZE \<noteq> 0"
    using assms(3) by (auto simp: can_truncate_def config)
  moreover have "?n div BLOCK_SIZE * BLOCK_SIZE + ?n mod BLOCK_SIZE = ?n" by simp
  ultimately have "k * BLOCK_SIZE < ?n" by linarith
  then have "slot1 s (i, k * BLOCK_SIZE div BLOCK_SIZE)" by (rule byte_slot1(1) [OF assms(1,2)])
  then show ?thesis by (simp add: config)
qed

lemma refine_emptied:
  assumes "ok1 s" and "is_file1 s i" and "can_truncate (unat (i_size1 (inode_table1 s i)))"
    and "\<And>f off. abs_open1 s f = Some (i, off) \<Longrightarrow> off = 0"
  shows "ok1 (emptied i s)" and "is_file1 (emptied i s) = is_file1 s"
    and "abs1 (emptied i s) = (abs1 s)\<lparr>a_files := (abs_files1 s)(i \<mapsto> [])\<rparr>"
    and "same_locks s (emptied i s)"
proof -
  let ?s = "emptied i s" and ?m = "blocks_cut (unat (i_size1 (inode_table1 s i)))"
  have wf: "wf1 s" using assms(1) by simp
  have i0: "i \<noteq> 0" using assms(2) by (simp add: is_file1_def)
  show files: "is_file1 ?s = is_file1 s" by (simp add: is_file1_def [abs_def] emptied_def cut_def put_inode1_def)
  have node: "inode_table1 ?s j = (if j = i then (inode_table1 s i)\<lparr>i_size1 := 0, i_data_block1 :=
      (\<lambda>k. if k < ?m then -1 else i_data_block1 (inode_table1 s i) k)\<rparr> else inode_table1 s j)" for j
    by (simp add: emptied_def cut_def put_inode1_def)
  let ?C = "Pair i ` {..<?m}"
  have slots: "{x. slot1 ?s x} = {x. slot1 s x} - ?C"
    using i0 by (auto simp: slot1_def files node split: if_splits)
  have C: "?C \<subseteq> {x. slot1 s x}" using emptied_slots [OF wf assms(2,3)] by auto
  have blk: "blk1 ?s x = blk1 s x" if "slot1 ?s x" for x
  proof -
    have "x \<notin> ?C" using that slots by blast
    then show ?thesis by (cases x) (auto simp: blk1_def node)
  qed
  have root: "slot1 ?s (0, 0)" using slots i0 root_slot1 [OF wf] by auto
  have addr: "dir_addr1 ?s = dir_addr1 s" using blk [OF root] by (simp add: dir_addr1_def)
  have data: "fs_data1 ?s = fs_data1 s" by (simp add: emptied_def cut_def put_inode1_def)
  have "bij_betw (blk1 s) ({x. slot1 s x} - ?C) ({b. b < DATA_BLOCKS \<and> free_blocks1 s b = TAKEN} - blk1 s ` ?C)"
    using wf C by (intro bij_betw_drop_set) (simp_all add: wf1_def blocks_ok1_def)
  moreover have "{b. b < DATA_BLOCKS \<and> free_blocks1 s b = TAKEN} - blk1 s ` ?C =
      {b. b < DATA_BLOCKS \<and> free_blocks1 ?s b = TAKEN}"
    by (auto simp: emptied_def cut_def put_inode1_def image_image)
  moreover have "bij_betw (blk1 ?s) {x. slot1 ?s x} B \<longleftrightarrow> bij_betw (blk1 s) {x. slot1 ?s x} B" for B
    using blk by (intro bij_betw_cong) simp
  moreover have "valid_block_number (i_data_block1 (inode_table1 ?s (fst x)) (snd x))" if x: "slot1 ?s x" for x
  proof -
    have "x \<notin> ?C" "slot1 s x" using x slots by blast+
    with wf show ?thesis by (cases x) (auto simp: node wf1_def blocks_ok1_def)
  qed
  ultimately have "blocks_ok1 ?s" by (simp add: blocks_ok1_def slots)
  moreover have "files_ok1 ?s" using wf by (auto simp: wf1_def files_ok1_def files node node_ok1_def)
  moreover have "root_ok1 ?s"
    using wf i0 root by (simp add: wf1_def root_ok1_def node) (simp add: emptied_def cut_def put_inode1_def)
  moreover have "handles_ok1 ?s \<and> open_files_count1 ?s = int (handle_count1 ?s)"
    using wf by (auto simp: wf1_def handles_ok1_def handle_count1_def files) (auto simp: emptied_def cut_def put_inode1_def)
  moreover have "dir_ok1 ?s" using wf by (simp add: wf1_def dir_ok1_def files addr data)
  ultimately have wf': "wf1 ?s" by (simp add: wf1_def)
  have content: "content1 ?s j = (if j = i then [] else content1 s j)" if "is_file1 s j" for j
  proof (cases "j = i")
    case True
    then show ?thesis by (simp add: content1_def node)
  next
    case False
    have "byte_addr1 ?s j k = byte_addr1 s j k" for k
      using False by (simp add: byte_addr1_def blk1_def node)
    with False show ?thesis by (simp add: content1_def node data)
  qed
  have open': "abs_open1 ?s = abs_open1 s"
    by (intro ext) (simp add: abs_open1_def emptied_def cut_def put_inode1_def)
  have "offsets_ok1 ?s"
    unfolding offsets_ok1_def open'
  proof (intro allI impI)
    fix f j off assume f: "abs_open1 s f = Some (j, off)"
    have "off \<le> length (content1 s j)" using f assms(1) by (auto simp: ok1_def offsets_ok1_def)
    with f assms(4) [of f off] content [OF abs_open1_Some(3) [OF wf f]] show "off \<le> length (content1 ?s j)"
      by (auto simp del: length_content1)
  qed
  moreover have "names_ok1 ?s" using assms(1) by (simp add: ok1_def names_ok1_def addr data)
  ultimately show "ok1 ?s" using wf' by (simp add: ok1_def)
  have "abs_files1 ?s = (abs_files1 s)(i \<mapsto> [])"
    using content assms(2) by (intro ext) (simp add: abs_files1_def files)
  moreover have "abs_dir1 ?s = abs_dir1 s" by (simp add: abs_dir1_def [abs_def] addr data)
  ultimately show "abs1 ?s = (abs1 s)\<lparr>a_files := (abs_files1 s)(i \<mapsto> [])\<rparr>"
    by (simp add: abs1_def open')
  show "same_locks s ?s" by (simp add: same_locks_def emptied_def cut_def put_inode1_def)
qed

section \<open>Creation\<close>

text \<open>The i-node a creating open takes, and the state after its directory entry is stored.\<close>

definition new_node :: "inode1 \<Rightarrow> inode1" where
  "new_node n = n\<lparr>i_node_type1 := T_FILE, i_size1 := 0,
     i_data_block1 := (\<lambda>k. if k < MAX_DIRECT_BLOCKS then -1 else i_data_block1 n k), i_indirect_data_block := -1\<rparr>"

definition created1 :: "fs_state1 \<Rightarrow> nat \<Rightarrow> nat \<Rightarrow> cstring \<Rightarrow> fs_state1" where
  "created1 s i e n = s\<lparr>freeinode_ts1 := (freeinode_ts1 s)(i := TAKEN),
     inode_table1 := (inode_table1 s)(i := new_node (inode_table1 s i)),
     fs_data1 := put_entry (dir_addr1 s) e (int i) n (fs_data1 s)\<rparr>"

lemma card_files1: "wf1 s \<Longrightarrow> card (dom (abs_files1 s)) = card {e. live (fs_data1 s) (dir_addr1 s) e}"
proof -
  assume "wf1 s"
  moreover have "dom (abs_files1 s) = {i. is_file1 s i}" by (auto simp: abs_files1_def split: if_splits)
  moreover have "card (int ` {i. is_file1 s i}) = card {i. is_file1 s i}" by (rule card_image) simp
  ultimately show ?thesis by (auto simp: wf1_def dir_ok1_def dest: bij_betw_same_card)
qed

lemma inode_available1:
  assumes "wf1 s" and "card (dom (abs_files1 s)) \<noteq> MAX_DIR_ENTRIES"
  obtains i where "first_free (freeinode_ts1 s) 0 INODE_TABLE_SIZE = Some i"
    and "i < INODE_TABLE_SIZE" and "freeinode_ts1 s i = FREE"
proof (cases rule: first_free_cases [of "freeinode_ts1 s" INODE_TABLE_SIZE])
  case full
  have "card (dom (abs_files1 s)) \<le> MAX_DIR_ENTRIES"
    unfolding card_files1 [OF assms(1)] by (rule card_live_le)
  moreover have "dom (abs_files1 s) = {0<..<INODE_TABLE_SIZE}"
    using full by (auto simp: abs_files1_def is_file1_def split: if_splits)
  ultimately show ?thesis by (simp add: config)
next
  case (found i)
  then show ?thesis using that by blast
qed

lemma abs_inode_flags1:
  assumes "wf1 s"
  shows "first_free (\<lambda>i. if i = 0 then TAKEN else case a_files (abs1 s) i of None \<Rightarrow> FREE | Some _ \<Rightarrow> TAKEN)
      0 INODE_TABLE_SIZE = first_free (freeinode_ts1 s) 0 INODE_TABLE_SIZE"
  using assms by (intro first_free_cong) (auto simp: abs_files1_def is_file1_def wf1_def root_ok1_def)

lemma refine_created1:
  assumes "ok1 s" and "good_name n" and "abs_dir1 s n = None" and "i < INODE_TABLE_SIZE" and "freeinode_ts1 s i = FREE"
    and "free_entry (fs_data1 s) (dir_addr1 s) 0 = Some e"
  shows "ok1 (created1 s i e n)" and "is_file1 (created1 s i e n) i" and "content1 (created1 s i e n) i = []"
    and "abs1 (created1 s i e n) = (abs1 s)\<lparr>a_files := (abs_files1 s)(i \<mapsto> []), a_dir := (abs_dir1 s)(n \<mapsto> i)\<rparr>"
    and "same_locks s (created1 s i e n)"
proof -
  let ?s = "created1 s i e n" and ?m = "fs_data1 s" and ?p = "dir_addr1 s"
  have wf: "wf1 s" using assms(1) by simp
  have i0: "0 < i" using wf assms(5) by (cases i) (auto simp: wf1_def root_ok1_def)
  have iok: "int_ok (int i)" "int i \<noteq> -1" using assms(4) by (auto simp: int_ok_def config)
  have e: "e < MAX_DIR_ENTRIES" "\<not> live ?m ?p e" using free_entry_Some [OF assms(6)] by (auto simp: live_def)
  have files: "is_file1 ?s j \<longleftrightarrow> j = i \<or> is_file1 s j" for j
    using assms(4) i0 by (auto simp: created1_def is_file1_def)
  have notfile: "\<not> is_file1 s i" using assms(5) by (simp add: is_file1_def)
  have node: "inode_table1 ?s j = (if j = i then new_node (inode_table1 s i) else inode_table1 s j)" for j
    by (simp add: created1_def)
  have slots: "slot1 ?s x \<longleftrightarrow> slot1 s x" for x
    using i0 notfile by (cases x) (auto simp: slot1_def files node new_node_def)
  have blk: "blk1 ?s x = blk1 s x" if "slot1 s x" for x
    using that i0 notfile by (cases x) (auto simp: blk1_def node slot1_def)
  have addr: "dir_addr1 ?s = ?p" using blk [OF root_slot1 [OF wf]] by (simp add: dir_addr1_def)
  have data: "fs_data1 ?s = put_entry ?p e (int i) n ?m" by (simp add: created1_def)
  have "bij_betw (blk1 ?s) {x. slot1 ?s x} B \<longleftrightarrow> bij_betw (blk1 s) {x. slot1 s x} B" for B
    unfolding slots using blk by (intro bij_betw_cong) simp
  moreover have "inode_table1 ?s (fst x) = inode_table1 s (fst x)" if "slot1 s x" for x
    using that i0 notfile by (cases x) (auto simp: node slot1_def)
  ultimately have "blocks_ok1 ?s"
    using wf by (simp add: wf1_def blocks_ok1_def slots) (simp add: created1_def)
  moreover have "bij_betw ((d_inumber ?m ?p)(e := int i)) (insert e {e. live ?m ?p e}) (insert (int i) (int ` {j. is_file1 s j}))"
    using wf e(2) notfile by (intro bij_betw_upd) (auto simp: wf1_def dir_ok1_def)
  then have "dir_ok1 ?s"
  proof -
    have "d_inumber (put_entry ?p e (int i) n ?m) ?p = (d_inumber ?m ?p)(e := int i)"
      using d_inumber_put_entry [OF iok(1)] other_entry_put_entry(1) by (auto simp: fun_eq_iff)
    moreover have "{e'. live (put_entry ?p e (int i) n ?m) ?p e'} = insert e {e. live ?m ?p e}"
      using live_put_entry [OF e(1) iok] by auto
    moreover have "{j. is_file1 ?s j} = insert i {j. is_file1 s j}" using files by auto
    moreover note \<open>bij_betw ((d_inumber ?m ?p)(e := int i)) _ _\<close>
    ultimately show ?thesis by (simp add: dir_ok1_def addr data)
  qed
  moreover have "root_ok1 ?s" using wf i0 by (simp add: wf1_def root_ok1_def slots node) (simp add: created1_def)
  moreover have "files_ok1 ?s" using wf by (auto simp: wf1_def files_ok1_def files node node_ok1_def new_node_def)
  moreover have "handles_ok1 ?s \<and> open_files_count1 ?s = int (handle_count1 ?s)"
    using wf files by (auto simp: wf1_def handles_ok1_def handle_count1_def created1_def)
  ultimately have wf': "wf1 ?s" by (simp add: wf1_def)
  show "is_file1 ?s i" using files by simp
  show new: "content1 ?s i = []" by (simp add: content1_def node new_node_def)
  have old: "content1 ?s j = content1 s j" if j: "is_file1 s j" for j
  proof -
    have ji: "j \<noteq> i" using j notfile by blast
    have "fs_data1 ?s (byte_addr1 ?s j k) = fs_data1 s (byte_addr1 s j k)"
      if k: "k < unat (i_size1 (inode_table1 s j))" for k
    proof -
      note sl = byte_slot1(1) [OF wf j k]
      have "blk1 s (0, 0) \<noteq> blk1 s (j, k div BLOCK_SIZE)"
        using slot_inj1 [OF wf root_slot1 [OF wf] sl] j by (auto simp: is_file1_def)
      moreover have "sizeof_dir_entry * e + sizeof_dir_entry \<le> BLOCK_SIZE" using dir_entry_in_block [OF e(1)] .
      moreover have "k mod BLOCK_SIZE < BLOCK_SIZE" by (simp add: config)
      ultimately show ?thesis
        by (simp add: byte_addr1_def blk [OF sl] data dir_addr1_def put_entry_other_block)
    qed
    with ji show ?thesis by (simp add: content1_def node)
  qed
  have open': "abs_open1 ?s = abs_open1 s" by (intro ext) (simp add: abs_open1_def created1_def)
  have absent: "find_entry ?m ?p n 0 = -1"
    using assms(2,3) by (auto simp: abs_dir1_def Let_def split: if_splits)
  have distinct: "distinct_names ?m ?p" using assms(1) by (simp add: ok1_def names_ok1_def)
  note find = find_put_entry [OF distinct assms(2) absent assms(6) iok]
  have dirs: "abs_dir1 ?s = (abs_dir1 s)(n \<mapsto> i)"
    using find(1) assms(2) by (auto simp: abs_dir1_def addr data fun_eq_iff Let_def split: if_splits)
  have "names_ok1 ?s"
    using assms(1,2) find(2) [OF assms(2)] entry_name_put_good [OF assms(2)] other_entry_put_entry(2)
      live_put_entry [OF e(1) iok]
    by (auto simp: ok1_def names_ok1_def addr data) metis
  moreover have "offsets_ok1 ?s"
    unfolding offsets_ok1_def open'
  proof (intro allI impI)
    fix f j off assume f: "abs_open1 s f = Some (j, off)"
    then have "off \<le> length (content1 s j)" using assms(1) by (auto simp: ok1_def offsets_ok1_def)
    with old [OF abs_open1_Some(3) [OF wf f]] show "off \<le> length (content1 ?s j)" by simp
  qed
  ultimately show "ok1 ?s" using wf' by (simp add: ok1_def)
  have "abs_files1 ?s = (abs_files1 s)(i \<mapsto> [])"
    using files new old by (intro ext) (simp add: abs_files1_def)
  then show "abs1 ?s = (abs1 s)\<lparr>a_files := (abs_files1 s)(i \<mapsto> []), a_dir := (abs_dir1 s)(n \<mapsto> i)\<rparr>"
    by (simp add: abs1_def dirs open')
  show "same_locks s ?s" by (simp add: same_locks_def created1_def)
qed

section \<open>Opening\<close>

text \<open>The locks that \<open>tfs_open\<close> holds while it looks at an i-node.\<close>

definition open_held :: "nat \<Rightarrow> fs_state1 \<Rightarrow> fs_state1" where
  "open_held i s = set_lock (Inode_lock (int i)) RW_Writer (s\<lparr>open_file_lock := Locked\<rparr>)"

lemma open_held_view [simp]:
  "ok1 (open_held i s) = ok1 s" "abs1 (open_held i s) = abs1 s" "wf1 (open_held i s) = wf1 s"
  "inode_table1 (open_held i s) = inode_table1 s" "free_blocks1 (open_held i s) = free_blocks1 s"
  by (simp_all add: open_held_def)

lemma release_open:
  assumes "quiet s" and "i < INODE_TABLE_SIZE" and "same_locks (open_held i s) t"
  obtains t' where "unlock_open (Inode_lock (int i)) t = Ok t'" and "quiet t'" and "same_data t t'"
proof (rule that)
  let ?t = "set_lock (Inode_lock (int i)) RW_Free (t\<lparr>open_file_lock := Unlocked\<rparr>)"
  show "unlock_open (Inode_lock (int i)) t = Ok ?t"
    using assms(2,3) by (simp add: unlock_open_def same_locks_def open_held_def lock_simps valid_inumber_def)
  show "quiet ?t" using assms(1,3) by (auto simp: quiet_def same_locks_def open_held_def)
  show "same_data t ?t" by (simp add: same_data_def)
qed

lemma take_open_locks:
  assumes "quiet s" and "i < INODE_TABLE_SIZE"
  shows "lock_mutex (open_file_lock s) = Ok Locked"
    and "write_lock_rwlock (Inode_lock (int i)) (s\<lparr>open_file_lock := Locked\<rparr>) = Ok (open_held i s)"
    and "locks_free Block_lock DATA_BLOCKS (open_held i s)" and "locks_free Dir_lock MAX_DIR_ENTRIES (open_held i s)"
    and "i \<noteq> 0 \<Longrightarrow> rwlocks (open_held i s) (Inode_lock 0) = RW_Free"
  using assms quiet_locks(2,4) [OF assms(1)]
  by (auto simp: quiet_def lock_simps open_held_def valid_inumber_def config)

lemma ready1_same:
  assumes "ok1 t" and "same_data t t'" and "quiet t'"
  shows "ready1 t'" and "abs1 t' = abs1 t" and "is_file1 t' = is_file1 t" and "content1 t' = content1 t"
  using assms same_ok1 [OF assms(2)] same_view [OF assms(2)] by (simp_all add: ready1_def)

lemma finish_open:
  assumes "ready1 s" and "is_file1 s i" and "unat offset \<le> length (content1 s i)"
  shows "\<exists>s'. add_to_open_file_table1 (int i) offset s = Ok (fst (a_add_handle i (unat offset) (abs1 s)), s') \<and>
    abs1 s' = snd (a_add_handle i (unat offset) (abs1 s)) \<and> ready1 s'"
proof -
  have q: "quiet s" using assms(1) by (simp add: ready1_def)
  then have "open_files_mutex1 s = Unlocked" by (simp add: quiet_def)
  with refine_add_handle1 [OF _ assms(2,3) quiet_locks(3) [OF q]] assms(1) quiet_free [OF q]
  show ?thesis by (auto simp: ready1_def)
qed

text \<open>A truncating open is right for the sizes that \<open>can_truncate\<close> admits.\<close>

definition trunc_fits :: "cstring \<Rightarrow> int \<Rightarrow> afs \<Rightarrow> bool" where
  "trunc_fits n flags a \<longleftrightarrow> (flag_trunc flags \<longrightarrow>
     (case a_dir a n of None \<Rightarrow> True | Some i \<Rightarrow> can_truncate (length (the (a_files a i)))))"

lemma lookup1_locked:
  assumes "ready1 s" and "good_name n"
  shows "tfs_lookup1 (path n) (s\<lparr>open_file_lock := Locked\<rparr>) = Ok (a_lookup n (abs1 s), s\<lparr>open_file_lock := Locked\<rparr>)"
proof -
  let ?s = "s\<lparr>open_file_lock := Locked\<rparr>"
  have q: "quiet s" and ok: "ok1 s" using assms(1) by (simp_all add: ready1_def)
  have "tfs_lookup1 (path n) ?s = Ok (find_entry (fs_data1 ?s) (dir_addr1 ?s) n 0, ?s)"
    using ok quiet_locks(1,4) [OF q] assms(2) by (intro lookup1_path) (simp_all add: good_name_def)
  also have "find_entry (fs_data1 ?s) (dir_addr1 ?s) n 0 = a_lookup n (abs1 s)"
    using find_entry_abs1(1) [of ?s, OF _ assms(2)] ok by simp
  finally show ?thesis .
qed

lemma good_path: "good_name n \<Longrightarrow> valid_pathname (path n)"
  by (simp add: valid_pathname_def path_def good_name_def c_char_def)

lemma open1_existing:
  assumes "ready1 s" and "good_name n" and "abs_dir1 s n = Some i" and "trunc_safe n flags (abs1 s)"
    and "trunc_fits n flags (abs1 s)"
  shows "\<exists>s'. tfs_open1 (path n) flags s =
      Ok (fst (a_open_file n (flag_creat flags) (flag_trunc flags) (flag_append flags) (abs1 s)), s') \<and>
    abs1 s' = snd (a_open_file n (flag_creat flags) (flag_trunc flags) (flag_append flags) (abs1 s)) \<and> ready1 s'"
proof -
  have q: "quiet s" and ok: "ok1 s" and wf: "wf1 s" using assms(1) by (simp_all add: ready1_def)
  have isf: "is_file1 s i" using find_entry_abs1(2) [OF wf assms(2,3)] by simp
  then have i: "i < INODE_TABLE_SIZE" by (simp add: is_file1_def)
  note locks = take_open_locks [OF q i]
  let ?o = "open_held i s"
  have view: "is_file1 ?o = is_file1 s" "abs_open1 ?o = abs_open1 s" "abs_files1 ?o = abs_files1 s"
    using same_view [of s ?o] by (simp_all add: open_held_def same_data_def)
  have "\<exists>t. (if flag_trunc flags then truncate_inode1 i ?o else Ok (0, ?o)) = Ok (0, t) \<and> ok1 t \<and> is_file1 t i \<and>
      same_locks ?o t \<and> abs1 t = (if flag_trunc flags then (abs1 s)\<lparr>a_files := (abs_files1 s)(i \<mapsto> [])\<rparr> else abs1 s)"
  proof (cases "flag_trunc flags")
    case False
    with ok isf view show ?thesis by (intro exI [of _ ?o]) simp
  next
    case True
    have size: "can_truncate (unat (i_size1 (inode_table1 ?o i)))"
      using True assms(3,5) isf by (simp add: trunc_fits_def abs_files1_def)
    have "off = 0" if "abs_open1 ?o f = Some (i, off)" for f off
      using that assms(3,4) True by (simp add: trunc_safe_def view)
    with truncate_inode1_eq [OF _ _ locks(3) size] refine_emptied [OF _ _ size] ok wf isf True
    show ?thesis by (intro exI [of _ "emptied i ?o"]) (simp add: view)
  qed
  then obtain t where t: "(if flag_trunc flags then truncate_inode1 i ?o else Ok (0, ?o)) = Ok (0, t)"
    "ok1 t" "is_file1 t i" "same_locks ?o t"
    "abs1 t = (if flag_trunc flags then (abs1 s)\<lparr>a_files := (abs_files1 s)(i \<mapsto> [])\<rparr> else abs1 s)" by blast
  obtain t' where t': "unlock_open (Inode_lock (int i)) t = Ok t'" "quiet t'" "same_data t t'"
    using release_open [OF q i t(4)] .
  note r = ready1_same [OF t(2) t'(3,2)]
  let ?off = "if flag_append flags then i_size1 (inode_table1 t i) else 0"
  have off: "unat ?off \<le> length (content1 t' i)" by (simp add: r(4))
  have "inode_get (int i) = Some i" using i by (simp add: inode_get_def valid_inumber_def)
  then have "tfs_open1 (path n) flags s = add_to_open_file_table1 (int i) ?off t'"
    using locks(1,2) lookup1_locked [OF assms(1,2)] assms(3) t(1) t'(1) good_path [OF assms(2)]
    by (simp add: tfs_open1_def a_lookup_def get_inode_table_lock_def Let_def split del: if_split)
  moreover have "a_open_file n (flag_creat flags) (flag_trunc flags) (flag_append flags) (abs1 s) =
      a_add_handle i (unat ?off) (abs1 t')"
  proof -
    have "length (the (abs_files1 t i)) = unat (i_size1 (inode_table1 t i))" using t(3) by (simp add: abs_files1_def)
    then have len: "unat ?off = (if flag_append flags then length (the (a_files (abs1 t) i)) else 0)" by simp
    show ?thesis using assms(3) t(5) by (simp only: r(2) len) (simp add: a_open_file_def Let_def)
  qed
  ultimately show ?thesis using finish_open [OF r(1) _ off] t(3) r(3) by simp
qed

text \<open>What the table holds for an i-node that is not in use does not matter.\<close>

lemma unused_node1:
  assumes "ok1 s" and "i \<noteq> 0" and "freeinode_ts1 s i = FREE" and "t = s\<lparr>inode_table1 := (inode_table1 s)(i := n)\<rparr>"
  shows "ok1 t" and "abs1 t = abs1 s"
proof -
  have wf: "wf1 s" using assms(1) by simp
  have files: "is_file1 t = is_file1 s" by (simp add: is_file1_def [abs_def] assms(4))
  have other: "j \<noteq> i" if "is_file1 s j" for j using that assms(3) by (auto simp: is_file1_def)
  have node: "inode_table1 t j = inode_table1 s j" if "j = 0 \<or> is_file1 s j" for j
    using that other assms(2) by (auto simp: assms(4))
  have used: "fst x = 0 \<or> is_file1 s (fst x)" if "slot1 s x" for x using that by (auto simp: slot1_def)
  have slots: "slot1 t x \<longleftrightarrow> slot1 s x" for x using node by (cases x) (auto simp: slot1_def files)
  have blk: "blk1 t x = blk1 s x" if "slot1 s x" for x using node used [OF that] by (simp add: blk1_def)
  have addr: "dir_addr1 t = dir_addr1 s" using blk [OF root_slot1 [OF wf]] by (simp add: dir_addr1_def)
  have content: "content1 t j = content1 s j" if "is_file1 s j" for j
    using node that by (simp add: content1_def byte_addr1_def blk1_def) (simp add: assms(4))
  have "bij_betw (blk1 t) {x. slot1 t x} B \<longleftrightarrow> bij_betw (blk1 s) {x. slot1 s x} B" for B
    unfolding slots using blk by (intro bij_betw_cong) simp
  then have "blocks_ok1 t"
    using wf node used by (auto simp: wf1_def blocks_ok1_def slots) (simp_all add: assms(4))
  moreover have "files_ok1 t" using wf node by (simp add: wf1_def files_ok1_def files)
  moreover have "root_ok1 t" using wf node [of 0] by (simp add: wf1_def root_ok1_def slots) (simp add: assms(4))
  moreover have "handles_ok1 t \<and> open_files_count1 t = int (handle_count1 t)"
    using wf by (simp add: wf1_def handles_ok1_def handle_count1_def files) (simp add: assms(4))
  moreover have "dir_ok1 t" using wf by (simp add: wf1_def dir_ok1_def files addr) (simp add: assms(4))
  ultimately have wf': "wf1 t" by (simp add: wf1_def)
  have open': "abs_open1 t = abs_open1 s" by (intro ext) (simp add: abs_open1_def assms(4))
  have "offsets_ok1 t"
    unfolding offsets_ok1_def open'
  proof (intro allI impI)
    fix f j off assume f: "abs_open1 s f = Some (j, off)"
    then have "off \<le> length (content1 s j)" using assms(1) by (auto simp: ok1_def offsets_ok1_def)
    with content [OF abs_open1_Some(3) [OF wf f]] show "off \<le> length (content1 t j)" by simp
  qed
  moreover have "names_ok1 t" using assms(1) by (simp add: ok1_def names_ok1_def addr) (simp add: assms(4))
  ultimately show "ok1 t" using wf' by (simp add: ok1_def)
  have "abs_files1 t = abs_files1 s" using content by (intro ext) (simp add: abs_files1_def files)
  moreover have "abs_dir1 t = abs_dir1 s" by (simp add: abs_dir1_def [abs_def] addr) (simp add: assms(4))
  ultimately show "abs1 t = abs1 s" by (simp add: abs1_def open')
qed

text \<open>The part of a creating open between the two locks, up to the handle.\<close>

lemma create_step1:
  assumes "ready1 s" and "good_name n" and "first_free (freeinode_ts1 s) 0 INODE_TABLE_SIZE = Some i"
    and "i < INODE_TABLE_SIZE" and "freeinode_ts1 s i = FREE"
  defines "s1 \<equiv> put_inode1 i new_node (put_freeinode1 i TAKEN s)"
  shows "inode_create1 T_FILE (s\<lparr>open_file_lock := Locked\<rparr>) = Ok (int i, s1\<lparr>open_file_lock := Locked\<rparr>)"
    and "write_lock_rwlock (Inode_lock (int i)) (s1\<lparr>open_file_lock := Locked\<rparr>) = Ok (open_held i s1)"
    and "quiet s1" and "i \<noteq> 0"
    and "add_dir_entry1 ROOT_DIR_INUM (int i) n (open_held i s1) = (case free_entry (fs_data1 s) (dir_addr1 s) 0 of
      None \<Rightarrow> Ok (-1, open_held i s1) | Some e \<Rightarrow> Ok (0, open_held i (created1 s i e n)))"
proof -
  have q: "quiet s" and wf: "wf1 s" using assms(1) by (simp_all add: ready1_def)
  show i0: "i \<noteq> 0" using wf assms(5) by (auto simp: wf1_def root_ok1_def intro: ccontr)
  show q1: "quiet s1" using q by (simp add: quiet_def s1_def) (simp add: put_inode1_def put_freeinode1_def)
  have lf: "locks_free Inode_lock INODE_TABLE_SIZE (s\<lparr>open_file_lock := Locked\<rparr>)" using quiet_locks(1) [OF q] by simp
  show "inode_create1 T_FILE (s\<lparr>open_file_lock := Locked\<rparr>) = Ok (int i, s1\<lparr>open_file_lock := Locked\<rparr>)"
    using assms(3) by (subst inode_create1_file_eq [OF lf], cases s)
      (simp add: s1_def put_inode1_def put_freeinode1_def new_node_def cong: if_cong)
  note locks = take_open_locks [OF q1 assms(4)]
  show "write_lock_rwlock (Inode_lock (int i)) (s1\<lparr>open_file_lock := Locked\<rparr>) = Ok (open_held i s1)" by (rule locks(2))
  have root: "inode_table1 s1 0 = inode_table1 s 0"
    using i0 by (simp add: s1_def put_inode1_def put_freeinode1_def)
  have data: "fs_data1 (open_held i s1) = fs_data1 s" by (simp add: open_held_def s1_def put_inode1_def put_freeinode1_def)
  have "i_node_type1 (inode_table1 (open_held i s1) 0) = T_DIRECTORY" using wf by (simp add: root wf1_def root_ok1_def)
  moreover have "data_block_get (i_data_block1 (inode_table1 (open_held i s1) 0) 0) = Some (dir_addr1 s)"
    using root_block1 [OF wf] by (simp add: root)
  moreover have "valid_inumber (int i)" using assms(4) by (simp add: valid_inumber_def)
  moreover have "open_held i s1\<lparr>fs_data1 := put_entry (dir_addr1 s) e (int i) n (fs_data1 s)\<rparr> = open_held i (created1 s i e n)" for e
    by (simp add: open_held_def s1_def created1_def put_inode1_def put_freeinode1_def set_lock_def)
  ultimately show "add_dir_entry1 ROOT_DIR_INUM (int i) n (open_held i s1) = (case free_entry (fs_data1 s) (dir_addr1 s) 0 of
      None \<Rightarrow> Ok (-1, open_held i s1) | Some e \<Rightarrow> Ok (0, open_held i (created1 s i e n)))"
    using add_dir_entry1_eq [OF locks(4) locks(5) [OF i0]] assms(2)
    by (simp add: data good_name_def split: option.splits)
qed

lemma open1_new:
  assumes "ready1 s" and "good_name n" and "abs_dir1 s n = None"
  shows "\<exists>s'. tfs_open1 (path n) flags s =
      Ok (fst (a_open_file n (flag_creat flags) (flag_trunc flags) (flag_append flags) (abs1 s)), s') \<and>
    abs1 s' = snd (a_open_file n (flag_creat flags) (flag_trunc flags) (flag_append flags) (abs1 s)) \<and> ready1 s'"
proof -
  have q: "quiet s" and ok: "ok1 s" and wf: "wf1 s" using assms(1) by (simp_all add: ready1_def)
  have mutex: "lock_mutex (open_file_lock s) = Ok Locked" using q by (simp add: quiet_def)
  have restore: "s\<lparr>open_file_lock := Unlocked\<rparr> = s" using q by (cases s) (simp add: quiet_def)
  have lookup: "tfs_lookup1 (path n) (s\<lparr>open_file_lock := Locked\<rparr>) = Ok (-1, s\<lparr>open_file_lock := Locked\<rparr>)"
    using lookup1_locked [OF assms(1,2)] assms(3) by (simp add: a_lookup_def)
  have tail: "tl (the (path n)) = n" by (simp add: path_def)
  show ?thesis
  proof (cases "flag_creat flags")
    case False
    with mutex restore lookup good_path [OF assms(2)] assms(1,3) show ?thesis
      by (simp add: tfs_open1_def a_open_file_def)
  next
    case creat: True
    show ?thesis
    proof (cases rule: first_free_cases [of "freeinode_ts1 s" INODE_TABLE_SIZE])
      case full
      then have "card (dom (abs_files1 s)) = MAX_DIR_ENTRIES" using inode_available1 [OF wf] by (metis option.distinct(1))
      moreover have "inode_create1 T_FILE (s\<lparr>open_file_lock := Locked\<rparr>) = Ok (-1, s\<lparr>open_file_lock := Locked\<rparr>)"
        using quiet_locks(1) [OF q] full by (subst inode_create1_file_eq) simp_all
      ultimately show ?thesis
        using creat mutex restore lookup good_path [OF assms(2)] assms(1,3)
        by (simp add: tfs_open1_def a_open_file_def)
    next
      case (found i)
      note step = create_step1 [OF assms(1,2) found(1-3)]
      let ?s1 = "put_inode1 i new_node (put_freeinode1 i TAKEN s)"
      show ?thesis
      proof (cases "free_entry (fs_data1 s) (dir_addr1 s) 0")
        case None
        then have full: "card (dom (abs_files1 s)) = MAX_DIR_ENTRIES" by (simp add: dir_full_card card_files1 [OF wf])
        let ?t = "open_held i (s\<lparr>inode_table1 := (inode_table1 s)(i := new_node (inode_table1 s i))\<rparr>)"
        have "(freeinode_ts1 s)(i := FREE) = freeinode_ts1 s" using found(3) by (simp add: fun_upd_idem)
        then have del: "inode_delete1 (int i) (open_held i ?s1) = Ok (0, ?t)"
          using found(2) by (simp add: inode_delete1_def valid_inumber_def put_defs1 new_node_def open_held_def set_lock_def)
        obtain t' where t': "unlock_open (Inode_lock (int i)) ?t = Ok t'" "quiet t'" "same_data ?t t'"
          using release_open [OF _ found(2), of "s\<lparr>inode_table1 := (inode_table1 s)(i := new_node (inode_table1 s i))\<rparr>" ?t] q
          by (auto simp: quiet_def)
        note u = unused_node1 [OF ok step(4) found(3) refl, of "new_node (inode_table1 s i)"]
        have "tfs_open1 (path n) flags s = Ok (-1, t')"
          using creat mutex lookup good_path [OF assms(2)] step(1,2,5) None del t'(1)
          by (simp add: tfs_open1_def tail get_inode_table_lock_def)
        moreover have "ready1 t'" "abs1 t' = abs1 s" using ready1_same [OF _ t'(3,2)] u by simp_all
        ultimately show ?thesis using assms(3) full by (simp add: a_open_file_def)
      next
        case (Some e)
        then have room: "card (dom (abs_files1 s)) \<noteq> MAX_DIR_ENTRIES"
          using dir_full_card [of "fs_data1 s" "dir_addr1 s"] by (simp add: card_files1 [OF wf])
        note cr = refine_created1 [OF ok assms(2,3) found(2,3) Some]
        obtain t' where t': "unlock_open (Inode_lock (int i)) (open_held i (created1 s i e n)) = Ok t'" "quiet t'"
          "same_data (open_held i (created1 s i e n)) t'"
          using release_open [OF quiet_free [OF q cr(5)] found(2) same_locks_refl] .
        have "same_data (created1 s i e n) (open_held i (created1 s i e n))" by (simp add: same_data_def open_held_def)
        with t'(3) have same: "same_data (created1 s i e n) t'" by (simp add: same_data_def)
        note r = ready1_same [OF cr(1) same t'(2)]
        have "tfs_open1 (path n) flags s = add_to_open_file_table1 (int i) 0 t'"
          using creat mutex lookup good_path [OF assms(2)] step(1,2,5) Some t'(1)
          by (simp add: tfs_open1_def tail get_inode_table_lock_def)
        moreover have "a_open_file n (flag_creat flags) (flag_trunc flags) (flag_append flags) (abs1 s) =
            a_add_handle i (unat (0 :: size_t)) (abs1 t')"
          using assms(3) creat room found(1) r(2) cr(4) by (simp add: a_open_file_def abs_inode_flags1 [OF wf] Let_def)
        ultimately show ?thesis using finish_open [OF r(1), of i 0] cr(2) r(3) by simp
      qed
    qed
  qed
qed

lemma refine_tfs_open1:
  assumes "ready1 s" and "good_name n" and "trunc_safe n flags (abs1 s)" and "trunc_fits n flags (abs1 s)"
  shows "\<exists>s'. tfs_open1 (path n) flags s =
      Ok (fst (a_open_file n (flag_creat flags) (flag_trunc flags) (flag_append flags) (abs1 s)), s') \<and>
    abs1 s' = snd (a_open_file n (flag_creat flags) (flag_trunc flags) (flag_append flags) (abs1 s)) \<and> ready1 s'"
  using open1_existing [OF assms(1,2) _ assms(3,4)] open1_new [OF assms(1,2)]
  by (cases "abs_dir1 s n") blast+

end
