(* ===== verification/FS1_Run.thy ===== *)
theory FS1_Run
  imports FS1_Open FS_Run
begin

text \<open>
  Start-up of the first delivery's file system, and the refinement of whole runs: within its contract
  it is the same abstract file system as the second delivery, for files of up to ten blocks.
\<close>

section \<open>Start-up\<close>

lemma all_locks_in_table: "set all_locks = {l. in_table l}"
proof (rule set_eqI)
  fix l show "l \<in> set all_locks \<longleftrightarrow> l \<in> {l. in_table l}"
    by (cases l) (auto simp: all_locks_def valid_inumber_def valid_block_number_def valid_file_handle_def image_iff
        intro: bexI [of _ "nat _"])
qed

lemma each_lock_init:
  "\<forall>l \<in> set ls. in_table l \<Longrightarrow> each_lock (\<lambda>l. init_rwlock 0 l) ls s =
    Ok (s\<lparr>rwlocks := (\<lambda>l. if l \<in> set ls then RW_Free else rwlocks s l)\<rparr>)"
proof (induction ls arbitrary: s)
  case Nil
  then show ?case by simp
next
  case (Cons l ls)
  then show ?case
    by (auto simp: init_rwlock_def on_rwlock_def pthread_rwlock_init_def fun_eq_iff)
qed

text \<open>The state \<open>tfs_init\<close> leaves behind when every lock could be initialised.\<close>

definition booted1 :: "fs_state1 \<Rightarrow> fs_state1" where
  "booted1 s = s\<lparr>inode_table1 := (inode_table1 s)(0 := (inode_table1 s 0)\<lparr>i_node_type1 := T_DIRECTORY,
       i_size1 := of_nat BLOCK_SIZE, i_data_block1 := (i_data_block1 (inode_table1 s 0))(0 := 0), i_indirect_data_block := -1\<rparr>),
     freeinode_ts1 := (\<lambda>i. if i < INODE_TABLE_SIZE then if i = 0 then TAKEN else FREE else freeinode_ts1 s i),
     fs_data1 := clear_entries 0 MAX_DIR_ENTRIES (fs_data1 s),
     free_blocks1 := (\<lambda>i. if i < DATA_BLOCKS then if i = 0 then TAKEN else FREE else free_blocks1 s i),
     free_open_file_entries1 := (\<lambda>i. if i < MAX_OPEN_FILES then FREE else free_open_file_entries1 s i),
     rwlocks := (\<lambda>l. if in_table l then RW_Free else rwlocks s l),
     open_files_mutex1 := Unlocked, open_file_lock := Unlocked\<rparr>"

lemma inode_create1_root:
  assumes "locks_free Inode_lock INODE_TABLE_SIZE s" and "locks_free Block_lock DATA_BLOCKS s"
    and "freeinode_ts1 s 0 = FREE" and "free_blocks1 s 0 = FREE"
  shows "inode_create1 T_DIRECTORY s = Ok (0, s\<lparr>freeinode_ts1 := (freeinode_ts1 s)(0 := TAKEN),
    free_blocks1 := (free_blocks1 s)(0 := TAKEN),
    inode_table1 := (inode_table1 s)(0 := (inode_table1 s 0)\<lparr>i_node_type1 := T_DIRECTORY,
       i_size1 := of_nat BLOCK_SIZE, i_data_block1 := (i_data_block1 (inode_table1 s 0))(0 := 0), i_indirect_data_block := -1\<rparr>),
    fs_data1 := clear_entries 0 MAX_DIR_ENTRIES (fs_data1 s)\<rparr>)"
proof -
  have free: "first_free (freeinode_ts1 s) 0 INODE_TABLE_SIZE = Some 0" "first_free (free_blocks1 s) 0 DATA_BLOCKS = Some 0"
    using assms(3,4) by (auto intro!: first_free_first simp: config)
  let ?s = "put_inode1 0 (i_node_type1_update (\<lambda>_. T_DIRECTORY)) (put_freeinode1 0 TAKEN s)"
  have "data_block_alloc1 ?s = Ok (0, put_block1 0 TAKEN ?s)"
    using assms(2) free(2) by (subst data_block_alloc1_eq) (simp_all, simp add: put_defs1)
  moreover have "inode_create1 T_DIRECTORY s = take_inode T_DIRECTORY 0 (set_lock (Inode_lock 0) RW_Writer s)"
    using locks_freeD [OF assms(1)] free(1)
    by (simp add: inode_create1_def scan_write lock_simps del: in_table.simps)
  moreover have "unlock_rwlock (Inode_lock 0) (set_lock (Inode_lock 0) RW_Writer (put_freeinode1 0 TAKEN s)) =
      Ok (put_freeinode1 0 TAKEN s)"
    using locks_freeD [OF assms(1), of 0] by (simp add: lock_simps config)
  moreover have "data_block_get 0 = Some 0" by (simp add: data_block_get_def valid_block_number_def config)
  moreover have "(put_inode1 0 (\<lambda>n. n\<lparr>i_size1 := of_nat BLOCK_SIZE, i_data_block1 := (i_data_block1 n)(0 := 0),
      i_indirect_data_block := -1\<rparr>) (put_block1 0 TAKEN ?s))\<lparr>fs_data1 := clear_entries 0 MAX_DIR_ENTRIES (fs_data1 s)\<rparr> =
    s\<lparr>freeinode_ts1 := (freeinode_ts1 s)(0 := TAKEN), free_blocks1 := (free_blocks1 s)(0 := TAKEN),
      inode_table1 := (inode_table1 s)(0 := (inode_table1 s 0)\<lparr>i_node_type1 := T_DIRECTORY,
        i_size1 := of_nat BLOCK_SIZE, i_data_block1 := (i_data_block1 (inode_table1 s 0))(0 := 0), i_indirect_data_block := -1\<rparr>),
      fs_data1 := clear_entries 0 MAX_DIR_ENTRIES (fs_data1 s)\<rparr>"
    by (cases s) (simp add: put_defs1)
  moreover have "fs_data1 (put_inode1 0 g (put_block1 0 TAKEN ?s)) = fs_data1 s" for g by (simp add: put_defs1)
  ultimately show ?thesis by (simp add: take_inode_def)
qed

lemma tfs_init1_eq: "tfs_init1 0 0 (\<lambda>_. 0) s = Ok (0, booted1 s)"
proof -
  let ?s = "s\<lparr>open_files_mutex1 := Unlocked, open_file_lock := Unlocked,
      freeinode_ts1 := (\<lambda>i. if i < INODE_TABLE_SIZE then FREE else freeinode_ts1 s i),
      free_blocks1 := (\<lambda>i. if i < DATA_BLOCKS then FREE else free_blocks1 s i),
      free_open_file_entries1 := (\<lambda>i. if i < MAX_OPEN_FILES then FREE else free_open_file_entries1 s i),
      rwlocks := (\<lambda>l. if in_table l then RW_Free else rwlocks s l)\<rparr>"
  have "state_init1 0 0 (\<lambda>_. 0) s = Ok ?s"
    by (simp add: state_init1_def each_lock_init all_locks_in_table cong: if_cong)
  moreover have q: "quiet ?s" by (simp add: quiet_def)
  moreover have "inode_create1 T_DIRECTORY ?s = Ok (0, booted1 s)"
    by (subst inode_create1_root [OF quiet_locks(1,2) [OF q]])
       (simp_all add: booted1_def config fun_eq_iff if_distrib)
  ultimately show ?thesis by (simp add: tfs_init1_def ROOT_DIR_INUM_def)
qed

lemma booted1_view:
  "blk1 (booted1 s) (0, 0) = 0" "dir_addr1 (booted1 s) = 0" "is_file1 (booted1 s) i \<longleftrightarrow> False"
  "slot1 (booted1 s) x \<longleftrightarrow> x = (0, 0)" "fs_data1 (booted1 s) = clear_entries 0 MAX_DIR_ENTRIES (fs_data1 s)"
  by (cases x; auto simp: blk1_def dir_addr1_def is_file1_def slot1_def booted1_def)+

lemma booted1_no_entry: "\<not> live (fs_data1 (booted1 s)) 0 e"
  by (auto simp: booted1_view(5) live_def clear_entries_inumber)

lemma abs_booted1: "abs1 (booted1 s) = \<lparr>a_dir = (\<lambda>_. None), a_files = (\<lambda>_. None), a_open = (\<lambda>_. None)\<rparr>"
proof -
  have "find_entry (fs_data1 (booted1 s)) 0 n 0 = -1" for n
    by (rule find_entry_absent) (simp add: booted1_no_entry)
  moreover have "f < MAX_OPEN_FILES \<Longrightarrow> free_open_file_entries1 (booted1 s) f = FREE" for f by (simp add: booted1_def)
  ultimately show ?thesis
    by (auto simp: abs1_def abs_dir1_def abs_files1_def abs_open1_def booted1_view(2,3) fun_eq_iff)
qed

lemma ready_booted1:
  assumes "open_files_count1 s = 0"
  shows "ready1 (booted1 s)"
proof -
  have handle: "f < MAX_OPEN_FILES \<Longrightarrow> free_open_file_entries1 (booted1 s) f = FREE" for f by (simp add: booted1_def)
  have "root_ok1 (booted1 s)" by (simp add: root_ok1_def booted1_view) (simp add: booted1_def config)
  moreover have "files_ok1 (booted1 s)" by (simp add: files_ok1_def booted1_view)
  moreover have "handles_ok1 (booted1 s)" by (auto simp: handles_ok1_def handle)
  moreover have "open_files_count1 (booted1 s) = int (handle_count1 (booted1 s))"
  proof -
    have "handle_count1 (booted1 s) = 0" by (auto simp: handle_count1_def handle)
    with assms show ?thesis by (simp add: booted1_def)
  qed
  moreover have "dir_ok1 (booted1 s)"
    unfolding dir_ok1_def booted1_view(2,3) by (simp add: booted1_no_entry bij_betw_def inj_on_def)
  moreover have "blocks_ok1 (booted1 s)"
  proof -
    have "{b. b < DATA_BLOCKS \<and> free_blocks1 (booted1 s) b = TAKEN} = {0}"
      by (auto simp: booted1_def config split: if_splits)
    moreover have "bij_betw (blk1 (booted1 s)) {(0, 0)} {0}" by (simp add: bij_betw_def booted1_view(1))
    moreover have "valid_block_number (i_data_block1 (inode_table1 (booted1 s) 0) 0)"
      by (simp add: booted1_def valid_block_number_def config)
    ultimately show ?thesis by (simp add: blocks_ok1_def booted1_view(4))
  qed
  moreover have "offsets_ok1 (booted1 s)" using abs_booted1 [of s] by (simp add: offsets_ok1_def abs1_def)
  moreover have "names_ok1 (booted1 s)"
    by (simp add: names_ok1_def distinct_names_def booted1_view(2) booted1_no_entry)
  ultimately show ?thesis by (simp add: ready1_def ok1_def wf1_def) (simp add: quiet_def booted1_def)
qed

section \<open>Operations as data\<close>

fun fs_step1 :: "fs_op \<Rightarrow> fs_state1 \<Rightarrow> (fs_res \<times> fs_state1) outcome" where
  "fs_step1 (Op_open n flags) s = no_bytes (tfs_open1 (path n) flags s)"
| "fs_step1 (Op_lookup n) s = no_bytes (tfs_lookup1 (path n) s)"
| "fs_step1 (Op_close f) s = no_bytes (tfs_close1 (int f) s)"
| "fs_step1 (Op_write f data) s = no_bytes (tfs_write1 (int f) data (of_nat (length data)) s)"
| "fs_step1 (Op_read f len) s = tfs_read1 (int f) (of_nat len) s"

fun a_step1 :: "fs_op \<Rightarrow> afs \<Rightarrow> fs_res \<times> afs" where
  "a_step1 (Op_write f data) a = (case a_store f data a of (r, a) \<Rightarrow> ((r, []), a))"
| "a_step1 x a = a_step x a"

text \<open>
  The contract of the first delivery. Beyond that of the second: a file stays within its ten direct
  blocks, a transfer of a multiple of a block starts at a block boundary, nothing of length 0 is
  written, no handle outside the table is closed, and only files of \<open>can_truncate\<close> are truncated.
\<close>

fun allowed1 :: "fs_op \<Rightarrow> afs \<Rightarrow> bool" where
  "allowed1 (Op_open n flags) a \<longleftrightarrow> good_name n \<and> trunc_safe n flags a \<and> trunc_fits n flags a"
| "allowed1 (Op_lookup n) a \<longleftrightarrow> good_name n"
| "allowed1 (Op_close f) a \<longleftrightarrow> f < MAX_OPEN_FILES"
| "allowed1 (Op_write f data) a \<longleftrightarrow> (case a_open a f of None \<Rightarrow> False
     | Some (i, off) \<Rightarrow> data \<noteq> [] \<and> off + length data \<le> MAX_DIRECT_SIZE \<and> aligned off (length data))"
| "allowed1 (Op_read f len) a \<longleftrightarrow> (case a_open a f of None \<Rightarrow> False
     | Some (i, off) \<Rightarrow> len < 18446744073709551616 \<and> aligned off (min (length (the (a_files a i)) - off) len))"

interpretation tfs1: implements fs_step1 a_step1 allowed1 abs1 ready1
proof unfold_locales
  fix s x
  assume s: "ready1 s" and x: "allowed1 x (abs1 s)"
  show "\<exists>s'. fs_step1 x s = Ok (fst (a_step1 x (abs1 s)), s') \<and> abs1 s' = snd (a_step1 x (abs1 s)) \<and> ready1 s'"
  proof (cases x)
    case (Op_open n flags)
    with refine_tfs_open1 [OF s, of n flags] x show ?thesis by (auto simp: no_bytes_def case_prod_beta)
  next
    case (Op_lookup n)
    with refine_tfs_lookup1 [OF s, of n] x s show ?thesis by (auto simp: no_bytes_def)
  next
    case (Op_close f)
    with refine_tfs_close1 [OF s, of f] x show ?thesis by (auto simp: no_bytes_def case_prod_beta)
  next
    case (Op_write f data)
    with x obtain i off where w: "abs_open1 s f = Some (i, off)" "data \<noteq> []" "off + length data \<le> MAX_DIRECT_SIZE"
      "aligned off (length data)"
      by (auto split: option.splits)
    then have "unat (of_nat (length data) :: size_t) = length data"
      by (intro unat_of_nat_small) (simp add: MAX_DIRECT_SIZE_def)
    with Op_write w refine_tfs_write1 [OF s w(1), of "of_nat (length data)" data] show ?thesis
      by (auto simp: no_bytes_def case_prod_beta a_store_view(1))
  next
    case (Op_read f len)
    with x obtain i off where r: "abs_open1 s f = Some (i, off)" "len < 18446744073709551616"
      "aligned off (min (length (the (abs_files1 s i)) - off) len)"
      by (auto split: option.splits)
    have "is_file1 s i" using abs_open1_Some(3) [OF _ r(1)] s by (simp add: ready1_def)
    then have "the (abs_files1 s i) = content1 s i" by (simp add: abs_files1_def)
    with Op_read r refine_tfs_read1 [OF s r(1), of "of_nat len"] show ?thesis
      by (auto simp: unat_of_nat_small)
  qed
qed

section \<open>The two deliveries\<close>

text \<open>
  The operations on which the two abstract machines agree: writes that stay in the first block.
\<close>

fun one_block :: "fs_op \<Rightarrow> afs \<Rightarrow> bool" where
  "one_block (Op_write f data) a = (case a_open a f of None \<Rightarrow> False | Some (i, off) \<Rightarrow> off + length data \<le> BLOCK_SIZE)"
| "one_block x a = True"

definition allowed_both :: "fs_op \<Rightarrow> afs \<Rightarrow> bool" where
  "allowed_both x a \<longleftrightarrow> allowed1 x a \<and> one_block x a"

lemma step_agree: "allowed_both x a \<Longrightarrow> allowed x a \<and> a_step1 x a = a_step x a"
proof (cases x)
  case (Op_write f data)
  assume "allowed_both x a"
  with Op_write show ?thesis
    by (auto simp: allowed_both_def config a_write_store [unfolded BLOCK_SIZE_def] split: option.splits)
qed (auto simp: allowed_both_def split: option.splits)

lemma run_agree:
  "all_allowed a_step1 allowed_both xs a \<Longrightarrow>
    all_allowed a_step1 allowed1 xs a \<and> all_allowed a_step allowed xs a \<and> run_abs a_step1 xs a = run_abs a_step xs a"
proof (induction xs arbitrary: a)
  case Nil
  then show ?case by simp
next
  case (Cons x xs)
  then have x: "allowed_both x a" by simp
  from step_agree [OF x] have "a_step1 x a = a_step x a" "allowed x a" by auto
  moreover from this Cons have "all_allowed a_step1 allowed1 xs (snd (a_step x a)) \<and>
      all_allowed a_step allowed xs (snd (a_step x a)) \<and> run_abs a_step1 xs (snd (a_step x a)) = run_abs a_step xs (snd (a_step x a))"
    by simp
  moreover have "allowed1 x a" using x by (simp add: allowed_both_def)
  ultimately show ?case by (simp add: case_prod_beta)
qed

end
