(* ===== verification/FS1_Copy.thy ===== *)
theory FS1_Copy
  imports FS1_Run
begin

text \<open>
  Copying a file out of the first delivery's file system: the loop reads block after block and ends,
  and the destination holds the file.
\<close>

lemma read1_step:
  assumes "ready1 s" and "abs_open1 s f = Some (i, off)" and "aligned off (min (length (content1 s i) - off) (unat len))"
  obtains s' where "tfs_read1 (int f) len s =
      Ok ((int (min (unat len) (length (content1 s i) - off)), take (unat len) (drop off (content1 s i))), s')"
    and "ready1 s'" and "abs1 s' = (abs1 s)\<lparr>a_open := (abs_open1 s)(f \<mapsto>
      (i, off + min (unat len) (length (content1 s i) - off)))\<rparr>"
proof -
  have "is_file1 s i" using abs_open1_Some(3) [OF _ assms(2)] assms(1) by (simp add: ready1_def)
  then have "a_read f (unat len) (abs1 s) =
      ((int (min (unat len) (length (content1 s i) - off)), take (unat len) (drop off (content1 s i))),
       (abs1 s)\<lparr>a_open := (abs_open1 s)(f \<mapsto> (i, off + min (unat len) (length (content1 s i) - off)))\<rparr>)"
    using assms(2) by (simp add: a_read_def abs_files1_def Let_def min.commute del: length_content1)
  with refine_tfs_read1 [OF assms] that show ?thesis by auto
qed

lemma copy_loop_step:
  assumes "tfs_read1 handle (of_nat BLOCK_SIZE) s = Ok ((int n, bs), s1)" and "\<And>n. n \<le> accepts n"
  shows "copy_loop (Suc fuel) accepts handle dest s =
    (if n = BLOCK_SIZE then copy_loop fuel accepts handle (dest @ bs) s1 else Ok (Some ((True, dest @ bs), s1)))"
  using assms by (simp add: min_absorb2)

text \<open>Any \<open>fwrite\<close> that takes everything it is given, and fuel for one pass more than full blocks are left.\<close>

lemma copy_loop_copies:
  assumes "ready1 s" and "abs_open1 s f = Some (i, off)" and "off mod BLOCK_SIZE = 0"
    and "length (content1 s i) - off < BLOCK_SIZE * fuel" and "\<And>n. n \<le> accepts n"
  shows "\<exists>s'. copy_loop fuel accepts (int f) dest s = Ok (Some ((True, dest @ drop off (content1 s i)), s')) \<and> ready1 s' \<and>
    abs1 s' = (abs1 s)\<lparr>a_open := (abs_open1 s)(f \<mapsto> (i, length (content1 s i)))\<rparr>"
  using assms(1-4)
proof (induction fuel arbitrary: s off dest)
  case 0
  then show ?case by simp
next
  case (Suc fuel)
  let ?c = "content1 s i" and ?len = "of_nat BLOCK_SIZE :: size_t"
  let ?n = "min BLOCK_SIZE (length ?c - off)"
  have len: "unat ?len = BLOCK_SIZE" by (simp add: config)
  have wf: "wf1 s" using Suc.prems(1) by (simp add: ready1_def)
  have off: "off \<le> length ?c" using Suc.prems(1,2) by (auto simp: ready1_def ok1_def offsets_ok1_def)
  have al: "aligned off (min (length ?c - off) (unat ?len))" using Suc.prems(3) by (simp add: aligned_def)
  obtain s1 where s1: "tfs_read1 (int f) ?len s = Ok ((int ?n, take BLOCK_SIZE (drop off ?c)), s1)" "ready1 s1"
    "abs1 s1 = (abs1 s)\<lparr>a_open := (abs_open1 s)(f \<mapsto> (i, off + ?n))\<rparr>"
    using read1_step [OF Suc.prems(1,2) al] unfolding len .
  have same: "content1 s1 i = ?c"
  proof -
    have isf: "is_file1 s i" using abs_open1_Some(3) [OF wf Suc.prems(2)] .
    moreover have "abs_files1 s1 = abs_files1 s" using s1(3) by (simp add: abs1_def)
    ultimately show ?thesis by (auto simp: abs_files1_def dest: fun_cong [of _ _ i] split: if_splits)
  qed
  have step: "copy_loop (Suc fuel) accepts (int f) dest s =
    (if ?n = BLOCK_SIZE then copy_loop fuel accepts (int f) (dest @ take BLOCK_SIZE (drop off ?c)) s1
     else Ok (Some ((True, dest @ take BLOCK_SIZE (drop off ?c)), s1)))"
    using copy_loop_step [OF s1(1) assms(5)] .
  show ?case
  proof (cases "?n = BLOCK_SIZE")
    case False
    then have short: "length ?c - off < BLOCK_SIZE" by (simp only: min_def split: if_splits)
    then have "take BLOCK_SIZE (drop off ?c) = drop off ?c" "off + ?n = length ?c" using off by simp_all
    with step s1(2,3) False show ?thesis by (intro exI [of _ s1]) (simp only: if_False simp_thms)
  next
    case True
    then have n: "BLOCK_SIZE \<le> length ?c - off" by (simp only: min_def split: if_splits)
    have open1: "abs_open1 s1 f = Some (i, off + BLOCK_SIZE)" using s1(3) True by (simp add: abs1_def)
    have fuel: "length (content1 s1 i) - (off + BLOCK_SIZE) < BLOCK_SIZE * fuel"
      unfolding same using Suc.prems(4) n by simp
    have "(off + BLOCK_SIZE) mod BLOCK_SIZE = 0" using Suc.prems(3) by simp
    from Suc.IH [OF s1(2) open1 this fuel, of "dest @ take BLOCK_SIZE (drop off ?c)"] obtain s' where
      s': "copy_loop fuel accepts (int f) (dest @ take BLOCK_SIZE (drop off ?c)) s1 =
        Ok (Some ((True, (dest @ take BLOCK_SIZE (drop off ?c)) @ drop (off + BLOCK_SIZE) ?c), s'))" "ready1 s'"
      "abs1 s' = (abs1 s1)\<lparr>a_open := (abs_open1 s1)(f \<mapsto> (i, length ?c))\<rparr>"
      unfolding same by blast
    have "take BLOCK_SIZE (drop off ?c) @ drop (off + BLOCK_SIZE) ?c = drop off ?c"
      by (metis add.commute append_take_drop_id drop_drop)
    moreover have "(abs1 s1)\<lparr>a_open := (abs_open1 s1)(f \<mapsto> (i, length ?c))\<rparr> = (abs1 s)\<lparr>a_open := (abs_open1 s)(f \<mapsto> (i, length ?c))\<rparr>"
    proof -
      have "abs_open1 s1 = (abs_open1 s)(f \<mapsto> (i, off + ?n))" using s1(3) by (simp add: abs1_def)
      with s1(3) show ?thesis by simp
    qed
    ultimately show ?thesis
      using True step s' by (intro exI [of _ s']) (simp only: if_True append_assoc simp_thms)
  qed
qed

text \<open>Opening an existing file without flags.\<close>

lemma open1_plain:
  assumes "ready1 s" and "good_name n" and "abs_dir1 s n = Some i"
    and "f < MAX_OPEN_FILES" and "abs_open1 s f = None" and "\<And>g. g < f \<Longrightarrow> abs_open1 s g \<noteq> None"
  obtains s' where "tfs_open1 (path n) 0 s = Ok (int f, s')" and "ready1 s'"
    and "abs1 s' = (abs1 s)\<lparr>a_open := (abs_open1 s)(f \<mapsto> (i, 0))\<rparr>"
proof -
  have "first_free (\<lambda>g. if abs_open1 s g = None then FREE else TAKEN) 0 MAX_OPEN_FILES = Some f"
    using assms(4-6) by (auto intro!: first_free_least)
  moreover have "trunc_safe n 0 (abs1 s)" "trunc_fits n 0 (abs1 s)" by (simp_all add: trunc_safe_def trunc_fits_def)
  ultimately show ?thesis
    using refine_tfs_open1 [OF assms(1,2), of 0] assms(3) that
    by (auto simp: a_open_file_def a_add_handle_def Let_def)
qed

lemma opened_handle:
  assumes "ready1 s" and "abs_open1 s f = Some (i, off)"
  shows "get_open_file_entry (int f) = Some f" and "inode_get (of_inumber (open_file_table1 s f)) = Some i"
  using abs_open1_Some [OF _ assms(2)] assms(1) by (auto simp: ready1_def)

end
