(* ===== verification/FS1_Props.thy ===== *)
theory FS1_Props
  imports FS1_Copy FS_Demo
begin

text \<open>
  The properties of the first delivery's file system (\<open>parte-1/fs\<close>) inside its contract, and its
  agreement with the second delivery.
\<close>

section \<open>Concrete states\<close>

definition run_state1 :: "fs_op list \<Rightarrow> fs_state1" where
  "run_state1 xs = (case run_ops fs_step1 xs (booted1 fs1_static) of Ok (_, s) \<Rightarrow> s | Fault _ \<Rightarrow> fs1_static)"

lemma ready_start1: "ready1 (booted1 fs1_static)" "abs1 (booted1 fs1_static) = empty_fs"
  by (simp_all add: ready_booted1 fs1_static_def) (simp add: abs_booted1 empty_fs_def)

lemma ready_run_state1:
  assumes "all_allowed a_step1 allowed1 xs empty_fs"
  shows "ready1 (run_state1 xs)" and "abs1 (run_state1 xs) = snd (run_abs a_step1 xs empty_fs)"
  using tfs1.run_law [OF ready_start1(1), of xs] assms by (auto simp: run_state1_def ready_start1(2))

lemmas eval_abs1 = eval_abs a_store_def aligned_def MAX_DIRECT_SIZE_def trunc_fits_def can_truncate_def

text \<open>A file of 2500 bytes, in three blocks, open at its end; and the same file closed.\<close>

definition bytes :: "byte list" where "bytes = replicate 2500 7"

definition demo1_written :: fs_state1 where
  "demo1_written = run_state1 [Op_open f1 1, Op_write 0 bytes]"

definition demo1_closed :: fs_state1 where
  "demo1_closed = run_state1 [Op_open f1 1, Op_write 0 bytes, Op_close 0]"

lemma length_bytes [simp]: "length bytes = 2500" "bytes \<noteq> []"
  by (simp_all add: bytes_def)

lemma demo1_written:
  "ready1 demo1_written"
  "abs1 demo1_written = \<lparr>a_dir = [f1 \<mapsto> 1], a_files = [1 \<mapsto> bytes], a_open = [0 \<mapsto> (1, 2500)]\<rparr>"
  unfolding demo1_written_def
  by (subst ready_run_state1; simp add: eval_abs1)+

lemma demo1_closed:
  "ready1 demo1_closed"
  "abs1 demo1_closed = \<lparr>a_dir = [f1 \<mapsto> 1], a_files = [1 \<mapsto> bytes], a_open = (\<lambda>_. None)\<rparr>"
  unfolding demo1_closed_def
  by (subst ready_run_state1; simp add: eval_abs1 fun_upd_idem)+

lemma content1_abs: "abs_files1 s i = Some c \<Longrightarrow> content1 s i = c"
  by (simp add: abs_files1_def split: if_splits)

lemma demo1_view:
  "abs_dir1 demo1_written = [f1 \<mapsto> 1]" "abs_open1 demo1_written = [0 \<mapsto> (1, 2500)]" "content1 demo1_written 1 = bytes"
  "abs_dir1 demo1_closed = [f1 \<mapsto> 1]" "abs_open1 demo1_closed = (\<lambda>_. None)" "content1 demo1_closed 1 = bytes"
  "content1 demo1_written (Suc 0) = bytes" "content1 demo1_closed (Suc 0) = bytes"
  using demo1_written(2) demo1_closed(2) by (auto simp: abs1_def intro!: content1_abs)

section \<open>Runs of operations\<close>

text \<open>
  C7: After a successful start-up of the first delivery, every sequence of operations inside its
  contract (files of up to ten blocks) meets no fault and no blocked lock, returns exactly the results
  and bytes of the abstract file system, and ends with all locks free in a state that represents it.
\<close>
theorem tfs1_runs_refine:
  assumes "open_files_count1 s = 0" and "tfs_init1 0 0 (\<lambda>_. 0) s = Ok (0, s0)"
    and "all_allowed a_step1 allowed1 xs empty_fs"
  shows "\<exists>s'. run_ops fs_step1 xs s0 = Ok (fst (run_abs a_step1 xs empty_fs), s') \<and>
    abs1 s' = snd (run_abs a_step1 xs empty_fs) \<and> wf1 s' \<and> quiet s'"
proof -
  from assms(2) have "s0 = booted1 s" by (simp add: tfs_init1_eq)
  then show ?thesis
    using tfs1.run_law [OF ready_booted1 [OF assms(1)], of xs] assms(3)
    by (auto simp: abs_booted1 empty_fs_def dest: ready1D)
qed

theorem tfs1_runs_refine_witness:
  "\<exists>s'. run_ops fs_step1 [Op_open f1 1, Op_write 0 bytes, Op_close 0, Op_open f1 0, Op_read 0 3000] (booted1 fs1_static) =
    Ok ([(0, []), (2500, []), (0, []), (0, []), (2500, bytes)], s') \<and> quiet s'"
proof -
  have "open_files_count1 fs1_static = 0" by (simp add: fs1_static_def)
  from tfs1_runs_refine [OF this tfs_init1_eq, of
      "[Op_open f1 1, Op_write 0 bytes, Op_close 0, Op_open f1 0, Op_read 0 3000]"]
  show ?thesis by (auto simp: eval_abs1)
qed

text \<open>
  C9: The two deliveries agree: from their start-ups, a sequence of operations inside both contracts returns the same
  results and bytes from both implementations, and leaves them representing the same abstract file system. Both
  contracts: names are proper names of at most 39 bytes; writes and reads go through open handles; a write is not empty and
  stays in the first block of its file; a transfer of a whole block, or a read that finds no bytes, starts at a block boundary;
  closes are of handles of the table; and a file is truncated only when no open handle of it is past its beginning and its length
  is 0 or not a whole block.
\<close>
theorem deliveries_agree:
  assumes "all_allowed a_step1 allowed_both xs empty_fs"
  shows "\<exists>rs s s'. run_ops fs_step1 xs (booted1 fs1_static) = Ok (rs, s) \<and>
    run_ops fs_step xs (booted fs_static) = Ok (rs, s') \<and> abs1 s = abs_fs s'"
proof -
  have "all_allowed a_step1 allowed1 xs empty_fs" "all_allowed a_step allowed xs empty_fs"
    "run_abs a_step1 xs empty_fs = run_abs a_step xs empty_fs"
    using run_agree [OF assms] by auto
  with tfs1.run_law [OF ready_start1(1), of xs] tfs.run_law [OF ready_start(1), of xs] show ?thesis
    by (auto simp: ready_start1(2) ready_start(2))
qed

theorem deliveries_agree_witness:
  "\<exists>rs s s'. run_ops fs_step1 [Op_open f1 1, Op_write 0 [7, 8, 9], Op_lookup f1] (booted1 fs1_static) = Ok (rs, s) \<and>
    run_ops fs_step [Op_open f1 1, Op_write 0 [7, 8, 9], Op_lookup f1] (booted fs_static) = Ok (rs, s')"
  using deliveries_agree [of "[Op_open f1 1, Op_write 0 [7, 8, 9], Op_lookup f1]"]
  by (auto simp: eval_abs1 allowed_both_def)

section \<open>Writing over several blocks\<close>

text \<open>
  C18: In the first delivery a write of \<open>n\<close> bytes at position \<open>off\<close> of a file, across block boundaries and
  allocating blocks as needed, writes all \<open>n\<close> bytes: it replaces exactly that slice of the file, moves the
  handle, changes no other file, handle or directory entry, and releases every lock. The file must stay
  within ten blocks, and \<open>n\<close> must not be a multiple of 1024 unless \<open>off\<close> is.
\<close>
theorem write1_effect:
  assumes "ready1 s" and "abs_open1 s f = Some (i, off)" and "unat w = length buffer" and "buffer \<noteq> []"
    and "off + length buffer \<le> 10240" and "length buffer mod 1024 = 0 \<Longrightarrow> off mod 1024 = 0"
  shows "\<exists>s'. tfs_write1 (int f) buffer w s = Ok (int (length buffer), s') \<and> quiet s' \<and> wf1 s' \<and>
    abs_files1 s' = (abs_files1 s)(i \<mapsto> take off (content1 s i) @ buffer @ drop (off + length buffer) (content1 s i)) \<and>
    abs_open1 s' = (abs_open1 s)(f \<mapsto> (i, off + length buffer)) \<and> abs_dir1 s' = abs_dir1 s"
proof -
  have "is_file1 s i" using abs_open1_Some(3) [OF _ assms(2)] assms(1) by (simp add: ready1_def)
  then have c: "the (abs_files1 s i) = content1 s i" by (simp add: abs_files1_def)
  have "aligned off (unat w)" using assms(3,6) by (cases "length buffer mod 1024 = 0") (simp_all add: aligned_def config)
  with refine_tfs_write1 [OF assms(1,2), of w buffer] assms(3-5) obtain s' where
    "tfs_write1 (int f) buffer w s = Ok (int (length buffer), s')" "ready1 s'"
    "abs1 s' = snd (a_store f buffer (abs1 s))"
    by (auto simp: MAX_DIRECT_SIZE_def)
  moreover from this(3) assms(2) c have
    "abs_files1 s' = (abs_files1 s)(i \<mapsto> take off (content1 s i) @ buffer @ drop (off + length buffer) (content1 s i))"
    "abs_open1 s' = (abs_open1 s)(f \<mapsto> (i, off + length buffer))" "abs_dir1 s' = abs_dir1 s"
    by (simp_all add: a_store_def Let_def abs1_def)
  ultimately show ?thesis by (auto dest: ready1D)
qed

theorem write1_effect_witness:
  "\<exists>s'. tfs_write1 0 bytes 2500 demo1_written = Ok (2500, s') \<and> abs_files1 s' 1 = Some (bytes @ bytes)"
proof -
  have "take 2500 bytes = bytes" by simp
  with write1_effect [OF demo1_written(1), of 0 1 2500 2500 bytes] show ?thesis by (auto simp: demo1_view)
qed

section \<open>Copying a file out\<close>

text \<open>
  C20: Copying an existing file out of the first delivery's file system ends, after at most one pass of
  its loop for every full block of the file and one more, with result 0: the destination holds exactly
  the file's bytes and is closed, and the file system is as before with no handle left open.
\<close>
theorem copy_terminates:
  assumes "ready1 s" and "good_name n" and "abs_dir1 s n = Some i"
    and "f < MAX_OPEN_FILES" and "abs_open1 s f = None" and "\<And>g. g < f \<Longrightarrow> abs_open1 s g \<noteq> None"
    and "length (content1 s i) div BLOCK_SIZE < fuel" and "\<And>k. k \<le> accepts k"
  shows "\<exists>s'. tfs_copy_to_external_fs fuel True True accepts (path n) s =
    Ok (Some ((0, Some (content1 s i), False), s')) \<and> ready1 s' \<and> abs1 s' = abs1 s"
proof -
  obtain s1 where s1: "tfs_open1 (path n) 0 s = Ok (int f, s1)" "ready1 s1"
    "abs1 s1 = (abs1 s)\<lparr>a_open := (abs_open1 s)(f \<mapsto> (i, 0))\<rparr>"
    using open1_plain [OF assms(1-6)] .
  have open1: "abs_open1 s1 f = Some (i, 0)" using s1(3) by (simp add: abs1_def)
  have same: "content1 s1 i = content1 s i"
  proof -
    have "is_file1 s1 i" using abs_open1_Some(3) [OF _ open1] s1(2) by (simp add: ready1_def)
    moreover have "abs_files1 s1 = abs_files1 s" using s1(3) by (simp add: abs1_def)
    ultimately have "abs_files1 s i = Some (content1 s1 i)" by (metis abs_files1_def)
    then show ?thesis by (rule content1_abs [symmetric])
  qed
  have "length (content1 s1 i) - 0 < BLOCK_SIZE * fuel"
    using assms(7) unfolding same by (simp add: div_less_iff_less_mult config mult.commute)
  then obtain s2 where s2: "copy_loop fuel accepts (int f) [] s1 = Ok (Some ((True, content1 s i), s2))" "ready1 s2"
    "abs1 s2 = (abs1 s1)\<lparr>a_open := (abs_open1 s1)(f \<mapsto> (i, length (content1 s i)))\<rparr>"
    using copy_loop_copies [OF s1(2) open1 _ _ assms(8), of fuel "[]"] unfolding same by auto
  have open2: "abs_open1 s2 f \<noteq> None" using s2(3) by (simp add: abs1_def)
  obtain s3 where s3: "tfs_close1 (int f) s2 = Ok (0, s3)" "abs1 s3 = (abs1 s2)\<lparr>a_open := (abs_open1 s2)(f := None)\<rparr>" "ready1 s3"
    using refine_tfs_close1 [OF s2(2) assms(4)] open2 by (auto simp: a_close_def)
  have "(abs_open1 s)(f := None) = abs_open1 s" using assms(5) by (simp add: fun_upd_idem)
  then have "abs1 s3 = abs1 s"
    using s1(3) s2(3) s3(2) by (simp add: abs1_def)
  moreover have "int f \<noteq> -1" by simp
  ultimately show ?thesis
    using s1(1) s2(1) s3(1,3) opened_handle [OF s1(2) open1]
    by (simp add: tfs_copy_to_external_fs_def del: length_content1)
qed

theorem copy_terminates_witness:
  "\<exists>s'. tfs_copy_to_external_fs 3 True True (\<lambda>k. k) (path f1) demo1_closed =
    Ok (Some ((0, Some bytes, False), s')) \<and> abs1 s' = abs1 demo1_closed"
  using copy_terminates [OF demo1_closed(1) good_f1(1), of 1 0 3 "\<lambda>k. k"]
  by (auto simp: demo1_view config simp del: length_content1)

text \<open>
  C33: When the copy fails because the destination cannot be created or the memory for its contents cannot be allocated,
  the source stays open: its handle is never closed, and \<open>tfs_destroy_after_all_closed\<close> then
  waits for ever on a file system nobody else uses.
\<close>
theorem failed_copy_leaks_handle:
  assumes "ready1 s" and "good_name n" and "abs_dir1 s n = Some i"
    and "f < MAX_OPEN_FILES" and "abs_open1 s f = None" and "\<And>g. g < f \<Longrightarrow> abs_open1 s g \<noteq> None"
    and "\<not> fopen_ok \<or> \<not> malloc_ok"
  shows "\<exists>d s'. tfs_copy_to_external_fs fuel fopen_ok malloc_ok accepts (path n) s = Ok (Some ((-1, d), s')) \<and>
    abs_open1 s' f = Some (i, 0) \<and> tfs_destroy_after_all_closed1 (replicate k id) s' = Ok None"
proof -
  obtain s1 where s1: "tfs_open1 (path n) 0 s = Ok (int f, s1)" "ready1 s1"
    "abs1 s1 = (abs1 s)\<lparr>a_open := (abs_open1 s)(f \<mapsto> (i, 0))\<rparr>"
    using open1_plain [OF assms(1-6)] .
  have open1: "abs_open1 s1 f = Some (i, 0)" using s1(3) by (simp add: abs1_def)
  then have "\<exists>d. tfs_copy_to_external_fs fuel fopen_ok malloc_ok accepts (path n) s = Ok (Some ((-1, d), s1))"
    using s1(1) opened_handle [OF s1(2) open1] assms(7) by (auto simp: tfs_copy_to_external_fs_def)
  moreover have "open_files_count1 s1 \<noteq> 0"
  proof -
    let ?H = "{f. f < MAX_OPEN_FILES \<and> free_open_file_entries1 s1 f = TAKEN}"
    have "f \<in> ?H" "finite ?H" using open1 by (auto simp: abs_open1_def split: if_splits)
    then have "handle_count1 s1 \<noteq> 0" unfolding handle_count1_def using card_0_eq [of ?H] by blast
    then show ?thesis using s1(2) by (simp add: ready1_def ok1_def wf1_def)
  qed
  then have "wait_all_closed1 (replicate k id) (s1\<lparr>open_files_mutex1 := Locked\<rparr>) = None"
    by (induction k) (simp_all add: wait_all_closed1.simps [of "[]"] wait_all_closed1.simps [of "_ # _"])
  then have "tfs_destroy_after_all_closed1 (replicate k id) s1 = Ok None"
    using s1(2) by (simp add: tfs_destroy_after_all_closed1_def ready1_def quiet_def)
  ultimately show ?thesis using open1 by auto
qed

theorem failed_copy_leaks_handle_witness:
  "\<exists>d s'. tfs_copy_to_external_fs 3 False True (\<lambda>k. k) (path f1) demo1_closed = Ok (Some ((-1, d), s')) \<and>
    tfs_destroy_after_all_closed1 (replicate 5 id) s' = Ok None"
  using failed_copy_leaks_handle [OF demo1_closed(1) good_f1(1), of 1 0 False True 3 "\<lambda>k. k" 5]
  by (auto simp: demo1_view config)

end
