(* ===== verification/FS1_Misuse.thy ===== *)
theory FS1_Misuse
  imports FS1_Props
begin

text \<open>
  What the first delivery does outside its contract: index blocks, writes of length 0 or of whole blocks
  at odd positions, truncation of full blocks.
\<close>

section \<open>A write of length 0\<close>

text \<open>
  C34: A write of 0 bytes through an open handle returns 0 but skips the unlocking: the handle's and the
  i-node's locks stay write-locked, and every later write, read or close of the handle blocks for ever.
\<close>
theorem empty_write_keeps_locks:
  assumes "ready1 s" and "abs_open1 s f = Some (i, off)"
  shows "\<exists>s'. tfs_write1 (int f) buffer 0 s = Ok (0, s') \<and> rwlocks s' (Inode_lock (int i)) = RW_Writer \<and>
    tfs_write1 (int f) buffer' w s' = Fault Deadlock \<and> tfs_read1 (int f) len s' = Fault Deadlock \<and>
    tfs_close1 (int f) s' = Fault Deadlock"
proof -
  note ok = ready1D [OF assms(1)]
  note h = abs_open1_Some [OF ok(3) assms(2)]
  have i: "i < INODE_TABLE_SIZE" using h(3) by (simp add: is_file1_def)
  note locks = take_file_locks [OF ok(2) h(1) i]
  let ?s = "with_file_locks f i s"
  have "tfs_write1 (int f) buffer 0 s = Ok (0, ?s)"
    using locks h by (simp add: tfs_write1_def get_open_file_table_lock_def get_inode_table_lock_def)
  moreover have t: "in_table (File_lock (int f))" using h(1) by (simp add: valid_file_handle_def)
  have r: "rwlocks ?s (File_lock (int f)) = RW_Writer" "rwlocks ?s (Inode_lock (int i)) = RW_Writer"
    by (simp_all add: with_file_locks_def)
  have "write_lock_rwlock (File_lock (int f)) ?s = Fault Deadlock" using held_lock [OF t r(1)] .
  moreover have "read_lock_rwlock (File_lock (int f)) ?s = Fault Deadlock"
    using t r(1) by (simp add: read_lock_rwlock_def on_rwlock_def)
  ultimately show ?thesis using h r
    by (intro exI [of _ ?s]) (simp add: tfs_write1_def tfs_read1_def tfs_close1_def remove_from_open_file_table1_def
        get_open_file_table_lock_def)
qed

theorem empty_write_keeps_locks_witness:
  "\<exists>s'. tfs_write1 0 [] 0 demo1_written = Ok (0, s') \<and> tfs_read1 0 1 s' = Fault Deadlock"
  using empty_write_keeps_locks [OF demo1_written(1), of 0 1 2500 "[]" "[]" 1 1] by (auto simp: demo1_view)

section \<open>Truncating whole blocks\<close>

lemma full_blocks_words:
  fixes size' :: size_t
  assumes "unat size' = m * BLOCK_SIZE" and "0 < m" and "m \<le> 10"
  shows "unat (size' div of_nat BLOCK_SIZE) = m" and "(size' div of_nat BLOCK_SIZE) mod of_nat BLOCK_SIZE \<noteq> 0"
    and "unat (size' div of_nat BLOCK_SIZE + 1) = Suc m"
proof -
  show m: "unat (size' div of_nat BLOCK_SIZE) = m" using assms(1) by (simp add: unat_block_arith) (simp add: config)
  then have "unat ((size' div of_nat BLOCK_SIZE) mod of_nat BLOCK_SIZE) = m"
    using assms(3) by (simp add: unat_block_arith(1)) (simp add: config)
  with assms(2) show "(size' div of_nat BLOCK_SIZE) mod of_nat BLOCK_SIZE \<noteq> 0" by (metis unat_0 less_irrefl)
  show "unat (size' div of_nat BLOCK_SIZE + 1) = Suc m" using unat_succ [of "size' div of_nat BLOCK_SIZE"] m assms(3) by simp
qed

text \<open>
  C35: Opening with TRUNC a file whose size is an exact number \<open>m\<close> of blocks is undefined: the block count
  is rounded up although nothing is left over, so block \<open>m\<close>, which was never allocated (or for \<open>m = 10\<close>
  the index block), is released under number -1, and the lock array is indexed with it.
\<close>
theorem truncate_whole_blocks_undefined:
  assumes "ready1 s" and "good_name n" and "abs_dir1 s n = Some i"
    and "length (content1 s i) = m * BLOCK_SIZE" and "0 < m" and "m \<le> 10"
    and "m < 10 \<Longrightarrow> i_data_block1 (inode_table1 s i) m = -1" and "flag_trunc flags"
  shows "tfs_open1 (path n) flags s = Fault Undefined"
proof -
  have q: "quiet s" and wf: "wf1 s" using assms(1) by (simp_all add: ready1_def)
  have isf: "is_file1 s i" using find_entry_abs1(2) [OF wf assms(2,3)] by simp
  then have i: "i < INODE_TABLE_SIZE" by (simp add: is_file1_def)
  note locks = take_open_locks [OF q i]
  let ?o = "open_held i s" and ?size = "i_size1 (inode_table1 s i)"
  have size': "unat ?size = m * BLOCK_SIZE" using assms(4) by simp
  note words = full_blocks_words [OF size' assms(5,6)]
  have pos: "?size > 0" using size' assms(5) by (simp add: word_gt_0 unat_eq_0 [symmetric] config)
  have slots: "slot1 s (i, k)" if "k < m" for k
    using byte_slot1(1) [OF wf isf, of "k * BLOCK_SIZE"] that size' by (simp add: config)
  have valid: "valid_block_number (i_data_block1 (inode_table1 ?o i) k)" if "k < m" for k
    using slots [OF that] wf by (auto simp: wf1_def blocks_ok1_def)
  have inode_same: "inode_table1 ?o = inode_table1 s" by (simp add: open_held_def)
  have bad: "\<not> valid_block_number (-1)" by (simp add: valid_block_number_def)
  define wb where "wb = ?size div of_nat BLOCK_SIZE"
  define wb' where "wb' = (if wb mod of_nat BLOCK_SIZE \<noteq> 0 then wb + 1 else wb)"
  let ?limit = "if m < 10 then Suc m else 10"
  have wb': "unat wb' = Suc m" using words(2,3) by (simp add: wb'_def wb_def)
  then have limit: "unat (if wb' \<le> 10 then wb' else 10) = ?limit"
    using assms(6) by (auto simp: word_le_nat_alt)
  have lf: "locks_free Block_lock DATA_BLOCKS (cut i m ?o)" using locks(3) by (simp add: locks_free_def cut_def)
  have prefix: "truncate_direct i 0 ?limit ?o = truncate_direct i m ?limit (cut i m ?o)"
    using truncate_direct_prefix [OF locks(3) valid, of m 0 ?limit] assms(6) by (simp add: cut_0)
  have trunc: "truncate_inode1 i ?o = Fault Undefined"
  proof (cases "m < 10")
    case True
    then have "i_data_block1 (inode_table1 (cut i m ?o) i) m = -1" using assms(7) by (simp add: cut_def)
    with True have "truncate_direct i m (Suc m) (cut i m ?o) = Fault Undefined"
      by (simp add: truncate_direct.simps [of i m] data_block_free1_eq [OF lf] bad)
    with True prefix limit have "truncate_direct i 0 (unat (if wb' \<le> 10 then wb' else 10)) ?o = Fault Undefined" by simp
    with pos show ?thesis
      unfolding truncate_inode1_def Let_def inode_same wb_def [symmetric] wb'_def [symmetric] by simp
  next
    case False
    with assms(6) have m: "m = 10" by simp
    have "truncate_direct i 10 10 (cut i 10 ?o) = Ok (0, cut i 10 ?o)" by (simp add: truncate_direct.simps [of i 10])
    moreover have "i_indirect_data_block (inode_table1 (cut i 10 ?o) i) = -1"
      using wf isf by (simp add: cut_def wf1_def files_ok1_def node_ok1_def)
    moreover have "of_nat MAX_DIRECT_BLOCKS \<le> wb'" using wb' m by (simp add: word_le_nat_alt config)
    moreover have "truncate_direct i 0 (unat (if wb' \<le> 10 then wb' else 10)) ?o = truncate_direct i 10 10 (cut i 10 ?o)"
      using prefix limit m by simp
    ultimately show ?thesis
      using pos data_block_free1_eq [OF lf, of "-1"] bad m
      unfolding truncate_inode1_def Let_def inode_same wb_def [symmetric] wb'_def [symmetric] by simp
  qed
  have "inode_get (int i) = Some i" using i by (simp add: inode_get_def valid_inumber_def)
  with trunc locks(1,2) lookup1_locked [OF assms(1,2)] assms(3,8) good_path [OF assms(2)] show ?thesis
    by (simp add: tfs_open1_def a_lookup_def get_inode_table_lock_def)
qed

definition demo1_ten :: fs_state1 where
  "demo1_ten = run_state1 [Op_open f1 1, Op_write 0 (replicate 10240 7), Op_close 0]"

lemma demo1_ten:
  "ready1 demo1_ten"
  "abs1 demo1_ten = \<lparr>a_dir = [f1 \<mapsto> 1], a_files = [1 \<mapsto> replicate 10240 7], a_open = (\<lambda>_. None)\<rparr>"
  unfolding demo1_ten_def
  by (subst ready_run_state1; simp add: eval_abs1 fun_upd_idem)+

theorem truncate_whole_blocks_undefined_witness:
  "tfs_open1 (path f1) 2 demo1_ten = Fault Undefined"
proof -
  have "abs_dir1 demo1_ten f1 = Some 1" "content1 demo1_ten 1 = replicate 10240 7"
    using demo1_ten(2) by (auto simp: abs1_def intro!: content1_abs)
  with truncate_whole_blocks_undefined [OF demo1_ten(1) good_f1(1), of 1 10 2] show ?thesis
    by (simp add: config del: length_content1)
qed

end
