(* ===== verification/FS1_Overrun.thy ===== *)
theory FS1_Overrun
  imports FS1_Misuse
begin

text \<open>
  Where the first delivery stores outside the block it means: when it prepares an index block, and when
  it writes whole blocks at an odd position.
\<close>

section \<open>A write of one pass\<close>

lemma same_data_memory: "same_data s s' \<Longrightarrow> fs_data1 s' = fs_data1 s"
  by (simp add: same_data_def)

text \<open>A write whose loop runs once, whatever block the pass finds.\<close>

lemma one_pass_write:
  fixes w :: size_t
  assumes "quiet s" and "f < MAX_OPEN_FILES" and "of_inumber (open_file_table1 s f) = int i" and "i < INODE_TABLE_SIZE"
    and "of_offset (open_file_table1 s f) = off" and "0 < unat w" and "unat w \<le> BLOCK_SIZE" and "unat w \<le> length buffer"
    and "end_blocks off w = off div of_nat BLOCK_SIZE + 1"
    and "block_for_write i (unat off div BLOCK_SIZE) (with_file_locks f i s) = Ok (Some a, s1)"
    and "same_locks (with_file_locks f i s) s1" and "of_offset (open_file_table1 s1 f) = off"
    and "a + unat off mod BLOCK_SIZE + unat w \<le> BLOCK_SIZE * DATA_BLOCKS"
  shows "\<exists>s'. tfs_write1 (int f) buffer w s = Ok (int (unat w), s') \<and> quiet s' \<and>
    fs_data1 s' = mem_write (fs_data1 s1) (a + unat off mod BLOCK_SIZE) (take (unat w) buffer)"
proof -
  note locks = take_file_locks [OF assms(1,2,4)]
  let ?k = "off div of_nat BLOCK_SIZE" and ?a = "a + unat off mod BLOCK_SIZE"
  let ?s2 = "after_copy f i w (s1\<lparr>fs_data1 := mem_write (fs_data1 s1) ?a (take (unat w) buffer)\<rparr>)"
  have k: "?k < ?k + 1"
  proof -
    have "unat ?k < 18446744073709551615"
      using unat_size_less [of off] by (simp add: unat_block_arith) (simp add: config)
    then have "unat (?k + 1) = Suc (unat ?k)" by (simp add: unat_word_ariths)
    then show ?thesis by (simp add: word_less_nat_alt)
  qed
  have chunk: "chunk ?k (?k + 1) w off = (w, True)"
    using assms(7) by (simp add: chunk_def word_le_nat_alt) (simp add: config)
  have copy: "memcpy_in ?a buffer (unat w) (fs_data1 s1) = Ok (mem_write (fs_data1 s1) ?a (take (unat w) buffer))"
    using assms(8,13) by (simp add: memcpy_in_def)
  have loop: "write_blocks f i ?k (?k + 1) buffer w 0 (with_file_locks f i s) = Ok (Some (0 + w), ?s2)"
    unfolding write_blocks.simps [of f i ?k] if_P [OF k] unat_block_arith assms(10) and_then.simps prod.case option.case
      assms(12) chunk copy Let_def if_True ..
  have same: "same_locks (with_file_locks f i s) ?s2"
    using assms(11) by (simp add: same_locks_def after_copy_def Let_def put_defs1)
  obtain s3 where s3: "unlock_rwlock (File_lock (int f)) ?s2 = Ok (set_lock (File_lock (int f)) RW_Free ?s2)"
    "unlock_rwlock (Inode_lock (int i)) (set_lock (File_lock (int f)) RW_Free ?s2) = Ok s3" "quiet s3" "same_data ?s2 s3"
    using release_file_locks [OF assms(1,2,4) same] .
  have "sint w = int (unat w)" using assms(7) by (intro sint_small) (simp add: config)
  moreover have "0 < w" using assms(6) by (simp add: word_less_nat_alt)
  moreover have "get_open_file_entry (int f) = Some f" "inode_get (int i) = Some i"
    using assms(2,4) by (simp_all add: get_open_file_entry_def valid_file_handle_def inode_get_def valid_inumber_def)
  ultimately have "tfs_write1 (int f) buffer w s = Ok (int (unat w), s3)"
    using loop locks s3 assms(3,5,9)
    by (simp add: tfs_write1_def get_open_file_table_lock_def get_inode_table_lock_def)
  moreover have "fs_data1 s3 = mem_write (fs_data1 s1) ?a (take (unat w) buffer)"
    using same_data_memory [OF s3(4)] by (simp add: after_copy_def Let_def put_defs1)
  ultimately show ?thesis using s3(3) by blast
qed

section \<open>Whole blocks at odd positions\<close>

text \<open>
  A write of 1024 bytes at a position \<open>r\<close> bytes into block \<open>k\<close> of a file reports success but copies
  everything to that block's address: its last \<open>r\<close> bytes overwrite the beginning of whatever block
  follows physically, because the number of the end block is not rounded up.
\<close>
theorem unaligned_write_overruns:
  assumes "quiet s" and "f < MAX_OPEN_FILES" and "of_inumber (open_file_table1 s f) = int i" and "i < INODE_TABLE_SIZE"
    and "unat (of_offset (open_file_table1 s f)) = k * 1024 + r" and "k < 10" and "0 < r" and "r < 1024"
    and "i_data_block1 (inode_table1 s i) k = int b" and "Suc b < DATA_BLOCKS" and "length buffer = 1024"
  shows "\<exists>s'. tfs_write1 (int f) buffer 1024 s = Ok (1024, s') \<and>
    mem_read (fs_data1 s') (Suc b * 1024) r = drop (1024 - r) buffer"
proof -
  let ?off = "of_offset (open_file_table1 s f)" and ?s = "with_file_locks f i s"
  have div: "unat ?off div BLOCK_SIZE = k" "unat ?off mod BLOCK_SIZE = r"
    using assms(5,8) by (simp_all add: config)
  have "unat (?off + 1024) = unat ?off + 1024" using assms(5,6,8) by (simp add: unat_word_ariths)
  then have "unat ((?off + 1024) div of_nat BLOCK_SIZE) = Suc k"
    using assms(5,8) by (simp add: unat_block_arith(2)) (simp add: config)
  moreover have "unat (?off div of_nat BLOCK_SIZE + 1) = Suc k"
    using unat_succ [of "?off div of_nat BLOCK_SIZE"] assms(6) div by (simp add: unat_block_arith(2))
  ultimately have "(?off + 1024) div of_nat BLOCK_SIZE = ?off div of_nat BLOCK_SIZE + 1" by (simp add: word_unat_eq_iff)
  then have e: "end_blocks ?off 1024 = ?off div of_nat BLOCK_SIZE + 1"
    by (simp add: end_blocks_def Let_def) (simp add: config)
  have k: "k < MAX_DIRECT_BLOCKS" using assms(6) by (simp add: config)
  have block: "block_for_write i (unat ?off div BLOCK_SIZE) ?s = Ok (Some (b * BLOCK_SIZE), ?s)"
    using assms(9,10) k
    by (simp add: div block_for_write_def direct_for_write_def data_block_get_def valid_block_number_def)
  have "b * BLOCK_SIZE + unat ?off mod BLOCK_SIZE + unat (1024 :: size_t) \<le> BLOCK_SIZE * DATA_BLOCKS"
    using assms(8,10) by (simp add: div) (simp add: config)
  moreover have "unat (1024 :: size_t) \<le> BLOCK_SIZE" by (simp add: config)
  ultimately obtain s' where s': "tfs_write1 (int f) buffer 1024 s = Ok (1024, s')"
    "fs_data1 s' = mem_write (fs_data1 ?s) (b * BLOCK_SIZE + r) buffer"
    using one_pass_write [OF assms(1-4) refl _ _ _ e block same_locks_refl, of buffer] assms(11) by (auto simp: div)
  moreover have "mem_read (fs_data1 s') (Suc b * 1024) r = drop (1024 - r) buffer"
    using assms(7,8,11) by (intro nth_equalityI) (auto simp: s'(2) mem_write_def config)
  ultimately show ?thesis by blast
qed

text \<open>A started file system with one file, open at the given position, and blocks \<open>u\<close> taken.\<close>

definition handmade :: "inode1 \<Rightarrow> size_t \<Rightarrow> (nat \<Rightarrow> bool) \<Rightarrow> fs_state1" where
  "handmade node off u = (booted1 fs1_static)\<lparr>
     inode_table1 := (inode_table1 fs1_static)(1 := node),
     freeinode_ts1 := (\<lambda>j. if j \<le> 1 then TAKEN else FREE),
     free_blocks1 := (\<lambda>b. if u b then TAKEN else FREE),
     open_file_table1 := (\<lambda>_. \<lparr>of_inumber = 1, of_offset = off\<rparr>),
     free_open_file_entries1 := (\<lambda>g. if g = 0 then TAKEN else FREE), open_files_count1 := 1\<rparr>"

lemma quiet_handmade: "quiet (handmade node off u)"
  using ready1D(2) [OF ready_start1(1)] by (simp add: quiet_def handmade_def)

lemma handmade_view:
  "of_inumber (open_file_table1 (handmade node off u) 0) = int 1" "of_offset (open_file_table1 (handmade node off u) 0) = off"
  "inode_table1 (handmade node off u) 1 = node" "free_blocks1 (handmade node off u) = (\<lambda>b. if u b then TAKEN else FREE)"
  by (simp_all add: handmade_def)

text \<open>The file occupies block 1 up to its 1000th byte, another file block 2.\<close>

theorem unaligned_write_overruns_witness:
  "\<exists>s'. tfs_write1 0 (replicate 1024 7)  1024
      (handmade \<lparr>i_node_type1 = T_FILE, i_size1 = 1000, i_data_block1 = (\<lambda>k. if k = 0 then 1 else -1),
         i_indirect_data_block = -1\<rparr> 1000 (\<lambda>b. b \<le> 2)) = Ok (1024, s') \<and>
    mem_read (fs_data1 s') 2048 1000 = replicate 1000 7"
proof -
  let ?node = "\<lparr>i_node_type1 = T_FILE, i_size1 = 1000, i_data_block1 = (\<lambda>k. if k = 0 then 1 else -1),
    i_indirect_data_block = -1\<rparr> :: inode1"
  let ?s = "handmade ?node 1000 (\<lambda>b. b \<le> 2)"
  have "0 < MAX_OPEN_FILES" "1 < INODE_TABLE_SIZE" "Suc 1 < DATA_BLOCKS" by (simp_all add: config)
  from unaligned_write_overruns [OF quiet_handmade this(1) handmade_view(1) this(2), of ?node 1000 "\<lambda>b. b \<le> 2" 0 1000 1
      "replicate 1024 7"] this(3)
  show ?thesis by (simp add: handmade_view [unfolded One_nat_def])
qed

section \<open>The index block\<close>

lemma int_bytes_minus1: "int_bytes (-1) = [255, 255, 255, 255]"
proof -
  have four: "4 = Suc (Suc (Suc (Suc 0)))" by simp
  show ?thesis unfolding int_bytes_def four by simp
qed

lemma store_minus1: "store_int a (-1) m = (\<lambda>x. if a \<le> x \<and> x < a + 4 then 255 else m x)"
proof (rule ext)
  fix x
  have "[255, 255, 255, 255] ! (x - a) = (255 :: byte)" if "a \<le> x" "x < a + 4"
  proof -
    have "x - a \<in> {0, 1, 2, 3}" using that by auto
    then show ?thesis by auto
  qed
  then show "store_int a (-1) m x = (if a \<le> x \<and> x < a + 4 then 255 else m x)"
    by (auto simp: store_int_def mem_write_def int_bytes_minus1)
qed

text \<open>The loop stores 1014 numbers of four bytes, 4056 bytes in all, from the start of a block of 1024.\<close>

lemma clear_index_eq:
  assumes "p + 4056 \<le> BLOCK_SIZE * DATA_BLOCKS" and "10 \<le> j" and "j \<le> 1024"
  shows "clear_index p j m = Ok (\<lambda>x. if p + 4 * (j - 10) \<le> x \<and> x < p + 4056 then 255 else m x)"
  using assms(2,3)
proof (induction "1024 - j" arbitrary: j m)
  case 0
  then have "j = 1024" by simp
  then show ?case by (auto simp: clear_index.simps [of p 1024] config fun_eq_iff)
next
  case (Suc d)
  then have j: "d = 1024 - Suc j" "10 \<le> Suc j" "Suc j \<le> 1024" by auto
  define q where "q = p + 4 * (j - 10)"
  have q: "p + 4 * (j - 9) = q + 4" "q + 4 \<le> p + 4056" using Suc.prems(1) j(3) by (simp_all add: q_def diff_mult_distrib2)
  have store: "store_index p (j - MAX_DIRECT_BLOCKS) (-1) m = Ok (\<lambda>x. if q \<le> x \<and> x < q + 4 then 255 else m x)"
    using assms(1) q(2) by (simp add: store_index_def store_minus1 MAX_DIRECT_BLOCKS_def q_def)
  have "j < BLOCK_SIZE" using j(3) by (simp add: config)
  with store show ?case
    unfolding clear_index.simps [of p j m] q_def [symmetric]
    by (simp add: Suc(1) [OF j] q(1)) (use q(2) in \<open>auto simp: fun_eq_iff\<close>)
qed

lemma load_cleared: "load_int (\<lambda>x. if p \<le> x \<and> x < p + 4056 then 255 else m x) p = -1"
proof -
  let ?m = "\<lambda>x. if p \<le> x \<and> x < p + 4056 then 255 else m x"
  have "mem_read ?m p (Suc (Suc (Suc (Suc 0)))) = int_bytes (-1)" by (simp add: int_bytes_minus1)
  moreover have "Suc (Suc (Suc (Suc 0))) = 4" by simp
  ultimately have "mem_read ?m p 4 = int_bytes (-1)" by simp
  then show ?thesis by (simp add: load_int_def bytes_int_bytes int_ok_def)
qed

lemma first_free_bound: "first_free t 0 n = Some b \<Longrightarrow> b < n"
  using first_free_zero(1) by blast

text \<open>The first write behind the direct blocks: an index block \<open>b\<close> is allocated, then a data block.\<close>

lemma first_indirect_block:
  assumes "locks_free Block_lock DATA_BLOCKS s" and "i_indirect_data_block (inode_table1 s i) = -1"
    and "first_free (free_blocks1 s) 0 DATA_BLOCKS = Some b" and "b + 4 \<le> DATA_BLOCKS"
    and "first_free ((free_blocks1 s)(b := TAKEN)) 0 DATA_BLOCKS = Some b'"
  obtains s' where "indirect_for_write i MAX_DIRECT_BLOCKS s = Ok (Some (b' * BLOCK_SIZE), s')" and "same_locks s s'"
    and "open_file_table1 s' = open_file_table1 s"
    and "\<And>x. b * BLOCK_SIZE + 4 \<le> x \<Longrightarrow> x < b * BLOCK_SIZE + 4056 \<Longrightarrow> fs_data1 s' x = 255"
proof -
  let ?p = "b * BLOCK_SIZE"
  let ?m = "\<lambda>x. if ?p \<le> x \<and> x < ?p + 4056 then 255 else fs_data1 s x"
  let ?s1 = "put_inode1 i (i_indirect_data_block_update (\<lambda>_. int b)) (put_block1 b TAKEN s)\<lparr>fs_data1 := ?m\<rparr>"
  let ?s2 = "put_block1 b' TAKEN ?s1" let ?s3 = "?s2\<lparr>fs_data1 := store_int ?p (int b') ?m\<rparr>"
  have b: "b < DATA_BLOCKS" "b' < DATA_BLOCKS" using assms(3,5) by (auto dest: first_free_bound)
  have p: "?p + 4056 \<le> BLOCK_SIZE * DATA_BLOCKS" using assms(4) by (simp add: config)
  have get: "data_block_get (int b) = Some ?p" "data_block_get (int b') = Some (b' * BLOCK_SIZE)"
    using b by (simp_all add: data_block_get_def valid_block_number_def)
  have alloc: "data_block_alloc1 s = Ok (int b, put_block1 b TAKEN s)"
    using assms(3) by (simp add: data_block_alloc1_eq [OF assms(1)])
  have clear: "clear_index ?p MAX_DIRECT_BLOCKS (fs_data1 s) = Ok ?m"
    using clear_index_eq [OF p, of 10 "fs_data1 s"] by (simp add: MAX_DIRECT_BLOCKS_def)
  have "locks_free Block_lock DATA_BLOCKS ?s1" using assms(1) by simp
  moreover have "free_blocks1 ?s1 = (free_blocks1 s)(b := TAKEN)" by (simp add: put_defs1)
  ultimately have alloc': "data_block_alloc1 ?s1 = Ok (int b', ?s2)"
    using assms(5) by (simp add: data_block_alloc1_eq)
  have index: "load_index ?p 0 ?m = Ok (-1)" "store_index ?p 0 (int b') ?m = Ok (store_int ?p (int b') ?m)"
    "load_index ?p 0 (store_int ?p (int b') ?m) = Ok (int b')"
    using p b(2) load_cleared [of ?p "fs_data1 s"]
    by (simp_all add: load_index_def store_index_def int_ok_def config)
  have sel: "fs_data1 (put_inode1 i g (put_block1 b TAKEN s)) = fs_data1 s" "fs_data1 ?s1 = ?m" "fs_data1 ?s2 = ?m"
    "fs_data1 ?s3 = store_int ?p (int b') ?m" for g
    by (simp_all add: put_defs1)
  have "int b' \<noteq> -1" by simp
  then have "indirect_for_write i MAX_DIRECT_BLOCKS s = Ok (Some (b' * BLOCK_SIZE), ?s3)"
    unfolding indirect_for_write_def if_P [OF assms(2)] alloc and_then.simps prod.case Let_def get option.case sel clear
      diff_self_eq_0 index if_P [OF refl] alloc'
    by (simp add: get)
  moreover have "same_locks s ?s3" "open_file_table1 ?s3 = open_file_table1 s"
    by (simp_all add: same_locks_def put_defs1)
  moreover have "fs_data1 ?s3 x = 255" if "?p + 4 \<le> x" "x < ?p + 4056" for x
    using that by (simp add: store_int_outside)
  ultimately show ?thesis using that by blast
qed

text \<open>
  C38: The first write behind the ten direct blocks of a file destroys other data: it allocates a block
  \<open>b\<close> for the index, but the loop that empties it stores 1014 block numbers where 256 fit, so the two
  blocks that follow are filled with 0xFF, whoever owns them. The write itself reports success.
\<close>
theorem index_block_overruns:
  assumes "quiet s" and "f < MAX_OPEN_FILES" and "of_inumber (open_file_table1 s f) = int i" and "i < INODE_TABLE_SIZE"
    and "of_offset (open_file_table1 s f) = 10240" and "i_indirect_data_block (inode_table1 s i) = -1"
    and "first_free (free_blocks1 s) 0 DATA_BLOCKS = Some b" and "b + 4 \<le> DATA_BLOCKS"
    and "first_free ((free_blocks1 s)(b := TAKEN)) 0 DATA_BLOCKS = Some b'"
    and "0 < unat w" and "unat w < 1024" and "unat w \<le> length buffer" and "q = b + 1 \<or> q = b + 2" and "q \<noteq> b'"
  shows "\<exists>s'. tfs_write1 (int f) buffer w s = Ok (int (unat w), s') \<and>
    mem_read (fs_data1 s') (q * 1024) 1024 = replicate 1024 255"
proof -
  let ?s = "with_file_locks f i s"
  have "locks_free Block_lock DATA_BLOCKS ?s" using take_file_locks(3) [OF assms(1,2,4)] .
  from first_indirect_block [OF this _ _ assms(8), of i b'] assms(6,7,9) obtain s1 where
    s1: "indirect_for_write i MAX_DIRECT_BLOCKS ?s = Ok (Some (b' * BLOCK_SIZE), s1)" "same_locks ?s s1"
      "open_file_table1 s1 = open_file_table1 ?s"
    and ff: "\<And>x. b * BLOCK_SIZE + 4 \<le> x \<Longrightarrow> x < b * BLOCK_SIZE + 4056 \<Longrightarrow> fs_data1 s1 x = 255"
    by (auto simp: with_file_locks_def)
  have k: "unat (10240 :: size_t) div BLOCK_SIZE = MAX_DIRECT_BLOCKS" "unat (10240 :: size_t) mod BLOCK_SIZE = 0"
    by (simp_all add: config)
  then have block: "block_for_write i (unat (10240 :: size_t) div BLOCK_SIZE) ?s = Ok (Some (b' * BLOCK_SIZE), s1)"
    using s1(1) by (simp add: block_for_write_def)
  have "unat (10240 :: size_t) + unat w \<le> 11264" using assms(11) by simp
  then have e: "end_blocks 10240 w = 10240 div of_nat BLOCK_SIZE + 1"
  proof -
    have "unat (10240 + w) = 10240 + unat w" using assms(11) by (simp add: unat_word_ariths)
    then have "unat ((10240 + w) div of_nat BLOCK_SIZE) = 10"
      using assms(11) by (simp add: unat_block_arith(2)) (simp add: config)
    then have "(10240 + w) div of_nat BLOCK_SIZE = 10" by (simp add: word_unat_eq_iff)
    moreover have "w mod of_nat BLOCK_SIZE > 0"
      using assms(10,11) by (simp add: word_less_nat_alt unat_block_arith(1)) (simp add: config)
    ultimately show ?thesis by (simp add: end_blocks_def Let_def) (simp add: config)
  qed
  have b': "b' < DATA_BLOCKS" using assms(9) by (rule first_free_bound)
  have small: "unat w \<le> BLOCK_SIZE" "of_offset (open_file_table1 s1 f) = 10240"
    using assms(5,11) s1(3) by (simp_all add: config)
  have "b' * BLOCK_SIZE + unat (10240 :: size_t) mod BLOCK_SIZE + unat w \<le> BLOCK_SIZE * DATA_BLOCKS"
    using b' assms(11) by (simp add: k(2)) (simp add: config)
  from one_pass_write [OF assms(1-5,10) small(1) assms(12) e block s1(2) small(2) this] obtain s' where
    s': "tfs_write1 (int f) buffer w s = Ok (int (unat w), s')"
      "fs_data1 s' = mem_write (fs_data1 s1) (b' * BLOCK_SIZE) (take (unat w) buffer)"
    unfolding k(2) by auto
  have "fs_data1 s' (q * 1024 + c) = 255" if c: "c < 1024" for c
  proof -
    have "fs_data1 s' (q * BLOCK_SIZE + c) = fs_data1 s1 (q * BLOCK_SIZE + c)"
      using block_write_other [of b' q 0 "take (unat w) buffer" c] assms(11,14) c
      by (simp add: s'(2) config)
    moreover have "b * BLOCK_SIZE + 4 \<le> q * BLOCK_SIZE + c" "q * BLOCK_SIZE + c < b * BLOCK_SIZE + 4056"
      using assms(13) c by (auto simp: config)
    ultimately have "fs_data1 s' (q * BLOCK_SIZE + c) = 255" using ff by simp
    then show ?thesis by (simp add: config)
  qed
  then have "mem_read (fs_data1 s') (q * 1024) 1024 = replicate 1024 255" by (intro nth_equalityI) auto
  with s'(1) show ?thesis by blast
qed

text \<open>The file owns blocks 1 to 10 and another file block 12, which the new index block 11 destroys.\<close>

theorem index_block_overruns_witness:
  "\<exists>s'. tfs_write1 0 [7] 1
      (handmade \<lparr>i_node_type1 = T_FILE, i_size1 = 10240, i_data_block1 = (\<lambda>k. int k + 1), i_indirect_data_block = -1\<rparr>
         10240 (\<lambda>b. b \<le> 10 \<or> b = 12)) = Ok (1, s') \<and>
    mem_read (fs_data1 s') 12288 1024 = replicate 1024 255"
proof -
  let ?node = "\<lparr>i_node_type1 = T_FILE, i_size1 = 10240, i_data_block1 = (\<lambda>k. int k + 1), i_indirect_data_block = -1\<rparr>"
  let ?s = "handmade ?node 10240 (\<lambda>b. b \<le> 10 \<or> b = 12)"
  have "0 < MAX_OPEN_FILES" "1 < INODE_TABLE_SIZE" "11 + 4 \<le> DATA_BLOCKS" by (simp_all add: config)
  moreover have "first_free (free_blocks1 ?s) 0 DATA_BLOCKS = Some 11"
    by (rule first_free_least) (auto simp: handmade_view config)
  moreover have "first_free ((free_blocks1 ?s)(11 := TAKEN)) 0 DATA_BLOCKS = Some 13"
    by (rule first_free_least) (auto simp: handmade_view config)
  ultimately show ?thesis
    using index_block_overruns [OF quiet_handmade _ handmade_view(1) _ handmade_view(2), of ?node "\<lambda>b. b \<le> 10 \<or> b = 12" 11 13 1 "[7]" 12]
    by (simp add: handmade_view [unfolded One_nat_def])
qed

end
