(* ===== verification/Program.thy ===== *)
theory Program
  imports FS1_State
begin

text \<open>
  Code as a tree of atomic steps, for threads that interleave inside an operation: the language in which
  \<open>FS1_Code\<close> writes the operations of the first delivery once more, its execution by a thread that is
  alone, and the rules that follow the locks a piece of code holds.
\<close>

section \<open>Programs\<close>

text \<open>
  The locks of the program: a read-write lock, \<open>open_files_mutex\<close> and \<open>open_file_lock\<close>.
\<close>

datatype lock = Rw lock_ptr | Open_files_mutex | Open_file_lock

datatype mode = Shared | Exclusive

datatype sync_op = Acquire mode lock | Release lock

text \<open>
  A program reads the state and goes on accordingly, changes the state by one access (which may be out of
  bounds), calls a lock operation, or has returned or run into a fault.
\<close>

datatype 'a program =
    Return 'a
  | Read "fs_state1 \<Rightarrow> 'a program"
  | Write "fs_state1 \<Rightarrow> fs_state1 outcome" "'a program"
  | Synch sync_op "'a program"
  | Crash fault

primrec bind_program :: "'a program \<Rightarrow> ('a \<Rightarrow> 'b program) \<Rightarrow> 'b program" where
  "bind_program (Return a) k = k a"
| "bind_program (Read g) k = Read (\<lambda>s. bind_program (g s) k)"
| "bind_program (Write w p) k = Write w (bind_program p k)"
| "bind_program (Synch x p) k = Synch x (bind_program p k)"
| "bind_program (Crash e) k = Crash e"

text \<open>An access that is always in bounds.\<close>

definition assign :: "(fs_state1 \<Rightarrow> fs_state1) \<Rightarrow> 'a program \<Rightarrow> 'a program" where
  "assign f = Write (\<lambda>s. Ok (f s))"

text \<open>The value of an access that may be out of bounds.\<close>

definition fetch :: "(fs_state1 \<Rightarrow> 'a outcome) \<Rightarrow> 'a program" where
  "fetch f = Read (\<lambda>s. case f s of Ok v \<Rightarrow> Return v | Fault e \<Rightarrow> Crash e)"

abbreviation rdlock :: "lock_ptr \<Rightarrow> 'a program \<Rightarrow> 'a program" where
  "rdlock l \<equiv> Synch (Acquire Shared (Rw l))"

abbreviation wrlock :: "lock_ptr \<Rightarrow> 'a program \<Rightarrow> 'a program" where
  "wrlock l \<equiv> Synch (Acquire Exclusive (Rw l))"

abbreviation unlock :: "lock_ptr \<Rightarrow> 'a program \<Rightarrow> 'a program" where
  "unlock l \<equiv> Synch (Release (Rw l))"

section \<open>Alone\<close>

text \<open>The lock operations are those of \<open>state.c\<close>; \<open>Deadlock\<close> is the answer while a lock cannot be had.\<close>

fun perform :: "sync_op \<Rightarrow> fs_state1 \<Rightarrow> fs_state1 outcome" where
  "perform (Acquire Shared (Rw l)) s = read_lock_rwlock l s"
| "perform (Acquire Exclusive (Rw l)) s = write_lock_rwlock l s"
| "perform (Release (Rw l)) s = unlock_rwlock l s"
| "perform (Acquire m Open_files_mutex) s =
     and_then (lock_mutex (open_files_mutex1 s)) (\<lambda>x. Ok (s\<lparr>open_files_mutex1 := x\<rparr>))"
| "perform (Release Open_files_mutex) s =
     and_then (unlock_mutex (open_files_mutex1 s)) (\<lambda>x. Ok (s\<lparr>open_files_mutex1 := x\<rparr>))"
| "perform (Acquire m Open_file_lock) s =
     and_then (lock_mutex (open_file_lock s)) (\<lambda>x. Ok (s\<lparr>open_file_lock := x\<rparr>))"
| "perform (Release Open_file_lock) s =
     and_then (unlock_mutex (open_file_lock s)) (\<lambda>x. Ok (s\<lparr>open_file_lock := x\<rparr>))"

primrec run :: "'a program \<Rightarrow> fs_state1 \<Rightarrow> ('a \<times> fs_state1) outcome" where
  "run (Return a) = (\<lambda>s. Ok (a, s))"
| "run (Read g) = (\<lambda>s. run (g s) s)"
| "run (Write w p) = (\<lambda>s. and_then (w s) (run p))"
| "run (Synch x p) = (\<lambda>s. and_then (perform x s) (run p))"
| "run (Crash e) = (\<lambda>s. Fault e)"

named_theorems run_simps \<open>how the programs run alone\<close>

lemma run_bind [run_simps]: "run (bind_program p k) = (\<lambda>s. and_then (run p s) (\<lambda>(a, s). run (k a) s))"
proof
  show "run (bind_program p k) s = and_then (run p s) (\<lambda>(a, s). run (k a) s)" for s
    by (induction p arbitrary: s) (auto simp: and_then_assoc intro!: and_then_cong)
qed

lemma run_assign [run_simps]: "run (assign f p) = (\<lambda>s. run p (f s))"
  by (simp add: assign_def)

lemma run_fetch [run_simps]: "run (fetch f) = (\<lambda>s. and_then (f s) (\<lambda>v. Ok (v, s)))"
  by (auto simp: fetch_def fun_eq_iff split: outcome.split)

text \<open>Choices between programs.\<close>

lemma run_if [run_simps]: "run (if b then p else q) = (\<lambda>s. if b then run p s else run q s)"
  by simp

lemma run_option [run_simps]:
  "run (case x of None \<Rightarrow> p | Some a \<Rightarrow> q a) = (\<lambda>s. case x of None \<Rightarrow> run p s | Some a \<Rightarrow> run (q a) s)"
  by (cases x) simp_all

lemma run_pair [run_simps]: "run (case x of (a, b) \<Rightarrow> p a b) = (\<lambda>s. case x of (a, b) \<Rightarrow> run (p a b) s)"
  by (cases x) simp

section \<open>Loops that lock entry after entry\<close>

text \<open>The loop \<open>scan\<close> as a program.\<close>

function scan_code :: "mode \<Rightarrow> (int \<Rightarrow> lock_ptr) \<Rightarrow> nat \<Rightarrow> (nat \<Rightarrow> fs_state1 \<Rightarrow> bool) \<Rightarrow> (nat \<Rightarrow> int program) \<Rightarrow> nat \<Rightarrow> int program" where
  "scan_code m ptr n test found i =
     (if i < n then
        Synch (Acquire m (Rw (ptr (int i)))) (Read (\<lambda>s.
        if test i s then found i
        else unlock (ptr (int i)) (scan_code m ptr n test found (Suc i))))
      else Return (-1))"
  by pat_completeness auto
termination
  by (relation "measure (\<lambda>(m, ptr, n, test, found, i). n - i)") auto

declare scan_code.simps [simp del]

fun lock_in :: "mode \<Rightarrow> lock_ptr \<Rightarrow> fs_state1 \<Rightarrow> fs_state1 outcome" where
  "lock_in Shared = read_lock_rwlock"
| "lock_in Exclusive = write_lock_rwlock"

lemma perform_lock_in: "perform (Acquire m (Rw l)) = lock_in m l"
  by (cases m) (auto simp: fun_eq_iff)

lemma run_scan [run_simps]: "run (scan_code m ptr n test found i) = scan (lock_in m) ptr n test (\<lambda>i. run (found i)) i"
proof (induction "n - i" arbitrary: i)
  case 0
  then show ?case by (simp add: scan_code.simps scan.simps fun_eq_iff)
next
  case (Suc d)
  have "d = n - Suc i" using Suc.hyps(2) by simp
  note IH = Suc.hyps(1) [OF this]
  have "i < n" using Suc.hyps(2) by simp
  show ?case
  proof
    show "run (scan_code m ptr n test found i) s = scan (lock_in m) ptr n test (\<lambda>i. run (found i)) i s" for s
      using \<open>i < n\<close> by (subst scan_code.simps, subst scan.simps) (auto simp: perform_lock_in IH intro!: and_then_cong)
  qed
qed

end
