(* ===== verification/FS1_Code.thy ===== *)
theory FS1_Code
  imports Program FS1_Ops
begin

text \<open>
  The operations of the first delivery as programs: every access to shared memory and every lock
  operation of \<open>parte-1/fs/state.c\<close> and \<open>parte-1/fs/operations.c\<close> is a step of its own (a \<open>memcpy\<close> or a loop
  that empties a block is one step). Alone they run as the functions of \<open>FS1_State\<close> and \<open>FS1_Ops\<close>.
\<close>

unbundle bit_operations_syntax

section \<open>Blocks and i-nodes\<close>

definition data_block_alloc_code :: "int program" where
  "data_block_alloc_code =
     scan_code Exclusive Block_lock DATA_BLOCKS (\<lambda>i s. free_blocks1 s i = FREE)
       (\<lambda>i. assign (put_block1 i TAKEN) (unlock (Block_lock (int i)) (Return (int i)))) 0"

definition data_block_free_code :: "int \<Rightarrow> int program" where
  "data_block_free_code block_number =
     wrlock (Block_lock block_number)
       (if \<not> valid_block_number block_number then unlock (Block_lock block_number) (Return (-1))
        else assign (put_block1 (nat block_number) FREE) (unlock (Block_lock block_number) (Return 0)))"

definition take_inode_code :: "inode_type \<Rightarrow> nat \<Rightarrow> int program" where
  "take_inode_code n_type inumber =
     assign (put_freeinode1 inumber TAKEN)
     (unlock (Inode_lock (int inumber))
     (assign (put_inode1 inumber (i_node_type1_update (\<lambda>_. n_type)))
     (if n_type = T_DIRECTORY then
        bind_program data_block_alloc_code (\<lambda>b.
        if b = -1 then assign (put_freeinode1 inumber FREE) (Return (-1))
        else
          assign (put_inode1 inumber (i_size1_update (\<lambda>_. of_nat BLOCK_SIZE)))
          (assign (put_inode1 inumber (\<lambda>n. n\<lparr>i_data_block1 := (i_data_block1 n)(0 := b)\<rparr>))
          (assign (put_inode1 inumber (i_indirect_data_block_update (\<lambda>_. -1)))
          (case data_block_get b of
             None \<Rightarrow> assign (put_freeinode1 inumber FREE) (Return (-1))
           | Some p \<Rightarrow> assign (\<lambda>s. s\<lparr>fs_data1 := clear_entries p MAX_DIR_ENTRIES (fs_data1 s)\<rparr>)
               (Return (int inumber))))))
      else
        assign (put_inode1 inumber (i_size1_update (\<lambda>_. 0)))
        (assign (put_inode1 inumber (\<lambda>n. n\<lparr>i_data_block1 := (\<lambda>k. if k < MAX_DIRECT_BLOCKS then -1 else i_data_block1 n k)\<rparr>))
        (assign (put_inode1 inumber (i_indirect_data_block_update (\<lambda>_. -1)))
        (Return (int inumber)))))))"

definition inode_create_code :: "inode_type \<Rightarrow> int program" where
  "inode_create_code n_type =
     scan_code Exclusive Inode_lock INODE_TABLE_SIZE (\<lambda>i s. freeinode_ts1 s i = FREE) (take_inode_code n_type) 0"

function free_direct_code :: "nat \<Rightarrow> nat \<Rightarrow> int program" where
  "free_direct_code inumber i =
     (if i < MAX_DIRECT_BLOCKS then
        Read (\<lambda>s. let block = i_data_block1 (inode_table1 s inumber) i in
        wrlock (Block_lock block)
        (bind_program (data_block_free_code block) (\<lambda>r.
        unlock (Block_lock block)
        (if r = -1 then Return (-1) else free_direct_code inumber (Suc i)))))
      else Return 0)"
  by pat_completeness auto
termination
  by (relation "measure (\<lambda>(inumber, i). MAX_DIRECT_BLOCKS - i)") auto

declare free_direct_code.simps [simp del]

definition inode_delete_code :: "int \<Rightarrow> int program" where
  "inode_delete_code inumber =
     Read (\<lambda>s. if \<not> valid_inumber inumber \<or> freeinode_ts1 s (nat inumber) = FREE then Return (-1)
     else
       assign (put_freeinode1 (nat inumber) FREE)
       (Read (\<lambda>s. if i_size1 (inode_table1 s (nat inumber)) > 0 then free_direct_code (nat inumber) 0 else Return 0)))"

section \<open>The directory\<close>

definition add_dir_entry_code :: "int \<Rightarrow> int \<Rightarrow> cstring \<Rightarrow> int program" where
  "add_dir_entry_code inumber sub_inumber sub_name =
     (if \<not> valid_inumber inumber \<or> \<not> valid_inumber sub_inumber then Return (-1)
      else
        rdlock (Inode_lock inumber) (Read (\<lambda>s.
        if i_node_type1 (inode_table1 s (nat inumber)) \<noteq> T_DIRECTORY then
          unlock (Inode_lock inumber) (Return (-1))
        else
          unlock (Inode_lock inumber)
          (if length sub_name = 0 then Return (-1)
           else
             rdlock (Inode_lock inumber) (Read (\<lambda>s.
             let dir_entry = data_block_get (i_data_block1 (inode_table1 s (nat inumber)) 0) in
             unlock (Inode_lock inumber)
             (case dir_entry of
                None \<Rightarrow> Return (-1)
              | Some p \<Rightarrow>
                  scan_code Exclusive Dir_lock MAX_DIR_ENTRIES (\<lambda>i s. d_inumber (fs_data1 s) p i = -1)
                    (\<lambda>i. assign (\<lambda>s. s\<lparr>fs_data1 := set_d_inumber p i sub_inumber (fs_data1 s)\<rparr>)
                      (assign (\<lambda>s. s\<lparr>fs_data1 := set_d_name p i (c_strncpy (MAX_FILE_NAME - 1) sub_name) (fs_data1 s)\<rparr>)
                      (assign (\<lambda>s. s\<lparr>fs_data1 := (fs_data1 s)(p + sizeof_dir_entry * i + (MAX_FILE_NAME - 1) := 0)\<rparr>)
                      (unlock (Dir_lock (int i)) (Return 0)))))
                    0)))))))"

definition find_in_dir_code :: "int \<Rightarrow> cstring \<Rightarrow> int program" where
  "find_in_dir_code inumber sub_name =
     rdlock (Inode_lock inumber) (Read (\<lambda>s.
     if \<not> valid_inumber inumber \<or> i_node_type1 (inode_table1 s (nat inumber)) \<noteq> T_DIRECTORY then
       unlock (Inode_lock inumber) (Return (-1))
     else
       let dir_entry = data_block_get (i_data_block1 (inode_table1 s (nat inumber)) 0) in
       unlock (Inode_lock inumber)
       (case dir_entry of
          None \<Rightarrow> Return (-1)
        | Some p \<Rightarrow>
            scan_code Shared Dir_lock MAX_DIR_ENTRIES
              (\<lambda>i s. d_inumber (fs_data1 s) p i \<noteq> -1 \<and>
                 c_strncmp MAX_FILE_NAME (d_name (fs_data1 s) p i) sub_name = 0)
              (\<lambda>i. unlock (Dir_lock (int i)) (Read (\<lambda>s. Return (d_inumber (fs_data1 s) p i))))
              0)))"

section \<open>The open file table\<close>

definition add_to_open_file_table_code :: "int \<Rightarrow> size_t \<Rightarrow> int program" where
  "add_to_open_file_table_code inumber offset =
     scan_code Exclusive File_lock MAX_OPEN_FILES (\<lambda>i s. free_open_file_entries1 s i = FREE)
       (\<lambda>i. Synch (Acquire Exclusive Open_files_mutex)
         (assign (put_open1 i TAKEN)
         (assign (put_file1 i (of_inumber_update (\<lambda>_. inumber)))
         (assign (put_file1 i (of_offset_update (\<lambda>_. offset)))
         (assign (\<lambda>s. s\<lparr>open_files_count1 := open_files_count1 s + 1\<rparr>)
         (unlock (File_lock (int i))
         (Synch (Release Open_files_mutex)
         (Return (int i))))))))) 0"

definition remove_from_open_file_table_code :: "int \<Rightarrow> int program" where
  "remove_from_open_file_table_code fhandle =
     rdlock (File_lock fhandle) (Read (\<lambda>s.
     if \<not> valid_file_handle fhandle \<or> free_open_file_entries1 s (nat fhandle) \<noteq> TAKEN then
       unlock (File_lock fhandle) (Return (-1))
     else
       Synch (Acquire Exclusive Open_files_mutex)
       (assign (\<lambda>s. s\<lparr>open_files_count1 := open_files_count1 s - 1\<rparr>)
       (assign (put_open1 (nat fhandle) FREE)
       (Synch (Release Open_files_mutex)
       (unlock (File_lock fhandle) (Return 0)))))))"

section \<open>Opening and closing\<close>

definition tfs_lookup_code :: "cstring option \<Rightarrow> int program" where
  "tfs_lookup_code name =
     (if \<not> valid_pathname name then Return (-1) else find_in_dir_code ROOT_DIR_INUM (tl (the name)))"

function truncate_direct_code :: "nat \<Rightarrow> nat \<Rightarrow> nat \<Rightarrow> int program" where
  "truncate_direct_code i k loop_limit =
     (if k < loop_limit then
        Read (\<lambda>s. bind_program (data_block_free_code (i_data_block1 (inode_table1 s i) k)) (\<lambda>r.
        if r = -1 then Return (-1)
        else
          assign (put_inode1 i (\<lambda>n. n\<lparr>i_data_block1 := (i_data_block1 n)(k := -1)\<rparr>))
          (truncate_direct_code i (Suc k) loop_limit)))
      else Return 0)"
  by pat_completeness auto
termination
  by (relation "measure (\<lambda>(i, k, loop_limit). loop_limit - k)") auto

declare truncate_direct_code.simps [simp del]

definition truncate_inode_code :: "nat \<Rightarrow> int program" where
  "truncate_inode_code i =
     Read (\<lambda>s. if i_size1 (inode_table1 s i) > 0 then
        let written_blocks = i_size1 (inode_table1 s i) div of_nat BLOCK_SIZE;
            written_blocks = (if written_blocks mod of_nat BLOCK_SIZE \<noteq> 0 then written_blocks + 1 else written_blocks);
            loop_limit = (if written_blocks \<le> 10 then written_blocks else 10) in
        bind_program (truncate_direct_code i 0 (unat loop_limit)) (\<lambda>r.
        if r = -1 then Return (-1)
        else
          bind_program
            (if written_blocks \<ge> of_nat MAX_DIRECT_BLOCKS then
               Read (\<lambda>s. bind_program (data_block_free_code (i_indirect_data_block (inode_table1 s i))) (\<lambda>r.
               if r = -1 then Return (-1 :: int)
               else assign (put_inode1 i (i_indirect_data_block_update (\<lambda>_. -1))) (Return 0)))
             else Return 0) (\<lambda>r.
          if r = -1 then Return (-1) else assign (put_inode1 i (i_size1_update (\<lambda>_. 0))) (Return 0)))
      else Return 0)"

definition unlock_open_code :: "lock_ptr \<Rightarrow> 'a program \<Rightarrow> 'a program" where
  "unlock_open_code inode_lock p = Synch (Release Open_file_lock) (unlock inode_lock p)"

definition tfs_open_code :: "cstring option \<Rightarrow> int \<Rightarrow> int program" where
  "tfs_open_code name flags =
     (if \<not> valid_pathname name then Return (-1)
      else
        Synch (Acquire Exclusive Open_file_lock)
        (bind_program (tfs_lookup_code name) (\<lambda>inum.
        if inum \<ge> 0 then
          let inode_lock = get_inode_table_lock inum in
          wrlock inode_lock
          (case inode_get inum of
             None \<Rightarrow> unlock_open_code inode_lock (Return (-1))
           | Some i \<Rightarrow>
               bind_program (if flags AND TFS_O_TRUNC \<noteq> 0 then truncate_inode_code i else Return 0) (\<lambda>r.
               if r = -1 then unlock_open_code inode_lock (Return (-1))
               else Read (\<lambda>s.
                 let offset = (if flags AND TFS_O_APPEND \<noteq> 0 then i_size1 (inode_table1 s i) else 0) in
                 unlock_open_code inode_lock (add_to_open_file_table_code inum offset))))
        else if flags AND TFS_O_CREAT \<noteq> 0 then
          bind_program (inode_create_code T_FILE) (\<lambda>inum.
          let inode_lock = get_inode_table_lock inum in
          if inum = -1 then Synch (Release Open_file_lock) (Return (-1))
          else
            wrlock inode_lock
            (bind_program (add_dir_entry_code ROOT_DIR_INUM inum (tl (the name))) (\<lambda>r.
            if r = -1 then
              bind_program (inode_delete_code inum) (\<lambda>_. unlock_open_code inode_lock (Return (-1)))
            else unlock_open_code inode_lock (add_to_open_file_table_code inum 0))))
        else
          Synch (Release Open_file_lock) (Return (-1)))))"

definition tfs_close_code :: "int \<Rightarrow> int program" where
  "tfs_close_code fhandle = remove_from_open_file_table_code fhandle"

section \<open>The blocks of a file\<close>

definition direct_for_write_code :: "nat \<Rightarrow> nat \<Rightarrow> nat option program" where
  "direct_for_write_code i k =
     bind_program
       (Read (\<lambda>s. if i_data_block1 (inode_table1 s i) k = -1 then
          bind_program data_block_alloc_code (\<lambda>b.
          assign (put_inode1 i (\<lambda>n. n\<lparr>i_data_block1 := (i_data_block1 n)(k := b)\<rparr>)) (Return b))
        else Return (i_data_block1 (inode_table1 s i) k))) (\<lambda>b.
     if b = -1 then Return None else Return (data_block_get b))"

definition clear_index_code :: "nat \<Rightarrow> nat option program" where
  "clear_index_code p =
     Write (\<lambda>s. and_then (clear_index p MAX_DIRECT_BLOCKS (fs_data1 s)) (\<lambda>m. Ok (s\<lparr>fs_data1 := m\<rparr>))) (Return (Some p))"

definition indirect_for_write_code :: "nat \<Rightarrow> nat \<Rightarrow> nat option program" where
  "indirect_for_write_code i k =
     bind_program
       (Read (\<lambda>s. if i_indirect_data_block (inode_table1 s i) = -1 then
          bind_program data_block_alloc_code (\<lambda>b.
          assign (put_inode1 i (i_indirect_data_block_update (\<lambda>_. b)))
          (case data_block_get b of None \<Rightarrow> Return None | Some p \<Rightarrow> clear_index_code p))
        else Return (data_block_get (i_indirect_data_block (inode_table1 s i))))) (\<lambda>index.
     case index of
       None \<Rightarrow> Return None
     | Some p \<Rightarrow>
         bind_program (fetch (\<lambda>s. load_index p (k - MAX_DIRECT_BLOCKS) (fs_data1 s))) (\<lambda>v.
         bind_program
           (if v = -1 then
              bind_program data_block_alloc_code (\<lambda>b.
              Write (\<lambda>s. and_then (store_index p (k - MAX_DIRECT_BLOCKS) b (fs_data1 s)) (\<lambda>m. Ok (s\<lparr>fs_data1 := m\<rparr>)))
              (Return b))
            else Return v) (\<lambda>v.
         if v = -1 then Return None
         else bind_program (fetch (\<lambda>s. load_index p (k - MAX_DIRECT_BLOCKS) (fs_data1 s))) (\<lambda>v.
           Return (data_block_get v)))))"

definition block_for_write_code :: "nat \<Rightarrow> nat \<Rightarrow> nat option program" where
  "block_for_write_code i k = (if k < MAX_DIRECT_BLOCKS then direct_for_write_code i k else indirect_for_write_code i k)"

definition block_for_read_code :: "nat \<Rightarrow> nat \<Rightarrow> nat option program" where
  "block_for_read_code i k = fetch (block_for_read i k)"

section \<open>Writing and reading\<close>

definition after_copy_code :: "nat \<Rightarrow> nat \<Rightarrow> size_t \<Rightarrow> 'a program \<Rightarrow> 'a program" where
  "after_copy_code f i n p =
     assign (put_file1 f (of_offset_update (\<lambda>off. off + n)))
     (Read (\<lambda>s. if of_offset (open_file_table1 s f) > i_size1 (inode_table1 s i)
       then assign (\<lambda>s. put_inode1 i (i_size1_update (\<lambda>_. of_offset (open_file_table1 s f))) s) p
       else p))"

function write_blocks_code :: "nat \<Rightarrow> nat \<Rightarrow> size_t \<Rightarrow> size_t \<Rightarrow> byte list \<Rightarrow> size_t \<Rightarrow> size_t \<Rightarrow> size_t option program" where
  "write_blocks_code f i k e buffer to_write bytes_written =
     (if k < e then
        bind_program (block_for_write_code i (unat k)) (\<lambda>block.
        case block of
          None \<Rightarrow> Return None
        | Some a \<Rightarrow>
            Read (\<lambda>s. case chunk k e to_write (of_offset (open_file_table1 s f)) of (n, last_write) \<Rightarrow>
            Write (\<lambda>s. and_then (memcpy_in (a + unat (of_offset (open_file_table1 s f) mod of_nat BLOCK_SIZE)) buffer
                     (unat n) (fs_data1 s)) (\<lambda>m. Ok (s\<lparr>fs_data1 := m\<rparr>)))
            (after_copy_code f i n
            (if last_write then Return (Some (bytes_written + n))
             else write_blocks_code f i (k + 1) e (drop (unat n) buffer) (to_write - n) (bytes_written + n)))))
      else Return (Some bytes_written))"
  by pat_completeness auto
termination
  by (relation "measure (\<lambda>(f, i, k, e, rest). unat e - unat k)") (simp_all add: next_block)

declare write_blocks_code.simps [simp del]

definition tfs_write_code :: "int \<Rightarrow> byte list \<Rightarrow> size_t \<Rightarrow> int program" where
  "tfs_write_code fhandle buffer to_write =
     (case get_open_file_entry fhandle of
        None \<Rightarrow> Return (-1)
      | Some f \<Rightarrow>
        let file_lock = get_open_file_table_lock fhandle in
        wrlock file_lock (Read (\<lambda>s.
        let inum = of_inumber (open_file_table1 s f) in
        case inode_get inum of
          None \<Rightarrow> unlock file_lock (Return (-1))
        | Some i \<Rightarrow>
          let inode_lock = get_inode_table_lock inum in
          wrlock inode_lock
          (if to_write > 0 then
             Read (\<lambda>s.
             let off = of_offset (open_file_table1 s f) in
             bind_program
               (write_blocks_code f i (off div of_nat BLOCK_SIZE) (end_blocks off to_write) buffer to_write 0) (\<lambda>r.
             unlock file_lock
             (unlock inode_lock
             (Return (case r of None \<Rightarrow> -1 | Some bytes_written \<Rightarrow> sint bytes_written)))))
           else Return 0))))"

function read_blocks_code :: "nat \<Rightarrow> nat \<Rightarrow> size_t \<Rightarrow> size_t \<Rightarrow> size_t \<Rightarrow> size_t \<Rightarrow> byte list \<Rightarrow>
    (size_t option \<times> byte list) program" where
  "read_blocks_code f i k e to_read bytes_read buffer =
     (if k < e then
        bind_program (block_for_read_code i (unat k)) (\<lambda>block.
        case block of
          None \<Rightarrow> Return (None, buffer)
        | Some a \<Rightarrow>
            Read (\<lambda>s. case chunk k e to_read (of_offset (open_file_table1 s f)) of (n, last_read) \<Rightarrow>
            bind_program
              (fetch (\<lambda>s. memcpy_out (a + unat (of_offset (open_file_table1 s f) mod of_nat BLOCK_SIZE))
                 (unat n) (fs_data1 s))) (\<lambda>bytes.
            assign (put_file1 f (of_offset_update (\<lambda>off. off + n)))
            (if last_read then Return (Some (bytes_read + n), buffer @ bytes)
             else read_blocks_code f i (k + 1) e (to_read - n) (bytes_read + n) (buffer @ bytes)))))
      else Return (Some bytes_read, buffer))"
  by pat_completeness auto
termination
  by (relation "measure (\<lambda>(f, i, k, e, rest). unat e - unat k)") (simp_all add: next_block)

declare read_blocks_code.simps [simp del]

definition read_range_code :: "nat \<Rightarrow> nat \<Rightarrow> size_t \<Rightarrow> (size_t option \<times> byte list) program" where
  "read_range_code f i len =
     Read (\<lambda>s.
     let off = of_offset (open_file_table1 s f);
         to_read = read_amount (i_size1 (inode_table1 s i)) off len in
     if to_read \<le> 0 then Return (Some 0, [])
     else read_blocks_code f i (off div of_nat BLOCK_SIZE) (end_blocks off to_read) to_read 0 [])"

definition tfs_read_code :: "int \<Rightarrow> size_t \<Rightarrow> (int \<times> byte list) program" where
  "tfs_read_code fhandle len =
     (case get_open_file_entry fhandle of
        None \<Rightarrow> Return (-1, [])
      | Some f \<Rightarrow>
        let file_lock = get_open_file_table_lock fhandle in
        wrlock file_lock (Read (\<lambda>s.
        let inum = of_inumber (open_file_table1 s f) in
        case inode_get inum of
          None \<Rightarrow> unlock file_lock (Return (-1, []))
        | Some i \<Rightarrow>
          let inode_lock = get_inode_table_lock inum in
          wrlock inode_lock
          (bind_program (read_range_code f i len) (\<lambda>(r, buffer).
          unlock file_lock
          (unlock inode_lock
          (Return (case r of None \<Rightarrow> -1 | Some bytes_read \<Rightarrow> sint bytes_read, buffer))))))))"

end
