(* ===== verification/FS1_Alone.thy ===== *)
theory FS1_Alone
  imports FS1_Code FS1_Run
begin

text \<open>
  A thread that is alone runs the programs of \<open>FS1_Code\<close> exactly as the functions of \<open>FS1_State\<close> and
  \<open>FS1_Ops\<close> compute, faults and locks included.
\<close>

section \<open>Blocks, i-nodes, directory, handles\<close>

lemma run_data_block_alloc [run_simps]: "run data_block_alloc_code = data_block_alloc1"
  by (simp add: fun_eq_iff data_block_alloc_code_def data_block_alloc1_def run_simps)

lemma run_data_block_free [run_simps]: "run (data_block_free_code b) = data_block_free1 b"
  by (simp add: fun_eq_iff data_block_free_code_def data_block_free1_def run_simps cong: if_cong)

lemma put_inode1_twice: "put_inode1 i g (put_inode1 i f s) = put_inode1 i (\<lambda>n. g (f n)) s"
  by (simp add: put_inode1_def)

lemma run_take_inode [run_simps]: "run (take_inode_code n_type i) = take_inode n_type i"
proof
  show "run (take_inode_code n_type i) s = take_inode n_type i s" for s
    by (simp add: take_inode_code_def take_inode_def run_simps Let_def put_inode1_twice cong: if_cong option.case_cong)
qed

lemma run_inode_create [run_simps]: "run (inode_create_code n_type) = inode_create1 n_type"
  by (simp add: fun_eq_iff inode_create_code_def inode_create1_def run_simps)

lemma run_free_direct [run_simps]: "run (free_direct_code i k) = free_direct i k"
proof (induction "MAX_DIRECT_BLOCKS - k" arbitrary: k)
  case 0
  then show ?case by (simp add: fun_eq_iff free_direct_code.simps free_direct.simps)
next
  case (Suc d)
  have "d = MAX_DIRECT_BLOCKS - Suc k" using Suc.hyps(2) by simp
  note IH = Suc.hyps(1) [OF this]
  have "k < MAX_DIRECT_BLOCKS" using Suc.hyps(2) by simp
  then show ?case
    by (intro ext, subst free_direct_code.simps, subst free_direct.simps)
       (simp add: run_simps Let_def IH case_prod_beta cong: if_cong)
qed

lemma run_inode_delete [run_simps]: "run (inode_delete_code i) = inode_delete1 i"
  by (simp add: fun_eq_iff inode_delete_code_def inode_delete1_def run_simps Let_def)

lemma run_add_dir_entry [run_simps]: "run (add_dir_entry_code d i name) = add_dir_entry1 d i name"
  by (simp add: fun_eq_iff add_dir_entry_code_def add_dir_entry1_def run_simps Let_def cong: if_cong option.case_cong)

lemma run_find_in_dir [run_simps]: "run (find_in_dir_code d name) = find_in_dir1 d name"
  by (simp add: fun_eq_iff find_in_dir_code_def find_in_dir1_def run_simps Let_def cong: if_cong option.case_cong)

lemma entry_assigned: "(e :: open_file_entry)\<lparr>of_inumber := i, of_offset := off\<rparr> = \<lparr>of_inumber = i, of_offset = off\<rparr>"
  by (cases e) simp

lemma run_add_to_open_file_table [run_simps]:
  "run (add_to_open_file_table_code i off) = add_to_open_file_table1 i off"
  by (simp add: fun_eq_iff add_to_open_file_table_code_def add_to_open_file_table1_def run_simps and_then_assoc Let_def put_defs1 entry_assigned)

lemma run_remove_from_open_file_table [run_simps]:
  "run (remove_from_open_file_table_code f) = remove_from_open_file_table1 f"
  by (simp add: fun_eq_iff remove_from_open_file_table_code_def remove_from_open_file_table1_def run_simps and_then_assoc Let_def cong: if_cong)

section \<open>Opening\<close>

lemma run_tfs_lookup [run_simps]: "run (tfs_lookup_code name) = tfs_lookup1 name"
  by (simp add: fun_eq_iff tfs_lookup_code_def tfs_lookup1_def run_simps)

lemma run_truncate_direct [run_simps]: "run (truncate_direct_code i k n) = truncate_direct i k n"
proof (induction "n - k" arbitrary: k)
  case 0
  then show ?case by (simp add: fun_eq_iff truncate_direct_code.simps truncate_direct.simps)
next
  case (Suc d)
  have "d = n - Suc k" using Suc.hyps(2) by simp
  note IH = Suc.hyps(1) [OF this]
  have "k < n" using Suc.hyps(2) by simp
  then show ?case
    by (intro ext, subst truncate_direct_code.simps, subst truncate_direct.simps)
       (simp add: run_simps IH cong: if_cong)
qed

lemma run_truncate_inode [run_simps]: "run (truncate_inode_code i) = truncate_inode1 i"
  by (simp add: fun_eq_iff truncate_inode_code_def truncate_inode1_def run_simps Let_def cong: if_cong)

lemma run_unlock_open [run_simps]: "run (unlock_open_code l p) = (\<lambda>s. and_then (unlock_open l s) (run p))"
  by (simp add: fun_eq_iff unlock_open_code_def unlock_open_def and_then_assoc)

lemma run_tfs_open [run_simps]: "run (tfs_open_code name flags) = tfs_open1 name flags"
  by (simp add: fun_eq_iff tfs_open_code_def tfs_open1_def run_simps Let_def and_then_assoc cong: if_cong option.case_cong)

lemma run_tfs_close [run_simps]: "run (tfs_close_code f) = tfs_close1 f"
  by (simp add: fun_eq_iff tfs_close_code_def tfs_close1_def run_simps)

section \<open>Writing and reading\<close>

lemma run_block_for_write [run_simps]: "run (block_for_write_code i k) = block_for_write i k"
  by (simp add: fun_eq_iff block_for_write_code_def block_for_write_def direct_for_write_code_def direct_for_write_def
      indirect_for_write_code_def indirect_for_write_def clear_index_code_def run_simps Let_def and_then_assoc
      cong: if_cong option.case_cong)

lemma run_block_for_read [run_simps]: "run (block_for_read_code i k) = (\<lambda>s. and_then (block_for_read i k s) (\<lambda>b. Ok (b, s)))"
  by (simp add: fun_eq_iff block_for_read_code_def run_simps)

lemma run_after_copy [run_simps]: "run (after_copy_code f i n p) = (\<lambda>s. run p (after_copy f i n s))"
  by (simp add: fun_eq_iff after_copy_code_def after_copy_def run_simps Let_def)

lemma run_write_blocks [run_simps]: "run (write_blocks_code f i k e buffer n r) = write_blocks f i k e buffer n r"
proof (induction "unat e - unat k" arbitrary: k buffer n r rule: less_induct)
  case less
  show ?case
  proof (cases "k < e")
    case True
    note IH = less [OF next_block [OF True]]
    from True show ?thesis
      by (intro ext, subst write_blocks_code.simps, subst write_blocks.simps)
         (simp add: run_simps Let_def and_then_assoc IH cong: if_cong option.case_cong)
  next
    case False
    then show ?thesis by (simp add: write_blocks_code.simps write_blocks.simps fun_eq_iff)
  qed
qed

lemma run_tfs_write [run_simps]: "run (tfs_write_code f buffer n) = tfs_write1 f buffer n"
  by (simp add: fun_eq_iff tfs_write_code_def tfs_write1_def run_simps Let_def cong: if_cong option.case_cong)

lemma run_read_blocks [run_simps]: "run (read_blocks_code f i k e n r buffer) = read_blocks f i k e n r buffer"
proof (induction "unat e - unat k" arbitrary: k buffer n r rule: less_induct)
  case less
  show ?case
  proof (cases "k < e")
    case True
    note IH = less [OF next_block [OF True]]
    from True show ?thesis
      by (intro ext, subst read_blocks_code.simps, subst read_blocks.simps)
         (simp add: run_simps Let_def and_then_assoc IH cong: if_cong option.case_cong)
  next
    case False
    then show ?thesis by (simp add: read_blocks_code.simps read_blocks.simps fun_eq_iff)
  qed
qed

lemma run_read_range [run_simps]: "run (read_range_code f i len) = read_range f i len"
  by (simp add: fun_eq_iff read_range_code_def read_range_def run_simps Let_def)

lemma run_tfs_read [run_simps]: "run (tfs_read_code f len) = tfs_read1 f len"
  by (simp add: fun_eq_iff tfs_read_code_def tfs_read1_def run_simps Let_def split_def cong: if_cong option.case_cong)

section \<open>The operations\<close>

text \<open>A call of the library, with all its arguments, as code and as a function.\<close>

datatype fs_call =
    Call_lookup "cstring option"
  | Call_open1 "cstring option" int
  | Call_close1 int
  | Call_write1 int "byte list" size_t
  | Call_read1 int size_t

definition result_only :: "int program \<Rightarrow> fs_res program" where
  "result_only p = bind_program p (\<lambda>r. Return (r, []))"

fun call_code :: "fs_call \<Rightarrow> fs_res program" where
  "call_code (Call_lookup name) = result_only (tfs_lookup_code name)"
| "call_code (Call_open1 name flags) = result_only (tfs_open_code name flags)"
| "call_code (Call_close1 f) = result_only (tfs_close_code f)"
| "call_code (Call_write1 f buffer n) = result_only (tfs_write_code f buffer n)"
| "call_code (Call_read1 f len) = tfs_read_code f len"

fun call_alone :: "fs_call \<Rightarrow> fs_state1 \<Rightarrow> (fs_res \<times> fs_state1) outcome" where
  "call_alone (Call_lookup name) s = no_bytes (tfs_lookup1 name s)"
| "call_alone (Call_open1 name flags) s = no_bytes (tfs_open1 name flags s)"
| "call_alone (Call_close1 f) s = no_bytes (tfs_close1 f s)"
| "call_alone (Call_write1 f buffer n) s = no_bytes (tfs_write1 f buffer n s)"
| "call_alone (Call_read1 f len) s = tfs_read1 f len s"

text \<open>
  Each operation of the first delivery, written as a tree of atomic steps, runs in a thread that is alone exactly as
  the function that models it: same results, same states, same faults.
\<close>
theorem code_runs_alone: "run (call_code x) s = call_alone x s"
  by (cases x) (simp_all add: result_only_def no_bytes_def run_simps)

end
