(* ===== verification/FS1_Order.thy ===== *)
theory FS1_Order
  imports FS1_Alone
begin

text \<open>
  The order in which the first delivery takes its locks. A thread that holds a lock asks only for locks of a
  higher rank, and every operation ends with the locks it began with, except a write of length 0. Only
  the creation of a file may ask for a lock again that it holds.
\<close>

section \<open>Following the locks\<close>

type_synonym holding = "(lock \<times> mode) list"

fun rank :: "lock \<Rightarrow> nat" where
  "rank Open_file_lock = 0"
| "rank (Rw (File_lock f)) = 1"
| "rank (Rw (Inode_lock i)) = (if i = 0 then 3 else 2)"
| "rank (Rw (Dir_lock e)) = 4"
| "rank (Rw (Block_lock b)) = 4"
| "rank Open_files_mutex = 5"

definition below :: "holding \<Rightarrow> nat \<Rightarrow> bool" where
  "below H r \<longleftrightarrow> (\<forall>(l, m) \<in> set H. rank l < r)"

definition holds :: "holding \<Rightarrow> lock \<Rightarrow> bool" where
  "holds H l \<longleftrightarrow> (\<exists>m. (l, m) \<in> set H)"

definition drop_lock :: "lock \<Rightarrow> holding \<Rightarrow> holding" where
  "drop_lock l H = filter (\<lambda>x. fst x \<noteq> l) H"

text \<open>A lock that its holder can never get again: one of the two requests is exclusive.\<close>

definition stuck_on :: "holding \<Rightarrow> mode \<Rightarrow> lock \<Rightarrow> bool" where
  "stuck_on H m l \<longleftrightarrow> holds H l \<and> (m = Exclusive \<or> (l, Exclusive) \<in> set H)"

text \<open>An access leaves the locks alone.\<close>

definition locks_kept :: "fs_state1 \<Rightarrow> fs_state1 \<Rightarrow> bool" where
  "locks_kept s' s \<longleftrightarrow> rwlocks s' = rwlocks s \<and> open_files_mutex1 s' = open_files_mutex1 s \<and> open_file_lock s' = open_file_lock s"

lemma locks_kept_simps [simp]:
  "locks_kept (put_inode1 i f s) s" "locks_kept (put_file1 k g s) s" "locks_kept (put_freeinode1 i a s) s"
  "locks_kept (put_block1 b a s) s" "locks_kept (put_open1 k a s) s" "locks_kept (s\<lparr>fs_data1 := m\<rparr>) s"
  "locks_kept (s\<lparr>open_files_count1 := n\<rparr>) s"
  by (simp_all add: locks_kept_def put_defs1)

text \<open>
  What a thread that holds \<open>H\<close> may change: the entry of a handle with its lock, the flag of a handle and the number of
  open handles with \<open>open_files_mutex\<close>, the flag of a block with its lock, an i-node with its lock or, for the thread
  that is creating it, with \<open>open_file_lock\<close>.
\<close>

definition guarded :: "holding \<Rightarrow> fs_state1 \<Rightarrow> fs_state1 \<Rightarrow> bool" where
  "guarded H s s' \<longleftrightarrow>
     (\<forall>f. open_file_table1 s' f \<noteq> open_file_table1 s f \<longrightarrow> (Rw (File_lock (int f)), Exclusive) \<in> set H) \<and>
     (\<forall>f. free_open_file_entries1 s' f \<noteq> free_open_file_entries1 s f \<longrightarrow>
        holds H (Rw (File_lock (int f))) \<and> holds H Open_files_mutex) \<and>
     (open_files_count1 s' \<noteq> open_files_count1 s \<longrightarrow> holds H Open_files_mutex) \<and>
     (\<forall>b. free_blocks1 s' b \<noteq> free_blocks1 s b \<longrightarrow> (Rw (Block_lock (int b)), Exclusive) \<in> set H) \<and>
     (\<forall>i. inode_table1 s' i \<noteq> inode_table1 s i \<or> freeinode_ts1 s' i \<noteq> freeinode_ts1 s i \<longrightarrow>
        (Rw (Inode_lock (int i)), Exclusive) \<in> set H \<or> holds H Open_file_lock)"

lemma guarded_simps [simp]:
  "(Rw (Inode_lock (int i)), Exclusive) \<in> set H \<or> holds H Open_file_lock \<Longrightarrow> guarded H s (put_inode1 i f s)"
  "(Rw (Inode_lock (int i)), Exclusive) \<in> set H \<or> holds H Open_file_lock \<Longrightarrow> guarded H s (put_freeinode1 i a s)"
  "(Rw (File_lock (int k)), Exclusive) \<in> set H \<Longrightarrow> guarded H s (put_file1 k g s)"
  "(Rw (Block_lock (int b)), Exclusive) \<in> set H \<Longrightarrow> guarded H s (put_block1 b a s)"
  "holds H (Rw (File_lock (int k))) \<Longrightarrow> holds H Open_files_mutex \<Longrightarrow> guarded H s (put_open1 k a s)"
  "guarded H s (s\<lparr>fs_data1 := m\<rparr>)"
  "holds H Open_files_mutex \<Longrightarrow> guarded H s (s\<lparr>open_files_count1 := n\<rparr>)"
  by (auto simp: guarded_def put_defs1)

text \<open>
  From the locks \<open>H\<close> the program takes locks in the order of their ranks and releases only what it holds, and
  where it returns \<open>Q\<close> holds of the result and the locks left. With \<open>again\<close> it may ask for a lock again on
  which it gets stuck.
\<close>

primrec ordered :: "bool \<Rightarrow> 'a program \<Rightarrow> holding \<Rightarrow> ('a \<Rightarrow> holding \<Rightarrow> bool) \<Rightarrow> bool" where
  "ordered again (Return a) = (\<lambda>H Q. Q a H)"
| "ordered again (Read g) = (\<lambda>H Q. \<forall>s. ordered again (g s) H Q)"
| "ordered again (Write w p) = (\<lambda>H Q. (\<forall>s s'. w s = Ok s' \<longrightarrow> locks_kept s' s \<and> guarded H s s') \<and> ordered again p H Q)"
| "ordered again (Synch x p) = (\<lambda>H Q. case x of
     Acquire m l \<Rightarrow> (again \<and> stuck_on H m l) \<or> (below H (rank l) \<and> ordered again p ((l, m) # H) Q)
   | Release l \<Rightarrow> holds H l \<and> ordered again p (drop_lock l H) Q)"
| "ordered again (Crash e) = (\<lambda>H Q. True)"

lemma ordered_bind: "ordered again (bind_program p k) H Q = ordered again p H (\<lambda>a H. ordered again (k a) H Q)"
  by (induction p arbitrary: H) (auto split: sync_op.split)

lemma below_simps [simp]: "below [] r" "below ((l, m) # H) r \<longleftrightarrow> rank l < r \<and> below H r"
  by (auto simp: below_def)

lemma below_mono: "below H r \<Longrightarrow> r \<le> r' \<Longrightarrow> below H r'"
  by (auto simp: below_def)

lemma below_not_held: "below H (rank l) \<Longrightarrow> \<not> holds H l"
  by (auto simp: below_def holds_def)

lemma holds_simps [simp]: "\<not> holds [] l" "holds ((l', m) # H) l \<longleftrightarrow> l = l' \<or> holds H l"
  by (auto simp: holds_def)

lemma drop_lock_simps [simp]:
  "drop_lock l [] = []"
  "drop_lock l ((l', m) # H) = (if l' = l then drop_lock l H else (l', m) # drop_lock l H)"
  by (auto simp: drop_lock_def)

lemma drop_not_held: "\<not> holds H l \<Longrightarrow> drop_lock l H = H"
  by (auto simp: drop_lock_def holds_def filter_id_conv)

lemma drop_below [simp]: "below H r \<Longrightarrow> r \<le> rank l \<Longrightarrow> drop_lock l H = H"
  using below_mono below_not_held drop_not_held by metis

text \<open>The index of an entry is the number it was looked up with.\<close>

lemma index_simps [simp]:
  "get_open_file_entry h = Some f \<Longrightarrow> int f = h" "inode_get n = Some i \<Longrightarrow> int i = n"
  "valid_block_number b \<Longrightarrow> 0 \<le> b" "valid_file_handle h \<Longrightarrow> 0 \<le> h"
  by (auto simp: get_open_file_entry_def inode_get_def valid_file_handle_def valid_inumber_def valid_block_number_def
      split: if_splits)

text \<open>Taking a lock, doing something and releasing it leaves what was held.\<close>

named_theorems order_intros \<open>how the operations follow the order of the locks\<close>

lemma ordered_read [order_intros]: "(\<And>s. ordered again (g s) H Q) \<Longrightarrow> ordered again (Read g) H Q"
  by simp

lemma ordered_return [order_intros]: "Q a H \<Longrightarrow> ordered again (Return a) H Q"
  by simp

lemma ordered_write [order_intros]: "(\<And>s s'. w s = Ok s' \<Longrightarrow> locks_kept s' s \<and> guarded H s s') \<Longrightarrow> ordered again p H Q \<Longrightarrow> ordered again (Write w p) H Q"
  by simp

lemma ordered_assign [order_intros]: "(\<And>s. locks_kept (f s) s \<and> guarded H s (f s)) \<Longrightarrow> ordered again p H Q \<Longrightarrow> ordered again (assign f p) H Q"
  by (simp add: assign_def)

lemma ordered_acquire [order_intros]:
  "below H (rank l) \<Longrightarrow> ordered again p ((l, m) # H) Q \<Longrightarrow> ordered again (Synch (Acquire m l) p) H Q"
  by simp

lemma ordered_release [order_intros]:
  "holds H l \<Longrightarrow> ordered again p (drop_lock l H) Q \<Longrightarrow> ordered again (Synch (Release l) p) H Q"
  by simp

lemma ordered_binds [order_intros]:
  "ordered again p H (\<lambda>a H. ordered again (k a) H Q) \<Longrightarrow> ordered again (bind_program p k) H Q"
  by (simp add: ordered_bind)

lemma ordered_fetch [order_intros]: "(\<And>a. Q a H) \<Longrightarrow> ordered again (fetch f) H Q"
  by (auto simp: fetch_def split: outcome.split)

lemma ordered_if [order_intros]:
  "(b \<Longrightarrow> ordered again p H Q) \<Longrightarrow> (\<not> b \<Longrightarrow> ordered again q H Q) \<Longrightarrow> ordered again (if b then p else q) H Q"
  by simp

lemma ordered_option [order_intros]:
  "(x = None \<Longrightarrow> ordered again p H Q) \<Longrightarrow> (\<And>a. x = Some a \<Longrightarrow> ordered again (q a) H Q) \<Longrightarrow>
    ordered again (case x of None \<Rightarrow> p | Some a \<Rightarrow> q a) H Q"
  by (cases x) simp_all

lemma ordered_pair [order_intros]:
  "(\<And>a b. ordered again (p a b) H Q) \<Longrightarrow> ordered again (case x of (a, b) \<Rightarrow> p a b) H Q"
  by (cases x) simp

lemma ordered_scan [order_intros]:
  assumes "\<And>i. i < n \<Longrightarrow> below H (rank (Rw (ptr (int i))))"
    and "\<And>i. i < n \<Longrightarrow> ordered again (found i) ((Rw (ptr (int i)), m) # H) Q"
    and "Q (-1) H"
  shows "ordered again (scan_code m ptr n test found i) H Q"
proof (induction "n - i" arbitrary: i)
  case 0
  with assms(3) show ?case by (simp add: scan_code.simps)
next
  case (Suc d)
  have "d = n - Suc i" using Suc.hyps(2) by simp
  note IH = Suc.hyps(1) [OF this]
  have "i < n" using Suc.hyps(2) by simp
  with assms(1,2) IH drop_below [OF assms(1) order_refl] show ?case
    by (subst scan_code.simps) (simp del: rank.simps)
qed

section \<open>The functions of the state layer\<close>

lemma ordered_block_alloc [order_intros]:
  "below H 4 \<Longrightarrow> (\<And>b. Q b H) \<Longrightarrow> ordered again data_block_alloc_code H Q"
  unfolding data_block_alloc_code_def by (intro order_intros) simp_all

lemma ordered_block_free [order_intros]:
  "below H 4 \<Longrightarrow> (\<And>r. Q r H) \<Longrightarrow> ordered again (data_block_free_code b) H Q"
  unfolding data_block_free_code_def by (intro order_intros) simp_all

lemma ordered_inode_create [order_intros]:
  "below H 2 \<Longrightarrow> holds H Open_file_lock \<Longrightarrow> (\<And>i. Q i H) \<Longrightarrow> ordered again (inode_create_code n_type) H Q"
  unfolding inode_create_code_def take_inode_code_def by (intro order_intros) (auto intro: below_mono)

text \<open>\<open>inode_delete\<close> locks a block and calls \<open>data_block_free\<close>, which locks it again.\<close>

lemma ordered_free_direct: "below H 4 \<Longrightarrow> Q 0 H \<Longrightarrow> ordered True (free_direct_code i k) H Q"
  by (simp add: free_direct_code.simps ordered_bind data_block_free_code_def stuck_on_def Let_def)

lemma ordered_inode_delete [order_intros]:
  "below H 4 \<Longrightarrow> holds H Open_file_lock \<Longrightarrow> (\<And>r. Q r H) \<Longrightarrow> ordered True (inode_delete_code i) H Q"
  unfolding inode_delete_code_def by (intro order_intros ordered_free_direct) simp_all

lemma ordered_find_in_dir [order_intros]:
  "below H 2 \<Longrightarrow> (\<And>r. Q r H) \<Longrightarrow> ordered again (find_in_dir_code d name) H Q"
  unfolding find_in_dir_code_def Let_def by (intro order_intros) (auto intro: below_mono)

text \<open>
  The directory's i-node is locked while the lock of the new i-node is held: the same lock if the new i-node
  were number 0.
\<close>

lemma ordered_add_dir_entry:
  assumes "below H 4" and "below H 3 \<or> (Rw (Inode_lock 0), Exclusive) \<in> set H" and "\<And>r. Q r H"
  shows "ordered True (add_dir_entry_code 0 i name) H Q"
proof (cases "below H 3")
  case True
  with assms show ?thesis
    unfolding add_dir_entry_code_def Let_def by (intro order_intros) (auto intro: below_mono)
next
  case False
  with assms have "stuck_on H Shared (Rw (Inode_lock 0))" by (auto simp: stuck_on_def holds_def)
  with assms show ?thesis by (simp add: add_dir_entry_code_def)
qed

lemma ordered_add_to_open_file_table [order_intros]:
  "below H 1 \<Longrightarrow> (\<And>f. Q f H) \<Longrightarrow> ordered again (add_to_open_file_table_code i off) H Q"
  unfolding add_to_open_file_table_code_def by (intro order_intros) (auto intro: below_mono)

lemma ordered_remove_from_open_file_table [order_intros]:
  "below H 1 \<Longrightarrow> (\<And>r. Q r H) \<Longrightarrow> ordered again (remove_from_open_file_table_code f) H Q"
  unfolding remove_from_open_file_table_code_def by (intro order_intros) (auto intro: below_mono)

section \<open>The operations\<close>

lemma ordered_tfs_lookup [order_intros]:
  "below H 2 \<Longrightarrow> (\<And>r. Q r H) \<Longrightarrow> ordered again (tfs_lookup_code name) H Q"
  unfolding tfs_lookup_code_def by (intro order_intros) simp_all

lemma ordered_truncate_direct [order_intros]:
  assumes "below H 4" and "holds H Open_file_lock" and "\<And>r. Q r H"
  shows "ordered again (truncate_direct_code i k n) H Q"
proof (induction "n - k" arbitrary: k)
  case 0
  with assms show ?case by (simp add: truncate_direct_code.simps)
next
  case (Suc d)
  have "d = n - Suc k" using Suc.hyps(2) by simp
  note IH = Suc.hyps(1) [OF this]
  show ?case
    by (subst truncate_direct_code.simps) (intro order_intros IH assms, simp add: assms)
qed

lemma ordered_truncate_inode [order_intros]:
  "below H 4 \<Longrightarrow> holds H Open_file_lock \<Longrightarrow> (\<And>r. Q r H) \<Longrightarrow> ordered again (truncate_inode_code i) H Q"
  unfolding truncate_inode_code_def Let_def by (intro order_intros) simp_all

lemma ordered_unlock_open [order_intros]:
  "holds H Open_file_lock \<Longrightarrow> holds H (Rw l) \<Longrightarrow> ordered again p (drop_lock (Rw l) (drop_lock Open_file_lock H)) Q \<Longrightarrow>
    ordered again (unlock_open_code l p) H Q"
  by (auto simp: unlock_open_code_def holds_def drop_lock_def)

definition creates :: "fs_call \<Rightarrow> bool" where
  "creates x = (case x of Call_open1 name flags \<Rightarrow> flags AND TFS_O_CREAT \<noteq> 0 | _ \<Rightarrow> False)"

lemma ordered_tfs_open:
  assumes "flags AND TFS_O_CREAT \<noteq> 0 \<longrightarrow> again" and "\<And>r. Q r []"
  shows "ordered again (tfs_open_code name flags) [] Q"
proof (cases "flags AND TFS_O_CREAT \<noteq> 0")
  case True
  with assms(1) have again: "again = True" by blast
  from True have flag: "(flags AND TFS_O_CREAT \<noteq> 0) = True" by simp
  show ?thesis
    unfolding tfs_open_code_def Let_def get_inode_table_lock_def ROOT_DIR_INUM_def again flag if_True
    by (intro order_intros ordered_add_dir_entry) (simp_all add: assms(2))
next
  case False
  then have flag: "(flags AND TFS_O_CREAT \<noteq> 0) = False" by simp
  show ?thesis
    unfolding tfs_open_code_def Let_def get_inode_table_lock_def flag if_False
    by (intro order_intros) (simp_all add: assms(2))
qed

lemma ordered_tfs_close [order_intros]: "(\<And>r. Q r []) \<Longrightarrow> ordered again (tfs_close_code f) [] Q"
  unfolding tfs_close_code_def by (intro order_intros) simp_all

lemma ordered_block_for_write [order_intros]:
  "below H 4 \<Longrightarrow> (Rw (Inode_lock (int i)), Exclusive) \<in> set H \<Longrightarrow> (\<And>r. Q r H) \<Longrightarrow> ordered again (block_for_write_code i k) H Q"
  unfolding block_for_write_code_def direct_for_write_code_def indirect_for_write_code_def clear_index_code_def
  by (intro order_intros) (auto simp: outcome_simps)

lemma ordered_after_copy [order_intros]:
  "(Rw (File_lock (int f)), Exclusive) \<in> set H \<Longrightarrow> (Rw (Inode_lock (int i)), Exclusive) \<in> set H \<Longrightarrow>
    ordered again p H Q \<Longrightarrow> ordered again (after_copy_code f i n p) H Q"
  unfolding after_copy_code_def by (intro order_intros) simp_all

lemma ordered_write_blocks [order_intros]:
  assumes "below H 4" and "(Rw (File_lock (int f)), Exclusive) \<in> set H" and "(Rw (Inode_lock (int i)), Exclusive) \<in> set H"
    and "\<And>r. Q r H"
  shows "ordered again (write_blocks_code f i k e buffer n r) H Q"
proof (induction "unat e - unat k" arbitrary: k buffer n r rule: less_induct)
  case less
  show ?case
  proof (cases "k < e")
    case True
    note IH = less [OF next_block [OF True]]
    show ?thesis by (subst write_blocks_code.simps) (intro order_intros IH assms, auto simp: outcome_simps assms)
  next
    case False
    with assms show ?thesis by (simp add: write_blocks_code.simps)
  qed
qed

lemma ordered_tfs_write [order_intros]:
  assumes "n > 0" and "\<And>r. Q r []"
  shows "ordered again (tfs_write_code f buffer n) [] Q"
  using assms unfolding tfs_write_code_def Let_def get_inode_table_lock_def get_open_file_table_lock_def
  by (simp cong: option.case_cong) (intro order_intros, auto intro: assms(2))

lemma ordered_read_blocks [order_intros]:
  assumes "(Rw (File_lock (int f)), Exclusive) \<in> set H" and "\<And>r. Q r H"
  shows "ordered again (read_blocks_code f i k e n r buffer) H Q"
proof (induction "unat e - unat k" arbitrary: k buffer n r rule: less_induct)
  case less
  show ?case
  proof (cases "k < e")
    case True
    note IH = less [OF next_block [OF True]]
    show ?thesis
      by (subst read_blocks_code.simps) (unfold block_for_read_code_def, intro order_intros IH assms, simp add: assms)
  next
    case False
    with assms show ?thesis by (simp add: read_blocks_code.simps)
  qed
qed

lemma ordered_tfs_read [order_intros]: "(\<And>r. Q r []) \<Longrightarrow> ordered again (tfs_read_code f len) [] Q"
  unfolding tfs_read_code_def read_range_code_def Let_def get_inode_table_lock_def get_open_file_table_lock_def
  by (intro order_intros) simp_all

text \<open>Writes of length 0 keep their locks (see \<open>FS1_Misuse\<close>), so they are excluded.\<close>

fun releases :: "fs_call \<Rightarrow> bool" where
  "releases (Call_write1 f buffer n) = (n > 0)"
| "releases x = True"

lemma ordered_call:
  assumes "releases x" and "creates x \<longrightarrow> again" and "\<And>r. Q r []"
  shows "ordered again (call_code x) [] Q"
  using assms by (cases x) (auto simp: result_only_def creates_def intro!: order_intros ordered_tfs_open)

end
