(* ===== verification/FS1_Threads.thy ===== *)
theory FS1_Threads
  imports FS1_Order "HOL-Library.Multiset"
begin

text \<open>
  Threads inside the operations of the first delivery: any number of threads call the library, and a step is one
  access to shared memory or one lock operation of one of them. The invariant accounts for the locks: each one is
  in the state that the threads holding it give it.
\<close>

section \<open>Threads\<close>

text \<open>What a thread of the client program does: it stops, or calls and goes on with the result.\<close>

datatype caller = Stop | Calls fs_call "fs_res \<Rightarrow> caller"

primrec caller_code :: "caller \<Rightarrow> fs_res list program" where
  "caller_code Stop = Return []"
| "caller_code (Calls x k) =
     bind_program (call_code x) (\<lambda>r. bind_program (caller_code (k r)) (\<lambda>rs. Return (r # rs)))"

primrec all_calls :: "(fs_call \<Rightarrow> bool) \<Rightarrow> caller \<Rightarrow> bool" where
  "all_calls P Stop \<longleftrightarrow> True"
| "all_calls P (Calls x k) \<longleftrightarrow> P x \<and> (\<forall>r. all_calls P (k r))"

lemma all_calls_True [simp]: "all_calls (\<lambda>_. True) k"
  by (induction k) auto

lemma all_calls_mono: "all_calls P k \<Longrightarrow> (\<And>x. P x \<Longrightarrow> R x) \<Longrightarrow> all_calls R k"
  by (induction k) auto

record threads1 =
  shared :: fs_state1
  code_of :: "nat \<Rightarrow> fs_res list program"
  held_by :: "nat \<Rightarrow> holding"

definition start_threads :: "(nat \<Rightarrow> caller) \<Rightarrow> fs_state1 \<Rightarrow> threads1" where
  "start_threads cs s = \<lparr>shared = s, code_of = (\<lambda>t. caller_code (cs t)), held_by = (\<lambda>_. [])\<rparr>"

fun after_sync :: "sync_op \<Rightarrow> holding \<Rightarrow> holding" where
  "after_sync (Acquire m l) H = (l, m) # H"
| "after_sync (Release l) H = drop_lock l H"

text \<open>The next step of a thread: shared state, its locks, its code.\<close>

inductive code_step :: "fs_state1 \<times> holding \<times> 'a program \<Rightarrow> fs_state1 \<times> holding \<times> 'a program \<Rightarrow> bool" where
  step_read: "code_step (s, H, Read g) (s, H, g s)"
| step_write: "w s = Ok s' \<Longrightarrow> code_step (s, H, Write w p) (s', H, p)"
| step_synch: "perform x s = Ok s' \<Longrightarrow> code_step (s, H, Synch x p) (s', after_sync x H, p)"

inductive_simps code_step_simps:
  "code_step (s, H, Return a) z" "code_step (s, H, Read g) z" "code_step (s, H, Write w p) z"
  "code_step (s, H, Synch x p) z" "code_step (s, H, Crash e) z"

inductive thread_step1 :: "nat \<Rightarrow> threads1 \<Rightarrow> threads1 \<Rightarrow> bool" where
  "code_step (shared c, held_by c t, code_of c t) (s, H, p) \<Longrightarrow>
     thread_step1 t c (c\<lparr>shared := s, code_of := (code_of c)(t := p), held_by := (held_by c)(t := H)\<rparr>)"

inductive threads_step1 :: "nat \<Rightarrow> threads1 \<Rightarrow> threads1 \<Rightarrow> bool" where
  "t < n \<Longrightarrow> thread_step1 t c c' \<Longrightarrow> threads_step1 n c c'"

definition returned :: "threads1 \<Rightarrow> nat \<Rightarrow> bool" where
  "returned c t \<longleftrightarrow> (\<exists>rs. code_of c t = Return rs) \<and> held_by c t = []"

text \<open>A thread that waits for a lock, and one whose next access is outside its array.\<close>

definition waits_for :: "threads1 \<Rightarrow> nat \<Rightarrow> mode \<Rightarrow> lock \<Rightarrow> bool" where
  "waits_for c t m l \<longleftrightarrow> (\<exists>p. code_of c t = Synch (Acquire m l) p) \<and> perform (Acquire m l) (shared c) = Fault Deadlock"

definition out_of_bounds :: "threads1 \<Rightarrow> nat \<Rightarrow> bool" where
  "out_of_bounds c t \<longleftrightarrow> (case code_of c t of
       Write w p \<Rightarrow> \<forall>s. w (shared c) \<noteq> Ok s
     | Synch (Acquire m (Rw l)) p \<Rightarrow> \<not> in_table l
     | Crash e \<Rightarrow> True
     | _ \<Rightarrow> False)"

section \<open>Every run ends\<close>

text \<open>A step goes from a program to a part of it.\<close>

inductive part_of :: "'a program \<Rightarrow> 'a program \<Rightarrow> bool" where
  "part_of (g s) (Read g)"
| "part_of p (Write w p)"
| "part_of p (Synch x p)"

lemma wfp_part_of: "wfp part_of"
  unfolding wfp_def
proof (rule wfUNIVI)
  fix P :: "'a program \<Rightarrow> bool" and p
  assume "\<forall>x. (\<forall>y. (y, x) \<in> {(x, y). part_of x y} \<longrightarrow> P y) \<longrightarrow> P x"
  then have step: "(\<And>y. part_of y x \<Longrightarrow> P y) \<Longrightarrow> P x" for x by blast
  show "P p" by (induction p; rule step) (auto elim: part_of.cases)
qed

lemma code_step_part: "code_step (s, H, p) (s', H', p') \<Longrightarrow> part_of p' p"
  by (cases p) (auto simp: code_step_simps intro: part_of.intros)

text \<open>The programs of all threads together get smaller with every step.\<close>

definition programs :: "nat \<Rightarrow> threads1 \<Rightarrow> fs_res list program multiset" where
  "programs n c = image_mset (code_of c) (mset_set {..<n})"

lemma programs_split: "t < n \<Longrightarrow> programs n c = image_mset (code_of c) (mset_set ({..<n} - {t})) + {#code_of c t#}"
proof -
  assume "t < n"
  then have "mset_set {..<n} = add_mset t (mset_set ({..<n} - {t}))" by (simp add: mset_set.remove)
  then show ?thesis by (simp add: programs_def)
qed

lemma programs_decrease:
  assumes "threads_step1 n c c'"
  shows "multp part_of (programs n c') (programs n c)"
proof -
  from assms obtain t s H p where t: "t < n" and step: "code_step (shared c, held_by c t, code_of c t) (s, H, p)"
    and c': "c' = c\<lparr>shared := s, code_of := (code_of c)(t := p), held_by := (held_by c)(t := H)\<rparr>"
    by (auto elim!: threads_step1.cases thread_step1.cases)
  have "image_mset (code_of c') (mset_set ({..<n} - {t})) = image_mset (code_of c) (mset_set ({..<n} - {t}))"
    by (rule image_mset_cong) (auto simp: c')
  with programs_split [OF t, of c'] have "programs n c' = image_mset (code_of c) (mset_set ({..<n} - {t})) + {#p#}"
    by (simp add: c')
  moreover have "multp part_of (image_mset (code_of c) (mset_set ({..<n} - {t})) + {#p#})
      (image_mset (code_of c) (mset_set ({..<n} - {t})) + {#code_of c t#})"
    by (rule one_step_implies_multp) (use code_step_part [OF step] in auto)
  ultimately show ?thesis using programs_split [OF t, of c] by simp
qed

lemma wfp_threads_step: "wfp (\<lambda>c' c. threads_step1 n c c')"
  by (rule wfp_if_convertible_to_wfp [OF wfp_multp [OF wfp_part_of], where f = "programs n"]) (rule programs_decrease)

lemma no_infinite_run: "\<exists>i. \<not> threads_step1 n (f i) (f (Suc i))"
proof -
  have "\<exists>z \<in> range f. \<forall>y. threads_step1 n z y \<longrightarrow> y \<notin> range f"
    using wfp_threads_step [of n] unfolding wfp_iff_ex_minimal by blast
  then show ?thesis by blast
qed

section \<open>Accounting for the locks\<close>

fun valid_lock :: "lock \<Rightarrow> bool" where
  "valid_lock (Rw l) = in_table l"
| "valid_lock _ = True"

fun of_mutex :: "mutex \<Rightarrow> rwlock" where
  "of_mutex Uninit = RW_Uninit"
| "of_mutex Unlocked = RW_Free"
| "of_mutex Locked = RW_Writer"

text \<open>The state of a lock, a mutex seen as a lock without readers.\<close>

fun lock_view :: "fs_state1 \<Rightarrow> lock \<Rightarrow> rwlock" where
  "lock_view s (Rw l) = rwlocks s l"
| "lock_view s Open_files_mutex = of_mutex (open_files_mutex1 s)"
| "lock_view s Open_file_lock = of_mutex (open_file_lock s)"

definition holders :: "nat \<Rightarrow> threads1 \<Rightarrow> lock \<Rightarrow> nat set" where
  "holders n c l = {t. t < n \<and> holds (held_by c t) l}"

definition lock_ok :: "nat \<Rightarrow> threads1 \<Rightarrow> lock \<Rightarrow> bool" where
  "lock_ok n c l \<longleftrightarrow> (case lock_view (shared c) l of
       RW_Uninit \<Rightarrow> False
     | RW_Free \<Rightarrow> holders n c l = {}
     | RW_Writer \<Rightarrow> (\<exists>t. holders n c l = {t})
     | RW_Readers k \<Rightarrow> 0 < k \<and> card (holders n c l) = k \<and> (\<forall>t<n. (l, Exclusive) \<notin> set (held_by c t)))"

definition accounted :: "nat \<Rightarrow> threads1 \<Rightarrow> bool" where
  "accounted n c \<longleftrightarrow> (\<forall>l. if valid_lock l then lock_ok n c l else holders n c l = {})"

lemma finite_holders [simp]: "finite (holders n c l)"
  by (simp add: holders_def)

text \<open>What an operation does to its lock; it leaves all others alone.\<close>

lemma perform_others:
  "perform (Acquire m l) s = Ok s' \<Longrightarrow> l' \<noteq> l \<Longrightarrow> lock_view s' l' = lock_view s l'"
  "perform (Release l) s = Ok s' \<Longrightarrow> l' \<noteq> l \<Longrightarrow> lock_view s' l' = lock_view s l'"
  by (cases l; cases m; cases l';
      auto simp: read_lock_rwlock_def write_lock_rwlock_def on_rwlock_def outcome_simps split: if_splits)
     (cases l; cases l'; auto simp: unlock_rwlock_def on_rwlock_def outcome_simps split: if_splits)

lemma lock_mutex_view: "lock_mutex m = Ok m' \<Longrightarrow> of_mutex m = RW_Free \<and> of_mutex m' = RW_Writer"
  by (cases m) (auto simp: lock_mutex_def)

lemma unlock_mutex_view: "unlock_mutex m = Ok m' \<Longrightarrow> of_mutex m = RW_Writer \<and> of_mutex m' = RW_Free"
  by (cases m) (auto simp: unlock_mutex_def)

lemma acquire_view:
  assumes "perform (Acquire m l) s = Ok s'"
  shows "valid_lock l \<and>
    (lock_view s l = RW_Free \<and> (lock_view s' l = RW_Writer \<or> m = Shared \<and> lock_view s' l = RW_Readers 1) \<or>
     m = Shared \<and> (\<exists>k. lock_view s l = RW_Readers k \<and> lock_view s' l = RW_Readers (Suc k)))"
proof (cases l)
  case (Rw r)
  with assms show ?thesis
    by (cases m; cases "rwlocks s r")
       (auto simp: read_lock_rwlock_def write_lock_rwlock_def on_rwlock_def outcome_simps split: if_splits)
qed (use assms in \<open>auto simp: outcome_simps dest: lock_mutex_view\<close>)

lemma release_view:
  assumes "perform (Release l) s = Ok s'"
  shows "valid_lock l \<and>
    (lock_view s l = RW_Writer \<and> lock_view s' l = RW_Free \<or>
     (\<exists>k. lock_view s l = RW_Readers k \<and> lock_view s' l = (if k \<le> 1 then RW_Free else RW_Readers (k - 1))))"
proof (cases l)
  case (Rw r)
  with assms show ?thesis
    by (cases "rwlocks s r") (auto simp: unlock_rwlock_def on_rwlock_def outcome_simps split: if_splits)
qed (use assms in \<open>auto simp: outcome_simps dest: unlock_mutex_view\<close>)

section \<open>The invariant\<close>

definition follows :: "bool \<Rightarrow> fs_res list program \<Rightarrow> holding \<Rightarrow> bool" where
  "follows again p H \<longleftrightarrow> ordered again p H (\<lambda>_ H. H = []) \<and> distinct (map fst H)"

definition threads_ok :: "bool \<Rightarrow> nat \<Rightarrow> threads1 \<Rightarrow> bool" where
  "threads_ok again n c \<longleftrightarrow> (\<forall>t<n. follows again (code_of c t) (held_by c t)) \<and>
     (\<forall>t\<ge>n. held_by c t = []) \<and> accounted n c"

lemma accountedD: "accounted n c \<Longrightarrow> valid_lock l \<Longrightarrow> lock_ok n c l"
  "accounted n c \<Longrightarrow> t < n \<Longrightarrow> holds (held_by c t) l \<Longrightarrow> valid_lock l"
  by (auto simp: accounted_def holders_def split: if_splits)

text \<open>A thread that is stuck on a lock waits for it.\<close>

lemma stuck_waits:
  assumes "accounted n c" and "t < n" and "stuck_on (held_by c t) m l"
  shows "perform (Acquire m l) (shared c) = Fault Deadlock"
proof -
  have held: "t \<in> holders n c l" and valid: "valid_lock l"
    using assms accountedD(2) by (auto simp: stuck_on_def holders_def)
  with accountedD(1) [OF assms(1) valid] assms(3) have "lock_view (shared c) l = RW_Writer \<or>
      m = Exclusive \<and> (\<exists>k. lock_view (shared c) l = RW_Readers k)"
    using assms(2) by (auto simp: lock_ok_def stuck_on_def split: rwlock.splits)
  with valid show ?thesis
    by (cases l; cases m)
       (auto simp: read_lock_rwlock_def write_lock_rwlock_def on_rwlock_def lock_mutex_def elim!: of_mutex.elims)
qed

lemma accounted_update:
  assumes "accounted n c" and "t < n" and "valid_lock l"
    and others: "\<And>l'. l' \<noteq> l \<Longrightarrow> lock_view s l' = lock_view (shared c) l'"
    and held: "\<And>l'. l' \<noteq> l \<Longrightarrow> holds H l' = holds (held_by c t) l' \<and> ((l', Exclusive) \<in> set H \<longleftrightarrow> (l', Exclusive) \<in> set (held_by c t))"
    and own: "lock_ok n (c\<lparr>shared := s, code_of := p, held_by := (held_by c)(t := H)\<rparr>) l"
  shows "accounted n (c\<lparr>shared := s, code_of := p, held_by := (held_by c)(t := H)\<rparr>)"
  unfolding accounted_def
proof
  fix l'
  let ?c = "c\<lparr>shared := s, code_of := p, held_by := (held_by c)(t := H)\<rparr>"
  show "if valid_lock l' then lock_ok n ?c l' else holders n ?c l' = {}"
  proof (cases "l' = l")
    case True
    with own assms(3) show ?thesis by simp
  next
    case False
    with held have "holders n ?c l' = holders n c l'" "\<And>u. (l', Exclusive) \<in> set (held_by ?c u) \<longleftrightarrow> (l', Exclusive) \<in> set (held_by c u)"
      by (auto simp: holders_def)
    with others [OF False] have "lock_ok n ?c l' = lock_ok n c l'" "holders n ?c l' = holders n c l'"
      by (simp_all add: lock_ok_def cong: rwlock.case_cong)
    with assms(1) show ?thesis by (simp add: accounted_def)
  qed
qed

lemma drop_lock_holds [simp]: "holds (drop_lock l H) l' \<longleftrightarrow> l' \<noteq> l \<and> holds H l'"
  "x \<in> set (drop_lock l H) \<longleftrightarrow> fst x \<noteq> l \<and> x \<in> set H"
  by (auto simp: holds_def drop_lock_def)

lemma accounted_acquire:
  assumes "accounted n c" and "t < n" and "perform (Acquire m l) (shared c) = Ok s" and "\<not> holds (held_by c t) l"
  shows "accounted n (c\<lparr>shared := s, code_of := p, held_by := (held_by c)(t := (l, m) # held_by c t)\<rparr>)" (is "accounted n ?c")
proof (rule accounted_update [OF assms(1,2)])
  note view = acquire_view [OF assms(3)]
  then show valid: "valid_lock l" by simp
  have holders: "holders n ?c l = insert t (holders n c l)" using assms(2) by (auto simp: holders_def)
  have new: "t \<notin> holders n c l" using assms(4) by (simp add: holders_def)
  have excl: "u \<in> holders n c l" if "u < n" "(l, Exclusive) \<in> set (held_by c u)" for u
    using that by (auto simp: holders_def holds_def)
  have "(l, Exclusive) \<notin> set (held_by c t)" using assms(4) by (auto simp: holds_def)
  with view accountedD(1) [OF assms(1) valid] new excl show "lock_ok n ?c l"
    by (auto simp: lock_ok_def holders split: rwlock.splits)
qed (use perform_others(1) [OF assms(3)] in auto)

lemma accounted_release:
  assumes "accounted n c" and "t < n" and "perform (Release l) (shared c) = Ok s" and "holds (held_by c t) l"
  shows "accounted n (c\<lparr>shared := s, code_of := p, held_by := (held_by c)(t := drop_lock l (held_by c t))\<rparr>)" (is "accounted n ?c")
proof (rule accounted_update [OF assms(1,2)])
  note view = release_view [OF assms(3)]
  then show valid: "valid_lock l" by simp
  have holders: "holders n ?c l = holders n c l - {t}" using assms(2) by (auto simp: holders_def)
  have held: "t \<in> holders n c l" using assms(2,4) by (simp add: holders_def)
  then have card: "card (holders n c l - {t}) = card (holders n c l) - 1" by simp
  have last: "holders n c l - {t} = {}" if "card (holders n c l) \<le> 1"
    using that held card by (metis card_0_eq diff_is_0_eq finite_Diff finite_holders)
  show "lock_ok n ?c l"
    using view accountedD(1) [OF assms(1) valid] held card last
    by (auto simp: lock_ok_def holders split: rwlock.splits if_splits)
qed (use perform_others(2) [OF assms(3)] in auto)

lemma accounted_same:
  assumes "accounted n c" and "locks_kept s (shared c)"
  shows "accounted n (c\<lparr>shared := s, code_of := p\<rparr>)"
proof -
  have "lock_view s l = lock_view (shared c) l" for l using assms(2) by (cases l) (auto simp: locks_kept_def)
  moreover have "holders n (c\<lparr>shared := s, code_of := p\<rparr>) l = holders n c l" for l by (simp add: holders_def)
  ultimately have "lock_ok n (c\<lparr>shared := s, code_of := p\<rparr>) l = lock_ok n c l" for l
    by (simp add: lock_ok_def cong: rwlock.case_cong)
  with \<open>\<And>l. holders n (c\<lparr>shared := s, code_of := p\<rparr>) l = holders n c l\<close> show ?thesis
    using assms(1) by (simp add: accounted_def)
qed

lemma follows_drop: "distinct (map fst H) \<Longrightarrow> distinct (map fst (drop_lock l H))"
  by (simp add: drop_lock_def distinct_map_filter)

lemma thread_step_ok:
  assumes "threads_ok again n c" and "t < n" and "thread_step1 t c c'"
  shows "threads_ok again n c'"
proof -
  from assms(3) obtain s H p where step: "code_step (shared c, held_by c t, code_of c t) (s, H, p)"
    and c': "c' = c\<lparr>shared := s, code_of := (code_of c)(t := p), held_by := (held_by c)(t := H)\<rparr>"
    by (auto elim: thread_step1.cases)
  have ok: "follows again (code_of c t) (held_by c t)" and acc: "accounted n c"
    using assms(1,2) by (auto simp: threads_ok_def)
  have same: "(held_by c)(t := held_by c t) = held_by c" by simp
  from step have "follows again p H \<and> accounted n c'"
  proof (cases rule: code_step.cases)
    case (step_read g)
    with ok acc same accounted_same [OF acc, of "shared c"] show ?thesis
      by (auto simp: follows_def c' locks_kept_def)
  next
    case (step_write w)
    with ok acc accounted_same [OF acc, of s] show ?thesis by (auto simp: follows_def c')
  next
    case (step_synch x)
    show ?thesis
    proof (cases x)
      case (Acquire m l)
      with ok step_synch stuck_waits [OF acc assms(2), of m l] have low: "below (held_by c t) (rank l)"
        and p: "ordered again p ((l, m) # held_by c t) (\<lambda>_ H. H = [])" and d: "distinct (map fst (held_by c t))"
        by (auto simp: follows_def)
      have "\<not> holds (held_by c t) l" using below_not_held [OF low] .
      with accounted_acquire [OF acc assms(2), of m l s] step_synch Acquire p d show ?thesis
        by (force simp: follows_def c' holds_def)
    next
      case (Release l)
      with ok step_synch accounted_release [OF acc assms(2), of l s] show ?thesis
        by (auto simp: follows_def c' follows_drop)
    qed
  qed
  with assms(1,2) show ?thesis by (auto simp: threads_ok_def c')
qed

text \<open>Initially the locks of the file system are initialised and free.\<close>

definition locks_ready :: "fs_state1 \<Rightarrow> bool" where
  "locks_ready s \<longleftrightarrow> (\<forall>l. in_table l \<longrightarrow> rwlocks s l = RW_Free) \<and> open_files_mutex1 s = Unlocked \<and> open_file_lock s = Unlocked"

lemma ordered_caller:
  "all_calls releases k \<Longrightarrow> all_calls (\<lambda>x. creates x \<longrightarrow> again) k \<Longrightarrow> (\<And>r. Q r []) \<Longrightarrow> ordered again (caller_code k) [] Q"
proof (induction k arbitrary: Q)
  case Stop
  then show ?case by simp
next
  case (Calls x k)
  then show ?case by (auto simp: ordered_bind intro!: ordered_call)
qed

lemma start_ok:
  assumes "locks_ready s" and "\<And>t. t < n \<Longrightarrow> all_calls releases (cs t)"
    and "\<And>t. t < n \<Longrightarrow> all_calls (\<lambda>x. creates x \<longrightarrow> again) (cs t)"
  shows "threads_ok again n (start_threads cs s)"
proof -
  have "valid_lock l \<Longrightarrow> lock_view s l = RW_Free" for l using assms(1) by (cases l) (auto simp: locks_ready_def)
  then have "accounted n (start_threads cs s)"
    by (auto simp: accounted_def lock_ok_def start_threads_def holders_def)
  with assms(2,3) show ?thesis by (auto simp: threads_ok_def start_threads_def follows_def intro!: ordered_caller)
qed

lemma reachable_ok:
  assumes "(threads_step1 n)\<^sup>*\<^sup>* c c'" and "threads_ok again n c"
  shows "threads_ok again n c'"
  using assms by (induction rule: rtranclp_induct) (auto elim!: threads_step1.cases intro: thread_step_ok)

section \<open>Who can go on\<close>

lemma blocked_held:
  assumes "accounted n c" and "valid_lock l" and "perform (Acquire m l) (shared c) = Fault e"
  shows "e = Deadlock \<and> (\<exists>u<n. holds (held_by c u) l)"
proof -
  note ok = accountedD(1) [OF assms(1,2)]
  have view: "lock_view (shared c) l \<noteq> RW_Free \<and> lock_view (shared c) l \<noteq> RW_Uninit \<and> e = Deadlock"
  proof (cases l)
    case (Rw r)
    with assms(2,3) ok show ?thesis
      by (cases m; cases "rwlocks (shared c) r")
         (auto simp: read_lock_rwlock_def write_lock_rwlock_def on_rwlock_def lock_ok_def)
  next
    case Open_files_mutex
    with assms(3) ok show ?thesis by (cases "open_files_mutex1 (shared c)") (auto simp: lock_mutex_def lock_ok_def)
  next
    case Open_file_lock
    with assms(3) ok show ?thesis by (cases "open_file_lock (shared c)") (auto simp: lock_mutex_def lock_ok_def)
  qed
  with ok have "holders n c l \<noteq> {}" by (auto simp: lock_ok_def split: rwlock.splits)
  with view show ?thesis by (auto simp: holders_def)
qed

lemma release_succeeds:
  assumes "accounted n c" and "t < n" and "holds (held_by c t) l"
  shows "\<exists>s. perform (Release l) (shared c) = Ok s"
proof -
  have valid: "valid_lock l" by (rule accountedD(2) [OF assms])
  have "t \<in> holders n c l" using assms(2,3) by (simp add: holders_def)
  with accountedD(1) [OF assms(1) valid] have "lock_view (shared c) l = RW_Writer \<or> (\<exists>k. lock_view (shared c) l = RW_Readers k)"
    by (auto simp: lock_ok_def split: rwlock.splits)
  with valid show ?thesis
    by (cases l) (auto simp: unlock_rwlock_def on_rwlock_def unlock_mutex_def elim!: of_mutex.elims)
qed

lemma accounted_mutexes:
  assumes "accounted n c"
  shows "open_files_mutex1 (shared c) \<noteq> Uninit" and "open_file_lock (shared c) \<noteq> Uninit"
  using accountedD(1) [OF assms, of Open_files_mutex] accountedD(1) [OF assms, of Open_file_lock]
  by (auto simp: lock_ok_def)

text \<open>A thread has returned, has a step, is out of bounds, or waits for a lock another one (or itself) holds.\<close>

lemma thread_cases:
  assumes "threads_ok again n c" and "t < n"
  shows "returned c t \<or> (\<exists>c'. thread_step1 t c c') \<or> out_of_bounds c t \<or>
    (\<exists>m l. waits_for c t m l \<and> (\<exists>u<n. holds (held_by c u) l) \<and>
       (again \<and> stuck_on (held_by c t) m l \<or> below (held_by c t) (rank l)))"
proof -
  have ok: "follows again (code_of c t) (held_by c t)" and acc: "accounted n c"
    using assms by (auto simp: threads_ok_def)
  have step: "\<exists>c'. thread_step1 t c c'" if "code_step (shared c, held_by c t, code_of c t) z" for z
    using that thread_step1.intros [of c t] by (cases z) blast
  show ?thesis
  proof (cases "code_of c t")
    case (Return r)
    with ok show ?thesis by (simp add: returned_def follows_def)
  next
    case (Read g)
    with step [of "(shared c, held_by c t, g (shared c))"] show ?thesis by (simp add: code_step_simps)
  next
    case (Write w p)
    show ?thesis
    proof (cases "w (shared c)")
      case (Ok s)
      with Write step [of "(s, held_by c t, p)"] show ?thesis by (simp add: code_step_simps)
    qed (simp add: out_of_bounds_def Write)
  next
    case (Crash e)
    then show ?thesis by (simp add: out_of_bounds_def)
  next
    case (Synch x p)
    show ?thesis
    proof (cases "perform x (shared c)")
      case (Ok s)
      with Synch step [of "(s, after_sync x (held_by c t), p)"] show ?thesis by (simp add: code_step_simps)
    next
      case (Fault e)
      show ?thesis
      proof (cases x)
        case (Release l)
        with ok Synch have "holds (held_by c t) l" by (simp add: follows_def)
        with release_succeeds [OF acc assms(2)] Fault Release show ?thesis by force
      next
        case (Acquire m l)
        show ?thesis
        proof (cases "valid_lock l")
          case True
          with blocked_held [OF acc True] Fault Acquire have "e = Deadlock" "\<exists>u<n. holds (held_by c u) l" by auto
          with ok Synch Fault Acquire show ?thesis by (auto simp: waits_for_def follows_def)
        next
          case False
          with Synch Acquire show ?thesis by (cases l) (simp_all add: out_of_bounds_def)
        qed
      qed
    qed
  qed
qed

section \<open>Exclusion\<close>

lemma exclusive_holder:
  assumes "accounted n c" and "t < n" and "u < n" and "t \<noteq> u" and "(l, Exclusive) \<in> set (held_by c t)"
  shows "\<not> holds (held_by c u) l"
proof
  assume "holds (held_by c u) l"
  with assms(2,3,5) have two: "t \<in> holders n c l" "u \<in> holders n c l" by (auto simp: holders_def holds_def)
  have valid: "valid_lock l" using accountedD(2) [OF assms(1,2)] assms(5) by (auto simp: holds_def)
  show False using accountedD(1) [OF assms(1) valid] two assms(2,4,5) by (auto simp: lock_ok_def split: rwlock.splits)
qed

lemma mutex_holder:
  assumes "accounted n c" and "t < n" and "u < n" and "t \<noteq> u" and "holds (held_by c t) l"
    and "l = Open_files_mutex \<or> l = Open_file_lock"
  shows "\<not> holds (held_by c u) l"
proof
  assume "holds (held_by c u) l"
  with assms(2,3,5) have two: "t \<in> holders n c l" "u \<in> holders n c l" by (auto simp: holders_def)
  have "lock_view (shared c) l \<noteq> RW_Readers k" for k using assms(6) by (auto elim: of_mutex.elims)
  moreover have valid: "valid_lock l" using assms(6) by auto
  ultimately show False using accountedD(1) [OF assms(1) valid] two assms(4) by (auto simp: lock_ok_def split: rwlock.splits)
qed

text \<open>A step changes only what the thread's locks allow.\<close>

lemma perform_data:
  "perform x s = Ok s' \<Longrightarrow> guarded H s s'"
proof (induction x s rule: perform.induct)
qed (auto simp: read_lock_rwlock_def write_lock_rwlock_def unlock_rwlock_def on_rwlock_def outcome_simps guarded_def
    split: if_splits)

lemma step_guarded:
  assumes "threads_ok again n c" and "u < n" and "thread_step1 u c c'"
  shows "guarded (held_by c u) (shared c) (shared c')"
proof -
  have ok: "follows again (code_of c u) (held_by c u)" using assms(1,2) by (simp add: threads_ok_def)
  from assms(3) obtain s H p where step: "code_step (shared c, held_by c u, code_of c u) (s, H, p)" and "shared c' = s"
    by (auto elim: thread_step1.cases)
  from step have "guarded (held_by c u) (shared c) s"
  proof (cases rule: code_step.cases)
    case (step_read g)
    then show ?thesis by (simp add: guarded_def)
  next
    case (step_write w)
    with ok show ?thesis by (auto simp: follows_def)
  next
    case (step_synch x)
    then show ?thesis by (auto intro: perform_data)
  qed
  with \<open>shared c' = s\<close> show ?thesis by simp
qed

section \<open>Running a given interleaving\<close>

text \<open>The step of thread \<open>t\<close>, if it has one, and the steps of the threads of a list in turn.\<close>

fun move :: "nat \<Rightarrow> threads1 \<Rightarrow> threads1 option" where
  "move t c = (case code_of c t of
       Read g \<Rightarrow> Some (c\<lparr>code_of := (code_of c)(t := g (shared c))\<rparr>)
     | Write w p \<Rightarrow> (case w (shared c) of
         Ok s \<Rightarrow> Some (c\<lparr>shared := s, code_of := (code_of c)(t := p)\<rparr>) | Fault e \<Rightarrow> None)
     | Synch x p \<Rightarrow> (case perform x (shared c) of
         Ok s \<Rightarrow> Some (c\<lparr>shared := s, code_of := (code_of c)(t := p), held_by := (held_by c)(t := after_sync x (held_by c t))\<rparr>)
       | Fault e \<Rightarrow> None)
     | _ \<Rightarrow> None)"

primrec schedule :: "nat list \<Rightarrow> threads1 \<Rightarrow> threads1 option" where
  "schedule [] c = Some c"
| "schedule (t # ts) c = (case move t c of None \<Rightarrow> None | Some c \<Rightarrow> schedule ts c)"

lemma move_step: "move t c = Some c' \<Longrightarrow> thread_step1 t c c'"
proof -
  assume "move t c = Some c'"
  then obtain s H p where "code_step (shared c, held_by c t, code_of c t) (s, H, p)"
    and "c' = c\<lparr>shared := s, code_of := (code_of c)(t := p), held_by := (held_by c)(t := H)\<rparr>"
    by (cases "code_of c t") (auto simp: code_step_simps split: outcome.splits)
  then show ?thesis by (simp add: thread_step1.intros)
qed

lemma schedule_steps: "schedule ts c = Some c' \<Longrightarrow> \<forall>t \<in> set ts. t < n \<Longrightarrow> (threads_step1 n)\<^sup>*\<^sup>* c c'"
proof (induction ts arbitrary: c)
  case Nil
  then show ?case by simp
next
  case (Cons t ts)
  then obtain d where d: "move t c = Some d" "schedule ts d = Some c'" by (auto split: option.splits)
  have "threads_step1 n c d" using Cons.prems(2) move_step [OF d(1)] by (auto intro: threads_step1.intros)
  with Cons d show ?case by (auto intro: converse_rtranclp_into_rtranclp)
qed

text \<open>A thread that runs a part of its program without interruption does what the part computes.\<close>

lemma run_steps:
  assumes "run p (shared c) = Ok (a, s')" and "code_of c t = bind_program p k"
  shows "\<exists>c'. (thread_step1 t)\<^sup>*\<^sup>* c c' \<and> shared c' = s' \<and> code_of c' = (code_of c)(t := k a) \<and>
    (\<forall>u. u \<noteq> t \<longrightarrow> held_by c' u = held_by c u)"
  using assms
proof (induction p arbitrary: c)
  case (Return x)
  then show ?case by (intro exI [of _ c]) (simp add: fun_upd_idem)
next
  case (Read g)
  let ?c = "c\<lparr>code_of := (code_of c)(t := bind_program (g (shared c)) k)\<rparr>"
  have "thread_step1 t c ?c" using Read.prems(2) by (intro move_step) simp
  moreover obtain c' where "(thread_step1 t)\<^sup>*\<^sup>* ?c c'" "shared c' = s'" "code_of c' = (code_of c)(t := k a)"
    "\<forall>u. u \<noteq> t \<longrightarrow> held_by c' u = held_by c u"
    using Read.IH [of "g (shared c)" ?c] Read.prems(1) by (auto simp: fun_upd_same fun_upd_upd simp del: fun_upd_apply)
  ultimately show ?case by (blast intro: converse_rtranclp_into_rtranclp)
next
  case (Write w p)
  then obtain s where s: "w (shared c) = Ok s" "run p s = Ok (a, s')" by (auto simp: outcome_simps)
  let ?c = "c\<lparr>shared := s, code_of := (code_of c)(t := bind_program p k)\<rparr>"
  have "thread_step1 t c ?c" using Write.prems(2) s(1) by (intro move_step) simp
  moreover obtain c' where "(thread_step1 t)\<^sup>*\<^sup>* ?c c'" "shared c' = s'" "code_of c' = (code_of c)(t := k a)"
    "\<forall>u. u \<noteq> t \<longrightarrow> held_by c' u = held_by c u"
    using Write.IH [of ?c] s(2) by (auto simp: fun_upd_same fun_upd_upd simp del: fun_upd_apply)
  ultimately show ?case by (blast intro: converse_rtranclp_into_rtranclp)
next
  case (Synch x p)
  then obtain s where s: "perform x (shared c) = Ok s" "run p s = Ok (a, s')" by (auto simp: outcome_simps)
  let ?c = "c\<lparr>shared := s, code_of := (code_of c)(t := bind_program p k), held_by := (held_by c)(t := after_sync x (held_by c t))\<rparr>"
  have "thread_step1 t c ?c" using Synch.prems(2) s(1) by (intro move_step) simp
  moreover obtain c' where "(thread_step1 t)\<^sup>*\<^sup>* ?c c'" "shared c' = s'" "code_of c' = (code_of c)(t := k a)"
    "\<forall>u. u \<noteq> t \<longrightarrow> held_by c' u = held_by c u"
    using Synch.IH [of ?c] s(2) by (auto simp: fun_upd_same fun_upd_upd fun_upd_other simp del: fun_upd_apply)
  ultimately show ?case by (blast intro: converse_rtranclp_into_rtranclp)
next
  case (Crash e)
  then show ?case by simp
qed

lemma run_threads_steps:
  assumes "(thread_step1 t)\<^sup>*\<^sup>* c c'" and "t < n"
  shows "(threads_step1 n)\<^sup>*\<^sup>* c c'"
  using assms(1) by (induction rule: rtranclp_induct) (auto intro: rtranclp.rtrancl_into_rtrancl threads_step1.intros [OF assms(2)])

end
