(* ===== verification/Monitor.thy ===== *)
theory Monitor
  imports FS1_Threads
begin

text \<open>
  Data that all threads change under one mutex, as an interface: the holder of the mutex reasons as if it were alone
  with the data, and may break a law about them as long as it restores it before it releases the mutex.
\<close>

text \<open>\<open>view\<close> is the part of the state in question, which no lock operation touches.\<close>

locale monitor =
  fixes view :: "fs_state1 \<Rightarrow> 'd" and law :: "'d \<Rightarrow> bool" and guard :: lock
  assumes guard_mutex: "guard = Open_files_mutex \<or> guard = Open_file_lock"
    and view_synch: "perform x s = Ok s' \<Longrightarrow> view s' = view s"
begin

text \<open>
  What a program does with the data: \<open>None\<close> is a thread that does not hold the mutex, \<open>Some v\<close> one that holds it while
  the data are \<open>v\<close>.
\<close>

primrec obeys :: "'a program \<Rightarrow> 'd option \<Rightarrow> ('a \<Rightarrow> 'd option \<Rightarrow> bool) \<Rightarrow> bool" where
  "obeys (Return a) = (\<lambda>d Q. Q a d)"
| "obeys (Read g) = (\<lambda>d Q. \<forall>s. (d = None \<or> d = Some (view s)) \<longrightarrow> obeys (g s) d Q)"
| "obeys (Write w p) = (\<lambda>d Q. case d of
     None \<Rightarrow> (\<forall>s s'. w s = Ok s' \<longrightarrow> view s' = view s) \<and> obeys p None Q
   | Some v \<Rightarrow> \<forall>s s'. view s = v \<and> w s = Ok s' \<longrightarrow> obeys p (Some (view s')) Q)"
| "obeys (Synch x p) = (\<lambda>d Q. case x of
     Acquire m l \<Rightarrow> if l = guard then d = None \<and> (\<forall>v. law v \<longrightarrow> obeys p (Some v) Q) else obeys p d Q
   | Release l \<Rightarrow> if l = guard then (\<exists>v. d = Some v \<and> law v) \<and> obeys p None Q else obeys p d Q)"
| "obeys (Crash e) = (\<lambda>d Q. True)"

lemma obeys_bind: "obeys (bind_program p k) d Q = obeys p d (\<lambda>a d. obeys (k a) d Q)"
  by (induction p arbitrary: d) (auto split: option.split sync_op.split)

lemma obeys_mono: "obeys p d Q \<Longrightarrow> (\<And>a d. Q a d \<Longrightarrow> R a d) \<Longrightarrow> obeys p d R"
proof (induction p arbitrary: d)
  case (Synch x p)
  then show ?case by (cases x) (auto split: if_splits)
qed (auto split: option.splits)

text \<open>An access that leaves the data alone.\<close>

lemma obeys_assign:
  "(\<And>s. d = None \<or> d = Some (view s) \<Longrightarrow> view (f s) = view s) \<Longrightarrow> obeys p d Q \<Longrightarrow> obeys (assign f p) d Q"
  by (auto simp: assign_def split: option.split)

lemma obeys_read:
  "(\<And>s. d = None \<or> d = Some (view s) \<Longrightarrow> obeys (g s) d Q) \<Longrightarrow> obeys (Read g) d Q"
  by auto

lemma obeys_other_lock:
  "l \<noteq> guard \<Longrightarrow> obeys p d Q \<Longrightarrow> obeys (Synch (Acquire m l) p) d Q"
  "l \<noteq> guard \<Longrightarrow> obeys p d Q \<Longrightarrow> obeys (Synch (Release l) p) d Q"
  by simp_all

lemma obeys_binds: "obeys p d (\<lambda>a d. obeys (k a) d Q) \<Longrightarrow> obeys (bind_program p k) d Q"
  by (simp add: obeys_bind)

lemma obeys_if:
  "(b \<Longrightarrow> obeys p d Q) \<Longrightarrow> (\<not> b \<Longrightarrow> obeys q d Q) \<Longrightarrow> obeys (if b then p else q) d Q"
  by simp

lemma obeys_option:
  "(x = None \<Longrightarrow> obeys p d Q) \<Longrightarrow> (\<And>a. x = Some a \<Longrightarrow> obeys (q a) d Q) \<Longrightarrow>
    obeys (case x of None \<Rightarrow> p | Some a \<Rightarrow> q a) d Q"
  by (cases x) simp_all

text \<open>Scanning entries: \<open>R i\<close> is what is known when the loop arrives at entry \<open>i\<close>.\<close>

lemma obeys_scan:
  assumes "\<And>i. Rw (ptr (int i)) \<noteq> guard" and "R i" and "i \<le> n"
    and "\<And>i s. i < n \<Longrightarrow> R i \<Longrightarrow> d = None \<or> d = Some (view s) \<Longrightarrow> test i s \<Longrightarrow> obeys (found i) d Q"
    and "\<And>i s. i < n \<Longrightarrow> R i \<Longrightarrow> d = None \<or> d = Some (view s) \<Longrightarrow> \<not> test i s \<Longrightarrow> R (Suc i)"
    and "R n \<Longrightarrow> Q (-1) d"
  shows "obeys (scan_code m ptr n test found i) d Q"
  using assms(2,3)
proof (induction "n - i" arbitrary: i)
  case 0
  with assms(6) show ?case by (simp add: scan_code.simps)
next
  case (Suc k)
  have "k = n - Suc i" "i < n" using Suc.hyps(2) by simp_all
  note IH = Suc.hyps(1) [OF this(1)]
  with Suc.prems assms(1,4,5) \<open>i < n\<close> show ?case by (subst scan_code.simps) auto
qed

text \<open>All threads together.\<close>

definition data_seen :: "threads1 \<Rightarrow> nat \<Rightarrow> 'd option" where
  "data_seen c t = (if holds (held_by c t) guard then Some (view (shared c)) else None)"

definition monitored :: "nat \<Rightarrow> threads1 \<Rightarrow> bool" where
  "monitored n c \<longleftrightarrow> (\<forall>t<n. obeys (code_of c t) (data_seen c t) (\<lambda>_ d. d = None)) \<and>
     ((\<forall>t<n. \<not> holds (held_by c t) guard) \<longrightarrow> law (view (shared c)))"

lemma guard_valid: "valid_lock guard"
  using guard_mutex by auto

lemma acquire_unheld:
  assumes "accounted n c" and "perform (Acquire m guard) (shared c) = Ok s" and "t < n"
  shows "\<not> holds (held_by c t) guard"
proof
  assume "holds (held_by c t) guard"
  with assms(3) have "holders n c guard \<noteq> {}" by (auto simp: holders_def)
  with accountedD(1) [OF assms(1) guard_valid] have "lock_view (shared c) guard \<noteq> RW_Free"
    by (auto simp: lock_ok_def split: rwlock.splits)
  moreover have "lock_view (shared c) guard \<noteq> RW_Readers k" for k using guard_mutex by (auto elim: of_mutex.elims)
  ultimately show False using acquire_view [OF assms(2)] by auto
qed

lemma step_monitored:
  assumes mon: "monitored n c" and ok: "threads_ok again n c" and t: "t < n" and step: "thread_step1 t c c'"
  shows "monitored n c'"
proof -
  from step obtain s H p where s: "code_step (shared c, held_by c t, code_of c t) (s, H, p)"
    and c': "c' = c\<lparr>shared := s, code_of := (code_of c)(t := p), held_by := (held_by c)(t := H)\<rparr>"
    by (auto elim: thread_step1.cases)
  have acc: "accounted n c" and fol: "follows again (code_of c t) (held_by c t)"
    using ok t by (auto simp: threads_ok_def)
  have mine: "obeys (code_of c t) (data_seen c t) (\<lambda>_ d. d = None)" using mon t by (simp add: monitored_def)
  have quiet: "law (view (shared c))" if "\<forall>u<n. \<not> holds (held_by c u) guard" using mon that by (simp add: monitored_def)
  have seen: "data_seen c' u = (if holds (held_by c u) guard then Some (view s) else None)" if "u < n" "u \<noteq> t" for u
    using that by (simp add: data_seen_def c')
  have others: "obeys (code_of c' u) (data_seen c' u) (\<lambda>_ d. d = None)"
    if "u < n" "u \<noteq> t" "holds (held_by c t) guard \<or> view s = view (shared c)" for u
  proof -
    have "obeys (code_of c u) (data_seen c u) (\<lambda>_ d. d = None)" using mon that(1) by (simp add: monitored_def)
    moreover have "holds (held_by c u) guard \<Longrightarrow> view s = view (shared c)"
      using that mutex_holder [OF acc that(1) t that(2)] guard_mutex by blast
    ultimately show ?thesis using seen [OF that(1,2)] that(2) by (auto simp: c' data_seen_def split: if_splits)
  qed
  have goal: "monitored n c'" if "holds (held_by c t) guard \<or> view s = view (shared c)"
    and "obeys p (if holds H guard then Some (view s) else None) (\<lambda>_ d. d = None)"
    and "(\<forall>u<n. \<not> holds (held_by c' u) guard) \<Longrightarrow> law (view s)"
    unfolding monitored_def
  proof (intro conjI allI impI)
    fix u assume "u < n"
    show "obeys (code_of c' u) (data_seen c' u) (\<lambda>_ d. d = None)"
    proof (cases "u = t")
      case True
      with that(2) show ?thesis by (auto simp: c' data_seen_def split: if_splits)
    qed (use others [OF \<open>u < n\<close> _ that(1)] in simp)
  next
    assume "\<forall>u<n. \<not> holds (held_by c' u) guard"
    with that(3) show "law (view (shared c'))" by (simp add: c')
  qed
  have unheld: "\<forall>u<n. \<not> holds (held_by c u) guard" if "\<forall>u<n. \<not> holds (held_by c' u) guard" "H = held_by c t"
    using that by (auto simp: c' split: if_splits)
  from s show ?thesis
  proof (cases rule: code_step.cases)
    case (step_read g)
    with mine quiet unheld show ?thesis by (intro goal) (auto simp: data_seen_def)
  next
    case (step_write w)
    show ?thesis
    proof (cases "holds (held_by c t) guard")
      case True
      with step_write mine t show ?thesis by (intro goal) (auto simp: data_seen_def c')
    next
      case False
      with step_write mine have "view s = view (shared c)" "obeys p None (\<lambda>_ d. d = None)" by (auto simp: data_seen_def)
      with False step_write quiet unheld show ?thesis by (intro goal) auto
    qed
  next
    case (step_synch x)
    note view = view_synch [OF step_synch(3)]
    show ?thesis
    proof (cases "x = Release guard \<or> (\<exists>m. x = Acquire m guard)")
      case True
      then show ?thesis
      proof
        assume x: "x = Release guard"
        with step_synch mine fol have "holds (held_by c t) guard" by (simp add: follows_def)
        with x step_synch mine view show ?thesis by (intro goal) (auto simp: data_seen_def)
      next
        assume "\<exists>m. x = Acquire m guard"
        then obtain m where x: "x = Acquire m guard" ..
        have none: "\<forall>u<n. \<not> holds (held_by c u) guard" using acquire_unheld [OF acc] step_synch x by blast
        with x step_synch mine view quiet t show ?thesis by (intro goal) (auto simp: data_seen_def c')
      qed
    next
      case False
      then have "holds H guard = holds (held_by c t) guard" using step_synch by (cases x) auto
      moreover from this have "\<forall>u<n. \<not> holds (held_by c u) guard" if "\<forall>u<n. \<not> holds (held_by c' u) guard"
        using that by (auto simp: c' split: if_splits)
      moreover have "obeys p (data_seen c t) (\<lambda>_ d. d = None)"
        using False mine step_synch by (cases x) auto
      ultimately show ?thesis using view quiet by (intro goal) (auto simp: data_seen_def)
    qed
  qed
qed

lemma run_monitored:
  assumes "(threads_step1 n)\<^sup>*\<^sup>* c c'" and "threads_ok again n c" and "monitored n c"
  shows "monitored n c'"
  using assms
proof (induction rule: rtranclp_induct)
  case base
  then show ?case by simp
next
  case (step d d')
  then have "threads_ok again n d" using reachable_ok by blast
  with step show ?case by (auto elim!: threads_step1.cases intro: step_monitored)
qed

text \<open>The law holds whenever nobody holds the mutex.\<close>

theorem law_holds:
  assumes "locks_ready s" and "law (view s)" and "\<And>t. t < n \<Longrightarrow> all_calls releases (cs t)"
    and "\<And>t. t < n \<Longrightarrow> obeys (caller_code (cs t)) None (\<lambda>_ d. d = None)"
    and "(threads_step1 n)\<^sup>*\<^sup>* (start_threads cs s) c" and "\<forall>t<n. \<not> holds (held_by c t) guard"
  shows "law (view (shared c))"
proof -
  have ok: "threads_ok True n (start_threads cs s)" by (rule start_ok [OF assms(1,3)]) auto
  have "monitored n (start_threads cs s)"
    using assms(2,4) by (auto simp: monitored_def start_threads_def data_seen_def)
  with run_monitored [OF assms(5) ok] assms(6) show ?thesis by (simp add: monitored_def)
qed

end

end
