(* ===== verification/FS1_Names.thy ===== *)
theory FS1_Names
  imports Monitor FS1_Misuse
begin

text \<open>
  The directory of the first delivery under concurrent opens: \<open>open_file_lock\<close>, which \<open>tfs_open\<close> takes to prevent
  two files with the same name being created, is a monitor for the directory.
\<close>

section \<open>The monitor\<close>

text \<open>The directory as a thread sees it: all data blocks, the root's type and block, and whether the root is in use.\<close>

definition dir_view :: "fs_state1 \<Rightarrow> memory \<times> inode_type \<times> int \<times> allocation_state" where
  "dir_view s = (fs_data1 s, i_node_type1 (inode_table1 s 0), i_data_block1 (inode_table1 s 0) 0, freeinode_ts1 s 0)"

text \<open>
  The law: the root is a directory, no two entries have the same name, every entry refers to an i-node other than
  the root; and against the memory and root block at the start, \<open>d0\<close>: the root's block is the same, and every name
  that was bound still has the same i-node.
\<close>

fun dir_law :: "memory \<times> int \<Rightarrow> memory \<times> inode_type \<times> int \<times> allocation_state \<Rightarrow> bool" where
  "dir_law d0 (m, type, b, fr) \<longleftrightarrow> type = T_DIRECTORY \<and> fr = TAKEN \<and> b = snd d0 \<and> (case data_block_get b of
       None \<Rightarrow> False
     | Some p \<Rightarrow> distinct_names m p \<and> (\<forall>e. live m p e \<longrightarrow> 0 < d_inumber m p e) \<and>
         (\<forall>n. good_name n \<and> find_entry (fst d0) p n 0 \<noteq> -1 \<longrightarrow> find_entry m p n 0 = find_entry (fst d0) p n 0))"

lemma dir_view_simps [simp]:
  "dir_view (put_block1 b a s) = dir_view s" "dir_view (put_open1 f a s) = dir_view s" "dir_view (put_file1 f g s) = dir_view s"
  "i \<noteq> 0 \<Longrightarrow> dir_view (put_inode1 i h s) = dir_view s" "i \<noteq> 0 \<Longrightarrow> dir_view (put_freeinode1 i a s) = dir_view s"
  "dir_view (s\<lparr>open_files_count1 := k\<rparr>) = dir_view s"
  by (simp_all add: dir_view_def put_defs1)

interpretation names: monitor dir_view "dir_law d0" Open_file_lock for d0
proof
  show "dir_view s' = dir_view s" if "perform x s = Ok s'" for x s s'
    using that
    by (induction x s rule: perform.induct)
       (auto simp: read_lock_rwlock_def write_lock_rwlock_def unlock_rwlock_def on_rwlock_def outcome_simps dir_view_def
          split: if_splits)
qed simp

section \<open>Operations that leave the directory alone\<close>

named_theorems obey_intros \<open>what the operations do with the directory\<close>

lemmas [obey_intros] = names.obeys_assign names.obeys_read names.obeys_other_lock names.obeys_binds names.obeys_if
  names.obeys_option

lemma obeys_return [obey_intros]: "Q a d \<Longrightarrow> names.obeys d0 (Return a) d Q"
  by simp

lemma obeys_scan_any [obey_intros]:
  assumes "\<And>i s. i < n \<Longrightarrow> d = None \<or> d = Some (dir_view s) \<Longrightarrow> test i s \<Longrightarrow> names.obeys d0 (found i) d Q" and "Q (-1) d"
  shows "names.obeys d0 (scan_code m ptr n test found 0) d Q"
  by (rule names.obeys_scan [where R = "\<lambda>_. True"]) (use assms in auto)

lemma obeys_block_free [obey_intros]: "(\<And>r. Q r d) \<Longrightarrow> names.obeys d0 (data_block_free_code b) d Q"
  unfolding data_block_free_code_def by (intro obey_intros) simp_all

lemma obeys_add_to_open_file_table [obey_intros]:
  "(\<And>f. Q f d) \<Longrightarrow> names.obeys d0 (add_to_open_file_table_code i off) d Q"
  unfolding add_to_open_file_table_code_def by (intro obey_intros) simp_all

lemma obeys_close [obey_intros]: "(\<And>r. Q r d) \<Longrightarrow> names.obeys d0 (tfs_close_code f) d Q"
  unfolding tfs_close_code_def remove_from_open_file_table_code_def by (intro obey_intros) simp_all

lemma obeys_lookup_outside: "(\<And>r. Q r None) \<Longrightarrow> names.obeys d0 (tfs_lookup_code name) None Q"
  unfolding tfs_lookup_code_def find_in_dir_code_def Let_def by (intro obey_intros) simp_all

lemma obeys_free_direct: "(\<And>r. Q r d) \<Longrightarrow> names.obeys d0 (free_direct_code i k) d Q"
proof (induction "MAX_DIRECT_BLOCKS - k" arbitrary: k)
  case 0
  then show ?case by (simp add: free_direct_code.simps)
next
  case (Suc j)
  have "j = MAX_DIRECT_BLOCKS - Suc k" using Suc.hyps(2) by simp
  note IH = Suc.hyps(1) [OF this]
  show ?case
    by (subst free_direct_code.simps) (unfold Let_def, intro obey_intros IH Suc.prems, simp_all)
qed

lemma obeys_inode_delete [obey_intros]: "0 < i \<Longrightarrow> (\<And>r. Q r d) \<Longrightarrow> names.obeys d0 (inode_delete_code i) d Q"
  unfolding inode_delete_code_def by (intro obey_intros obeys_free_direct) simp_all

lemma obeys_truncate_direct:
  assumes "i \<noteq> 0" and "\<And>r. Q r d"
  shows "names.obeys d0 (truncate_direct_code i k n) d Q"
proof (induction "n - k" arbitrary: k)
  case 0
  with assms show ?case by (simp add: truncate_direct_code.simps)
next
  case (Suc j)
  have "j = n - Suc k" using Suc.hyps(2) by simp
  note IH = Suc.hyps(1) [OF this]
  show ?case by (subst truncate_direct_code.simps) (intro obey_intros IH assms, simp add: assms)
qed

lemma obeys_truncate_inode [obey_intros]: "i \<noteq> 0 \<Longrightarrow> (\<And>r. Q r d) \<Longrightarrow> names.obeys d0 (truncate_inode_code i) d Q"
  unfolding truncate_inode_code_def Let_def by (intro obey_intros obeys_truncate_direct) simp_all

section \<open>Inside \<open>tfs_open\<close>\<close>

text \<open>What the holder of \<open>open_file_lock\<close> finds in the directory.\<close>

lemma obeys_find_in_dir:
  assumes "dir_law d0 v" and "v = (m, type, b, fr)" and "data_block_get b = Some p"
    and "Q (find_entry m p n 0) (Some v)"
  shows "names.obeys d0 (find_in_dir_code 0 n) (Some v) Q"
proof -
  have v: "fs_data1 s = m" "i_node_type1 (inode_table1 s 0) = T_DIRECTORY" "i_data_block1 (inode_table1 s 0) 0 = b"
    if "Some v = None \<or> Some v = Some (dir_view s)" for s
    using that assms(1,2) by (simp_all add: dir_view_def)
  have root: "valid_inumber 0" by (simp add: valid_inumber_def config)
  note unfold = find_entry.simps [of m p n]
  have scan: "names.obeys d0
      (scan_code Shared Dir_lock MAX_DIR_ENTRIES
         (\<lambda>i s. d_inumber (fs_data1 s) p i \<noteq> -1 \<and> c_strncmp MAX_FILE_NAME (d_name (fs_data1 s) p i) n = 0)
         (\<lambda>i. unlock (Dir_lock (int i)) (Read (\<lambda>s. Return (d_inumber (fs_data1 s) p i)))) 0) (Some v) Q"
  proof (rule names.obeys_scan [where R = "\<lambda>i. find_entry m p n i = find_entry m p n 0"])
    fix i s
    assume i: "i < MAX_DIR_ENTRIES" "find_entry m p n i = find_entry m p n 0" and s: "Some v = None \<or> Some v = Some (dir_view s)"
    show "find_entry m p n (Suc i) = find_entry m p n 0"
      if "\<not> (d_inumber (fs_data1 s) p i \<noteq> -1 \<and> c_strncmp MAX_FILE_NAME (d_name (fs_data1 s) p i) n = 0)"
      using that i unfold [of i] unfolding v(1) [OF s] by (simp split: if_splits)
    assume "d_inumber (fs_data1 s) p i \<noteq> -1 \<and> c_strncmp MAX_FILE_NAME (d_name (fs_data1 s) p i) n = 0"
    with i unfold [of i] have "find_entry m p n 0 = d_inumber m p i" unfolding v(1) [OF s] by simp
    with assms(4) have "Q (d_inumber m p i) (Some v)" by simp
    then show "names.obeys d0 (unlock (Dir_lock (int i)) (Read (\<lambda>s. Return (d_inumber (fs_data1 s) p i)))) (Some v) Q"
      by (intro obey_intros) (simp_all add: v(1))
  next
    assume "find_entry m p n MAX_DIR_ENTRIES = find_entry m p n 0"
    with assms(4) unfold [of MAX_DIR_ENTRIES] show "Q (-1) (Some v)" by simp
  qed simp_all
  have block: "data_block_get (i_data_block1 (inode_table1 s 0) 0) = Some p" "i_node_type1 (inode_table1 s 0) = T_DIRECTORY"
    if "Some v = None \<or> Some v = Some (dir_view s)" for s
    using v(2,3) [OF that] assms(3) by simp_all
  have z: "nat 0 = 0" by simp
  show ?thesis
    unfolding find_in_dir_code_def Let_def z
    by (intro names.obeys_other_lock names.obeys_read, simp, simp only: block root simp_thms if_False option.case)
       (intro names.obeys_other_lock scan, simp)
qed

text \<open>A new i-node is not the root's, which is in use.\<close>

lemma obeys_inode_create:
  assumes "dir_law d0 v" and "Q (-1) (Some v)" and "\<And>i. 0 < i \<Longrightarrow> i < int INODE_TABLE_SIZE \<Longrightarrow> Q i (Some v)"
  shows "names.obeys d0 (inode_create_code T_FILE) (Some v) Q"
  unfolding inode_create_code_def
proof (rule names.obeys_scan [where R = "\<lambda>_. True"])
  fix i s
  assume i: "i < INODE_TABLE_SIZE" "Some v = None \<or> Some v = Some (dir_view s)" "freeinode_ts1 s i = FREE"
  then have "i \<noteq> 0" using assms(1) by (cases v) (auto simp: dir_view_def intro!: gr0I)
  with assms(3) [of "int i"] i(1) show "names.obeys d0 (take_inode_code T_FILE i) (Some v) Q"
    unfolding take_inode_code_def by (intro obey_intros) simp_all
qed (use assms(2) in simp_all)

lemma dir_law_insert:
  assumes "dir_law d0 (m, type, b, fr)" and "data_block_get b = Some p" and "free_entry m p 0 = Some e"
    and "0 < i" "i < int INODE_TABLE_SIZE" and "good_name n" "find_entry m p n 0 = -1"
  shows "dir_law d0 (put_entry p e i n m, type, b, fr)"
proof -
  have i: "int_ok i" "i \<noteq> -1" using assms(4,5) by (auto simp: int_ok_def config)
  have e: "e < MAX_DIR_ENTRIES" using free_entry_Some [OF assms(3)] by simp
  have distinct: "distinct_names m p" using assms(1,2) by simp
  have "0 < d_inumber (put_entry p e i n m) p e'" if "live (put_entry p e i n m) p e'" for e'
  proof (cases "e' = e")
    case True
    with i assms(4) show ?thesis by (simp add: d_inumber_put_entry)
  next
    case False
    with that live_put_entry [OF e i] assms(1,2) show ?thesis by (simp add: other_entry_put_entry)
  qed
  moreover have "find_entry (put_entry p e i n m) p n' 0 = find_entry (fst d0) p n' 0"
    if "good_name n'" "find_entry (fst d0) p n' 0 \<noteq> -1" for n'
  proof -
    have "find_entry m p n' 0 = find_entry (fst d0) p n' 0" using that assms(1,2) by simp
    with that assms(7) find_put_entry(1) [OF distinct assms(6,7,3) i that(1)] show ?thesis by auto
  qed
  ultimately show ?thesis
    using assms(1,2) find_put_entry(2) [OF distinct assms(6,7,3) i assms(6)] by simp
qed

lemma obeys_add_dir_entry:
  assumes law: "dir_law d0 v" and v: "v = (m, type, b, fr)" "data_block_get b = Some p"
    and i: "0 < i" "i < int INODE_TABLE_SIZE" and n: "good_name n" "find_entry m p n 0 = -1"
    and fail: "Q (-1) (Some v)" and added: "\<And>v. dir_law d0 v \<Longrightarrow> Q 0 (Some v)"
  shows "names.obeys d0 (add_dir_entry_code 0 i n) (Some v) Q"
proof -
  have s: "fs_data1 s = m" "i_node_type1 (inode_table1 s 0) = T_DIRECTORY" "i_data_block1 (inode_table1 s 0) 0 = b"
    if "Some v = None \<or> Some v = Some (dir_view s)" for s
    using that law v(1) by (simp_all add: dir_view_def)
  have valid: "valid_inumber 0" "valid_inumber i" "length n \<noteq> 0"
    using i n(1) by (auto simp: valid_inumber_def config good_name_def)
  have scan: "names.obeys d0 (scan_code Exclusive Dir_lock MAX_DIR_ENTRIES (\<lambda>e s. d_inumber (fs_data1 s) p e = -1)
      (\<lambda>e. assign (\<lambda>s. s\<lparr>fs_data1 := set_d_inumber p e i (fs_data1 s)\<rparr>)
        (assign (\<lambda>s. s\<lparr>fs_data1 := set_d_name p e (c_strncpy (MAX_FILE_NAME - 1) n) (fs_data1 s)\<rparr>)
        (assign (\<lambda>s. s\<lparr>fs_data1 := (fs_data1 s)(p + sizeof_dir_entry * e + (MAX_FILE_NAME - 1) := 0)\<rparr>)
        (unlock (Dir_lock (int e)) (Return 0))))) 0) (Some v) Q"
  proof (rule names.obeys_scan [where R = "\<lambda>e. free_entry m p e = free_entry m p 0"])
    fix e t
    assume e: "e < MAX_DIR_ENTRIES" "free_entry m p e = free_entry m p 0" and t: "Some v = None \<or> Some v = Some (dir_view t)"
    show "free_entry m p (Suc e) = free_entry m p 0" if "d_inumber (fs_data1 t) p e \<noteq> -1"
      using that e free_entry.simps [of m p e] unfolding s(1) [OF t] by simp
    assume "d_inumber (fs_data1 t) p e = -1"
    with e free_entry.simps [of m p e] have free: "free_entry m p 0 = Some e" unfolding s(1) [OF t] by simp
    have "dir_law d0 (put_entry p e i n m, type, b, fr)"
      by (rule dir_law_insert) (use law v free i n in auto)
    then have "Q 0 (Some (put_entry p e i n m, type, b, fr))" by (rule added)
    then show "names.obeys d0 (assign (\<lambda>s. s\<lparr>fs_data1 := set_d_inumber p e i (fs_data1 s)\<rparr>)
        (assign (\<lambda>s. s\<lparr>fs_data1 := set_d_name p e (c_strncpy (MAX_FILE_NAME - 1) n) (fs_data1 s)\<rparr>)
        (assign (\<lambda>s. s\<lparr>fs_data1 := (fs_data1 s)(p + sizeof_dir_entry * e + (MAX_FILE_NAME - 1) := 0)\<rparr>)
        (unlock (Dir_lock (int e)) (Return 0))))) (Some v) Q"
      by (auto simp: assign_def dir_view_def v(1) put_entry_def Let_def)
  qed (use fail in simp_all)
  have block: "data_block_get (i_data_block1 (inode_table1 s 0) 0) = Some p" "i_node_type1 (inode_table1 s 0) = T_DIRECTORY"
    if "Some v = None \<or> Some v = Some (dir_view s)" for s
    using s(2,3) [OF that] v(2) by simp_all
  have z: "nat 0 = 0" by simp
  show ?thesis
    unfolding add_dir_entry_code_def Let_def z
    by (simp only: valid simp_thms if_False, intro names.obeys_other_lock names.obeys_read, simp,
        simp only: block simp_thms if_False option.case, intro names.obeys_other_lock names.obeys_read, simp, simp, simp,
        simp only: block option.case, intro names.obeys_other_lock scan)
qed

declare dir_law.simps [simp del]

lemma obeys_unlock_open [obey_intros]:
  "dir_law d0 v \<Longrightarrow> names.obeys d0 p None Q \<Longrightarrow> names.obeys d0 (unlock_open_code l p) (Some v) Q"
  by (simp add: unlock_open_code_def del: split_paired_Ex)

lemma dir_law_block: "dir_law d0 (m, type, b, fr) \<Longrightarrow> \<exists>p. data_block_get b = Some p"
  by (auto simp: dir_law.simps split: option.splits)

text \<open>The two branches of \<open>tfs_open\<close> under \<open>open_file_lock\<close>.\<close>

definition existing_branch :: "int \<Rightarrow> int \<Rightarrow> int program" where
  "existing_branch inum flags =
     wrlock (Inode_lock inum)
     (case inode_get inum of
        None \<Rightarrow> unlock_open_code (Inode_lock inum) (Return (-1))
      | Some i \<Rightarrow>
          bind_program (if flags AND TFS_O_TRUNC \<noteq> 0 then truncate_inode_code i else Return 0) (\<lambda>r.
          if r = -1 then unlock_open_code (Inode_lock inum) (Return (-1))
          else Read (\<lambda>s.
            unlock_open_code (Inode_lock inum) (add_to_open_file_table_code inum
              (if flags AND TFS_O_APPEND \<noteq> 0 then i_size1 (inode_table1 s i) else 0)))))"

definition creating_branch :: "cstring \<Rightarrow> int program" where
  "creating_branch n =
     bind_program (inode_create_code T_FILE) (\<lambda>inum.
     if inum = -1 then Synch (Release Open_file_lock) (Return (-1))
     else wrlock (Inode_lock inum)
       (bind_program (add_dir_entry_code 0 inum n) (\<lambda>r.
        if r = -1 then bind_program (inode_delete_code inum) (\<lambda>_. unlock_open_code (Inode_lock inum) (Return (-1)))
        else unlock_open_code (Inode_lock inum) (add_to_open_file_table_code inum 0))))"

lemma tfs_open_branches:
  assumes "good_name n"
  shows "tfs_open_code (path n) flags =
    Synch (Acquire Exclusive Open_file_lock) (bind_program (find_in_dir_code 0 n) (\<lambda>inum.
      if inum \<ge> 0 then existing_branch inum flags
      else if flags AND TFS_O_CREAT \<noteq> 0 then creating_branch n
      else Synch (Release Open_file_lock) (Return (-1))))"
proof -
  have "tl (the (path n)) = n" by (simp add: path_def)
  then show ?thesis
    unfolding tfs_open_code_def tfs_lookup_code_def existing_branch_def creating_branch_def Let_def
      get_inode_table_lock_def ROOT_DIR_INUM_def
    by (simp only: good_path [OF assms] simp_thms if_False)
qed

lemma obeys_existing:
  assumes "dir_law d0 v" and "0 < inum" and "\<And>r. Q r None"
  shows "names.obeys d0 (existing_branch inum flags) (Some v) Q"
proof -
  have "i \<noteq> 0" if "inode_get inum = Some i" for i using that assms(2) by (auto simp: inode_get_def split: if_splits)
  with assms show ?thesis unfolding existing_branch_def by (intro obey_intros) simp_all
qed

lemma obeys_creating:
  assumes law: "dir_law d0 v" and v: "v = (m, type, b, fr)" "data_block_get b = Some p"
    and n: "good_name n" "find_entry m p n 0 = -1" and Q: "\<And>r. Q r None"
  shows "names.obeys d0 (creating_branch n) (Some v) Q"
  unfolding creating_branch_def
proof (intro names.obeys_binds obeys_inode_create [OF law], goal_cases)
  case 1
  with law Q show ?case by (simp del: split_paired_Ex)
next
  case (2 i)
  then have i: "i \<noteq> -1" by simp
  show ?case
    unfolding if_not_P [OF i]
    by (intro names.obeys_other_lock names.obeys_binds obeys_add_dir_entry [OF law v 2 n])
       (auto simp: Q law 2 intro!: obey_intros)
qed

text \<open>The whole of \<open>tfs_open\<close>, for a name that fits its field.\<close>

lemma obeys_tfs_open:
  assumes n: "good_name n" and Q: "\<And>r. Q r None"
  shows "names.obeys d0 (tfs_open_code (path n) flags) None Q"
proof -
  let ?rest = "\<lambda>inum. if inum \<ge> 0 then existing_branch inum flags
      else if flags AND TFS_O_CREAT \<noteq> 0 then creating_branch n else Synch (Release Open_file_lock) (Return (-1))"
  have "names.obeys d0 (bind_program (find_in_dir_code 0 n) ?rest) (Some v) Q" if law: "dir_law d0 v" for v
  proof -
    obtain m type b fr where v: "v = (m, type, b, fr)" by (cases v)
    with law dir_law_block obtain p where p: "data_block_get b = Some p" by blast
    have "find_entry m p n 0 = -1 \<or> 0 < find_entry m p n 0"
      using find_entry_found [OF refl, of m p n 0] law v p by (auto simp: dir_law.simps) metis
    then have "names.obeys d0 (?rest (find_entry m p n 0)) (Some v) Q"
    proof
      assume none: "find_entry m p n 0 = -1"
      show ?thesis
        using obeys_creating [OF law v p n none, of Q] law Q by (simp add: none del: split_paired_Ex)
    next
      assume "0 < find_entry m p n 0"
      with obeys_existing [OF law this, of Q] Q show ?thesis by simp
    qed
    then show ?thesis by (intro names.obeys_binds obeys_find_in_dir [OF law v p])
  qed
  then show ?thesis by (simp add: tfs_open_branches [OF n])
qed

section \<open>Threads that look up, open and close\<close>

text \<open>Calls that do not write to files, with names that fit.\<close>

fun names_only :: "fs_call \<Rightarrow> bool" where
  "names_only (Call_open1 name flags) \<longleftrightarrow> (\<exists>n. name = path n \<and> good_name n)"
| "names_only (Call_lookup name) \<longleftrightarrow> True"
| "names_only (Call_close1 f) \<longleftrightarrow> True"
| "names_only _ \<longleftrightarrow> False"

lemma obeys_call: "names_only x \<Longrightarrow> (\<And>r. Q r None) \<Longrightarrow> names.obeys d0 (call_code x) None Q"
  by (cases x) (auto simp: result_only_def intro!: names.obeys_binds obeys_tfs_open obeys_lookup_outside obeys_close)

lemma obeys_caller: "all_calls names_only k \<Longrightarrow> (\<And>r. Q r None) \<Longrightarrow> names.obeys d0 (caller_code k) None Q"
proof (induction k arbitrary: Q)
  case Stop
  then show ?case by simp
next
  case (Calls x k)
  then show ?case by (auto intro!: names.obeys_binds obeys_call)
qed

lemma ready1_dir_law:
  assumes "ready1 s"
  shows "dir_law (fs_data1 s, i_data_block1 (inode_table1 s 0) 0) (dir_view s)" and "data_block_get (i_data_block1 (inode_table1 s 0) 0) = Some (dir_addr1 s)"
proof -
  have root: "root_ok1 s" and files: "files_ok1 s" and blocks: "blocks_ok1 s" and dir: "dir_ok1 s" and names: "names_ok1 s"
    using assms by (auto simp: ready1_def ok1_def wf1_def)
  have "slot1 s (0, 0)" using root by (simp add: root_ok1_def)
  then have "valid_block_number (i_data_block1 (inode_table1 s 0) 0)"
    using blocks by (auto simp: blocks_ok1_def)
  then show block: "data_block_get (i_data_block1 (inode_table1 s 0) 0) = Some (dir_addr1 s)"
    by (simp add: data_block_get_def dir_addr1_def blk1_def)
  have "0 < d_inumber (fs_data1 s) (dir_addr1 s) e" if "live (fs_data1 s) (dir_addr1 s) e" for e
  proof -
    have "d_inumber (fs_data1 s) (dir_addr1 s) e \<in> int ` {i. is_file1 s i}"
      using dir that by (auto simp: dir_ok1_def bij_betw_def)
    then show ?thesis by (auto simp: is_file1_def)
  qed
  with root names block show "dir_law (fs_data1 s, i_data_block1 (inode_table1 s 0) 0) (dir_view s)"
    by (simp add: dir_law.simps dir_view_def root_ok1_def names_ok1_def)
qed

lemma ready1_locks_ready: "ready1 s \<Longrightarrow> locks_ready s"
  by (auto simp: ready1_def quiet_def locks_ready_def)

text \<open>
  C6: \<open>open_file_lock\<close> prevents two files with the same name: however the lookups, opens (creating and truncating ones
  included) and closes of any number of threads interleave, in every state in which no thread is inside \<open>tfs_open\<close>'s
  critical section no two entries of the directory have the same name, and every name bound at the start is still
  bound to its i-node. The names opened have at most 39 bytes.
\<close>
theorem names_stay_distinct:
  assumes "ready1 s" and "\<forall>t<n. all_calls names_only (cs t)"
    and "(threads_step1 n)\<^sup>*\<^sup>* (start_threads cs s) c" and "\<forall>t<n. \<not> holds (held_by c t) Open_file_lock"
  shows "distinct_names (fs_data1 (shared c)) (dir_addr1 s) \<and>
    (\<forall>x. good_name x \<and> find_entry (fs_data1 s) (dir_addr1 s) x 0 \<noteq> -1 \<longrightarrow>
       find_entry (fs_data1 (shared c)) (dir_addr1 s) x 0 = find_entry (fs_data1 s) (dir_addr1 s) x 0)"
proof -
  note start = ready1_dir_law [OF assms(1)]
  have releases: "all_calls releases k" if "all_calls names_only k" for k
    using that by (rule all_calls_mono) (auto elim: names_only.elims)
  have "dir_law (fs_data1 s, i_data_block1 (inode_table1 s 0) 0) (dir_view (shared c))"
    by (rule names.law_holds [OF ready1_locks_ready [OF assms(1)] start(1) _ _ assms(3,4)])
       (use assms(2) releases obeys_caller in auto)
  then show ?thesis using start(2) by (auto simp: dir_law.simps dir_view_def)
qed

text \<open>
  Two threads create the same file, one after the other, while a third is in the middle of looking its name up: it has
  found the directory's block and not read an entry yet. The second open finds the file of the first.
\<close>

definition demo1_names :: "nat \<Rightarrow> caller" where
  "demo1_names t = Calls (if t = 2 then Call_lookup (path f2) else Call_open1 (path f2) 1) (\<lambda>_. Stop)"

lemma demo1_lookup_starts:
  "\<exists>c. schedule [2, 2, 2] (start_threads demo1_names demo1_written) = Some c \<and> shared c = demo1_written \<and>
    held_by c = (\<lambda>_. []) \<and> code_of c 0 = caller_code (demo1_names 0) \<and> code_of c 1 = caller_code (demo1_names 1)"
proof -
  have "in_table (Inode_lock 0)" "valid_inumber 0" by (simp_all add: valid_inumber_def config)
  moreover from this ready1_locks_ready [OF demo1_written(1)] have "rwlocks demo1_written (Inode_lock 0) = RW_Free"
    by (simp add: locks_ready_def)
  moreover have "i_node_type1 (inode_table1 demo1_written 0) = T_DIRECTORY"
    using ready1_dir_law(1) [OF demo1_written(1)] by (auto simp: dir_law.simps dir_view_def)
  moreover have "valid_pathname (path f2)" by (simp add: good_path)
  ultimately show ?thesis
    by (simp add: start_threads_def demo1_names_def result_only_def tfs_lookup_code_def find_in_dir_code_def ROOT_DIR_INUM_def
        read_lock_rwlock_def unlock_rwlock_def on_rwlock_def Let_def fun_eq_iff drop_lock_def fun_upd_idem)
qed

lemma demo1_opens:
  "\<exists>s1 s2. run (call_code (Call_open1 (path f2) 1)) demo1_written = Ok ((1, []), s1) \<and>
    run (call_code (Call_open1 (path f2) 1)) s1 = Ok ((2, []), s2)"
proof -
  let ?a = "\<lparr>a_dir = [f1 \<mapsto> 1, f2 \<mapsto> 2], a_files = [1 \<mapsto> bytes, 2 \<mapsto> []], a_open = [0 \<mapsto> (1, 2500), 1 \<mapsto> (2, 0)]\<rparr> :: afs"
  have a1: "a_step1 (Op_open f2 1) (abs1 demo1_written) = ((1, []), ?a)" by (simp add: demo1_written(2) eval_abs1)
  have a2: "fst (a_step1 (Op_open f2 1) ?a) = (2, [])" by (simp add: eval_abs1)
  have "allowed1 (Op_open f2 1) (abs1 demo1_written)" "allowed1 (Op_open f2 1) ?a"
    by (simp_all add: demo1_written(2) trunc_safe_def trunc_fits_def config)
  with tfs1.step_law [OF demo1_written(1), of "Op_open f2 1"] tfs1.step_law [of _ "Op_open f2 1"] a1 a2
  obtain s1 s2 where "fs_step1 (Op_open f2 1) demo1_written = Ok ((1, []), s1)" "fs_step1 (Op_open f2 1) s1 = Ok ((2, []), s2)"
    by (metis fst_conv snd_conv)
  then show ?thesis unfolding code_runs_alone by (intro exI [of _ s1] exI [of _ s2]) simp
qed

theorem names_stay_distinct_witness:
  "\<exists>c1 c. schedule [2, 2, 2] (start_threads demo1_names demo1_written) = Some c1 \<and> (threads_step1 3)\<^sup>*\<^sup>* c1 c \<and>
    code_of c 0 = Return [(1, [])] \<and> code_of c 1 = Return [(2, [])] \<and>
    distinct_names (fs_data1 (shared c)) (dir_addr1 demo1_written) \<and>
    find_entry (fs_data1 (shared c)) (dir_addr1 demo1_written) f1 0 = 1"
proof -
  obtain c1 where c1: "schedule [2, 2, 2] (start_threads demo1_names demo1_written) = Some c1" "shared c1 = demo1_written"
    "held_by c1 = (\<lambda>_. [])" "code_of c1 0 = caller_code (demo1_names 0)" "code_of c1 1 = caller_code (demo1_names 1)"
    using demo1_lookup_starts by blast
  obtain s1 s2 where s: "run (call_code (Call_open1 (path f2) 1)) (shared c1) = Ok ((1, []), s1)"
    "run (call_code (Call_open1 (path f2) 1)) s1 = Ok ((2, []), s2)" using demo1_opens c1(2) by auto
  let ?k = "\<lambda>r. Return [r] :: fs_res list program"
  have code: "caller_code (demo1_names t) = bind_program (call_code (Call_open1 (path f2) 1)) ?k" if "t < 2" for t
    using that by (simp add: demo1_names_def)
  obtain c2 where c2: "(thread_step1 0)\<^sup>*\<^sup>* c1 c2" "shared c2 = s1" "code_of c2 = (code_of c1)(0 := ?k (1, []))"
    "\<forall>u. u \<noteq> 0 \<longrightarrow> held_by c2 u = held_by c1 u"
    using run_steps [OF s(1), of 0 ?k] c1(4) code [of 0] by auto
  obtain c where c: "(thread_step1 1)\<^sup>*\<^sup>* c2 c" "code_of c = (code_of c2)(1 := ?k (2, []))"
    "\<forall>u. u \<noteq> 1 \<longrightarrow> held_by c u = held_by c2 u"
    using run_steps [OF s(2) [folded c2(2)], of 1 ?k] c2(3) c1(5) code [of 1] by auto
  have run: "(threads_step1 3)\<^sup>*\<^sup>* c1 c"
    using run_threads_steps [OF c2(1), of 3] run_threads_steps [OF c(1), of 3] by simp
  have start: "(threads_step1 3)\<^sup>*\<^sup>* (start_threads demo1_names demo1_written) c"
    using schedule_steps [OF c1(1), of 3] run by simp
  have calls: "\<forall>t<3. all_calls names_only (demo1_names t)" by (auto simp: demo1_names_def intro: exI [of _ f2])
  have codes: "code_of c 0 = Return [(1, [])]" "code_of c 1 = Return [(2, [])]" using c(2) c2(3) by simp_all
  have "threads_ok True 3 (start_threads demo1_names demo1_written)"
    by (rule start_ok [OF ready1_locks_ready [OF demo1_written(1)]]) (simp_all add: demo1_names_def)
  then have "threads_ok True 3 c" by (rule reachable_ok [OF start])
  then have "follows True (code_of c t) (held_by c t)" if "t < 3" for t using that by (simp add: threads_ok_def)
  from this [of 0] this [of 1] have "held_by c 0 = []" "held_by c 1 = []" using codes by (simp_all add: follows_def)
  moreover have "held_by c 2 = []" using c(3) c2(4) c1(3) by simp
  ultimately have free: "\<forall>t<3. \<not> holds (held_by c t) Open_file_lock"
    by (auto simp: holds_def less_Suc_eq numeral_3_eq_3 numeral_2_eq_2)
  have "find_entry (fs_data1 demo1_written) (dir_addr1 demo1_written) f1 0 = 1"
    using find_entry_abs1(2) [of demo1_written f1 1] demo1_written demo1_view(1) ready1D(1) [OF demo1_written(1)]
    by (simp add: ready1_def)
  with names_stay_distinct [OF demo1_written(1) calls start free] c1(1) run codes show ?thesis
    by (intro exI [of _ c1] exI [of _ c]) auto
qed

end
