(* ===== verification/FS1_Concurrent.thy ===== *)
theory FS1_Concurrent
  imports FS1_Names
begin

text \<open>
  Properties of the first delivery's threads: no deadlock, every run ends, what a lock protects, and the race of
  two closes of one handle.
\<close>

section \<open>Calls return\<close>

lemma threads_okD:
  assumes "threads_ok again n c" and "t < n"
  shows "follows again (code_of c t) (held_by c t)" and "accounted n c"
  using assms by (auto simp: threads_ok_def)

lemma waits_cannot_step: "waits_for c t m l \<Longrightarrow> \<not> thread_step1 t c c'"
  by (auto simp: waits_for_def code_step_simps elim!: thread_step1.cases)

text \<open>
  Waiting threads form no circle: a thread that waits is waited for only by threads that hold locks of lower rank, so
  from a thread that cannot go on one follows the ranks upwards to one that can.
\<close>

lemma somebody_can_go_on:
  assumes ok: "threads_ok again n c" and t: "t < n" "\<not> returned c t"
  shows "(\<exists>u<n. \<exists>c'. thread_step1 u c c') \<or> (\<exists>u<n. out_of_bounds c u) \<or>
    (again \<and> (\<exists>u<n. \<exists>m l. waits_for c u m l \<and> stuck_on (held_by c u) m l))"
proof (rule ccontr)
  assume none: "\<not> ?thesis"
  have waits: "\<exists>m l. waits_for c u m l \<and> (\<exists>v<n. holds (held_by c v) l) \<and> below (held_by c u) (rank l)"
    if "u < n" "\<not> returned c u" for u
    using thread_cases [OF ok that(1)] that none by blast
  have "\<exists>u<n. \<exists>m l. waits_for c u m l \<and> (\<exists>v<n. holds (held_by c v) l) \<and> k \<le> rank l" for k
  proof (induction k)
    case 0
    show ?case using waits [OF t] t(1) by blast
  next
    case (Suc k)
    then obtain u m l v where v: "v < n" "holds (held_by c v) l" "k \<le> rank l" by blast
    then have "\<not> returned c v" by (auto simp: returned_def)
    from waits [OF v(1) this] obtain m' l' where w: "waits_for c v m' l'" "\<exists>x<n. holds (held_by c x) l'"
      "below (held_by c v) (rank l')" by blast
    with v have "Suc k \<le> rank l'" by (auto simp: below_def holds_def)
    with w v(1) show ?case by blast
  qed
  from this [of 6] obtain l where "6 \<le> rank l" by blast
  then show False by (cases l rule: rank.cases) (auto split: if_splits)
qed

lemma waits_below:
  assumes "threads_ok again n c" and "t < n" and "waits_for c t m l" and "\<not> stuck_on (held_by c t) m l"
  shows "below (held_by c t) (rank l)"
  using threads_okD(1) [OF assms(1,2)] assms(3,4) by (auto simp: waits_for_def follows_def)

text \<open>A thread waits for a lock another one holds.\<close>

definition waits_on :: "nat \<Rightarrow> threads1 \<Rightarrow> nat \<Rightarrow> nat \<Rightarrow> bool" where
  "waits_on n c t u \<longleftrightarrow> t < n \<and> u < n \<and>
     (\<exists>m l. waits_for c t m l \<and> \<not> stuck_on (held_by c t) m l \<and> holds (held_by c u) l)"

lemma no_circle:
  assumes ok: "threads_ok again n c"
  shows "acyclicP (waits_on n c)"
proof -
  define wanted where "wanted t = (case code_of c t of Synch (Acquire m l) p \<Rightarrow> rank l | _ \<Rightarrow> 0)" for t
  have edge: "wanted t < wanted u" if "waits_on n c t u" "waits_on n c u v" for t u v
  proof -
    from that(1) obtain m l where l: "wanted t = rank l" "holds (held_by c u) l"
      by (auto simp: waits_on_def wanted_def waits_for_def)
    from that(2) obtain m' l' where l': "wanted u = rank l'" "u < n" "waits_for c u m' l'" "\<not> stuck_on (held_by c u) m' l'"
      by (auto simp: waits_on_def wanted_def waits_for_def)
    with waits_below [OF ok l'(2-4)] l show ?thesis by (auto simp: below_def holds_def)
  qed
  have path: "wanted t < wanted u" if "(waits_on n c)\<^sup>+\<^sup>+ t u" "waits_on n c u v" for t u v
    using that
  proof (induction arbitrary: v rule: tranclp_induct)
    case (base u)
    then show ?case using edge by blast
  next
    case (step u w)
    from step.IH [OF step.hyps(2)] edge [OF step.hyps(2) step.prems] show ?case by simp
  qed
  have "\<not> (waits_on n c)\<^sup>+\<^sup>+ t t" for t
  proof
    assume t: "(waits_on n c)\<^sup>+\<^sup>+ t t"
    then obtain v where "waits_on n c t v" by (blast dest: tranclpD)
    with path [OF t] show False by blast
  qed
  then show ?thesis by (simp add: acyclic_def trancl_def)
qed

text \<open>
  C5: In the first delivery, whatever calls the threads of a program make, none of them a \<open>tfs_write\<close> of length 0 (which
  never releases its locks), and however their accesses and lock operations interleave: no run goes on for ever; as
  long as some call has not returned somebody has a step, unless an access is out of bounds or, in a program that
  creates files, a thread asks for a lock it holds itself; and at no moment do threads wait for each other in a circle.
\<close>
theorem no_deadlock:
  assumes "locks_ready s" and "\<forall>t<n. all_calls releases (cs t)" and "(threads_step1 n)\<^sup>*\<^sup>* (start_threads cs s) c"
  shows "(\<exists>i. \<not> threads_step1 n (f i) (f (Suc i))) \<and>
    ((\<forall>t<n. returned c t) \<or> (\<exists>t<n. \<exists>c'. thread_step1 t c c') \<or> (\<exists>t<n. out_of_bounds c t) \<or>
     (\<not> (\<forall>t<n. all_calls (\<lambda>x. \<not> creates x) (cs t)) \<and> (\<exists>t<n. \<exists>m l. waits_for c t m l \<and> stuck_on (held_by c t) m l))) \<and>
    acyclicP (waits_on n c)"
proof -
  define again where "again \<longleftrightarrow> \<not> (\<forall>t<n. all_calls (\<lambda>x. \<not> creates x) (cs t))"
  have "all_calls (\<lambda>x. creates x \<longrightarrow> again) (cs t)" if "t < n" for t
    using that by (cases again) (auto simp: again_def elim: all_calls_mono)
  with assms(1,2) have "threads_ok again n (start_threads cs s)" by (auto intro: start_ok)
  then have ok: "threads_ok again n c" by (rule reachable_ok [OF assms(3)])
  with no_infinite_run [of n f] somebody_can_go_on [of again n c] have "(\<exists>i. \<not> threads_step1 n (f i) (f (Suc i))) \<and>
    ((\<forall>t<n. returned c t) \<or> (\<exists>t<n. \<exists>c'. thread_step1 t c c') \<or> (\<exists>t<n. out_of_bounds c t) \<or>
     (again \<and> (\<exists>t<n. \<exists>m l. waits_for c t m l \<and> stuck_on (held_by c t) m l)))" by blast
  with no_circle [OF ok] show ?thesis unfolding again_def by blast
qed

text \<open>
  One thread writes through a handle, one reads through it and one looks a name up: the writer has taken the handle's
  lock, and the third takes a step.
\<close>

definition demo1_callers :: "nat \<Rightarrow> caller" where
  "demo1_callers t = Calls
     (if t = 0 then Call_write1 0 [1] 1 else if t = 1 then Call_read1 0 4 else Call_lookup (path f1)) (\<lambda>_. Stop)"

lemma demo1_first_steps:
  "\<exists>c c'. schedule [0] (start_threads demo1_callers demo1_written) = Some c \<and>
     (Rw (File_lock (int 0)), Exclusive) \<in> set (held_by c 0) \<and> move 2 c = Some c'"
proof -
  have in_table: "in_table (File_lock 0)" "in_table (Inode_lock 0)"
    by (simp_all add: valid_file_handle_def valid_inumber_def config)
  with ready1_locks_ready [OF demo1_written(1)]
  have free: "rwlocks demo1_written (File_lock 0) = RW_Free" "rwlocks demo1_written (Inode_lock 0) = RW_Free"
    by (simp_all add: locks_ready_def)
  have "valid_pathname (path f1)" by (simp add: good_path)
  with in_table free show ?thesis
    by (simp add: start_threads_def demo1_callers_def result_only_def tfs_write_code_def get_open_file_entry_def
        get_open_file_table_lock_def write_lock_rwlock_def read_lock_rwlock_def on_rwlock_def Let_def tfs_lookup_code_def
        find_in_dir_code_def ROOT_DIR_INUM_def)
qed

lemma demo1_calls: "all_calls releases (demo1_callers t)" "all_calls (\<lambda>x. \<not> creates x) (demo1_callers t)"
  by (simp_all add: demo1_callers_def creates_def)

theorem no_deadlock_witness:
  "\<exists>c. schedule [0] (start_threads demo1_callers demo1_written) = Some c \<and>
     ((\<forall>t<3. returned c t) \<or> (\<exists>t<3. \<exists>c'. thread_step1 t c c') \<or> (\<exists>t<3. out_of_bounds c t))"
proof -
  obtain c where c: "schedule [0] (start_threads demo1_callers demo1_written) = Some c" using demo1_first_steps by blast
  have run: "(threads_step1 3)\<^sup>*\<^sup>* (start_threads demo1_callers demo1_written) c" by (rule schedule_steps [OF c]) simp
  show ?thesis
    using no_deadlock [OF ready1_locks_ready [OF demo1_written(1)] _ run, of "\<lambda>_. c"] demo1_calls c by blast
qed

section \<open>What a lock protects\<close>

text \<open>
  C14: In a run without writes of length 0, while a thread holds the lock of a handle, an i-node or a block for writing
  (exclusively, not as a reader), or \<open>open_files_mutex\<close>, no other thread holds that lock in any mode, and no step of
  another thread changes the handle's entry or flag, the block's flag, or the number of open handles; nor the i-node,
  unless that thread holds \<open>open_file_lock\<close>: \<open>tfs_open\<close> creates and deletes i-nodes under it.
\<close>
theorem locked_data_stable:
  assumes "locks_ready s" and "\<forall>t<n. all_calls releases (cs t)" and "(threads_step1 n)\<^sup>*\<^sup>* (start_threads cs s) c"
    and "t < n" and "u < n" and "t \<noteq> u" and "thread_step1 u c c'"
  shows "((Rw (File_lock (int f)), Exclusive) \<in> set (held_by c t) \<longrightarrow>
      open_file_table1 (shared c') f = open_file_table1 (shared c) f \<and>
      free_open_file_entries1 (shared c') f = free_open_file_entries1 (shared c) f) \<and>
    ((Rw (Inode_lock (int i)), Exclusive) \<in> set (held_by c t) \<and> \<not> holds (held_by c u) Open_file_lock \<longrightarrow>
      inode_table1 (shared c') i = inode_table1 (shared c) i \<and> freeinode_ts1 (shared c') i = freeinode_ts1 (shared c) i) \<and>
    ((Rw (Block_lock (int b)), Exclusive) \<in> set (held_by c t) \<longrightarrow>
      free_blocks1 (shared c') b = free_blocks1 (shared c) b) \<and>
    (holds (held_by c t) Open_files_mutex \<longrightarrow> open_files_count1 (shared c') = open_files_count1 (shared c)) \<and>
    ((l, Exclusive) \<in> set (held_by c t) \<longrightarrow> \<not> holds (held_by c u) l)"
proof -
  have "threads_ok True n (start_threads cs s)"
    by (rule start_ok [OF assms(1)]) (use assms(2) in auto)
  then have ok: "threads_ok True n c" by (rule reachable_ok [OF assms(3)])
  have guard: "guarded (held_by c u) (shared c) (shared c')"
    by (rule step_guarded [OF ok assms(5,7)])
  have exclusive: "\<not> holds (held_by c u) l" if "(l, Exclusive) \<in> set (held_by c t)" for l
    by (rule exclusive_holder [OF threads_okD(2) [OF ok assms(4)] assms(4,5,6) that])
  have mutex: "\<not> holds (held_by c u) Open_files_mutex" if "holds (held_by c t) Open_files_mutex"
    by (rule mutex_holder [OF threads_okD(2) [OF ok assms(4)] assms(4,5,6) that]) simp
  show ?thesis using guard exclusive mutex unfolding guarded_def by (auto simp: holds_def)
qed

theorem locked_data_stable_witness:
  "\<exists>c c'. schedule [0] (start_threads demo1_callers demo1_written) = Some c \<and> thread_step1 2 c c' \<and>
     open_file_table1 (shared c') 0 = open_file_table1 (shared c) 0"
proof -
  obtain c c' where c: "schedule [0] (start_threads demo1_callers demo1_written) = Some c"
    "(Rw (File_lock (int 0)), Exclusive) \<in> set (held_by c 0)" "move 2 c = Some c'" using demo1_first_steps by blast
  have run: "(threads_step1 3)\<^sup>*\<^sup>* (start_threads demo1_callers demo1_written) c" by (rule schedule_steps [OF c(1)]) simp
  have step: "thread_step1 2 c c'" by (rule move_step [OF c(3)])
  have "open_file_table1 (shared c') 0 = open_file_table1 (shared c) 0"
    using locked_data_stable [OF ready1_locks_ready [OF demo1_written(1)] _ run _ _ _ step, of 0 0 0 0 Open_files_mutex]
      demo1_calls c(2) by auto
  with c(1) step show ?thesis by blast
qed

section \<open>Two closes of one handle\<close>

lemma close_race:
  assumes "locks_ready s" and "f < MAX_OPEN_FILES" and "free_open_file_entries1 s f = TAKEN"
  shows "\<exists>c. schedule ([0, 0, 1, 1] @ replicate 5 0 @ replicate 5 1)
      (start_threads (\<lambda>_. Calls (Call_close1 (int f)) (\<lambda>_. Stop)) s) = Some c \<and>
    code_of c 0 = Return [(0, [])] \<and> code_of c 1 = Return [(0, [])] \<and>
    shared c = put_open1 f FREE (s\<lparr>open_files_count1 := open_files_count1 s - 2\<rparr>)"
proof -
  have t: "in_table (File_lock (int f))" "valid_file_handle (int f)"
    using assms(2) by (simp_all add: valid_file_handle_def)
  have l: "rwlocks s (File_lock (int f)) = RW_Free" "open_files_mutex1 s = Unlocked"
    using assms(1) t(1) by (auto simp: locks_ready_def)
  show ?thesis
    using t l assms(3)
    by (simp add: start_threads_def tfs_close_code_def remove_from_open_file_table_code_def result_only_def
        numeral_nat read_lock_rwlock_def unlock_rwlock_def on_rwlock_def lock_mutex_def unlock_mutex_def assign_def put_open1_def)
       (cases s, simp add: fun_upd_idem)
qed

text \<open>
  C40: Two threads that close the same open handle may both succeed, because \<open>remove_from_open_file_table\<close> tests the
  handle under a lock that both can hold: both get 0 and the number of open handles falls by 2, where one thread
  after the other gets 0 and -1. If it was the only open handle the number becomes -1, and a
  \<open>tfs_destroy_after_all_closed\<close> on which nothing else acts never returns.
\<close>
theorem double_close_counts_twice:
  assumes "locks_ready s" and "f < MAX_OPEN_FILES" and "free_open_file_entries1 s f = TAKEN"
  shows "\<exists>c. (threads_step1 2)\<^sup>*\<^sup>* (start_threads (\<lambda>_. Calls (Call_close1 (int f)) (\<lambda>_. Stop)) s) c \<and>
    (\<forall>t<2. code_of c t = Return [(0, [])]) \<and> free_open_file_entries1 (shared c) f = FREE \<and>
    open_files_count1 (shared c) = open_files_count1 s - 2 \<and>
    (open_files_count1 s = 1 \<longrightarrow> tfs_destroy_after_all_closed1 [] (shared c) = Ok None)"
proof -
  from close_race [OF assms] obtain c where c: "schedule ([0, 0, 1, 1] @ replicate 5 0 @ replicate 5 1)
      (start_threads (\<lambda>_. Calls (Call_close1 (int f)) (\<lambda>_. Stop)) s) = Some c"
    "code_of c 0 = Return [(0, [])]" "code_of c 1 = Return [(0, [])]"
    "shared c = put_open1 f FREE (s\<lparr>open_files_count1 := open_files_count1 s - 2\<rparr>)" by blast
  have "(threads_step1 2)\<^sup>*\<^sup>* (start_threads (\<lambda>_. Calls (Call_close1 (int f)) (\<lambda>_. Stop)) s) c"
    by (rule schedule_steps [OF c(1)]) auto
  moreover have "open_files_mutex1 s = Unlocked" using assms(1) by (simp add: locks_ready_def)
  then have "open_files_count1 s = 1 \<longrightarrow> tfs_destroy_after_all_closed1 [] (shared c) = Ok None"
    by (simp add: c(4) tfs_destroy_after_all_closed1_def lock_mutex_def wait_all_closed1.simps put_open1_def)
  ultimately show ?thesis using c by (intro exI [of _ c]) (simp add: put_open1_def less_2_cases_iff)
qed

theorem double_close_counts_twice_witness:
  "\<exists>c. (threads_step1 2)\<^sup>*\<^sup>* (start_threads (\<lambda>_. Calls (Call_close1 (int 0)) (\<lambda>_. Stop)) demo1_written) c \<and>
     open_files_count1 (shared c) = -1 \<and> tfs_destroy_after_all_closed1 [] (shared c) = Ok None"
proof -
  have "abs_open1 demo1_written f \<noteq> None \<longleftrightarrow> f < MAX_OPEN_FILES \<and> free_open_file_entries1 demo1_written f = TAKEN" for f
    by (simp add: abs_open1_def)
  moreover have "abs_open1 demo1_written f \<noteq> None \<longleftrightarrow> f = 0" for f by (simp add: demo1_view(2))
  ultimately have taken: "f < MAX_OPEN_FILES \<and> free_open_file_entries1 demo1_written f = TAKEN \<longleftrightarrow> f = 0" for f
    by blast
  then have "handle_count1 demo1_written = 1" by (simp add: handle_count1_def)
  moreover have "open_files_count1 demo1_written = int (handle_count1 demo1_written)"
    using demo1_written(1) by (simp add: ready1_def ok1_def wf1_def)
  moreover have "free_open_file_entries1 demo1_written 0 = TAKEN" using taken [of 0] by simp
  ultimately have "open_files_count1 demo1_written = 1" "free_open_file_entries1 demo1_written 0 = TAKEN" by simp_all
  with double_close_counts_twice [OF ready1_locks_ready [OF demo1_written(1)], of 0] show ?thesis
    by (auto simp: config)
qed

end
