(* ===== verification/Spec2Isabelle.thy ===== *)
theory Spec2Isabelle
  imports FS_Props FS_Types FS_Misuse FS_Threads Protocol_Edges System_Tests System_Shutdown System_Boot FS1_Overrun FS1_Concurrent
begin

text \<open>
  TecnicoFS is a small file system kept in memory, and a server that offers it to client processes over
  named pipes. This development models both deliveries of the project: the second one, \<open>parte-2\<close>, with
  its file system (\<open>fs/state.c\<close>, \<open>fs/operations.c\<close>), server (\<open>fs/tfs_server.c\<close>) and client library
  (\<open>client/tecnicofs_client_api.c\<close>), and the first one, \<open>parte-1\<close>, a library with a file system of larger
  files (\<open>fs/state.c\<close>, \<open>fs/operations.c\<close>).

  \<^bold>\<open>The program.\<close> The file system has one root directory in one block of 1024 bytes, 50 i-nodes,
  1024 blocks and 20 handles. In \<open>parte-2\<close> a file has at most one block and one mutex serialises all
  operations; in \<open>parte-1\<close> a file has ten direct blocks and an index block, and every i-node, block,
  handle and directory entry has a read-write lock. In \<open>parte-2\<close> a client writes a request (operation code,
  session number, arguments) into the server's pipe; the server's main thread copies it to the buffer of
  the session and wakes the session's worker thread, which calls the file system and writes the answer
  to the client's pipe.

  \<^bold>\<open>Theories.\<close>
  \<^item> \<open>Prelude\<close>: machine types, outcomes of a C computation (a value, or undefined behaviour, a
    deadlock, a call that waits, \<open>exit\<close>), little-endian integers. \<open>Memory\<close>: the flat byte memory, the
    interface \<open>codec\<close> of fixed-width fields, the C string routines. \<open>Slots\<close>: tables of FREE/TAKEN flags and
    their interface \<open>slot_table\<close>. \<open>Config\<close>: the constants. \<open>Sync\<close>: mutexes and the wrappers that exit.
  \<^item> \<open>FS_State\<close> and \<open>FS_Ops\<close>: \<open>state.c\<close> and \<open>operations.c\<close>, function by function and under the same
    names. The static arrays are functions from indices in the record \<open>fs_state\<close>; \<open>fs_data\<close> is one byte
    memory in which the directory entries are laid out with their 44 bytes; \<open>size_t\<close> values are 64-bit
    words and wrap around. The block map, the i-node table and the open file table are interpretations of
    \<open>slot_table\<close>.
  \<^item> \<open>FS_Dir\<close>: the array of directory entries, and the interface \<open>directory\<close> it implements.
    \<open>FS_Inv\<close>: the invariant \<open>wf\<close> (root directory, types, one-to-one ownership of the TAKEN blocks,
    one-to-one correspondence of live entries and files, handles on files, exact counter, free mutexes).
    \<open>FS_Preserve\<close>: the operations in closed form under the invariant, and its preservation.
  \<^item> \<open>FS_Spec\<close>: the abstract file system \<open>afs\<close> (names to files, files to bytes, handles to positions),
    the abstraction function \<open>abs_fs\<close> and one refinement lemma per operation. \<open>Refinement\<close>: the interface
    \<open>implements\<close> of a component that refines an abstract machine step by step. \<open>FS_Correct\<close>: the public
    operations under their locks. \<open>FS_Run\<close>: start-up, operations as data, and the interpretation of
    \<open>implements\<close>. \<open>FS_Demo\<close>: the concrete states of the witnesses.
  \<^item> \<open>FS_Props\<close>: the properties of the file system inside its contract; \<open>FS_Misuse\<close>: what it does
    outside it, and how it ends.
  \<^item> \<open>Sys_Calls\<close>: system calls answered by a list the environment provides, and character arrays with
    their bounds. \<open>Pipe_IO\<close>: \<open>read_buffer\<close> and \<open>write_buffer\<close>. \<open>Client\<close>: the client library. \<open>Server\<close>: the
    main thread, the workers and the case functions. \<open>Requests\<close>: the layout of the requests and how one
    travels through main thread and worker. \<open>Protocol\<close> and \<open>Protocol_Edges\<close>: the properties of the protocol.
  \<^item> \<open>FS_Types\<close>: the ranges of all results, in any state. \<open>FS_Threads\<close>: several threads on the file system,
    as a step relation in which a critical section is one step, destroying it and starting it anew included. \<open>Server_Threads\<close>: the main thread and the
    workers, as a step relation in which a step is a thread's turn from one wait to the next.
  \<^item> Clients and server together. \<open>Pipes\<close>: the operating system's named pipes and descriptors, from which
    system calls are answered, and how a computation is driven by its answers. \<open>System\<close>: any number of client
    processes and the server's threads as one step relation \<open>system_step\<close> (a step is a call, one system call
    of a client, a turn of the main thread or of a worker, or a return), and the atomic object that specifies it.
    \<open>System_Calls\<close>: in which system call each party waits after each answer. \<open>System_Inv\<close>: the invariant, which
    gives each call a phase (sending, queued in the server's pipe, held by its session, answered).
    \<open>System_Run\<close>: simulation of the atomic object, the measure of steps left, who can go on, and the reads at the end of
    a file (\<open>starved\<close>), which cannot.
    \<open>System_Mount\<close>: the handshake of \<open>tfs_mount\<close>. \<open>System_Props\<close>: the properties of the whole. \<open>System_Tests\<close>: the
    clients of the project's concurrent test, run by up to twenty clients at once. \<open>Pipe_Counts\<close>: who holds which
    pipe open, and the end of a process. \<open>System_Exit\<close>: the clients after the server's end. \<open>System_Shutdown\<close>: a
    shutdown from the client's call to its return. \<open>System_Boot\<close>: the start of the server's \<open>main\<close>, up to a system
    that serves the clients.
  \<^item> The first delivery, with names that carry the suffix 1 where both deliveries use them: \<open>Rwlock\<close>, the
    read-write locks; \<open>FS1_State\<close> and \<open>FS1_Ops\<close>, \<open>state.c\<close> and \<open>operations.c\<close> function by function;
    \<open>FS1_Quiet\<close>, closed forms when the locks are free; \<open>FS1_Inv\<close>, the invariant and the abstraction into
    the same \<open>afs\<close>; \<open>FS1_Blocks\<close>, the loops over blocks; \<open>FS1_Refine\<close>, \<open>FS1_Open\<close> and \<open>FS1_Copy\<close>, the
    public operations; \<open>FS1_Run\<close>, start-up and the second interpretation of \<open>implements\<close>; \<open>FS1_Props\<close>, the
    properties inside the contract; \<open>FS1_Misuse\<close> and \<open>FS1_Overrun\<close>, those outside it.
  \<^item> Threads inside the operations of the first delivery. \<open>Program\<close>: code as a tree of atomic steps (an access to
    shared memory or a lock operation each), and how it runs alone. \<open>FS1_Code\<close>: the operations once more, as such trees,
    under their names with the suffix \<open>_code\<close>; \<open>FS1_Alone\<close>: alone they are the functions of \<open>FS1_State\<close> and \<open>FS1_Ops\<close>.
    \<open>FS1_Order\<close>: the order of the locks, and which lock guards which data. \<open>FS1_Threads\<close>: any number of threads that call
    the library, as a step relation in which a step is one atomic step of one thread; every run ends; the state
    of each lock accounts for its holders. \<open>Monitor\<close>: the interface of data that are changed under one mutex;
    \<open>FS1_Names\<close>: its interpretation on the directory and \<open>open_file_lock\<close>. \<open>FS1_Concurrent\<close>: deadlock freedom, the relation
    of waiting threads, exclusion, and the race of two closes.

  \<^bold>\<open>The contracts.\<close> \<open>allowed\<close> (second delivery): proper names of at most 39 bytes, reads and writes through open handles,
  lengths that fit \<open>size_t\<close>, no truncation of a file on which an open handle has advanced. \<open>allowed1\<close> (first delivery):
  moreover files within their ten direct blocks, no empty write, a transfer of a multiple of a block only at a
  block boundary, closes of handles of the table, truncation only of sizes it handles. \<open>behaved\<close> (clients and server): the clients
  have mounted and make no further mount and no shutdown, the arguments fit the request and their C types, a read asks for at
  least one byte, and a call is \<open>allowed\<close> in the state in which it takes effect.

  \<^bold>\<open>What the lemmas show.\<close> Every sequence of operations inside the contract behaves as the
  abstract file system and never faults, in both deliveries, and in the second one in every interleaving of threads;
  inside both contracts and the first block of each file the two deliveries agree; the invariant survives every open, close and read
  whatever the arguments; a request reaches the file system unchanged in whatever pieces the pipe delivers it, and
  the answer returns unchanged. The server starts when its first client comes; clients that mount one after the other
  get connected, and whatever the
  interleaving of clients and server afterwards, the results are those of one abstract
  file system on which the calls take effect one at a time, and every call returns but a read at the end of its file,
  which never does. Outside the contract (handles that are not open, truncation of a file
  open elsewhere, long or malformed names, a refused read, an end of file on the pipe, the 64th client;
  in the first delivery two closes of one handle at once, the index block, whole blocks at odd positions, truncation of whole blocks, writes
  of length 0) the theorems state what the code does.

  \<^bold>\<open>Loops.\<close> The searches over tables are recursive functions with a measure, so they terminate. The
  transfers over pipes and the waits for other threads recurse on the list of the environment's answers
  or effects; where it is exhausted the call is \<open>Waiting\<close> or \<open>Blocked\<close>, and the theorems that a call returns say
  which answers suffice. A program of the first delivery's threads is a finite tree, because all
  its loops are bounded, so no run of threads is infinite. The copy of a file out of the first delivery has fuel, one unit for each round;
  \<open>size div 1024 + 1\<close> rounds are proved to be enough.

  \<^bold>\<open>Locks.\<close> A thread that asks for a mutex or read-write lock it can never get is at \<open>Deadlock\<close>. In the
  thread relations of the second delivery a step holds the locks it takes only while it runs; between the atomic
  steps of the first delivery's threads locks stay held, and \<open>Deadlock\<close> is the answer while another thread holds them.

  \<^bold>\<open>Pipes.\<close> \<open>Pipes\<close> follows \<open>fifo(7)\<close> and \<open>pipe(7)\<close>: bytes stay in order, a read waits while the pipe is empty and
  may still be written to, a write that fits goes in as one piece (requests have at most 2048 bytes, less than
  \<open>PIPE_BUF\<close>). The composed system begins with the server's loop, and \<open>System_Boot\<close> leads from the
  start of \<open>main\<close> there (the opens of server and client return together); its clients mount, call and shut down; unmounting, after which the server uses a dead pointer, is covered in \<open>Protocol_Edges\<close>.

  \<^bold>\<open>Not modelled.\<close> Interleavings inside a critical section of the second delivery, inside \<open>tfs_init\<close>, or inside a turn of a server
  thread. The turns of \<open>server_step\<close> and \<open>system_step\<close> are those that end holding \<open>shutting_down_lock\<close> again: a pass of the main loop
  that ends early by \<open>continue\<close>, and what its next pass then does, is covered in \<open>Protocol_Edges\<close>. In the first
  delivery's threads a copy of bytes between memory and caller and a loop that empties a block are one step each, and
  \<open>tfs_destroy\<close> and \<open>tfs_destroy_after_all_closed\<close> are modelled only for a thread that is alone; what unguarded
  accesses to fields wider than a byte may see is left to the memory model. The busy-wait \<open>insert_delay\<close>, messages to the terminal, signal
  set-up, thread creation, the test programs apart from the calls of \<open>System_Tests\<close>.
\<close>

end
